(* ===== verification/Go_Prelude.thy ===== *)
theory Go_Prelude
  imports Main "HOL-Library.Sublist" "HOL-Library.Char_ord" "HOL-Library.List_Lexorder" "HOL-Library.AList"
begin

text \<open>
  The part of the Go language and of its standard library that the modelled packages use,
  and the generic lemmas the component theories share.

  \<^item> Go strings are byte sequences; here they are \<^typ>\<open>string\<close>, one \<^typ>\<open>char\<close> per byte.
    Case mapping and white space follow the ASCII range; bytes from 128 on are kept as
    they are.
  \<^item> \<^typ>\<open>int\<close> is used for \<open>time.Time\<close> and \<open>time.Duration\<close>, in nanoseconds.  The zero
    \<open>time.Time\<close> is 0.
  \<^item> \<open>strings\<close>: \<open>HasPrefix\<close>, \<open>HasSuffix\<close>, \<open>Contains\<close>, \<open>Index\<close>, \<open>ToLower\<close>, \<open>TrimSpace\<close>, \<open>Split\<close> on
    one byte, \<open>Fields\<close>, \<open>Join\<close>; \<open>strconv\<close>: \<open>Atoi\<close>.
  \<^item> \<open>path/filepath\<close> on Unix: \<open>IsAbs\<close>, \<open>Clean\<close>, \<open>Abs\<close>.
  \<^item> A fallible function returns \<open>error + value\<close>, the error on the left.

  The locale \<open>transition_system\<close> carries the induction that every state machine of the
  development uses: an invariant that the initial states satisfy and every step preserves
  holds in every reachable state.
\<close>

section \<open>Types\<close>

type_synonym go_time = int
type_synonym go_duration = int

abbreviation second :: go_duration where "second \<equiv> 1000000000"
abbreviation minute :: go_duration where "minute \<equiv> 60000000000"

named_theorems go_simps \<open>definitions of the Go library functions, for evaluation\<close>

section \<open>Package strings\<close>

definition has_prefix :: "string \<Rightarrow> string \<Rightarrow> bool" where
  [go_simps]: "has_prefix s p = (take (length p) s = p)"

definition has_suffix :: "string \<Rightarrow> string \<Rightarrow> bool" where
  [go_simps]: "has_suffix s p = has_prefix (rev s) (rev p)"

fun contains :: "string \<Rightarrow> string \<Rightarrow> bool" where
  "contains [] sub = (sub = [])"
| "contains (x # s) sub = (has_prefix (x # s) sub \<or> contains s sub)"

definition contains_any :: "string \<Rightarrow> string list \<Rightarrow> bool" where
  [go_simps]: "contains_any s subs = list_ex (contains s) subs"

definition has_any_prefix :: "string \<Rightarrow> string list \<Rightarrow> bool" where
  [go_simps]: "has_any_prefix s ps = list_ex (has_prefix s) ps"

definition lower_char :: "char \<Rightarrow> char" where
  [go_simps]: "lower_char c =
     (let n = of_char c :: nat in if 65 \<le> n \<and> n \<le> 90 then char_of (n + 32) else c)"

definition to_lower :: "string \<Rightarrow> string" where
  [go_simps]: "to_lower s = map lower_char s"

definition is_space :: "char \<Rightarrow> bool" where
  [go_simps]: "is_space c =
     (let n = of_char c :: nat in n = 32 \<or> (9 \<le> n \<and> n \<le> 13))"

definition trim_space :: "string \<Rightarrow> string" where
  [go_simps]: "trim_space s = rev (dropWhile is_space (rev (dropWhile is_space s)))"

text \<open>\<open>strings.Split\<close> with a separator of one byte: never empty, one piece more than the
  separator occurs.\<close>

fun split_on :: "char \<Rightarrow> string \<Rightarrow> string list" where
  "split_on c [] = [[]]"
| "split_on c (x # s) =
     (if x = c then [] # split_on c s
      else (case split_on c s of [] \<Rightarrow> [[x]] | w # ws \<Rightarrow> (x # w) # ws))"

fun join_with :: "char \<Rightarrow> string list \<Rightarrow> string" where
  "join_with c [] = []"
| "join_with c [w] = w"
| "join_with c (w # v # ws) = w @ c # join_with c (v # ws)"

text \<open>\<open>strings.Fields\<close>: the maximal runs of non-space bytes.\<close>

fun fields_aux :: "string \<Rightarrow> string \<Rightarrow> string list" where
  "fields_aux cur [] = (if cur = [] then [] else [rev cur])"
| "fields_aux cur (x # s) =
     (if is_space x then (if cur = [] then fields_aux [] s else rev cur # fields_aux [] s)
      else fields_aux (x # cur) s)"

definition fields :: "string \<Rightarrow> string list" where
  [go_simps]: "fields s = fields_aux [] s"

lemma has_prefix_iff: "has_prefix s p \<longleftrightarrow> prefix p s"
  by (metis append_eq_conv_conj append_take_drop_id has_prefix_def prefix_def)

lemma has_prefix_append [simp]: "has_prefix (p @ s) p"
  by (simp add: has_prefix_def)

lemma has_prefix_refl [simp]: "has_prefix s s"
  by (simp add: has_prefix_def)

lemma contains_iff_sublist: "contains s sub \<longleftrightarrow> sublist sub s"
  by (induction s) (auto simp: has_prefix_iff sublist_Cons_right)

lemma contains_iff: "contains s sub \<longleftrightarrow> (\<exists>u v. s = u @ sub @ v)"
  by (auto simp: contains_iff_sublist sublist_def)

lemma has_prefix_contains: "has_prefix s p \<Longrightarrow> contains s p"
  by (auto simp: has_prefix_iff contains_iff_sublist)

text \<open>\<open>strings.Index\<close>, with \<open>None\<close> for -1.\<close>

fun str_index :: "string \<Rightarrow> string \<Rightarrow> nat option" where
  "str_index [] sub = (if sub = [] then Some 0 else None)"
| "str_index (x # s) sub = (if has_prefix (x # s) sub then Some 0 else map_option Suc (str_index s sub))"

lemma str_index_Some:
  "str_index s sub = Some i \<Longrightarrow> has_prefix (drop i s) sub \<and> i + length sub \<le> length s \<and>
     (\<forall>j < i. \<not> has_prefix (drop j s) sub)"
proof (induction s arbitrary: i)
  case (Cons x s)
  show ?case
  proof (cases "has_prefix (x # s) sub")
    case True
    then show ?thesis using Cons.prems by (auto simp: has_prefix_iff dest: prefix_length_le)
  next
    case False
    then obtain j where j: "str_index s sub = Some j" "i = Suc j" using Cons.prems by auto
    have "\<not> has_prefix (drop k (x # s)) sub" if "k < i" for k
      using Cons.IH[OF j(1)] j(2) False that by (cases k) auto
    then show ?thesis using Cons.IH[OF j(1)] j(2) by auto
  qed
qed (simp split: if_splits)

lemma str_index_skip:
  "\<forall>j < k. \<not> has_prefix (drop j s) sub \<Longrightarrow> k \<le> length s \<Longrightarrow>
   str_index s sub = map_option ((+) k) (str_index (drop k s) sub)"
proof (induction k arbitrary: s)
  case (Suc k)
  then obtain x t where s: "s = x # t" by (cases s) auto
  have "\<not> has_prefix (x # t) sub" using Suc.prems(1) s by (metis drop0 zero_less_Suc)
  moreover have "\<forall>j < k. \<not> has_prefix (drop j t) sub" using Suc.prems(1) s by (metis Suc_less_eq drop_Suc_Cons)
  ultimately show ?case using Suc.IH[of t] Suc.prems(2) s by (cases "str_index (drop k t) sub") auto
next
  case 0
  show ?case by (cases "str_index s sub") auto
qed

lemma str_index_here: "has_prefix s sub \<Longrightarrow> str_index s sub = Some 0"
  by (cases s) (auto simp: has_prefix_def)

lemma str_index_None: "str_index s sub = None \<longleftrightarrow> \<not> contains s sub"
  by (induction s) auto

lemma contains_trans: "contains s t \<Longrightarrow> contains t u \<Longrightarrow> contains s u"
  by (metis contains_iff_sublist sublist_order.order_trans)

lemma contains_set: "contains s sub \<Longrightarrow> set sub \<subseteq> set s"
  by (auto simp: contains_iff)

lemma contains_fresh: "c \<in> set sub \<Longrightarrow> c \<notin> set s \<Longrightarrow> \<not> contains s sub"
  using contains_set by fastforce

lemma to_lower_append [simp]: "to_lower (s @ t) = to_lower s @ to_lower t"
  by (simp add: to_lower_def)

lemma split_on_nonempty [simp]: "split_on c s \<noteq> []"
  by (induction s) (auto split: list.split)

lemma split_on_pieces: "w \<in> set (split_on c s) \<Longrightarrow> c \<notin> set w"
  by (induction s arbitrary: w) (auto split: list.splits if_splits)

lemma split_on_no_sep: "c \<notin> set w \<Longrightarrow> split_on c w = [w]"
  by (induction w) auto

lemma split_on_append: "c \<notin> set w \<Longrightarrow> split_on c (w @ c # s) = w # split_on c s"
  by (induction w) auto

lemma split_on_join_with:
  "ws \<noteq> [] \<Longrightarrow> \<forall>w \<in> set ws. c \<notin> set w \<Longrightarrow> split_on c (join_with c ws) = ws"
  by (induction c ws rule: join_with.induct) (auto simp: split_on_append split_on_no_sep)

lemma join_with_split_on [simp]: "join_with c (split_on c s) = s"
proof (induction s)
  case (Cons x s)
  then show ?case
    by (cases "split_on c s"; cases "tl (split_on c s)") auto
qed simp

lemma dropWhile_idem [simp]: "dropWhile P (dropWhile P xs) = dropWhile P xs"
  by (induction xs) auto

lemma rev_dropWhile_hd:
  assumes id: "dropWhile P xs = xs"
  shows "dropWhile P (rev (dropWhile P (rev xs))) = rev (dropWhile P (rev xs))"
proof (cases "rev (dropWhile P (rev xs))")
  case (Cons y ys)
  obtain zs where "xs = rev (dropWhile P (rev xs)) @ zs"
    by (metis rev_append rev_rev_ident takeWhile_dropWhile_id)
  with Cons id have "\<not> P y"
    by (metis append_Cons dropWhile_eq_self_iff hd_Cons_tl list.distinct(1) list.sel(1))
  with Cons show ?thesis by simp
next
  case Nil
  then show ?thesis by (simp only: Nil dropWhile.simps)
qed

lemma trim_space_idem [simp]: "trim_space (trim_space s) = trim_space s"
  by (simp add: trim_space_def rev_dropWhile_hd)

section \<open>Package strconv\<close>

definition is_digit :: "char \<Rightarrow> bool" where
  [go_simps]: "is_digit c = (let n = of_char c :: nat in 48 \<le> n \<and> n \<le> 57)"

definition digit_val :: "char \<Rightarrow> int" where
  [go_simps]: "digit_val c = int (of_char c) - 48"

definition digits_val :: "string \<Rightarrow> int" where
  [go_simps]: "digits_val s = foldl (\<lambda>n c. 10 * n + digit_val c) 0 s"

text \<open>\<open>strconv.Atoi\<close>: an optional sign and at least one digit; \<open>None\<close> stands for
  \<open>ErrSyntax\<close> and for \<open>ErrRange\<close> (the value does not fit 64 bits).\<close>

definition atoi :: "string \<Rightarrow> int option" where
  [go_simps]: "atoi s =
     (let (neg, ds) = (case s of
            [] \<Rightarrow> (False, [])
          | c # cs \<Rightarrow> if c = CHR ''-'' then (True, cs)
                      else if c = CHR ''+'' then (False, cs) else (False, s));
          v = (if neg then - digits_val ds else digits_val ds)
      in if ds = [] \<or> \<not> list_all is_digit ds \<or> v < - (2 ^ 63) \<or> 2 ^ 63 \<le> v
         then None else Some v)"

section \<open>Package path/filepath (Unix)\<close>

abbreviation sep :: char where "sep \<equiv> CHR ''/''"

definition is_abs :: "string \<Rightarrow> bool" where
  [go_simps]: "is_abs p = has_prefix p ''/''"

text \<open>
  \<open>filepath.Clean\<close>: the pieces between separators are pushed on a stack (innermost first);
  an empty piece and \<open>.\<close> are dropped, \<open>..\<close> pops a piece that is not itself \<open>..\<close>, is
  dropped at the root and kept at the front of a relative path.
\<close>

fun clean_step :: "bool \<Rightarrow> string list \<Rightarrow> string \<Rightarrow> string list" where
  "clean_step rooted st c =
     (if c = [] \<or> c = ''.'' then st
      else if c = ''..'' then
        (case st of
           t # ts \<Rightarrow> if t \<noteq> ''..'' then ts else if rooted then st else c # st
         | [] \<Rightarrow> if rooted then [] else [c])
      else c # st)"

definition clean_pieces :: "bool \<Rightarrow> string \<Rightarrow> string list" where
  [go_simps]: "clean_pieces rooted p = rev (foldl (clean_step rooted) [] (split_on sep p))"

definition clean :: "string \<Rightarrow> string" where
  [go_simps]: "clean p =
     (if p = [] then ''.''
      else let rooted = is_abs p; ws = clean_pieces rooted p
           in if rooted then sep # join_with sep ws
              else if ws = [] then ''.'' else join_with sep ws)"

text \<open>\<open>filepath.Abs\<close>: the working directory is a parameter; \<open>None\<close> is the error of
  \<open>os.Getwd\<close>.\<close>

definition abs_path :: "string option \<Rightarrow> string \<Rightarrow> string option" where
  [go_simps]: "abs_path cwd p =
     (if is_abs p then Some (clean p)
      else case cwd of None \<Rightarrow> None | Some d \<Rightarrow> Some (clean (d @ sep # p)))"

text \<open>A piece of a cleaned absolute path: not empty, not a dot piece, no separator.\<close>

definition plain_piece :: "string \<Rightarrow> bool" where
  "plain_piece w \<longleftrightarrow> w \<noteq> [] \<and> w \<noteq> ''.'' \<and> w \<noteq> ''..'' \<and> sep \<notin> set w"

lemma clean_step_plain:
  "\<forall>w \<in> set st. plain_piece w \<Longrightarrow> sep \<notin> set c \<Longrightarrow> \<forall>w \<in> set (clean_step True st c). plain_piece w"
  by (cases st) (auto simp: plain_piece_def)

lemma foldl_clean_step_plain:
  "\<forall>w \<in> set st. plain_piece w \<Longrightarrow> \<forall>c \<in> set cs. sep \<notin> set c \<Longrightarrow>
   \<forall>w \<in> set (foldl (clean_step True) st cs). plain_piece w"
proof (induction cs arbitrary: st)
  case (Cons c cs)
  then have "\<forall>w \<in> set (clean_step True st c). plain_piece w"
    by (intro clean_step_plain) auto
  with Cons show ?case by (simp del: clean_step.simps)
qed simp

lemma clean_pieces_plain: "\<forall>w \<in> set (clean_pieces True p). plain_piece w"
  unfolding clean_pieces_def set_rev
  by (rule foldl_clean_step_plain) (auto dest: split_on_pieces)

lemma foldl_clean_step_id:
  "\<forall>w \<in> set cs. plain_piece w \<Longrightarrow> foldl (clean_step rooted) st cs = rev cs @ st"
  by (induction cs arbitrary: st) (auto simp: plain_piece_def)

lemma clean_pieces_root: "clean_pieces True (sep # p) = clean_pieces True p"
  by (simp add: clean_pieces_def)

lemma clean_pieces_join:
  assumes "\<forall>w \<in> set ws. plain_piece w"
  shows "clean_pieces True (join_with sep ws) = ws"
proof (cases "ws = []")
  case True
  then show ?thesis by (simp add: clean_pieces_def)
next
  case False
  with assms have "split_on sep (join_with sep ws) = ws"
    by (intro split_on_join_with) (auto simp: plain_piece_def)
  with assms show ?thesis
    by (simp add: clean_pieces_def foldl_clean_step_id)
qed

lemma is_abs_Cons: "is_abs p \<longleftrightarrow> (\<exists>q. p = sep # q)"
  by (cases p) (auto simp: is_abs_def has_prefix_def)

lemma clean_abs:
  assumes "is_abs p"
  shows "clean p = sep # join_with sep (clean_pieces True p)"
  using assms by (auto simp: clean_def is_abs_Cons)

lemma clean_idem_abs: "is_abs p \<Longrightarrow> clean (clean p) = clean p"
  by (simp add: clean_abs is_abs_Cons clean_pieces_root clean_pieces_join clean_pieces_plain)

text \<open>The stack for a relative path: plain pieces above a run of \<open>..\<close> pieces.\<close>

definition rel_stack :: "string list \<Rightarrow> bool" where
  "rel_stack st \<longleftrightarrow> (\<exists>us k. st = us @ replicate k ''..'' \<and> (\<forall>w \<in> set us. plain_piece w))"

lemma rel_stack_cases:
  assumes "rel_stack st"
  obtains k where "st = replicate k ''..''"
  | u us where "st = u # us" "plain_piece u" "rel_stack us"
proof -
  obtain us k where "st = us @ replicate k ''..''" "\<forall>w \<in> set us. plain_piece w"
    using assms rel_stack_def by auto
  then show thesis using that by (cases us) (auto simp: rel_stack_def)
qed

lemma rel_stack_replicate [simp]: "rel_stack (replicate k ''..'')"
  unfolding rel_stack_def by (rule exI [of _ "[]"]) auto

lemma rel_stack_push: "rel_stack st \<Longrightarrow> plain_piece c \<Longrightarrow> rel_stack (c # st)"
  unfolding rel_stack_def by (metis append_Cons set_ConsD)

lemma clean_step_rel_stack:
  assumes "rel_stack st" "sep \<notin> set c"
  shows "rel_stack (clean_step False st c)"
proof (cases "c = ''..''")
  case True
  from assms(1) show ?thesis
  proof (cases rule: rel_stack_cases)
    case (1 k)
    have "clean_step False st c = replicate (Suc k) ''..''"
      using True 1 by (cases k) simp_all
    then show ?thesis using rel_stack_replicate by metis
  next
    case (2 u us)
    with True show ?thesis by (simp add: plain_piece_def)
  qed
next
  case False
  with assms show ?thesis by (auto simp: plain_piece_def intro: rel_stack_push)
qed

lemma foldl_clean_step_rel_stack:
  "rel_stack st \<Longrightarrow> \<forall>c \<in> set cs. sep \<notin> set c \<Longrightarrow> rel_stack (foldl (clean_step False) st cs)"
  by (induction cs arbitrary: st) (simp_all add: clean_step_rel_stack del: clean_step.simps)

lemma foldl_clean_step_dots:
  "foldl (clean_step False) (replicate j ''..'') (replicate k ''..'') = replicate (k + j) ''..''"
proof (induction k arbitrary: j)
  case (Suc k)
  have "clean_step False (replicate j ''..'') ''..'' = replicate (Suc j) ''..''"
    by (cases j) simp_all
  then show ?case using Suc [of "Suc j"] by simp
qed simp

lemma foldl_clean_step_rev: "rel_stack st \<Longrightarrow> foldl (clean_step False) [] (rev st) = st"
  using foldl_clean_step_dots [of 0]
  by (auto simp: rel_stack_def foldl_clean_step_id)

lemma rel_stack_pieces: "rel_stack st \<Longrightarrow> w \<in> set st \<Longrightarrow> w \<noteq> [] \<and> sep \<notin> set w"
proof -
  assume "rel_stack st" "w \<in> set st"
  then obtain us k where "w \<in> set us \<or> w \<in> set (replicate k ''..'')" "\<forall>u \<in> set us. plain_piece u"
    unfolding rel_stack_def by (metis Un_iff set_append)
  then have "plain_piece w \<or> w = ''..''" by auto
  then show ?thesis by (elim disjE) (simp_all add: plain_piece_def)
qed

lemma join_with_Nil_iff: "\<forall>w \<in> set ws. w \<noteq> [] \<Longrightarrow> join_with c ws = [] \<longleftrightarrow> ws = []"
  by (induction c ws rule: join_with.induct) auto

lemma is_abs_join:
  assumes "\<forall>w \<in> set ws. w \<noteq> [] \<and> sep \<notin> set w"
  shows "\<not> is_abs (join_with sep ws)"
proof (cases ws)
  case (Cons w vs)
  with assms obtain x u where "w = x # u" "x \<noteq> sep" by (cases w) auto
  with Cons show ?thesis by (cases vs) (simp_all add: is_abs_Cons)
qed (simp add: is_abs_Cons)

lemma clean_idem: "clean (clean p) = clean p"
proof (cases "is_abs p \<or> p = []")
  case True
  have dot: "clean ''.'' = ''.''" by code_simp
  from True show ?thesis
  proof
    assume "p = []"
    then have "clean p = ''.''" by (simp add: clean_def)
    with dot show ?thesis by simp
  qed (rule clean_idem_abs)
next
  case False
  define ws where "ws = clean_pieces False p"
  have st: "rel_stack (rev ws)"
    unfolding ws_def clean_pieces_def rev_rev_ident
    by (rule foldl_clean_step_rel_stack)
      (auto dest: split_on_pieces simp: rel_stack_def)
  then have ws: "\<forall>w \<in> set ws. w \<noteq> [] \<and> sep \<notin> set w"
    using rel_stack_pieces by fastforce
  have cp: "clean p = (if ws = [] then ''.'' else join_with sep ws)"
    using False by (simp add: clean_def ws_def)
  show ?thesis
  proof (cases "ws = []")
    case True
    moreover have "clean ''.'' = ''.''" by code_simp
    ultimately show ?thesis by (simp add: cp)
  next
    case False
    then have "clean_pieces False (join_with sep ws) = ws"
      using ws foldl_clean_step_rev [OF st] by (simp add: clean_pieces_def split_on_join_with)
    then have "clean (join_with sep ws) = join_with sep ws"
      using False ws is_abs_join [OF ws] by (simp add: clean_def join_with_Nil_iff)
    with False show ?thesis by (simp add: cp)
  qed
qed

lemma clean_step_set: "set (clean_step r st c) \<subseteq> insert c (set st)"
  by (cases st) auto

lemma foldl_clean_step_set: "set (foldl (clean_step r) st cs) \<subseteq> set st \<union> set cs"
proof (induction cs arbitrary: st)
  case (Cons c cs)
  show ?case using Cons [of "clean_step r st c"] clean_step_set [of r st c]
    by (auto simp del: clean_step.simps)
qed simp

lemma split_on_set: "w \<in> set (split_on c s) \<Longrightarrow> set w \<subseteq> set s"
  by (induction s arbitrary: w) (fastforce split: list.splits if_splits)+

lemma join_with_set: "set (join_with c ws) \<subseteq> insert c (\<Union> (set ` set ws))"
  by (induction c ws rule: join_with.induct) auto

lemma clean_set: "set (clean p) \<subseteq> set p \<union> {sep, CHR ''.''}"
proof -
  have pieces: "set (join_with sep (clean_pieces r p)) \<subseteq> insert sep (set p)" for r
  proof -
    have "set (clean_pieces r p) \<subseteq> set (split_on sep p)"
      using foldl_clean_step_set [of r "[]" "split_on sep p"] by (simp add: clean_pieces_def)
    then have "\<Union> (set ` set (clean_pieces r p)) \<subseteq> set p"
      using split_on_set [of _ sep p] by blast
    then show ?thesis using join_with_set [of sep "clean_pieces r p"] by blast
  qed
  show ?thesis
    using pieces [of True] pieces [of False] by (auto simp: clean_def Let_def)
qed

lemma trim_space_id: "\<forall>c \<in> set s. \<not> is_space c \<Longrightarrow> trim_space s = s"
  by (simp add: trim_space_def dropWhile_eq_self_iff) (metis dropWhile_eq_self_iff hd_in_set rev_rev_ident set_rev)

text \<open>Cleaned absolute paths are equal when their pieces are.\<close>

lemma join_with_inj:
  assumes "\<forall>w \<in> set us. plain_piece w" "\<forall>w \<in> set ws. plain_piece w"
    and "join_with sep us = join_with sep ws"
  shows "us = ws"
  using assms by (metis clean_pieces_join)

lemma split_on_join_append:
  "ws \<noteq> [] \<Longrightarrow> \<forall>w \<in> set ws. c \<notin> set w \<Longrightarrow>
   split_on c (join_with c ws @ c # s) = ws @ split_on c s"
  by (induction c ws rule: join_with.induct) (auto simp: split_on_append)

lemma join_with_append:
  "us \<noteq> [] \<Longrightarrow> ws \<noteq> [] \<Longrightarrow> join_with c (us @ ws) = join_with c us @ c # join_with c ws"
proof (induction c us rule: join_with.induct)
  case (2 c w)
  then show ?case by (cases ws) auto
qed auto

text \<open>The string test for a directory prefix, on cleaned paths, is the prefix order on pieces.\<close>

lemma has_prefix_join:
  assumes "\<forall>w \<in> set ps. plain_piece w" "\<forall>w \<in> set rs. plain_piece w" "rs \<noteq> []"
  shows "has_prefix (join_with sep ps) (join_with sep rs @ [sep]) \<longleftrightarrow> strict_prefix rs ps"
proof
  assume "has_prefix (join_with sep ps) (join_with sep rs @ [sep])"
  then obtain t where t: "join_with sep ps = join_with sep rs @ sep # t"
    by (auto simp: has_prefix_iff prefix_def)
  then have "ps \<noteq> []" by auto
  then have "ps = split_on sep (join_with sep ps)"
    using assms(1) by (simp add: split_on_join_with plain_piece_def)
  also have "\<dots> = rs @ split_on sep t"
    using assms by (simp add: t split_on_join_append plain_piece_def)
  finally show "strict_prefix rs ps"
    by (auto simp: strict_prefix_def prefix_def)
next
  assume "strict_prefix rs ps"
  then obtain us where "ps = rs @ us" "us \<noteq> []"
    by (auto simp: strict_prefix_def prefix_def)
  then show "has_prefix (join_with sep ps) (join_with sep rs @ [sep])"
    using assms(3) by (simp add: join_with_append has_prefix_iff)
qed

text \<open>The pieces of the absolute form of a path; \<open>os.Getwd\<close> returns an absolute path.\<close>

definition abs_pieces :: "string option \<Rightarrow> string \<Rightarrow> string list option" where
  [go_simps]: "abs_pieces cwd p =
     (if is_abs p then Some (clean_pieces True p)
      else map_option (\<lambda>d. clean_pieces True (d @ sep # p)) cwd)"

definition cwd_ok :: "string option \<Rightarrow> bool" where
  [go_simps]: "cwd_ok cwd = (case cwd of None \<Rightarrow> True | Some d \<Rightarrow> is_abs d)"

lemma abs_pieces_plain: "abs_pieces cwd p = Some ws \<Longrightarrow> \<forall>w \<in> set ws. plain_piece w"
  by (auto simp: abs_pieces_def clean_pieces_plain split: if_splits)

lemma abs_path_pieces:
  "cwd_ok cwd \<Longrightarrow>
   abs_path cwd p = map_option (\<lambda>ws. sep # join_with sep ws) (abs_pieces cwd p)"
  by (auto simp: abs_path_def abs_pieces_def cwd_ok_def clean_abs is_abs_Cons split: option.splits)

section \<open>Orders\<close>

lemma set_AList_update: "set (AList.update k v xs) \<subseteq> insert (k, v) (set xs)"
  by (induction xs) auto

lemma map_filter_set: "set (List.map_filter f xs) = {y. \<exists>x \<in> set xs. f x = Some y}"
  by (force simp: map_filter_def)

lemma map_filter_length: "length (List.map_filter f xs) \<le> length xs"
  by (induction xs) (auto simp: map_filter_simps split: option.splits)

lemma map_filter_cong: "(\<And>x. x \<in> set xs \<Longrightarrow> f x = g x) \<Longrightarrow> List.map_filter f xs = List.map_filter g xs"
  by (induction xs) (auto split: option.splits)

section \<open>Transition systems\<close>

locale transition_system =
  fixes init :: "'s \<Rightarrow> bool"
    and step :: "'s \<Rightarrow> 's \<Rightarrow> bool"
    and inv :: "'s \<Rightarrow> bool"
  assumes init_inv: "init s \<Longrightarrow> inv s"
    and step_inv: "inv s \<Longrightarrow> step s t \<Longrightarrow> inv t"
begin

lemma steps_inv: "step\<^sup>*\<^sup>* s t \<Longrightarrow> inv s \<Longrightarrow> inv t"
  by (induction rule: rtranclp_induct) (auto intro: step_inv)

lemma reachable_inv: "init s \<Longrightarrow> step\<^sup>*\<^sup>* s t \<Longrightarrow> inv t"
  using init_inv steps_inv by blast

end

end
