(* ===== verification/Approval.thy ===== *)
theory Approval
  imports Go_Prelude
begin

text \<open>
  Package \<open>approval\<close> (src/pkg/approval/modes.go): the tiered permission check for agent
  operations.  \<open>Check\<close> decides a request from the mode, the operation and the workspace
  context; the path tests go through \<open>filepath.Abs\<close>, whose working directory is the
  parameter \<open>cwd\<close> of the model.  A Go \<open>Mode\<close>, \<open>Operation\<close> or \<open>Decision\<close> is an integer, so
  each enumeration has a constructor for the values outside its constants, which reach the
  default branches of the code.

  Shown here: what each mode lets through, that the denied list overrides every mode, that
  the string test for a directory agrees with the prefix order on path pieces (hence that
  no \<open>..\<close> leads out of the workspace), the order of the modes, and the classification of
  shell commands.
\<close>

section \<open>Data\<close>

datatype Mode = ModeAsk | ModeSafe | ModeAuto | ModeYolo | ModeOther int

datatype Operation = OpRead | OpWrite | OpDelete | OpShellRead | OpShellWrite | OpShellNetwork
  | OpNetwork | OpGitRead | OpGitWrite | OpOther int

datatype Decision = DecisionAllow | DecisionDeny | DecisionPrompt | DecisionOther int

fun Mode_String :: "Mode \<Rightarrow> string" where
  "Mode_String ModeAsk = ''ask''"
| "Mode_String ModeSafe = ''safe''"
| "Mode_String ModeAuto = ''auto''"
| "Mode_String ModeYolo = ''yolo''"
| "Mode_String (ModeOther _) = ''unknown''"

text \<open>The error carries the text that was not recognised.\<close>

datatype ParseModeError = UnknownApprovalMode string

definition ParseMode :: "string \<Rightarrow> ParseModeError + Mode" where
  "ParseMode s =
     (let t = to_lower (trim_space s)
      in if t \<in> {''ask'', ''explicit'', ''manual''} then Inr ModeAsk
         else if t \<in> {''safe'', ''readonly'', ''read-only''} then Inr ModeSafe
         else if t \<in> {''auto'', ''automatic'', ''workspace''} then Inr ModeAuto
         else if t \<in> {''yolo'', ''full'', ''dangerous''} then Inr ModeYolo
         else Inl (UnknownApprovalMode s))"

text \<open>\<open>Operation.String\<close> indexes a slice of nine names: a value from 9 on gives
  \<open>unknown\<close>, a negative one panics (\<open>None\<close>).\<close>

fun Operation_String :: "Operation \<Rightarrow> string option" where
  "Operation_String OpRead = Some ''read''"
| "Operation_String OpWrite = Some ''write''"
| "Operation_String OpDelete = Some ''delete''"
| "Operation_String OpShellRead = Some ''shell:read''"
| "Operation_String OpShellWrite = Some ''shell:write''"
| "Operation_String OpShellNetwork = Some ''shell:network''"
| "Operation_String OpNetwork = Some ''network''"
| "Operation_String OpGitRead = Some ''git:read''"
| "Operation_String OpGitWrite = Some ''git:write''"
| "Operation_String (OpOther n) = (if n < 0 then None else Some ''unknown'')"

fun Decision_String :: "Decision \<Rightarrow> string" where
  "Decision_String DecisionAllow = ''allow''"
| "Decision_String DecisionDeny = ''deny''"
| "Decision_String DecisionPrompt = ''prompt''"
| "Decision_String (DecisionOther _) = ''unknown''"

record Request =
  req_Operation :: Operation
  req_Path :: string
  req_Command :: string
  req_Tool :: string
  req_Description :: string
  req_Args :: "string list"

record Context =
  ctx_WorkspacePath :: string
  ctx_TrustedPaths :: "string list"
  ctx_DeniedPaths :: "string list"
  ctx_AllowNetwork :: bool

record Result =
  res_Decision :: Decision
  res_Reason :: string
  res_Request :: Request

abbreviation result :: "Decision \<Rightarrow> string \<Rightarrow> Request \<Rightarrow> Result" where
  "result d why req \<equiv> \<lparr>res_Decision = d, res_Reason = why, res_Request = req\<rparr>"

text \<open>Requests and contexts with the fields the check reads, for the concrete cases.\<close>

abbreviation file_request :: "Operation \<Rightarrow> string \<Rightarrow> Request" where
  "file_request op path \<equiv> \<lparr>req_Operation = op, req_Path = path, req_Command = [], req_Tool = [],
     req_Description = [], req_Args = []\<rparr>"

abbreviation shell_request :: "Operation \<Rightarrow> string \<Rightarrow> Request" where
  "shell_request op cmd \<equiv> \<lparr>req_Operation = op, req_Path = [], req_Command = cmd, req_Tool = [],
     req_Description = [], req_Args = []\<rparr>"

abbreviation workspace :: "string \<Rightarrow> string list \<Rightarrow> Context" where
  "workspace ws denied \<equiv> \<lparr>ctx_WorkspacePath = ws, ctx_TrustedPaths = [], ctx_DeniedPaths = denied,
     ctx_AllowNetwork = False\<rparr>"

section \<open>Path tests\<close>

text \<open>The test each loop body makes: \<open>absPath == rootAbs || HasPrefix(absPath, rootAbs+"/")\<close>,
  skipped when \<open>Abs\<close> of the root fails.\<close>

definition under_root :: "string option \<Rightarrow> string \<Rightarrow> string \<Rightarrow> bool" where
  "under_root cwd absPath root =
     (case abs_path cwd root of
        None \<Rightarrow> False
      | Some rootAbs \<Rightarrow> absPath = rootAbs \<or> has_prefix absPath (rootAbs @ ''/''))"

definition isPathInWorkspace :: "string option \<Rightarrow> string \<Rightarrow> Context \<Rightarrow> bool" where
  "isPathInWorkspace cwd path ctx =
     (if path = [] then False
      else case abs_path cwd path of
        None \<Rightarrow> False
      | Some absPath \<Rightarrow>
          if ctx_WorkspacePath ctx \<noteq> [] \<and> under_root cwd absPath (ctx_WorkspacePath ctx)
          then True
          else list_ex (under_root cwd absPath) (ctx_TrustedPaths ctx))"

definition isPathDenied :: "string option \<Rightarrow> string \<Rightarrow> Context \<Rightarrow> bool" where
  "isPathDenied cwd path ctx =
     (if path = [] \<or> ctx_DeniedPaths ctx = [] then False
      else case abs_path cwd path of
        None \<Rightarrow> False
      | Some absPath \<Rightarrow> list_ex (under_root cwd absPath) (ctx_DeniedPaths ctx))"

section \<open>Command tests\<close>

definition chain_separators :: "string list" where
  "chain_separators = ['';'', ''&&'', ''||'', ''|'', ''`'', ''$('', [CHR 0x0A]]"

definition readOnlyPrefixes :: "string list" where
  "readOnlyPrefixes =
     [''ls'', ''cat'', ''head'', ''tail'', ''grep'', ''rg'', ''find'', ''fd'',
      ''wc'', ''diff'', ''file'', ''stat'', ''which'', ''type'',
      ''pwd'', ''whoami'', ''date'', ''env'', ''printenv'',
      ''git status'', ''git log'', ''git diff'', ''git show'', ''git branch'',
      ''go version'', ''go list'', ''go env'',
      ''node --version'', ''npm list'', ''npm view'',
      ''python --version'', ''pip list'', ''pip show'']"

definition isReadOnlyCommand :: "string \<Rightarrow> bool" where
  "isReadOnlyCommand cmd =
     (let cmdLower = to_lower (trim_space cmd)
      in if contains cmdLower ''>'' \<or> contains cmdLower ''>>'' then False
         else if contains_any cmdLower chain_separators then False
         else if has_any_prefix cmdLower readOnlyPrefixes then True
         else if has_prefix cmdLower ''echo'' then True
         else False)"

definition localCommands :: "string list" where
  "localCommands =
     [''go build'', ''go test'', ''go run'', ''go fmt'', ''go vet'',
      ''npm install'', ''npm run'', ''npm test'',
      ''yarn'', ''pnpm'',
      ''make'', ''cargo build'', ''cargo test'',
      ''pytest'', ''python -m pytest'',
      ''bundle install'', ''rake'']"

definition commandTargetsWorkspace :: "string \<Rightarrow> Context \<Rightarrow> bool" where
  "commandTargetsWorkspace cmd ctx =
     (if ctx_WorkspacePath ctx = [] then False
      else if contains cmd (ctx_WorkspacePath ctx) then True
      else has_any_prefix (to_lower (trim_space cmd)) localCommands)"

definition remoteCommands :: "string list" where
  "remoteCommands = [''push'', ''fetch'', ''pull'', ''clone'', ''remote'']"

definition isLocalGitCommand :: "string \<Rightarrow> bool" where
  "isLocalGitCommand cmd =
     (\<not> list_ex (\<lambda>remote. contains (to_lower cmd) (''git '' @ remote)) remoteCommands)"

definition isForcePush :: "string \<Rightarrow> bool" where
  "isForcePush cmd =
     (let cmdLower = to_lower cmd
      in contains cmdLower ''push'' \<and> (contains cmdLower ''-f'' \<or> contains cmdLower ''--force''))"

definition NetworkCommands :: "string list" where
  "NetworkCommands =
     [''curl'', ''wget'', ''http'', ''ssh'', ''scp'', ''rsync'',
      ''git clone'', ''git fetch'', ''git pull'', ''git push'',
      ''npm publish'', ''npm install'',
      ''pip install'',
      ''docker pull'', ''docker push'']"

definition ClassifyCommand :: "string \<Rightarrow> Operation" where
  "ClassifyCommand cmd =
     (if contains_any (to_lower (trim_space cmd)) NetworkCommands then OpShellNetwork
      else if isReadOnlyCommand cmd then OpShellRead
      else OpShellWrite)"

section \<open>The permission check\<close>

fun checkFileWrite :: "string option \<Rightarrow> Mode \<Rightarrow> Request \<Rightarrow> Context \<Rightarrow> Result" where
  "checkFileWrite cwd ModeAsk req ctx =
     result DecisionPrompt ''ask mode requires approval for writes'' req"
| "checkFileWrite cwd mode req ctx =
     (if mode = ModeSafe \<or> mode = ModeAuto then
        if isPathInWorkspace cwd (req_Path req) ctx
        then result DecisionAllow ''path is within workspace'' req
        else result DecisionPrompt ''path is outside workspace'' req
      else result DecisionPrompt ''unknown mode'' req)"

fun checkShellRead :: "Mode \<Rightarrow> Request \<Rightarrow> Context \<Rightarrow> Result" where
  "checkShellRead ModeAsk req ctx =
     result DecisionPrompt ''ask mode requires approval for shell'' req"
| "checkShellRead ModeSafe req ctx =
     (if isReadOnlyCommand (req_Command req)
      then result DecisionAllow ''read-only shell command in safe mode'' req
      else result DecisionPrompt ''command may have side effects'' req)"
| "checkShellRead ModeAuto req ctx =
     result DecisionAllow ''shell read allowed in auto mode'' req"
| "checkShellRead mode req ctx = result DecisionPrompt ''unknown mode'' req"

fun checkShellWrite :: "Mode \<Rightarrow> Request \<Rightarrow> Context \<Rightarrow> Result" where
  "checkShellWrite ModeAuto req ctx =
     (if commandTargetsWorkspace (req_Command req) ctx
      then result DecisionAllow ''shell command targets workspace'' req
      else result DecisionPrompt ''shell command may affect files outside workspace'' req)"
| "checkShellWrite mode req ctx =
     (if mode = ModeAsk \<or> mode = ModeSafe
      then result DecisionPrompt ''shell write requires approval'' req
      else result DecisionPrompt ''unknown mode'' req)"

fun checkShellNetwork :: "Mode \<Rightarrow> Request \<Rightarrow> Context \<Rightarrow> Result" where
  "checkShellNetwork ModeAuto req ctx =
     (if ctx_AllowNetwork ctx then result DecisionAllow ''network allowed in auto mode'' req
      else result DecisionPrompt ''network access requires approval'' req)"
| "checkShellNetwork mode req ctx =
     (if mode = ModeAsk \<or> mode = ModeSafe
      then result DecisionPrompt ''network access requires approval'' req
      else result DecisionPrompt ''unknown mode'' req)"

fun checkNetwork :: "Mode \<Rightarrow> Request \<Rightarrow> Context \<Rightarrow> Result" where
  "checkNetwork ModeAuto req ctx =
     (if ctx_AllowNetwork ctx then result DecisionAllow ''network allowed in auto mode'' req
      else result DecisionPrompt ''network access requires approval'' req)"
| "checkNetwork mode req ctx =
     (if mode = ModeAsk \<or> mode = ModeSafe
      then result DecisionPrompt ''network access requires approval'' req
      else result DecisionPrompt ''unknown mode'' req)"

fun checkGitWrite :: "Mode \<Rightarrow> Request \<Rightarrow> Context \<Rightarrow> Result" where
  "checkGitWrite ModeAsk req ctx =
     result DecisionPrompt ''ask mode requires approval for git writes'' req"
| "checkGitWrite ModeSafe req ctx =
     (if isLocalGitCommand (req_Command req)
      then result DecisionAllow ''local git operation in safe mode'' req
      else result DecisionPrompt ''remote git operations require approval'' req)"
| "checkGitWrite ModeAuto req ctx =
     (if isForcePush (req_Command req)
      then result DecisionPrompt ''force push requires approval'' req
      else result DecisionAllow ''git operation allowed in auto mode'' req)"
| "checkGitWrite mode req ctx = result DecisionPrompt ''unknown mode'' req"

definition Check :: "string option \<Rightarrow> Mode \<Rightarrow> Request \<Rightarrow> Context \<Rightarrow> Result" where
  "Check cwd mode req ctx =
     (if req_Path req \<noteq> [] \<and> isPathDenied cwd (req_Path req) ctx
      then result DecisionDeny ''path is in denied list'' req
      else if mode = ModeYolo then result DecisionAllow ''yolo mode'' req
      else case req_Operation req of
          OpRead \<Rightarrow> result DecisionAllow ''read operations allowed'' req
        | OpGitRead \<Rightarrow> result DecisionAllow ''read operations allowed'' req
        | OpWrite \<Rightarrow> checkFileWrite cwd mode req ctx
        | OpDelete \<Rightarrow> checkFileWrite cwd mode req ctx
        | OpShellRead \<Rightarrow> checkShellRead mode req ctx
        | OpShellWrite \<Rightarrow> checkShellWrite mode req ctx
        | OpShellNetwork \<Rightarrow> checkShellNetwork mode req ctx
        | OpNetwork \<Rightarrow> checkNetwork mode req ctx
        | OpGitWrite \<Rightarrow> checkGitWrite mode req ctx
        | OpOther _ \<Rightarrow> result DecisionPrompt ''unknown operation type'' req)"

section \<open>Lemmas\<close>

lemmas check_simps = checkFileWrite.simps checkShellRead.simps checkShellWrite.simps
  checkShellNetwork.simps checkNetwork.simps checkGitWrite.simps

text \<open>A directory test on the pieces.  The root directory contains nothing but itself:
  \<open>wsAbs+"/"\<close> is then \<open>//\<close>, which no cleaned path begins with.\<close>

definition pieces_under :: "string list \<Rightarrow> string list \<Rightarrow> bool" where
  "pieces_under rs ps \<longleftrightarrow> (if rs = [] then ps = [] else prefix rs ps)"

lemma pieces_under_prefix: "pieces_under rs ps \<Longrightarrow> prefix rs ps"
  by (auto simp: pieces_under_def split: if_splits)

lemma join_with_no_leading_sep:
  "\<forall>w \<in> set ps. plain_piece w \<Longrightarrow> \<not> has_prefix (join_with sep ps) [sep]"
  by (induction "sep" ps rule: join_with.induct)
    (auto simp: has_prefix_def plain_piece_def take_Suc split: if_splits dest: hd_in_set)

lemma under_root_pieces:
  assumes "cwd_ok cwd" "abs_pieces cwd p = Some ps" "abs_pieces cwd root = Some rs"
  shows "under_root cwd (sep # join_with sep ps) root \<longleftrightarrow> pieces_under rs ps"
proof -
  note plain = abs_pieces_plain [OF assms(2)] abs_pieces_plain [OF assms(3)]
  have ur: "under_root cwd (sep # join_with sep ps) root \<longleftrightarrow>
      join_with sep ps = join_with sep rs \<or> has_prefix (join_with sep ps) (join_with sep rs @ [sep])"
    by (simp add: under_root_def abs_path_pieces assms has_prefix_def)
  show ?thesis
  proof (cases "rs = []")
    case True
    then show ?thesis
      using ur plain join_with_inj [of ps "[]"] join_with_no_leading_sep [of ps]
      by (auto simp: pieces_under_def)
  next
    case False
    then show ?thesis
      using ur plain join_with_inj [of ps rs] has_prefix_join [of ps rs]
      by (auto simp: pieces_under_def strict_prefix_def)
  qed
qed

lemma under_root_iff:
  assumes "cwd_ok cwd" "abs_path cwd p = Some a"
  shows "under_root cwd a root \<longleftrightarrow>
     (\<exists>ps rs. abs_pieces cwd p = Some ps \<and> abs_pieces cwd root = Some rs \<and> pieces_under rs ps)"
proof (cases "abs_pieces cwd root")
  case None
  then show ?thesis using assms by (simp add: under_root_def abs_path_pieces)
next
  case (Some rs)
  from assms obtain ps where "abs_pieces cwd p = Some ps" "a = sep # join_with sep ps"
    by (auto simp: abs_path_pieces)
  with Some assms(1) show ?thesis by (simp add: under_root_pieces)
qed

lemma list_ex_under_root:
  assumes "cwd_ok cwd" "abs_path cwd p = Some a"
  shows "list_ex (under_root cwd a) roots \<longleftrightarrow>
     (\<exists>root \<in> set roots. \<exists>ps rs. abs_pieces cwd p = Some ps \<and> abs_pieces cwd root = Some rs \<and>
        pieces_under rs ps)"
  by (simp add: list_ex_iff under_root_iff [OF assms])

lemma abs_path_None: "cwd_ok cwd \<Longrightarrow> abs_path cwd p = None \<longleftrightarrow> abs_pieces cwd p = None"
  by (simp add: abs_path_pieces)

lemma isPathDenied_iff:
  assumes "cwd_ok cwd"
  shows "isPathDenied cwd path ctx \<longleftrightarrow> path \<noteq> [] \<and>
     (\<exists>root \<in> set (ctx_DeniedPaths ctx). \<exists>ps rs. abs_pieces cwd path = Some ps \<and>
        abs_pieces cwd root = Some rs \<and> pieces_under rs ps)"
  using assms
  by (auto simp: isPathDenied_def list_ex_under_root abs_path_None split: option.splits)

definition granted_root :: "Context \<Rightarrow> string \<Rightarrow> bool" where
  "granted_root ctx root \<longleftrightarrow>
     (root = ctx_WorkspacePath ctx \<and> root \<noteq> []) \<or> root \<in> set (ctx_TrustedPaths ctx)"

lemma isPathInWorkspace_iff:
  assumes "cwd_ok cwd"
  shows "isPathInWorkspace cwd path ctx \<longleftrightarrow> path \<noteq> [] \<and>
     (\<exists>root ps rs. granted_root ctx root \<and> abs_pieces cwd path = Some ps \<and>
        abs_pieces cwd root = Some rs \<and> pieces_under rs ps)"
proof (cases "abs_path cwd path")
  case None
  then show ?thesis
    using abs_path_None [OF assms, of path] by (simp add: isPathInWorkspace_def)
next
  case (Some a)
  then show ?thesis
    using under_root_iff [OF assms Some] list_ex_under_root [OF assms Some]
    by (auto simp: isPathInWorkspace_def granted_root_def)
qed

text \<open>The four modes from the strictest to the most permissive; a value outside the
  constants behaves as \<open>ModeAsk\<close>.\<close>

fun mode_rank :: "Mode \<Rightarrow> nat" where
  "mode_rank ModeAsk = 0"
| "mode_rank ModeSafe = 1"
| "mode_rank ModeAuto = 2"
| "mode_rank ModeYolo = 3"
| "mode_rank (ModeOther _) = 0"

definition allowed :: "string option \<Rightarrow> Mode \<Rightarrow> Request \<Rightarrow> Context \<Rightarrow> bool" where
  "allowed cwd mode req ctx \<longleftrightarrow> res_Decision (Check cwd mode req ctx) = DecisionAllow"

text \<open>The whole table of the allowed requests.\<close>

lemma allowed_iff:
  "allowed cwd mode req ctx \<longleftrightarrow> \<not> isPathDenied cwd (req_Path req) ctx \<and>
     (mode = ModeYolo \<or>
      (case req_Operation req of
         OpRead \<Rightarrow> True
       | OpGitRead \<Rightarrow> True
       | OpWrite \<Rightarrow> mode \<in> {ModeSafe, ModeAuto} \<and> isPathInWorkspace cwd (req_Path req) ctx
       | OpDelete \<Rightarrow> mode \<in> {ModeSafe, ModeAuto} \<and> isPathInWorkspace cwd (req_Path req) ctx
       | OpShellRead \<Rightarrow> mode = ModeAuto \<or> mode = ModeSafe \<and> isReadOnlyCommand (req_Command req)
       | OpShellWrite \<Rightarrow> mode = ModeAuto \<and> commandTargetsWorkspace (req_Command req) ctx
       | OpShellNetwork \<Rightarrow> mode = ModeAuto \<and> ctx_AllowNetwork ctx
       | OpNetwork \<Rightarrow> mode = ModeAuto \<and> ctx_AllowNetwork ctx
       | OpGitWrite \<Rightarrow> mode = ModeSafe \<and> isLocalGitCommand (req_Command req) \<or>
           mode = ModeAuto \<and> \<not> isForcePush (req_Command req)
       | OpOther _ \<Rightarrow> False))"
proof -
  have "req_Path req = [] \<Longrightarrow> \<not> isPathDenied cwd (req_Path req) ctx"
    by (simp add: isPathDenied_def)
  then show ?thesis
    unfolding allowed_def Check_def
    by (cases mode; cases "req_Operation req") (auto simp: check_simps)
qed

lemma trim_space_append:
  assumes "trim_space t = t" "t \<noteq> []" "u \<noteq> []" "\<not> is_space (hd u)"
  shows "trim_space (u @ t) = u @ t"
proof -
  have "dropWhile is_space (rev t) = rev t"
    by (metis assms(1) dropWhile_idem rev_swap trim_space_def)
  moreover obtain y ys where "rev t = y # ys"
    using assms(2) by (metis neq_Nil_conv rev_is_Nil_conv)
  ultimately have "\<not> is_space y" by (metis dropWhile_eq_Cons_conv)
  with \<open>rev t = y # ys\<close> assms(3,4) show ?thesis
    by (cases u) (simp_all add: trim_space_def flip: rev_swap)
qed

lemma isReadOnlyCommand_clean:
  "isReadOnlyCommand cmd \<Longrightarrow> sub \<in> set (''>'' # chain_separators) \<Longrightarrow>
   \<not> contains (to_lower (trim_space cmd)) sub"
  by (auto simp: isReadOnlyCommand_def Let_def contains_any_def list_ex_iff split: if_splits)

section \<open>Properties\<close>

text \<open>C11: The denied list overrides every mode.  A request is denied exactly when its path is
  not empty and its cleaned absolute form equals, or lies below, the cleaned absolute form of a
  denied path, piece by piece, save that a denied path which cleans to the root directory denies the root
  directory only; no mode, \<open>yolo\<close> included, changes that.\<close>

theorem check_denies_iff:
  assumes "cwd_ok cwd"
  shows "res_Decision (Check cwd mode req ctx) = DecisionDeny \<longleftrightarrow> req_Path req \<noteq> [] \<and>
     (\<exists>root \<in> set (ctx_DeniedPaths ctx). \<exists>ps rs. abs_pieces cwd (req_Path req) = Some ps \<and>
        abs_pieces cwd root = Some rs \<and> (if rs = [] then ps = [] else prefix rs ps))"
proof -
  have "res_Decision (Check cwd mode req ctx) = DecisionDeny \<longleftrightarrow>
      req_Path req \<noteq> [] \<and> isPathDenied cwd (req_Path req) ctx"
    unfolding Check_def
    by (cases mode; cases "req_Operation req") (auto simp: check_simps)
  then show ?thesis
    using isPathDenied_iff [OF assms, of "req_Path req" ctx] by (simp add: pieces_under_def)
qed

theorem check_denies_iff_witness:
  "res_Decision (Check (Some ''/home/a'') ModeYolo (file_request OpWrite ''x/../.ssh/./id'')
     (workspace ''/home/a'' [''/home/a/.ssh''])) = DecisionDeny"
proof -
  have "cwd_ok (Some ''/home/a'')" by code_simp
  moreover have "abs_pieces (Some ''/home/a'') ''x/../.ssh/./id'' = Some [''home'', ''a'', ''.ssh'', ''id'']"
    and "abs_pieces (Some ''/home/a'') ''/home/a/.ssh'' = Some [''home'', ''a'', ''.ssh'']"
    by code_simp+
  ultimately show ?thesis by (subst check_denies_iff) auto
qed

text \<open>C1: Confinement of file writes.  When \<open>safe\<close> or \<open>auto\<close> mode lets a write or delete
  through, the cleaned absolute path extends, piece by piece, the workspace or a trusted path,
  and none of its pieces is empty, \<open>.\<close> or \<open>..\<close>: no relative or dotted spelling leads out.\<close>

theorem write_confined:
  assumes "cwd_ok cwd" "mode = ModeSafe \<or> mode = ModeAuto"
    and "req_Operation req = OpWrite \<or> req_Operation req = OpDelete"
    and "res_Decision (Check cwd mode req ctx) = DecisionAllow"
  shows "\<exists>root ps rs.
     ((root = ctx_WorkspacePath ctx \<and> root \<noteq> []) \<or> root \<in> set (ctx_TrustedPaths ctx)) \<and>
     abs_pieces cwd root = Some rs \<and> abs_path cwd (req_Path req) = Some (sep # join_with sep ps) \<and>
     prefix rs ps \<and> (\<forall>w \<in> set ps. plain_piece w)"
proof -
  have "allowed cwd mode req ctx" using assms(4) by (simp add: allowed_def)
  with assms(2,3) have "isPathInWorkspace cwd (req_Path req) ctx"
    unfolding allowed_iff by auto
  then obtain root ps rs where "granted_root ctx root" "abs_pieces cwd (req_Path req) = Some ps"
      "abs_pieces cwd root = Some rs" "pieces_under rs ps"
    using isPathInWorkspace_iff [OF assms(1)] by blast
  then show ?thesis
    using abs_path_pieces [OF assms(1)] pieces_under_prefix abs_pieces_plain
    unfolding granted_root_def by fastforce
qed

theorem write_confined_witness:
  "\<exists>root ps rs. (root = ''/w/proj'' \<and> root \<noteq> [] \<or> root \<in> set []) \<and>
     abs_pieces (Some ''/w'') root = Some rs \<and>
     abs_path (Some ''/w'') ''proj/src/../a.go'' = Some (sep # join_with sep ps) \<and>
     prefix rs ps \<and> (\<forall>w \<in> set ps. plain_piece w)"
proof -
  have "cwd_ok (Some ''/w'')" by code_simp
  moreover have "res_Decision (Check (Some ''/w'') ModeSafe (file_request OpWrite ''proj/src/../a.go'')
      (workspace ''/w/proj'' [])) = DecisionAllow" by code_simp
  ultimately show ?thesis
    using write_confined [of "Some ''/w''" ModeSafe "file_request OpWrite ''proj/src/../a.go''"
      "workspace ''/w/proj'' []"] by simp
qed

text \<open>C37: The modes are ordered.  What a mode lets through, every more permissive mode lets
  through too (\<open>ask\<close> and values outside the constants below \<open>safe\<close> below \<open>auto\<close> below \<open>yolo\<close>),
  except a git write whose command looks like a force push.\<close>

theorem mode_monotone:
  assumes "mode_rank m \<le> mode_rank m'"
    and "req_Operation req = OpGitWrite \<longrightarrow> \<not> isForcePush (req_Command req)"
    and "res_Decision (Check cwd m req ctx) = DecisionAllow"
  shows "res_Decision (Check cwd m' req ctx) = DecisionAllow"
proof -
  have "allowed cwd m req ctx" using assms(3) by (simp add: allowed_def)
  then have "allowed cwd m' req ctx"
    using assms(1,2) unfolding allowed_iff
    by (cases m; cases m') (auto split: Operation.splits)
  then show ?thesis by (simp add: allowed_def)
qed

theorem mode_monotone_witness:
  "res_Decision (Check None ModeAuto (shell_request OpGitWrite ''git commit -m x'')
     (workspace ''/w'' [])) = DecisionAllow"
proof -
  have "\<not> isForcePush ''git commit -m x''" by code_simp
  moreover have "res_Decision (Check None ModeSafe (shell_request OpGitWrite ''git commit -m x'')
     (workspace ''/w'' [])) = DecisionAllow" by code_simp
  ultimately show ?thesis
    using mode_monotone [of ModeSafe ModeAuto "shell_request OpGitWrite ''git commit -m x''" None
      "workspace ''/w'' []"] by simp
qed

text \<open>The exception is real.  A push spelled with a git option before the subcommand counts
  as a local command, so \<open>safe\<close> mode runs a force push that \<open>auto\<close> mode stops at: for every
  command \<open>git -C dir push --force args\<close> whose directory and arguments have no letter g.\<close>

theorem safe_mode_force_push:
  assumes "CHR ''g'' \<notin> set (to_lower dir)" "CHR ''g'' \<notin> set (to_lower args)"
    and "cmd = ''git -C '' @ dir @ '' push --force '' @ args"
  shows "res_Decision (Check cwd ModeSafe (shell_request OpGitWrite cmd) ctx) = DecisionAllow \<and>
         res_Decision (Check cwd ModeAuto (shell_request OpGitWrite cmd) ctx) = DecisionPrompt"
proof -
  have low: "to_lower cmd = ''git -c '' @ to_lower dir @ '' push --force '' @ to_lower args"
    unfolding assms(3) to_lower_append by code_simp
  have "isLocalGitCommand cmd"
    unfolding isLocalGitCommand_def low remoteCommands_def
    using assms(1,2)
    by (simp add: contains_fresh [where c = "CHR ''g''"]) (simp add: has_prefix_def)
  moreover have "isForcePush cmd"
  proof -
    have "to_lower cmd = (''git -c '' @ to_lower dir @ '' '') @ ''push'' @ ('' --force '' @ to_lower args)"
      and "to_lower cmd = (''git -c '' @ to_lower dir @ '' push '') @ ''--force'' @ ('' '' @ to_lower args)"
      by (simp_all add: low)
    then show ?thesis unfolding isForcePush_def Let_def contains_iff by blast
  qed
  ultimately show ?thesis by (simp add: Check_def)
qed

theorem safe_mode_force_push_witness:
  "res_Decision (Check None ModeSafe (shell_request OpGitWrite ''git -C sub push --force all'')
     (workspace ''/w'' [])) = DecisionAllow"
proof -
  have "CHR ''g'' \<notin> set (to_lower ''sub'')" "CHR ''g'' \<notin> set (to_lower ''all'')"
    by code_simp+
  from safe_mode_force_push [OF this refl] show ?thesis by simp
qed

text \<open>The decision for a shell command that \<open>ClassifyCommand\<close> has classified, in every mode:
  \<open>ask\<close> always prompts, \<open>safe\<close> runs exactly the commands that are read-only and name no network
  command, \<open>auto\<close> runs in addition the commands that target the workspace, and network commands
  when the context allows network access.\<close>

theorem classified_command_decision:
  shows "(res_Decision (Check cwd mode (shell_request (ClassifyCommand cmd) cmd) ctx) = DecisionAllow) =
     (let net = contains_any (to_lower (trim_space cmd)) NetworkCommands; ro = isReadOnlyCommand cmd
      in case mode of
           ModeAsk \<Rightarrow> False
         | ModeSafe \<Rightarrow> \<not> net \<and> ro
         | ModeAuto \<Rightarrow> if net then ctx_AllowNetwork ctx else ro \<or> commandTargetsWorkspace cmd ctx
         | ModeYolo \<Rightarrow> True
         | ModeOther _ \<Rightarrow> False)"
  by (cases mode) (simp_all add: Check_def ClassifyCommand_def isPathDenied_def)

text \<open>What \<open>safe\<close> mode runs without asking as a shell read begins with a known read-only
  command and contains no redirection, pipe, \<open>;\<close>, \<open>&&\<close>, backquote, \<open>$(\<close> or line break.\<close>

theorem safe_shell_read_is_plain:
  assumes "res_Decision (Check cwd ModeSafe (shell_request OpShellRead cmd) ctx) = DecisionAllow"
  shows "has_any_prefix (to_lower (trim_space cmd)) (readOnlyPrefixes @ [''echo'']) \<and>
     (\<forall>sub \<in> {''>'', '';'', ''&&'', ''|'', ''`'', ''$('', [CHR 0x0A]}.
        \<not> contains (to_lower (trim_space cmd)) sub)"
proof -
  have ro: "isReadOnlyCommand cmd"
    using assms by (auto simp: Check_def split: if_splits)
  then have "has_any_prefix (to_lower (trim_space cmd)) (readOnlyPrefixes @ [''echo''])"
    by (auto simp: isReadOnlyCommand_def Let_def has_any_prefix_def split: if_splits)
  moreover have "{''>'', '';'', ''&&'', ''|'', ''`'', ''$('', [CHR 0x0A]} \<subseteq>
      set (''>'' # chain_separators)"
    by (simp add: chain_separators_def)
  ultimately show ?thesis using isReadOnlyCommand_clean [OF ro] by blast
qed

theorem safe_shell_read_is_plain_witness:
  "has_any_prefix (to_lower (trim_space '' ls -la'')) (readOnlyPrefixes @ [''echo''])"
proof -
  have "res_Decision (Check None ModeSafe (shell_request OpShellRead '' ls -la'')
      (workspace ''/w'' [])) = DecisionAllow" by code_simp
  from safe_shell_read_is_plain [OF this] show ?thesis by simp
qed

text \<open>The single \<open>&\<close> is not among the separators.  A read-only command followed by \<open>&\<close> and
  any second command without the listed separators and without a network command is classified
  as a shell read, and \<open>safe\<close> mode runs both.\<close>

theorem background_chain_allowed:
  assumes "trim_space t = t" "t \<noteq> []"
    and "\<not> contains_any (to_lower t) (''>'' # chain_separators)"
    and "\<not> contains_any (to_lower (''ls & '' @ t)) NetworkCommands"
  shows "ClassifyCommand (''ls & '' @ t) = OpShellRead \<and>
     res_Decision (Check cwd ModeSafe (shell_request OpShellRead (''ls & '' @ t)) ctx) = DecisionAllow"
proof -
  have trim: "trim_space (''ls & '' @ t) = ''ls & '' @ t"
    using assms(1,2) by (rule trim_space_append) (simp_all add: is_space_def)
  have low: "to_lower (''ls & '' @ t) = ''ls & '' @ to_lower t"
    unfolding to_lower_append by code_simp
  have "contains ''>>'' ''>''" by code_simp
  then have "\<not> contains (to_lower t) ''>>''"
    using assms(3) contains_trans by (auto simp: contains_any_def)
  then have "isReadOnlyCommand (''ls & '' @ t)"
    using assms(3) unfolding isReadOnlyCommand_def trim low
    by (simp add: Let_def contains_any_def chain_separators_def has_any_prefix_def
        readOnlyPrefixes_def has_prefix_def)
  then show ?thesis
    using assms(4) unfolding ClassifyCommand_def trim by (simp add: Check_def isPathDenied_def)
qed

theorem background_chain_allowed_witness:
  "ClassifyCommand ''ls & rm -rf x'' = OpShellRead"
proof -
  have "trim_space ''rm -rf x'' = ''rm -rf x''" "''rm -rf x'' \<noteq> []"
    "\<not> contains_any (to_lower ''rm -rf x'') (''>'' # chain_separators)"
    "\<not> contains_any (to_lower (''ls & '' @ ''rm -rf x'')) NetworkCommands"
    by code_simp+
  from background_chain_allowed [OF this] show ?thesis by simp
qed

text \<open>Printing and parsing a mode: the name of each of the four modes parses back to it,
  and the name of any other value is rejected; parsing ignores surrounding white space.\<close>

theorem parse_mode_roundtrip:
  "ParseMode (Mode_String m) =
     (case m of ModeOther _ \<Rightarrow> Inl (UnknownApprovalMode ''unknown'') | _ \<Rightarrow> Inr m) \<and>
   (ParseMode (trim_space s) = Inr m' \<longleftrightarrow> ParseMode s = Inr m')"
proof -
  have "ParseMode ''ask'' = Inr ModeAsk" "ParseMode ''safe'' = Inr ModeSafe"
    "ParseMode ''auto'' = Inr ModeAuto" "ParseMode ''yolo'' = Inr ModeYolo"
    "ParseMode ''unknown'' = Inl (UnknownApprovalMode ''unknown'')"
    by code_simp+
  moreover have "ParseMode (trim_space s) = Inr m' \<longleftrightarrow> ParseMode s = Inr m'"
    by (simp add: ParseMode_def Let_def)
  ultimately show ?thesis by (cases m) simp_all
qed

end
