(* ===== verification/Exclusive_Locks.thy ===== *)
theory Exclusive_Locks
  imports Go_Prelude
begin

text \<open>
  The contract that the two lock services of the program share: the file lock manager of
  package \<open>parallel\<close> and the write locks of the conflict detector of package \<open>rlm\<close>.  A client
  grabs and drops keys on behalf of an agent; \<open>holder\<close> says who holds a key.  The contract allows
  reentrant services: a drop by the holder may leave it the holder.

  The client's lemmas are proved here once, from the laws alone: operations of other agents
  never take a held key away, and a key changes hands only through a state in which nobody
  holds it.
\<close>

datatype ('a, 'k) lock_action = Grab 'a 'k | Drop 'a 'k

fun action_agent :: "('a, 'k) lock_action \<Rightarrow> 'a" where
  "action_agent (Grab a k) = a"
| "action_agent (Drop a k) = a"

locale exclusive_locks =
  fixes inv :: "'s \<Rightarrow> bool"
    and valid :: "'a \<Rightarrow> 'k \<Rightarrow> bool"
    and holder :: "'s \<Rightarrow> 'k \<Rightarrow> 'a option"
    and grab :: "'a \<Rightarrow> 'k \<Rightarrow> 's \<Rightarrow> bool \<times> 's"
    and drop :: "'a \<Rightarrow> 'k \<Rightarrow> 's \<Rightarrow> 's"
  assumes grab_inv: "inv s \<Longrightarrow> valid a k \<Longrightarrow> inv (snd (grab a k s))"
    and drop_inv: "inv s \<Longrightarrow> valid a k \<Longrightarrow> inv (drop a k s)"
    and grab_ok: "inv s \<Longrightarrow> valid a k \<Longrightarrow> fst (grab a k s) \<Longrightarrow>
          holder (snd (grab a k s)) = (holder s)(k \<mapsto> a)"
    and grab_fails: "inv s \<Longrightarrow> valid a k \<Longrightarrow> \<not> fst (grab a k s) \<Longrightarrow>
          holder (snd (grab a k s)) = holder s"
    and grab_excluded: "inv s \<Longrightarrow> valid a k \<Longrightarrow> holder s k = Some b \<Longrightarrow> b \<noteq> a \<Longrightarrow>
          \<not> fst (grab a k s)"
    and drop_other_key: "inv s \<Longrightarrow> valid a k \<Longrightarrow> k' \<noteq> k \<Longrightarrow> holder (drop a k s) k' = holder s k'"
    and drop_not_holder: "inv s \<Longrightarrow> valid a k \<Longrightarrow> holder s k \<noteq> Some a \<Longrightarrow>
          holder (drop a k s) k = holder s k"
    and drop_holder: "inv s \<Longrightarrow> valid a k \<Longrightarrow> holder s k = Some a \<Longrightarrow>
          holder (drop a k s) k = None \<or> holder (drop a k s) k = Some a"
begin

fun act :: "('a, 'k) lock_action \<Rightarrow> 's \<Rightarrow> 's" where
  "act (Grab a k) s = snd (grab a k s)"
| "act (Drop a k) s = drop a k s"

fun action_valid :: "('a, 'k) lock_action \<Rightarrow> bool" where
  "action_valid (Grab a k) = valid a k"
| "action_valid (Drop a k) = valid a k"

lemma act_inv: "inv s \<Longrightarrow> action_valid x \<Longrightarrow> inv (act x s)"
  by (cases x) (auto intro: grab_inv drop_inv)

lemma act_foreign:
  assumes "inv s" "action_valid x" "holder s k = Some b" "action_agent x \<noteq> b"
  shows "holder (act x s) k = Some b"
proof (cases x)
  case (Grab a k')
  show ?thesis
  proof (cases "fst (grab a k' s)")
    case True
    with Grab assms grab_excluded have "k' \<noteq> k" by fastforce
    with True Grab assms grab_ok show ?thesis by simp
  next
    case False
    with Grab assms grab_fails show ?thesis by simp
  qed
next
  case (Drop a k')
  then show ?thesis
    using assms drop_other_key [of s a k' k] drop_not_holder [of s a k'] by (cases "k' = k") auto
qed

lemma foreign_actions_keep:
  assumes "inv s" "holder s k = Some b"
    and "\<forall>x \<in> set xs. action_valid x \<and> action_agent x \<noteq> b"
  shows "holder (fold act xs s) k = Some b"
  using assms
proof (induction xs arbitrary: s)
  case (Cons x xs)
  then have "inv (act x s)" "holder (act x s) k = Some b"
    by (auto intro: act_inv act_foreign)
  with Cons show ?case by simp
qed simp

text \<open>One action never moves a key from one agent to another.\<close>

lemma no_direct_handover:
  assumes "inv s" "action_valid x" "holder s k = Some a" "holder (act x s) k = Some b"
  shows "a = b"
proof (cases "action_agent x = a")
  case False
  with assms show ?thesis using act_foreign by fastforce
next
  case True
  show ?thesis
  proof (cases x)
    case (Grab a' k')
    with True assms show ?thesis
      using grab_ok [of s a' k'] grab_fails [of s a' k']
      by (cases "fst (grab a' k' s)"; cases "k' = k") auto
  next
    case (Drop a' k')
    with True assms show ?thesis
      using drop_other_key [of s a' k' k] drop_holder [of s a' k'] by (cases "k' = k") auto
  qed
qed

end

end
