(* ===== verification/File_Locks.thy ===== *)
theory File_Locks
  imports Exclusive_Locks "HOL-Library.AList"
begin

text \<open>
  The file lock manager of package \<open>parallel\<close> (src/pkg/parallel/locks.go): one lock per
  normalised path, with an owner, an expiry time and waiters that are woken through channels
  of capacity one.

  \<^item> A Go map is an association list; its order stands for the unspecified iteration order.
  \<^item> \<open>time.Now()\<close> is an argument of each operation.  \<open>tryAcquire\<close> returns the lock as a value;
    the pointer the code returns is the entry of the table.
  \<^item> Every method body that runs under \<open>mu\<close> is one atomic operation.  \<open>Acquire\<close> takes the mutex
    several times; what other goroutines do in between is an explicit list of operations, so a
    schedule fixes the interleaving: the operations between the first attempt and \<open>addWaiter\<close>,
    those before the holder is read for the report, and then the sequence of events that the
    \<open>select\<close> loop sees.  The conflict callback runs without the mutex; what it does to the
    manager is part of those lists too.
  \<^item> The outcome \<open>StillWaiting\<close> of \<open>Acquire\<close> means that the schedule ends before it returns.

  Shown here: who can get or lose a lock, that a held lock is stable until its owner acts or it
  expires, when waiting goroutines are woken (and when not), the effect of \<open>AcquireMultiple\<close> on
  success and on failure, and that the order in which it takes paths with white space can lead to agents that wait for each
  other.
\<close>

section \<open>State\<close>

record FileLock =
  fl_Path :: string
  fl_AgentID :: string
  fl_TaskID :: string
  fl_AcquiredAt :: go_time
  fl_ExpiresAt :: go_time
  fl_Heartbeat :: go_time

record LockResult =
  lr_Acquired :: bool
  lr_Lock :: "FileLock option"
  lr_WaitedFor :: go_duration
  lr_HeldBy :: string
  lr_QueueDepth :: nat

record FileLockConfig =
  cfg_DefaultTTL :: go_duration
  cfg_MaxWaitTime :: go_duration
  cfg_HeartbeatPeriod :: go_duration
  cfg_CleanupPeriod :: go_duration

text \<open>A channel is a number; \<open>lm_tokens\<close> holds the channels whose one-place buffer is full,
  \<open>lm_next_chan\<close> numbers the next \<open>make(chan struct{}, 1)\<close>.\<close>

record FileLockManager =
  lm_locks :: "(string \<times> FileLock) list"
  lm_waiters :: "(string \<times> nat list) list"
  lm_maxWaitTime :: go_duration
  lm_defaultTTL :: go_duration
  lm_onConflict :: bool
  lm_stopped :: bool
  lm_tokens :: "nat list"
  lm_next_chan :: nat

datatype lock_error = PathRequired | AgentRequired | CtxErr
  | HeldByOther string string | NoLock string

definition DefaultFileLockConfig :: FileLockConfig where
  "DefaultFileLockConfig = \<lparr>cfg_DefaultTTL = 5 * minute, cfg_MaxWaitTime = 30 * second,
     cfg_HeartbeatPeriod = 30 * second, cfg_CleanupPeriod = 1 * minute\<rparr>"

text \<open>The second component is the period of the cleanup goroutine that is started.\<close>

definition NewFileLockManager :: "FileLockConfig \<Rightarrow> FileLockManager \<times> go_duration" where
  "NewFileLockManager cfg =
     (let ttl = (if cfg_DefaultTTL cfg \<le> 0 then 5 * minute else cfg_DefaultTTL cfg);
          wait = (if cfg_MaxWaitTime cfg \<le> 0 then 30 * second else cfg_MaxWaitTime cfg);
          period = (if cfg_CleanupPeriod cfg \<le> 0 then 1 * minute else cfg_CleanupPeriod cfg)
      in (\<lparr>lm_locks = [], lm_waiters = [], lm_maxWaitTime = wait, lm_defaultTTL = ttl,
           lm_onConflict = False, lm_stopped = False, lm_tokens = [], lm_next_chan = 0\<rparr>, period))"

section \<open>Path normalisation\<close>

definition normalizeLockPath :: "string \<Rightarrow> string" where
  "normalizeLockPath path =
     (let p = trim_space path in if p = [] then [] else clean p)"

text \<open>The loop over the paths with the \<open>seen\<close> set, then \<open>sort.Strings\<close>.\<close>

fun dedupe_paths :: "string list \<Rightarrow> string list \<Rightarrow> string list" where
  "dedupe_paths seen [] = []"
| "dedupe_paths seen (path # paths) =
     (let p = normalizeLockPath path
      in if p = [] \<or> p \<in> set seen then dedupe_paths seen paths
         else p # dedupe_paths (p # seen) paths)"

definition normalizeLockPaths :: "string list \<Rightarrow> string list" where
  "normalizeLockPaths paths = (if paths = [] then [] else sort (dedupe_paths [] paths))"

section \<open>Operations under the mutex\<close>

definition waiters_of :: "FileLockManager \<Rightarrow> string \<Rightarrow> nat list" where
  "waiters_of m path = (case map_of (lm_waiters m) path of None \<Rightarrow> [] | Some ws \<Rightarrow> ws)"

definition lock_on :: "FileLockManager \<Rightarrow> string \<Rightarrow> FileLock option" where
  "lock_on m path = map_of (lm_locks m) path"

definition tryAcquire ::
  "go_time \<Rightarrow> string \<Rightarrow> string \<Rightarrow> string \<Rightarrow> go_duration \<Rightarrow> FileLockManager \<Rightarrow>
   FileLock option \<times> FileLockManager" where
  "tryAcquire now agentID taskID path ttl m =
     (let fresh = \<lparr>fl_Path = path, fl_AgentID = agentID, fl_TaskID = taskID, fl_AcquiredAt = now,
                   fl_ExpiresAt = now + ttl, fl_Heartbeat = now\<rparr>;
          take_it = (Some fresh, m\<lparr>lm_locks := AList.update path fresh (lm_locks m)\<rparr>)
      in case lock_on m path of
           None \<Rightarrow> take_it
         | Some existing \<Rightarrow>
             if fl_ExpiresAt existing > now then
               if fl_AgentID existing = agentID then
                 (let l = existing\<lparr>fl_ExpiresAt := now + ttl, fl_Heartbeat := now\<rparr>
                  in (Some l, m\<lparr>lm_locks := AList.update path l (lm_locks m)\<rparr>))
               else (None, m)
             else take_it)"

definition notifyWaiters :: "string \<Rightarrow> FileLockManager \<Rightarrow> FileLockManager" where
  "notifyWaiters path m = m\<lparr>lm_tokens := List.union (waiters_of m path) (lm_tokens m)\<rparr>"

definition Release :: "string \<Rightarrow> string \<Rightarrow> FileLockManager \<Rightarrow> lock_error option \<times> FileLockManager" where
  "Release agentID path0 m =
     (let path = normalizeLockPath path0
      in case lock_on m path of
           None \<Rightarrow> (None, m)
         | Some lock \<Rightarrow>
             if fl_AgentID lock \<noteq> agentID then (Some (HeldByOther (fl_AgentID lock) agentID), m)
             else (None, notifyWaiters path (m\<lparr>lm_locks := AList.delete path (lm_locks m)\<rparr>)))"

definition ReleaseAll :: "string \<Rightarrow> FileLockManager \<Rightarrow> nat \<times> FileLockManager" where
  "ReleaseAll agentID m =
     (let mine = map fst (filter (\<lambda>(_, l). fl_AgentID l = agentID) (lm_locks m));
          m1 = m\<lparr>lm_locks := filter (\<lambda>(_, l). fl_AgentID l \<noteq> agentID) (lm_locks m)\<rparr>
      in (length mine, fold notifyWaiters mine m1))"

definition Heartbeat ::
  "go_time \<Rightarrow> string \<Rightarrow> string \<Rightarrow> go_duration \<Rightarrow> FileLockManager \<Rightarrow>
   lock_error option \<times> FileLockManager" where
  "Heartbeat now agentID path0 ttl0 m =
     (let path = normalizeLockPath path0;
          ttl = (if ttl0 \<le> 0 then lm_defaultTTL m else ttl0)
      in case lock_on m path of
           None \<Rightarrow> (Some (NoLock path), m)
         | Some lock \<Rightarrow>
             if fl_AgentID lock \<noteq> agentID then (Some (HeldByOther (fl_AgentID lock) agentID), m)
             else (None, m\<lparr>lm_locks := AList.update path
                    (lock\<lparr>fl_ExpiresAt := now + ttl, fl_Heartbeat := now\<rparr>) (lm_locks m)\<rparr>))"

definition cleanup :: "go_time \<Rightarrow> FileLockManager \<Rightarrow> FileLockManager" where
  "cleanup now m =
     (let expired = map fst (filter (\<lambda>(_, l). fl_ExpiresAt l < now) (lm_locks m))
      in fold (\<lambda>path m. notifyWaiters path (m\<lparr>lm_locks := AList.delete path (lm_locks m)\<rparr>)) expired m)"

definition addWaiter :: "string \<Rightarrow> nat \<Rightarrow> FileLockManager \<Rightarrow> FileLockManager" where
  "addWaiter path ch m =
     m\<lparr>lm_waiters := AList.update path (waiters_of m path @ [ch]) (lm_waiters m)\<rparr>"

definition removeWaiter :: "string \<Rightarrow> nat \<Rightarrow> FileLockManager \<Rightarrow> FileLockManager" where
  "removeWaiter path ch m =
     (if ch \<in> set (waiters_of m path)
      then m\<lparr>lm_waiters := AList.update path (remove1 ch (waiters_of m path)) (lm_waiters m)\<rparr>
      else m)"

definition Close :: "FileLockManager \<Rightarrow> FileLockManager" where
  "Close m = m\<lparr>lm_stopped := True\<rparr>"

text \<open>One turn of the cleanup goroutine: it stops for good once the stop channel is closed.\<close>

definition cleanupLoop_turn :: "go_time \<Rightarrow> FileLockManager \<Rightarrow> FileLockManager" where
  "cleanupLoop_turn now m = (if lm_stopped m then m else cleanup now m)"

definition SetConflictCallback :: "bool \<Rightarrow> FileLockManager \<Rightarrow> FileLockManager" where
  "SetConflictCallback present m = m\<lparr>lm_onConflict := present\<rparr>"

section \<open>Queries\<close>

definition IsLocked :: "go_time \<Rightarrow> string \<Rightarrow> FileLockManager \<Rightarrow> bool" where
  "IsLocked now path0 m =
     (case lock_on m (normalizeLockPath path0) of None \<Rightarrow> False | Some l \<Rightarrow> fl_ExpiresAt l > now)"

definition GetLock :: "go_time \<Rightarrow> string \<Rightarrow> FileLockManager \<Rightarrow> FileLock option" where
  "GetLock now path0 m =
     (case lock_on m (normalizeLockPath path0) of
        None \<Rightarrow> None
      | Some l \<Rightarrow> if fl_ExpiresAt l < now then None else Some l)"

definition ListLocks :: "go_time \<Rightarrow> FileLockManager \<Rightarrow> FileLock list" where
  "ListLocks now m = filter (\<lambda>l. fl_ExpiresAt l > now) (map snd (lm_locks m))"

definition ListLocksForAgent :: "go_time \<Rightarrow> string \<Rightarrow> FileLockManager \<Rightarrow> FileLock list" where
  "ListLocksForAgent now agentID m =
     filter (\<lambda>l. fl_AgentID l = agentID \<and> fl_ExpiresAt l > now) (map snd (lm_locks m))"

record LockStats =
  ls_ActiveLocks :: nat
  ls_TotalWaiters :: nat
  ls_OldestLock :: go_duration

definition Stats :: "go_time \<Rightarrow> FileLockManager \<Rightarrow> LockStats" where
  "Stats now m =
     (let active = ListLocks now m;
          oldest = foldl (\<lambda>old l. if old = 0 \<or> fl_AcquiredAt l < old then fl_AcquiredAt l else old)
                     0 active
      in \<lparr>ls_ActiveLocks = length active,
          ls_TotalWaiters = sum_list (map (length \<circ> snd) (lm_waiters m)),
          ls_OldestLock = (if oldest \<noteq> 0 then now - oldest else 0)\<rparr>)"

section \<open>Interleaving\<close>

text \<open>The atomic operations other goroutines can run: whole methods, and the atomic parts of
  their own \<open>Acquire\<close> calls.\<close>

datatype lock_op =
    OpTry string string string go_duration
  | OpAddWaiter string
  | OpRecv nat
  | OpRemoveWaiter string nat
  | OpRelease string string
  | OpReleaseAll string
  | OpHeartbeat string string go_duration
  | OpCleanupTick
  | OpClose
  | OpSetConflictCallback bool

definition make_chan :: "FileLockManager \<Rightarrow> nat \<times> FileLockManager" where
  "make_chan m = (lm_next_chan m, m\<lparr>lm_next_chan := Suc (lm_next_chan m)\<rparr>)"

definition recv :: "nat \<Rightarrow> FileLockManager \<Rightarrow> FileLockManager" where
  "recv ch m = m\<lparr>lm_tokens := removeAll ch (lm_tokens m)\<rparr>"

fun run_op :: "go_time \<Rightarrow> lock_op \<Rightarrow> FileLockManager \<Rightarrow> FileLockManager" where
  "run_op now (OpTry agent task path ttl) m = snd (tryAcquire now agent task path ttl m)"
| "run_op now (OpAddWaiter path) m = (let (ch, m1) = make_chan m in addWaiter path ch m1)"
| "run_op now (OpRecv ch) m = recv ch m"
| "run_op now (OpRemoveWaiter path ch) m = removeWaiter path ch m"
| "run_op now (OpRelease agent path) m = snd (Release agent path m)"
| "run_op now (OpReleaseAll agent) m = snd (ReleaseAll agent m)"
| "run_op now (OpHeartbeat agent path ttl) m = snd (Heartbeat now agent path ttl m)"
| "run_op now OpCleanupTick m = cleanupLoop_turn now m"
| "run_op now OpClose m = Close m"
| "run_op now (OpSetConflictCallback b) m = SetConflictCallback b m"

definition run_ops :: "(go_time \<times> lock_op) list \<Rightarrow> FileLockManager \<Rightarrow> FileLockManager" where
  "run_ops ops m = fold (\<lambda>(now, act). run_op now act) ops m"

text \<open>The agent on whose behalf an operation changes the lock table.\<close>

fun op_agent :: "lock_op \<Rightarrow> string option" where
  "op_agent (OpTry agent _ _ _) = Some agent"
| "op_agent (OpRelease agent _) = Some agent"
| "op_agent (OpReleaseAll agent) = Some agent"
| "op_agent (OpHeartbeat agent _ _) = Some agent"
| "op_agent _ = None"

section \<open>Acquire\<close>

datatype wait_event = Other go_time lock_op | Recv go_time | TimerFires go_time | CtxDone go_time

record schedule =
  sc_start :: go_time
  sc_gap :: "(go_time \<times> lock_op) list"
  sc_gap2 :: "(go_time \<times> lock_op) list"
  sc_wait :: go_time
  sc_events :: "wait_event list"

text \<open>\<open>NilResult\<close> is the return of a nil result with an error.\<close>

datatype acquire_outcome = StillWaiting | NilResult lock_error | Returned LockResult "lock_error option"

text \<open>The \<open>for\<close>/\<open>select\<close> loop.  The timer fires from \<open>fires\<close> on; an event that is not ready when
  the schedule offers it (an empty channel, a timer too early) is passed over.  Every return
  runs the deferred \<open>removeWaiter\<close>.\<close>

fun acquire_loop ::
  "string \<Rightarrow> string \<Rightarrow> string \<Rightarrow> go_duration \<Rightarrow> nat \<Rightarrow> go_time \<Rightarrow> go_time \<Rightarrow> LockResult \<Rightarrow>
   wait_event list \<Rightarrow> FileLockManager \<Rightarrow> acquire_outcome \<times> FileLockManager" where
  "acquire_loop agent task path ttl ch start fires res [] m = (StillWaiting, m)"
| "acquire_loop agent task path ttl ch start fires res (Other t act # es) m =
     acquire_loop agent task path ttl ch start fires res es (run_op t act m)"
| "acquire_loop agent task path ttl ch start fires res (CtxDone t # es) m =
     (Returned (res\<lparr>lr_WaitedFor := t - start\<rparr>) (Some CtxErr), removeWaiter path ch m)"
| "acquire_loop agent task path ttl ch start fires res (TimerFires t # es) m =
     (if t < fires then acquire_loop agent task path ttl ch start fires res es m
      else (Returned (res\<lparr>lr_WaitedFor := t - start\<rparr>) None, removeWaiter path ch m))"
| "acquire_loop agent task path ttl ch start fires res (Recv t # es) m =
     (if ch \<notin> set (lm_tokens m) then acquire_loop agent task path ttl ch start fires res es m
      else case tryAcquire t agent task path ttl (recv ch m) of
             (Some l, m1) \<Rightarrow>
               (Returned (res\<lparr>lr_Acquired := True, lr_Lock := Some l, lr_WaitedFor := t - start\<rparr>)
                  None, removeWaiter path ch m1)
           | (None, m1) \<Rightarrow> acquire_loop agent task path ttl ch start fires res es m1)"

abbreviation no_result :: LockResult where
  "no_result \<equiv> \<lparr>lr_Acquired = False, lr_Lock = None, lr_WaitedFor = 0, lr_HeldBy = [],
     lr_QueueDepth = 0\<rparr>"

definition Acquire ::
  "string \<Rightarrow> string \<Rightarrow> string \<Rightarrow> go_duration \<Rightarrow> go_time option \<Rightarrow> schedule \<Rightarrow> FileLockManager \<Rightarrow>
   acquire_outcome \<times> FileLockManager" where
  "Acquire agentID taskID path0 ttl0 deadline sc m =
     (let path = normalizeLockPath path0
      in if path = [] then (NilResult PathRequired, m)
         else if agentID = [] then (NilResult AgentRequired, m)
         else let ttl = (if ttl0 \<le> 0 then lm_defaultTTL m else ttl0); start = sc_start sc
         in case tryAcquire start agentID taskID path ttl m of
              (Some l, m1) \<Rightarrow>
                (Returned (no_result\<lparr>lr_Acquired := True, lr_Lock := Some l\<rparr>) None, m1)
            | (None, m1) \<Rightarrow>
                let (ch, m2) = make_chan (run_ops (sc_gap sc) m1);
                    m3 = run_ops (sc_gap2 sc) (addWaiter path ch m2);
                    res = no_result\<lparr>
                      lr_HeldBy := (case lock_on m3 path of None \<Rightarrow> [] | Some l \<Rightarrow> fl_AgentID l),
                      lr_QueueDepth := length (waiters_of m3 path)\<rparr>;
                    timeout = (case deadline of
                        None \<Rightarrow> lm_maxWaitTime m3
                      | Some d \<Rightarrow> min (d - sc_wait sc) (lm_maxWaitTime m3))
                in acquire_loop agentID taskID path ttl ch start (sc_wait sc + timeout) res
                     (sc_events sc) m3)"

section \<open>AcquireMultiple\<close>

definition release_list :: "string \<Rightarrow> string list \<Rightarrow> FileLockManager \<Rightarrow> FileLockManager" where
  "release_list agentID ps m = fold (\<lambda>p m. snd (Release agentID p m)) ps m"

definition ReleaseMultiple :: "string \<Rightarrow> string list \<Rightarrow> FileLockManager \<Rightarrow> FileLockManager" where
  "ReleaseMultiple agentID paths m = release_list agentID (normalizeLockPaths paths) m"

text \<open>The loop over the paths; \<open>acquired\<close> are the paths locked so far, in order.  There is one
  schedule per path; the loop still waits when they run out.\<close>

fun acquire_each ::
  "string \<Rightarrow> string \<Rightarrow> go_duration \<Rightarrow> go_time option \<Rightarrow> go_time \<Rightarrow> string list \<Rightarrow>
   schedule list \<Rightarrow> string list \<Rightarrow> FileLockManager \<Rightarrow> acquire_outcome \<times> FileLockManager" where
  "acquire_each agent task ttl deadline finish acquired scs [] m =
     (Returned (no_result\<lparr>lr_Acquired := True,
        lr_Lock := Some \<lparr>fl_Path = [], fl_AgentID = agent, fl_TaskID = task, fl_AcquiredAt = finish,
                        fl_ExpiresAt = 0, fl_Heartbeat = 0\<rparr>\<rparr>) None, m)"
| "acquire_each agent task ttl deadline finish acquired [] (path # paths) m = (StillWaiting, m)"
| "acquire_each agent task ttl deadline finish acquired (sc # scs) (path # paths) m =
     (case Acquire agent task path ttl deadline sc m of
        (StillWaiting, m1) \<Rightarrow> (StillWaiting, m1)
      | (NilResult err, m1) \<Rightarrow> (NilResult err, release_list agent acquired m1)
      | (Returned _ (Some err), m1) \<Rightarrow> (NilResult err, release_list agent acquired m1)
      | (Returned r None, m1) \<Rightarrow>
          if \<not> lr_Acquired r then (Returned r None, release_list agent acquired m1)
          else acquire_each agent task ttl deadline finish (acquired @ [path]) scs paths m1)"

definition AcquireMultiple ::
  "string \<Rightarrow> string \<Rightarrow> string list \<Rightarrow> go_duration \<Rightarrow> go_time option \<Rightarrow> go_time \<Rightarrow> schedule list \<Rightarrow>
   FileLockManager \<Rightarrow> acquire_outcome \<times> FileLockManager" where
  "AcquireMultiple agentID taskID paths0 ttl0 deadline finish scs m =
     (let paths = normalizeLockPaths paths0
      in if paths = [] then (Returned (no_result\<lparr>lr_Acquired := True\<rparr>) None, m)
         else acquire_each agentID taskID (if ttl0 \<le> 0 then lm_defaultTTL m else ttl0) deadline finish
                [] scs paths m)"

section \<open>The lock table after each operation\<close>

text \<open>The invariant: one entry per path, stored under its own path, which is not empty; every
  channel in use has been allocated.\<close>

definition lock_inv :: "FileLockManager \<Rightarrow> bool" where
  "lock_inv m \<longleftrightarrow>
     distinct (map fst (lm_locks m)) \<and>
     (\<forall>(p, l) \<in> set (lm_locks m). fl_Path l = p \<and> p \<noteq> [] \<and> fl_AgentID l \<noteq> []) \<and>
     (\<forall>c \<in> set (lm_tokens m). c < lm_next_chan m) \<and>
     (\<forall>(p, cs) \<in> set (lm_waiters m). \<forall>c \<in> set cs. c < lm_next_chan m)"

fun op_ok :: "lock_op \<Rightarrow> bool" where
  "op_ok (OpTry agent task path ttl) = (agent \<noteq> [] \<and> path \<noteq> [])"
| "op_ok _ = True"

lemma lock_on_update [simp]:
  "lock_on (m\<lparr>lm_locks := AList.update p l (lm_locks m)\<rparr>) q = (if q = p then Some l else lock_on m q)"
  by (simp add: lock_on_def update_conv')

lemma lock_on_delete [simp]:
  "lock_on (m\<lparr>lm_locks := AList.delete p (lm_locks m)\<rparr>) q = (if q = p then None else lock_on m q)"
  by (simp add: lock_on_def delete_conv')

lemma lock_on_frame [simp]:
  "lock_on (m\<lparr>lm_tokens := ts\<rparr>) = lock_on m"
  "lock_on (m\<lparr>lm_waiters := ws\<rparr>) = lock_on m"
  "lock_on (m\<lparr>lm_next_chan := n\<rparr>) = lock_on m"
  "lock_on (m\<lparr>lm_stopped := b\<rparr>) = lock_on m"
  "lock_on (m\<lparr>lm_onConflict := b\<rparr>) = lock_on m"
  by (simp_all add: lock_on_def fun_eq_iff)

lemma lock_on_notify [simp]: "lock_on (notifyWaiters p m) = lock_on m"
  by (simp add: notifyWaiters_def)

lemma lock_on_fold_notify [simp]: "lock_on (fold notifyWaiters ps m) = lock_on m"
  by (induction ps arbitrary: m) auto

lemma lock_on_waiter_ops [simp]:
  "lock_on (addWaiter p c m) = lock_on m"
  "lock_on (removeWaiter p c m) = lock_on m"
  "lock_on (recv c m) = lock_on m"
  "lock_on (snd (make_chan m)) = lock_on m"
  "lock_on (Close m) = lock_on m"
  "lock_on (SetConflictCallback b m) = lock_on m"
  by (simp_all add: addWaiter_def removeWaiter_def recv_def make_chan_def Close_def
      SetConflictCallback_def)

lemma map_of_filter_value:
  "distinct (map fst xs) \<Longrightarrow>
   map_of (filter (\<lambda>(_, v). P v) xs) k =
     (case map_of xs k of None \<Rightarrow> None | Some v \<Rightarrow> if P v then Some v else None)"
proof (induction xs)
  case (Cons x xs)
  obtain k' v where x: "x = (k', v)" by fastforce
  with Cons.prems have "map_of xs k' = None"
    by (simp add: map_of_eq_None_iff)
  with Cons x show ?case by (auto split: option.split)
qed simp

lemma lock_inv_distinct: "lock_inv m \<Longrightarrow> distinct (map fst (lm_locks m))"
  by (simp add: lock_inv_def)

lemma lock_on_ReleaseAll:
  "lock_inv m \<Longrightarrow> lock_on (snd (ReleaseAll agent m)) q =
     (case lock_on m q of None \<Rightarrow> None | Some l \<Rightarrow> if fl_AgentID l \<noteq> agent then Some l else None)"
  by (simp add: ReleaseAll_def Let_def lock_on_def map_of_filter_value lock_inv_distinct
      lock_on_fold_notify [unfolded lock_on_def])

lemma lock_on_fold_delete:
  "lock_on (fold (\<lambda>p m. notifyWaiters p (m\<lparr>lm_locks := AList.delete p (lm_locks m)\<rparr>)) ps m) q =
     (if q \<in> set ps then None else lock_on m q)"
  by (induction ps arbitrary: m) auto

lemma selected_path_iff:
  "lock_inv m \<Longrightarrow> q \<in> set (map fst (filter (\<lambda>(_, l). P l) (lm_locks m))) \<longleftrightarrow>
     (\<exists>l. lock_on m q = Some l \<and> P l)"
  unfolding lock_on_def lock_inv_def
  by (auto simp: image_iff dest: map_of_SomeD)

lemma lock_on_cleanup:
  "lock_inv m \<Longrightarrow> lock_on (cleanup now m) q =
     (case lock_on m q of None \<Rightarrow> None | Some l \<Rightarrow> if fl_ExpiresAt l < now then None else Some l)"
  unfolding cleanup_def Let_def lock_on_fold_delete
  by (subst selected_path_iff) (auto split: option.split)

lemma lock_on_tryAcquire:
  "lock_on (snd (tryAcquire now agent task path ttl m)) q =
     (if q = path then
        (case fst (tryAcquire now agent task path ttl m) of None \<Rightarrow> lock_on m q | Some l \<Rightarrow> Some l)
      else lock_on m q)"
  by (auto simp: tryAcquire_def Let_def split: option.split)

lemma lock_on_Release:
  "lock_on (snd (Release agent path m)) q =
     (case lock_on m q of None \<Rightarrow> None
      | Some l \<Rightarrow> if q = normalizeLockPath path \<and> fl_AgentID l = agent then None else Some l)"
  by (auto simp: Release_def Let_def split: option.split)

lemma lock_on_Heartbeat_other:
  "lock_on m q = Some l \<Longrightarrow> fl_AgentID l \<noteq> agent \<Longrightarrow>
   lock_on (snd (Heartbeat now agent path ttl m)) q = Some l"
  by (auto simp: Heartbeat_def Let_def split: option.split)

text \<open>Who gets the lock: no lock, an expired one, or one's own.\<close>

lemma tryAcquire_succeeds_iff:
  "fst (tryAcquire now agent task path ttl m) \<noteq> None \<longleftrightarrow>
     (\<forall>l. lock_on m path = Some l \<longrightarrow> now < fl_ExpiresAt l \<longrightarrow> fl_AgentID l = agent)"
  by (auto simp: tryAcquire_def Let_def split: option.split)

lemma tryAcquire_Some:
  "fst (tryAcquire now agent task path ttl m) = Some l \<Longrightarrow>
   fl_AgentID l = agent \<and> fl_ExpiresAt l = now + ttl \<and> fl_Heartbeat l = now"
  by (auto simp: tryAcquire_def Let_def split: option.splits if_splits)

section \<open>The invariant is kept\<close>

lemma lock_inv_new: "lock_inv (fst (NewFileLockManager cfg))"
  by (simp add: NewFileLockManager_def Let_def lock_inv_def)

lemma set_AList_delete: "set (AList.delete k xs) \<subseteq> set xs"
  by (auto simp: AList.delete_eq)

lemma lock_inv_put:
  "lock_inv m \<Longrightarrow> p \<noteq> [] \<Longrightarrow> fl_Path l = p \<Longrightarrow> fl_AgentID l \<noteq> [] \<Longrightarrow>
   lock_inv (m\<lparr>lm_locks := AList.update p l (lm_locks m)\<rparr>)"
  using set_AList_update [of p l "lm_locks m"]
  by (fastforce simp: lock_inv_def distinct_update)

lemma lock_inv_filter: "lock_inv m \<Longrightarrow> lock_inv (m\<lparr>lm_locks := filter P (lm_locks m)\<rparr>)"
  by (auto simp: lock_inv_def distinct_map_filter)

lemma lock_inv_del: "lock_inv m \<Longrightarrow> lock_inv (m\<lparr>lm_locks := AList.delete p (lm_locks m)\<rparr>)"
  by (simp add: lock_inv_filter AList.delete_eq)

lemma waiters_of_bound: "lock_inv m \<Longrightarrow> c \<in> set (waiters_of m p) \<Longrightarrow> c < lm_next_chan m"
  unfolding waiters_of_def lock_inv_def
  by (cases "map_of (lm_waiters m) p") (auto dest!: map_of_SomeD)

lemma lock_inv_notify: "lock_inv m \<Longrightarrow> lock_inv (notifyWaiters p m)"
  using waiters_of_bound [of m _ p] by (auto simp: notifyWaiters_def lock_inv_def)

lemma lock_inv_waiters:
  "lock_inv m \<Longrightarrow> \<forall>c \<in> set cs. c < lm_next_chan m \<Longrightarrow>
   lock_inv (m\<lparr>lm_waiters := AList.update p cs (lm_waiters m)\<rparr>)"
  using set_AList_update [of p cs "lm_waiters m"] by (fastforce simp: lock_inv_def)

lemma lock_inv_lock_on:
  "lock_inv m \<Longrightarrow> lock_on m p = Some l \<Longrightarrow> fl_Path l = p \<and> p \<noteq> [] \<and> fl_AgentID l \<noteq> []"
  by (auto simp: lock_inv_def lock_on_def dest!: map_of_SomeD)

lemma lock_inv_tryAcquire:
  "lock_inv m \<Longrightarrow> agent \<noteq> [] \<Longrightarrow> path \<noteq> [] \<Longrightarrow> lock_inv (snd (tryAcquire now agent task path ttl m))"
  using lock_inv_lock_on [of m path]
  by (auto simp: tryAcquire_def Let_def intro!: lock_inv_put split: option.split)

lemma lock_inv_fold:
  "(\<And>p m. lock_inv m \<Longrightarrow> lock_inv (f p m)) \<Longrightarrow> lock_inv m \<Longrightarrow> lock_inv (fold f ps m)"
  by (induction ps arbitrary: m) auto

lemma lock_inv_Release: "lock_inv m \<Longrightarrow> lock_inv (snd (Release agent path m))"
  by (auto simp: Release_def Let_def intro!: lock_inv_notify lock_inv_del split: option.split)

lemma lock_inv_ReleaseAll: "lock_inv m \<Longrightarrow> lock_inv (snd (ReleaseAll agent m))"
  by (auto simp: ReleaseAll_def Let_def intro!: lock_inv_fold lock_inv_notify lock_inv_filter)

lemma lock_inv_Heartbeat: "lock_inv m \<Longrightarrow> lock_inv (snd (Heartbeat now agent path ttl m))"
  using lock_inv_lock_on [of m "normalizeLockPath path"]
  by (auto simp: Heartbeat_def Let_def intro!: lock_inv_put split: option.split)

lemma lock_inv_cleanup: "lock_inv m \<Longrightarrow> lock_inv (cleanup now m)"
  by (auto simp: cleanup_def Let_def intro!: lock_inv_fold lock_inv_notify lock_inv_del)

lemma lock_inv_addWaiter: "lock_inv m \<Longrightarrow> c < lm_next_chan m \<Longrightarrow> lock_inv (addWaiter p c m)"
  using waiters_of_bound [of m _ p] by (auto simp: addWaiter_def intro!: lock_inv_waiters)

lemma lock_inv_removeWaiter: "lock_inv m \<Longrightarrow> lock_inv (removeWaiter p c m)"
  using waiters_of_bound [of m _ p] set_remove1_subset [of c "waiters_of m p"]
  by (auto simp: removeWaiter_def intro!: lock_inv_waiters)

lemma lock_inv_simple:
  "lock_inv m \<Longrightarrow> lock_inv (recv c m)"
  "lock_inv m \<Longrightarrow> lock_inv (snd (make_chan m))"
  "lock_inv m \<Longrightarrow> lock_inv (Close m)"
  "lock_inv m \<Longrightarrow> lock_inv (SetConflictCallback b m)"
  by (fastforce simp: lock_inv_def recv_def make_chan_def Close_def SetConflictCallback_def)+

lemma lock_inv_run_op: "lock_inv m \<Longrightarrow> op_ok act \<Longrightarrow> lock_inv (run_op now act m)"
proof (cases act)
  case (OpAddWaiter p)
  assume "lock_inv m"
  then have "lock_inv (snd (make_chan m))" by (rule lock_inv_simple)
  then show ?thesis
    by (simp add: OpAddWaiter make_chan_def lock_inv_addWaiter)
qed (auto simp: lock_inv_tryAcquire lock_inv_simple lock_inv_removeWaiter lock_inv_Release
    lock_inv_ReleaseAll lock_inv_Heartbeat cleanupLoop_turn_def lock_inv_cleanup)

lemma lock_inv_run_ops:
  "lock_inv m \<Longrightarrow> \<forall>(t, act) \<in> set ops. op_ok act \<Longrightarrow> lock_inv (run_ops ops m)"
  by (induction ops arbitrary: m) (auto simp: run_ops_def lock_inv_run_op)

section \<open>A held lock is stable\<close>

text \<open>An operation leaves lock \<open>l\<close> alone when it acts before the lock expires and not for its
  owner.\<close>

definition spares :: "FileLock \<Rightarrow> go_time \<times> lock_op \<Rightarrow> bool" where
  "spares l x \<longleftrightarrow> (case x of (t, act) \<Rightarrow>
     op_ok act \<and> op_agent act \<noteq> Some (fl_AgentID l) \<and> t < fl_ExpiresAt l)"

fun event_spares :: "FileLock \<Rightarrow> wait_event \<Rightarrow> bool" where
  "event_spares l (Other t act) = spares l (t, act)"
| "event_spares l (Recv t) = (t < fl_ExpiresAt l)"
| "event_spares l (TimerFires t) = True"
| "event_spares l (CtxDone t) = True"

definition sched_spares :: "FileLock \<Rightarrow> schedule \<Rightarrow> bool" where
  "sched_spares l sc \<longleftrightarrow> sc_start sc < fl_ExpiresAt l \<and>
     list_all (spares l) (sc_gap sc) \<and> list_all (spares l) (sc_gap2 sc) \<and>
     list_all (event_spares l) (sc_events sc)"

lemma tryAcquire_blocked:
  "lock_on m p = Some l \<Longrightarrow> fl_AgentID l \<noteq> agent \<Longrightarrow> now < fl_ExpiresAt l \<Longrightarrow>
   tryAcquire now agent task p ttl m = (None, m)"
  by (simp add: tryAcquire_def)

lemma run_op_keeps:
  assumes "lock_inv m" "lock_on m p = Some l" "spares l (t, act)"
  shows "lock_on (run_op t act m) p = Some l"
proof (cases act)
  case (OpTry agent task q ttl)
  with assms show ?thesis
    by (cases "q = p") (auto simp: spares_def tryAcquire_blocked lock_on_tryAcquire)
next
  case (OpHeartbeat agent q ttl)
  with assms show ?thesis by (auto simp: spares_def intro: lock_on_Heartbeat_other)
qed (use assms in \<open>auto simp: spares_def lock_on_Release lock_on_ReleaseAll cleanupLoop_turn_def
       lock_on_cleanup make_chan_def\<close>)

lemma run_ops_keep:
  assumes "lock_inv m" "lock_on m p = Some l" "list_all (spares l) ops"
  shows "lock_inv (run_ops ops m) \<and> lock_on (run_ops ops m) p = Some l"
  using assms
proof (induction ops arbitrary: m)
  case (Cons x ops)
  obtain t act where x: "x = (t, act)" by fastforce
  have "lock_inv (run_op t act m)" "lock_on (run_op t act m) p = Some l"
    using Cons.prems x by (auto intro: lock_inv_run_op run_op_keeps simp: spares_def)
  with Cons.IH Cons.prems(3) x show ?case by (simp add: run_ops_def)
qed (simp add: run_ops_def)

lemma acquire_loop_blocked:
  assumes "lock_inv m" "lock_on m p = Some l" "list_all (event_spares l) es"
    and "fl_AgentID l \<noteq> agent" "\<not> lr_Acquired res"
    and "acquire_loop agent task p ttl ch start fires res es m = (out, m')"
  shows "lock_on m' p = Some l \<and> (\<forall>r e. out = Returned r e \<longrightarrow> \<not> lr_Acquired r)"
  using assms
proof (induction es arbitrary: m)
  case (Cons e es)
  show ?case
  proof (cases e)
    case (Other t act)
    then have "lock_inv (run_op t act m)" "lock_on (run_op t act m) p = Some l"
      using Cons.prems by (auto intro: lock_inv_run_op run_op_keeps simp: spares_def)
    with Cons Other show ?thesis by simp
  next
    case (Recv t)
    then have "tryAcquire t agent task p ttl (recv ch m) = (None, recv ch m)"
      using Cons.prems by (intro tryAcquire_blocked [where l = l]) auto
    with Cons Recv Cons.IH [of "recv ch m"] show ?thesis
      by (simp add: lock_inv_simple split: if_splits)
  qed (use Cons in \<open>auto split: if_splits\<close>)
qed simp

lemma make_chan_simps [simp]:
  "fst (make_chan m) = lm_next_chan m"
  "lm_next_chan (snd (make_chan m)) = Suc (lm_next_chan m)"
  by (simp_all add: make_chan_def)

lemma lock_inv_register:
  "lock_inv m \<Longrightarrow> lock_inv (addWaiter p (fst (make_chan m)) (snd (make_chan m)))"
  by (intro lock_inv_addWaiter lock_inv_simple) auto

text \<open>The channel and the manager with which the slow path of \<open>Acquire\<close> starts to wait.\<close>

definition wait_chan :: "schedule \<Rightarrow> FileLockManager \<Rightarrow> nat" where
  "wait_chan sc m = lm_next_chan (run_ops (sc_gap sc) m)"

definition wait_state :: "string \<Rightarrow> schedule \<Rightarrow> FileLockManager \<Rightarrow> FileLockManager" where
  "wait_state p sc m =
     (let m1 = run_ops (sc_gap sc) m
      in run_ops (sc_gap2 sc) (addWaiter p (fst (make_chan m1)) (snd (make_chan m1))))"

lemma Acquire_slow:
  assumes "normalizeLockPath path = p" "p \<noteq> []" "agent \<noteq> []"
    and "\<And>ttl. tryAcquire (sc_start sc) agent task p ttl m = (None, m)"
  obtains ttl' res where
    "\<not> lr_Acquired res"
    "Acquire agent task path ttl deadline sc m =
       acquire_loop agent task p ttl' (wait_chan sc m) (sc_start sc)
         (sc_wait sc + (case deadline of None \<Rightarrow> lm_maxWaitTime (wait_state p sc m)
            | Some d \<Rightarrow> min (d - sc_wait sc) (lm_maxWaitTime (wait_state p sc m))))
         res (sc_events sc) (wait_state p sc m)"
    "ttl' = (if ttl \<le> 0 then lm_defaultTTL m else ttl)"
proof
  let ?m3 = "wait_state p sc m"
  let ?res = "no_result\<lparr>lr_HeldBy := (case lock_on ?m3 p of None \<Rightarrow> [] | Some l \<Rightarrow> fl_AgentID l),
     lr_QueueDepth := length (waiters_of ?m3 p)\<rparr>"
  show "\<not> lr_Acquired ?res" by simp
  show "Acquire agent task path ttl deadline sc m =
       acquire_loop agent task p (if ttl \<le> 0 then lm_defaultTTL m else ttl) (wait_chan sc m) (sc_start sc)
         (sc_wait sc + (case deadline of None \<Rightarrow> lm_maxWaitTime ?m3
            | Some d \<Rightarrow> min (d - sc_wait sc) (lm_maxWaitTime ?m3)))
         ?res (sc_events sc) ?m3"
    using assms
    by (cases deadline) (simp_all add: Acquire_def Let_def split_beta wait_chan_def wait_state_def)
qed (rule refl)

lemma wait_state_keeps:
  assumes "lock_inv m" "lock_on m p = Some l"
    and "list_all (spares l) (sc_gap sc)" "list_all (spares l) (sc_gap2 sc)"
  shows "lock_inv (wait_state p sc m) \<and> lock_on (wait_state p sc m) p = Some l"
proof -
  define m1 where "m1 = run_ops (sc_gap sc) m"
  have "lock_inv m1 \<and> lock_on m1 p = Some l"
    unfolding m1_def using assms(1-3) by (rule run_ops_keep)
  then have "lock_inv (addWaiter p (fst (make_chan m1)) (snd (make_chan m1)))"
      "lock_on (addWaiter p (fst (make_chan m1)) (snd (make_chan m1))) p = Some l"
    by (simp_all add: lock_inv_register del: make_chan_simps)
  then show ?thesis
    unfolding wait_state_def Let_def m1_def [symmetric] using assms(4) by (rule run_ops_keep)
qed

section \<open>Waiting without interference\<close>

fun own_event :: "wait_event \<Rightarrow> bool" where
  "own_event (Other _ _) = False"
| "own_event _ = True"

definition quiet :: "schedule \<Rightarrow> bool" where
  "quiet sc \<longleftrightarrow> sc_gap sc = [] \<and> sc_gap2 sc = [] \<and> list_all own_event (sc_events sc)"

text \<open>A goroutine whose channel is empty does not get the lock from its own events.\<close>

lemma acquire_loop_own_events:
  assumes "list_all own_event es" "ch \<notin> set (lm_tokens m)" "\<not> lr_Acquired res"
    and "acquire_loop agent task p ttl ch start fires res es m = (out, m')"
  shows "(\<forall>r e. out = Returned r e \<longrightarrow> \<not> lr_Acquired r) \<and> (\<forall>e. out \<noteq> NilResult e) \<and>
         (m' = m \<or> m' = removeWaiter p ch m)"
  using assms
proof (induction es)
  case (Cons e es)
  then show ?case by (cases e) (auto split: if_splits)
qed auto

lemma fresh_chan_no_token: "lock_inv m \<Longrightarrow> lm_next_chan m \<notin> set (lm_tokens m)"
  by (auto simp: lock_inv_def)

lemma wait_state_quiet:
  assumes "sc_gap2 sc = []" "lock_inv (run_ops (sc_gap sc) m)"
  shows "wait_chan sc m \<notin> set (lm_tokens (wait_state p sc m)) \<and>
         lock_on (wait_state p sc m) = lock_on (run_ops (sc_gap sc) m) \<and>
         lock_inv (wait_state p sc m)"
proof -
  let ?m1 = "run_ops (sc_gap sc) m"
  have "lock_inv (addWaiter p (fst (make_chan ?m1)) (snd (make_chan ?m1)))"
    using assms(2) by (rule lock_inv_register)
  moreover have "lm_tokens (addWaiter p c (snd (make_chan ?m1))) = lm_tokens ?m1" for c
    by (simp add: addWaiter_def make_chan_def)
  ultimately show ?thesis
    using assms fresh_chan_no_token [OF assms(2)]
    by (simp add: wait_state_def wait_chan_def run_ops_def [of "[]"] Let_def)
qed

text \<open>An \<open>Acquire\<close> during which no other goroutine acts: it ends as its first attempt does.\<close>

lemma Acquire_quiet:
  assumes "lock_inv m" "quiet sc" "normalizeLockPath path = p" "p \<noteq> []" "agent \<noteq> []"
    and "Acquire agent task path ttl deadline sc m = (out, m')"
  shows "lock_inv m' \<and> (\<forall>e. out \<noteq> NilResult e) \<and>
     (if \<forall>l. lock_on m p = Some l \<longrightarrow> sc_start sc < fl_ExpiresAt l \<longrightarrow> fl_AgentID l = agent
      then \<exists>r l. out = Returned r None \<and> lr_Acquired r \<and> fl_AgentID l = agent \<and>
             lock_on m' = (lock_on m)(p \<mapsto> l)
      else (\<forall>r e. out = Returned r e \<longrightarrow> \<not> lr_Acquired r) \<and> lock_on m' = lock_on m)"
proof (cases "\<forall>l. lock_on m p = Some l \<longrightarrow> sc_start sc < fl_ExpiresAt l \<longrightarrow> fl_AgentID l = agent")
  case True
  let ?attempt = "tryAcquire (sc_start sc) agent task p (if ttl \<le> 0 then lm_defaultTTL m else ttl) m"
  from True obtain l where l: "fst ?attempt = Some l"
    using tryAcquire_succeeds_iff [of "sc_start sc" agent task p _ m] by blast
  then have "out = Returned (no_result\<lparr>lr_Acquired := True, lr_Lock := Some l\<rparr>) None" "m' = snd ?attempt"
    using assms(3-6) by (auto simp: Acquire_def Let_def split: prod.splits)
  moreover have "lock_on (snd ?attempt) = (lock_on m)(p \<mapsto> l)"
    using l by (auto simp: lock_on_tryAcquire fun_eq_iff)
  ultimately show ?thesis
    using True assms(1,4,5) tryAcquire_Some [OF l] by (auto simp: lock_inv_tryAcquire)
next
  case False
  then have blocked: "\<And>ttl. tryAcquire (sc_start sc) agent task p ttl m = (None, m)"
    using tryAcquire_blocked by blast
  obtain ttl' fires res where acq: "\<not> lr_Acquired res"
    "acquire_loop agent task p ttl' (wait_chan sc m) (sc_start sc) fires res (sc_events sc)
       (wait_state p sc m) = (out, m')"
    using Acquire_slow [OF assms(3-5) blocked] assms(6) by metis
  have "run_ops (sc_gap sc) m = m" "list_all own_event (sc_events sc)" "sc_gap2 sc = []"
    using assms(2) by (simp_all add: quiet_def run_ops_def)
  then show ?thesis
    using acquire_loop_own_events [OF _ _ acq] wait_state_quiet [of sc m p] assms(1) False
    by (auto simp: lock_inv_removeWaiter)
qed

section \<open>Acquiring several paths\<close>

definition owner :: "FileLockManager \<Rightarrow> string \<Rightarrow> string option" where
  "owner m p = map_option fl_AgentID (lock_on m p)"

definition key_path :: "string \<Rightarrow> bool" where
  "key_path p \<longleftrightarrow> p \<noteq> [] \<and> normalizeLockPath p = p"

lemma release_list_lock_on:
  assumes "\<forall>p \<in> set ps. key_path p \<and> owner m p = Some agent" "distinct ps"
  shows "lock_on (release_list agent ps m) q = (if q \<in> set ps then None else lock_on m q)"
  using assms
proof (induction ps arbitrary: m)
  case (Cons p ps)
  have one: "lock_on (snd (Release agent p m)) x = (if x = p then None else lock_on m x)" for x
    using Cons.prems by (auto simp: lock_on_Release owner_def key_path_def split: option.split)
  have "\<forall>x \<in> set ps. key_path x \<and> owner (snd (Release agent p m)) x = Some agent"
    using Cons.prems by (auto simp: owner_def one)
  with Cons show ?case by (auto simp: release_list_def one)
qed (simp add: release_list_def)

text \<open>The loop without interference.  Its result is a success with every path owned, or a
  failure after which the paths it had locked are free and every other entry is as before.\<close>

definition failed :: "acquire_outcome \<Rightarrow> bool" where
  "failed out \<longleftrightarrow> (\<exists>e. out = NilResult e) \<or> (\<exists>r. out = Returned r None \<and> \<not> lr_Acquired r)"

definition succeeded :: "acquire_outcome \<Rightarrow> bool" where
  "succeeded out \<longleftrightarrow> (\<exists>r. out = Returned r None \<and> lr_Acquired r)"

lemma acquire_each_quiet:
  assumes "lock_inv m" "agent \<noteq> []" "list_all quiet scs" "\<forall>p \<in> set (acquired @ paths). key_path p"
    and "distinct (acquired @ paths)" "\<forall>p \<in> set acquired. owner m p = Some agent"
    and "acquire_each agent task ttl deadline finish acquired scs paths m = (out, m')"
  shows "(succeeded out \<longrightarrow> (\<forall>p \<in> set (acquired @ paths). owner m' p = Some agent) \<and>
            (\<forall>q. q \<notin> set paths \<longrightarrow> lock_on m' q = lock_on m q)) \<and>
         (failed out \<longrightarrow> (\<exists>k < length paths. \<forall>q. lock_on m' q =
            (if q \<in> set (acquired @ take k paths) then None else lock_on m q)))"
  using assms
proof (induction agent task ttl deadline finish acquired scs paths m
    arbitrary: out m' rule: acquire_each.induct)
  case (3 agent task ttl deadline finish acquired sc scs path paths m)
  obtain o1 m1 where acq: "Acquire agent task path ttl deadline sc m = (o1, m1)" by fastforce
  have key: "normalizeLockPath path = path" "path \<noteq> []"
    using "3.prems"(4) by (auto simp: key_path_def)
  have "quiet sc" using "3.prems"(3) by simp
  note q = Acquire_quiet [OF "3.prems"(1) \<open>quiet sc\<close> key "3.prems"(2) acq]
  show ?case
  proof (cases "\<forall>l. lock_on m path = Some l \<longrightarrow> sc_start sc < fl_ExpiresAt l \<longrightarrow> fl_AgentID l = agent")
    case True
    with q obtain r l where o1: "o1 = Returned r None" "lr_Acquired r" "lock_inv m1"
        and m1: "fl_AgentID l = agent" "lock_on m1 = (lock_on m)(path \<mapsto> l)" by auto
    have rest: "acquire_each agent task ttl deadline finish (acquired @ [path]) scs paths m1 = (out, m')"
      using "3.prems"(7) acq o1 by simp
    have own: "\<forall>p \<in> set (acquired @ [path]). owner m1 p = Some agent"
      using "3.prems"(6) m1 by (auto simp: owner_def)
    have IH: "(succeeded out \<longrightarrow> (\<forall>p \<in> set ((acquired @ [path]) @ paths). owner m' p = Some agent) \<and>
            (\<forall>q. q \<notin> set paths \<longrightarrow> lock_on m' q = lock_on m1 q)) \<and>
         (failed out \<longrightarrow> (\<exists>k < length paths. \<forall>q. lock_on m' q =
            (if q \<in> set ((acquired @ [path]) @ take k paths) then None else lock_on m1 q)))"
      using "3.IH" [OF acq [symmetric] o1(1) refl _ o1(3)] "3.prems" own rest o1(2) by auto
    have "\<exists>k < length (path # paths). \<forall>q. lock_on m' q =
        (if q \<in> set (acquired @ take k (path # paths)) then None else lock_on m q)" if "failed out"
    proof -
      from IH that obtain k where "k < length paths" "\<forall>q. lock_on m' q =
          (if q \<in> set ((acquired @ [path]) @ take k paths) then None else lock_on m1 q)" by blast
      then show ?thesis using m1(2) by (intro exI [of _ "Suc k"]) auto
    qed
    with IH m1 "3.prems"(5) show ?thesis by (auto simp: owner_def)
  next
    case False
    with q have m1: "lock_on m1 = lock_on m" and o1: "\<And>r e. o1 = Returned r e \<Longrightarrow> \<not> lr_Acquired r"
      by (auto split: if_splits)
    have rel: "lock_on (release_list agent acquired m1) x = (if x \<in> set acquired then None else lock_on m x)" for x
      using "3.prems"(4-6) m1 by (subst release_list_lock_on) (auto simp: owner_def)
    have "m' = m1 \<and> out = StillWaiting \<or> m' = release_list agent acquired m1 \<and> \<not> succeeded out"
      using "3.prems"(7) acq o1 by (auto simp: succeeded_def split: acquire_outcome.splits option.splits if_splits)
    then show ?thesis
      using rel by (auto simp: succeeded_def failed_def intro!: exI [of _ 0])
  qed
qed (auto simp: succeeded_def failed_def)

section \<open>Normalised paths\<close>

lemma is_space_dot_sep: "\<not> is_space sep" "\<not> is_space (CHR ''.'')"
  by code_simp+

lemma clean_nonempty: "clean p \<noteq> []"
  using clean_idem [of p] by (metis clean_def list.distinct(1))

lemma normalizeLockPath_idem:
  assumes "\<forall>c \<in> set path. \<not> is_space c"
  shows "normalizeLockPath (normalizeLockPath path) = normalizeLockPath path"
proof (cases "path = []")
  case True
  then show ?thesis by (simp add: normalizeLockPath_def trim_space_def)
next
  case False
  have "\<forall>c \<in> set (clean path). \<not> is_space c"
    using assms clean_set [of path] is_space_dot_sep by blast
  then show ?thesis
    using assms False by (simp add: normalizeLockPath_def trim_space_id clean_nonempty clean_idem)
qed

lemma dedupe_paths_spec:
  "distinct (dedupe_paths seen paths) \<and>
   set (dedupe_paths seen paths) = (normalizeLockPath ` set paths - {[]}) - set seen"
proof (induction paths arbitrary: seen)
  case (Cons path paths)
  then show ?case using Cons [of "normalizeLockPath path # seen"] Cons [of seen]
    by (auto simp: Let_def)
qed simp

lemma key_paths:
  "\<forall>path \<in> set paths. \<forall>c \<in> set path. \<not> is_space c \<Longrightarrow> p \<in> set (normalizeLockPaths paths) \<Longrightarrow> key_path p"
  using dedupe_paths_spec [of "[]" paths] normalizeLockPath_idem
  by (fastforce simp: normalizeLockPaths_def key_path_def split: if_splits)

lemma normalizeLockPaths_sorted: "sorted (normalizeLockPaths paths)" "distinct (normalizeLockPaths paths)"
  using dedupe_paths_spec [of "[]" paths] by (simp_all add: normalizeLockPaths_def)

section \<open>The manager as a service of exclusive locks\<close>

text \<open>At one instant the holder of a path is the owner of its unexpired lock.  \<open>Acquire\<close> always
  passes a positive lifetime on.\<close>

definition live_holder :: "go_time \<Rightarrow> FileLockManager \<Rightarrow> string \<Rightarrow> string option" where
  "live_holder now m p = (case lock_on m p of
       None \<Rightarrow> None | Some l \<Rightarrow> if fl_ExpiresAt l > now then Some (fl_AgentID l) else None)"

definition file_key :: "string \<Rightarrow> string \<Rightarrow> bool" where
  "file_key agent p \<longleftrightarrow> agent \<noteq> [] \<and> key_path p"

definition grab_file ::
  "go_time \<Rightarrow> string \<Rightarrow> go_duration \<Rightarrow> string \<Rightarrow> string \<Rightarrow> FileLockManager \<Rightarrow> bool \<times> FileLockManager" where
  "grab_file now task ttl agent p m =
     (case tryAcquire now agent task p (max 1 ttl) m of (r, m') \<Rightarrow> (r \<noteq> None, m'))"

definition drop_file :: "string \<Rightarrow> string \<Rightarrow> FileLockManager \<Rightarrow> FileLockManager" where
  "drop_file agent p m = snd (Release agent p m)"

lemma grab_file_fst:
  "fst (grab_file now task ttl agent p m) \<longleftrightarrow> live_holder now m p \<in> {None, Some agent}"
  using tryAcquire_succeeds_iff [of now agent task p "max 1 ttl" m]
  by (auto simp: grab_file_def live_holder_def split: prod.splits option.splits if_splits)

lemma grab_file_snd: "snd (grab_file now task ttl agent p m) = snd (tryAcquire now agent task p (max 1 ttl) m)"
  by (simp add: grab_file_def split_beta)

lemma live_holder_grab:
  "live_holder now (snd (grab_file now task ttl agent p m)) q =
     (if q = p \<and> fst (grab_file now task ttl agent p m) then Some agent else live_holder now m q)"
proof (cases "fst (tryAcquire now agent task p (max 1 ttl) m)")
  case None
  then have "\<not> fst (grab_file now task ttl agent p m)" by (simp add: grab_file_def split_beta)
  with None show ?thesis unfolding grab_file_snd live_holder_def lock_on_tryAcquire by simp
next
  case (Some l)
  then have "fst (grab_file now task ttl agent p m)" by (simp add: grab_file_def split_beta)
  moreover have "0 < max 1 ttl" by (simp add: less_max_iff_disj)
  ultimately show ?thesis
    using Some tryAcquire_Some [OF Some]
    unfolding grab_file_snd live_holder_def lock_on_tryAcquire by simp
qed

lemma live_holder_drop:
  "key_path p \<Longrightarrow> live_holder now (drop_file agent p m) q =
     (if q = p \<and> live_holder now m p = Some agent then None else live_holder now m q)"
  by (auto simp: drop_file_def live_holder_def lock_on_Release key_path_def split: option.split)

interpretation fl: exclusive_locks lock_inv file_key "live_holder now" "grab_file now task ttl" drop_file
  for now task ttl
proof
  fix m agent p
  assume m: "lock_inv m" and k: "file_key agent p"
  then have kp: "key_path p" "agent \<noteq> []" "p \<noteq> []" by (auto simp: file_key_def key_path_def)
  show "lock_inv (snd (grab_file now task ttl agent p m))"
    using m kp by (simp add: grab_file_snd lock_inv_tryAcquire)
  show "lock_inv (drop_file agent p m)" using m by (simp add: drop_file_def lock_inv_Release)
qed (auto simp: live_holder_grab live_holder_drop grab_file_fst fun_eq_iff file_key_def)

section \<open>Properties\<close>

text \<open>C12: A held lock is stable.  While a lock has not expired, no sequence of operations by
  other agents, waiters coming and going, cleanup turns, \<open>Close\<close> or callback changes alters it in
  any field: only its owner can extend, release or lose it before its expiry time.\<close>

theorem held_lock_stable:
  assumes "lock_inv m" "lock_on m p = Some l"
    and "\<forall>(t, act) \<in> set ops. op_ok act \<and> op_agent act \<noteq> Some (fl_AgentID l) \<and> t < fl_ExpiresAt l"
  shows "lock_on (run_ops ops m) p = Some l"
proof -
  have "list_all (spares l) ops"
    using assms(3) by (auto simp: list_all_iff spares_def)
  with run_ops_keep [OF assms(1,2)] show ?thesis by simp
qed

theorem held_lock_stable_witness:
  "lock_on (run_ops [(3, OpTry ''b'' ''t'' ''f'' 50), (4, OpRelease ''b'' ''f''), (5, OpCleanupTick)]
     (run_ops [(1, OpTry ''a'' ''t'' ''f'' 10)] (fst (NewFileLockManager DefaultFileLockConfig)))) ''f'' =
   Some \<lparr>fl_Path = ''f'', fl_AgentID = ''a'', fl_TaskID = ''t'', fl_AcquiredAt = 1, fl_ExpiresAt = 11,
     fl_Heartbeat = 1\<rparr>"
proof (rule held_lock_stable)
  show "lock_inv (run_ops [(1, OpTry ''a'' ''t'' ''f'' 10)] (fst (NewFileLockManager DefaultFileLockConfig)))"
    by (intro lock_inv_run_ops lock_inv_new) simp
  show "lock_on (run_ops [(1, OpTry ''a'' ''t'' ''f'' 10)] (fst (NewFileLockManager DefaultFileLockConfig)))
      ''f'' = Some \<lparr>fl_Path = ''f'', fl_AgentID = ''a'', fl_TaskID = ''t'', fl_AcquiredAt = 1,
        fl_ExpiresAt = 11, fl_Heartbeat = 1\<rparr>"
    by code_simp
qed simp

text \<open>C20: Mutual exclusion of \<open>Acquire\<close>.  While agent \<open>b\<close> holds an unexpired lock on a path, an
  \<open>Acquire\<close> of that path by another agent does not report success and leaves the lock as it is,
  for every interleaving in which the owner itself does not act and the lock does not expire.\<close>

theorem acquire_excluded:
  assumes "lock_inv m" "lock_on m (normalizeLockPath path) = Some l"
    and "fl_AgentID l \<noteq> agent" "sched_spares l sc"
    and "Acquire agent task path ttl deadline sc m = (out, m')"
  shows "lock_on m' (normalizeLockPath path) = Some l \<and>
         (\<forall>r e. out = Returned r e \<longrightarrow> \<not> lr_Acquired r)"
proof (cases "agent = []")
  case True
  then show ?thesis using assms(2,5) by (auto simp: Acquire_def Let_def split: if_splits)
next
  case False
  let ?p = "normalizeLockPath path"
  have "?p \<noteq> []" using lock_inv_lock_on [OF assms(1,2)] by simp
  have blocked: "\<And>ttl. tryAcquire (sc_start sc) agent task ?p ttl m = (None, m)"
    using assms(2-4) by (simp add: tryAcquire_blocked sched_spares_def)
  obtain ttl' fires res where acq: "\<not> lr_Acquired res"
    "acquire_loop agent task ?p ttl' (wait_chan sc m) (sc_start sc) fires res (sc_events sc)
       (wait_state ?p sc m) = (out, m')"
    using Acquire_slow [OF refl \<open>?p \<noteq> []\<close> False blocked] assms(5) by metis
  have "lock_inv (wait_state ?p sc m)" "lock_on (wait_state ?p sc m) ?p = Some l"
    "list_all (event_spares l) (sc_events sc)"
    using wait_state_keeps [OF assms(1,2)] assms(4) by (auto simp: sched_spares_def)
  from acquire_loop_blocked [OF this assms(3) acq] show ?thesis .
qed

text \<open>The table in which agent \<open>a\<close> has locked \<open>f\<close> from time 1 to time 11, for the concrete cases.\<close>

abbreviation lock_a :: FileLock where
  "lock_a \<equiv> \<lparr>fl_Path = ''f'', fl_AgentID = ''a'', fl_TaskID = ''t'', fl_AcquiredAt = 1,
     fl_ExpiresAt = 11, fl_Heartbeat = 1\<rparr>"

abbreviation mgr_a :: FileLockManager where
  "mgr_a \<equiv> run_ops [(1, OpTry ''a'' ''t'' ''f'' 10)] (fst (NewFileLockManager DefaultFileLockConfig))"

lemma mgr_a: "lock_inv mgr_a" "lock_on mgr_a ''f'' = Some lock_a" "normalizeLockPath ''f'' = ''f''"
  by (intro lock_inv_run_ops lock_inv_new, simp) code_simp+

theorem acquire_excluded_witness:
  "lock_on (snd (Acquire ''b'' ''t'' ''f'' 5 None
     \<lparr>sc_start = 2, sc_gap = [(3, OpTry ''c'' ''t'' ''f'' 5)], sc_gap2 = [], sc_wait = 4,
      sc_events = [Other 5 OpCleanupTick, Recv 6, TimerFires (40 * second)]\<rparr> mgr_a)) ''f'' = Some lock_a"
  using acquire_excluded [of mgr_a "''f''" lock_a "''b''"
      "\<lparr>sc_start = 2, sc_gap = [(3, OpTry ''c'' ''t'' ''f'' 5)], sc_gap2 = [], sc_wait = 4,
        sc_events = [Other 5 OpCleanupTick, Recv 6, TimerFires (40 * second)]\<rparr>" "''t''" 5 None]
  by (simp add: mgr_a sched_spares_def spares_def del: run_op.simps) (metis prod.collapse)

text \<open>A release wakes every waiter.  When the owner releases a lock, the entry is gone, every
  goroutine registered on the path has a token in its channel, and the first of them to receive
  it gets the lock.\<close>

theorem release_wakes_waiters:
  assumes "lock_on m (normalizeLockPath path) = Some l" "fl_AgentID l = agent"
    and "ch \<in> set (waiters_of m (normalizeLockPath path))"
    and "Release agent path m = (err, m')"
  shows "err = None \<and> lock_on m' (normalizeLockPath path) = None \<and> ch \<in> set (lm_tokens m') \<and>
     (\<exists>r l'. fst (acquire_loop b task (normalizeLockPath path) ttl ch start fires res (Recv t # es) m') =
           Returned r None \<and> lr_Acquired r \<and> lr_Lock r = Some l' \<and>
        lock_on (snd (acquire_loop b task (normalizeLockPath path) ttl ch start fires res (Recv t # es) m'))
          (normalizeLockPath path) = Some l' \<and>
        fl_AgentID l' = b \<and> fl_ExpiresAt l' = t + ttl)"
proof -
  let ?p = "normalizeLockPath path"
  have m': "m' = notifyWaiters ?p (m\<lparr>lm_locks := AList.delete ?p (lm_locks m)\<rparr>)" "err = None"
    using assms by (auto simp: Release_def Let_def)
  have "waiters_of (m\<lparr>lm_locks := ls\<rparr>) ?p = waiters_of m ?p" for ls
    by (simp add: waiters_of_def)
  with assms(3) have tok: "ch \<in> set (lm_tokens m')"
    by (simp add: m' notifyWaiters_def)
  have free: "lock_on m' ?p = None" by (simp add: m')
  have "fst (tryAcquire t b task ?p ttl (recv ch m')) \<noteq> None"
    unfolding tryAcquire_succeeds_iff by (simp add: free)
  then obtain l' where l': "fst (tryAcquire t b task ?p ttl (recv ch m')) = Some l'" by blast
  then show ?thesis
    using m'(2) tok free tryAcquire_Some [OF l'] lock_on_tryAcquire [of t b task ?p ttl "recv ch m'"]
    by (auto split: prod.splits)
qed

theorem release_wakes_waiters_witness:
  "lock_on (snd (acquire_loop ''b'' ''t'' ''f'' 5 0 2 30 no_result [Recv 4]
     (snd (Release ''a'' ''f'' (run_ops [(2, OpAddWaiter ''f'')] mgr_a))))) ''f'' \<noteq> None"
proof -
  let ?m = "run_ops [(2, OpAddWaiter ''f'')] mgr_a"
  have "lock_on ?m (normalizeLockPath ''f'') = Some lock_a" "fl_AgentID lock_a = ''a''"
    "0 \<in> set (waiters_of ?m (normalizeLockPath ''f''))"
    by code_simp+
  from release_wakes_waiters [OF this prod.collapse [symmetric]] show ?thesis
    by (metis mgr_a(3) option.distinct(1))
qed

text \<open>A lost wake-up.  \<open>Acquire\<close> registers its channel only after its first attempt has
  failed, in a separate critical section.  When the owner releases in between, the goroutine is
  not woken: whatever it then receives or times out on, it does not get the lock, although the
  path is free.\<close>

theorem lost_wakeup:
  assumes "lock_inv m" "lock_on m (normalizeLockPath path) = Some l"
    and "fl_AgentID l \<noteq> agent" "agent \<noteq> []" "sc_start sc < fl_ExpiresAt l"
    and "sc_gap sc = [(t, OpRelease (fl_AgentID l) path)]" "sc_gap2 sc = []"
    and "list_all own_event (sc_events sc)"
    and "Acquire agent task path ttl deadline sc m = (out, m')"
  shows "(\<forall>r e. out = Returned r e \<longrightarrow> \<not> lr_Acquired r) \<and> lock_on m' (normalizeLockPath path) = None"
proof -
  let ?p = "normalizeLockPath path"
  have "?p \<noteq> []" using lock_inv_lock_on [OF assms(1,2)] by simp
  have blocked: "\<And>ttl. tryAcquire (sc_start sc) agent task ?p ttl m = (None, m)"
    using assms(2,3,5) by (simp add: tryAcquire_blocked)
  obtain ttl' fires res where acq: "\<not> lr_Acquired res"
    "acquire_loop agent task ?p ttl' (wait_chan sc m) (sc_start sc) fires res (sc_events sc)
       (wait_state ?p sc m) = (out, m')"
    using Acquire_slow [OF refl \<open>?p \<noteq> []\<close> assms(4) blocked] assms(9) by metis
  have gap: "lock_inv (run_ops (sc_gap sc) m)" "lock_on (run_ops (sc_gap sc) m) ?p = None"
    using assms(1,2,6) by (simp_all add: run_ops_def lock_inv_Release lock_on_Release)
  show ?thesis
    using acquire_loop_own_events [OF assms(8) _ acq] wait_state_quiet [OF assms(7) gap(1), of ?p] gap(2)
    by auto
qed

theorem lost_wakeup_witness:
  "lock_on (snd (Acquire ''b'' ''t'' ''f'' 5 None
     \<lparr>sc_start = 2, sc_gap = [(3, OpRelease ''a'' ''f'')], sc_gap2 = [], sc_wait = 4,
      sc_events = [Recv 6, TimerFires (40 * second)]\<rparr> mgr_a)) ''f'' = None"
proof -
  let ?sc = "\<lparr>sc_start = 2, sc_gap = [(3, OpRelease ''a'' ''f'')], sc_gap2 = [], sc_wait = 4,
      sc_events = [Recv 6, TimerFires (40 * second)]\<rparr>"
  have "lock_on mgr_a (normalizeLockPath ''f'') = Some lock_a" by (simp add: mgr_a)
  from lost_wakeup [OF mgr_a(1) this, of "''b''" ?sc, OF _ _ _ _ _ _ prod.collapse [symmetric]]
  show ?thesis by (simp add: mgr_a(3) del: run_op.simps)
qed

text \<open>C21: \<open>AcquireMultiple\<close> of a named agent, for paths without white space and while no other operation runs on the
  manager.  On success the
  agent owns every normalised path and no other entry has changed.  On failure there is an
  initial part of the sorted paths whose entries are gone, and every other entry is as before
  the call: no path is left locked by the call.\<close>

theorem acquire_multiple_all_or_nothing:
  assumes "lock_inv m" "agent \<noteq> []" "list_all quiet scs"
    and "\<forall>path \<in> set paths. \<forall>c \<in> set path. \<not> is_space c"
    and "AcquireMultiple agent task paths ttl deadline finish scs m = (out, m')"
  shows "(succeeded out \<longrightarrow> (\<forall>p \<in> set (normalizeLockPaths paths). owner m' p = Some agent) \<and>
            (\<forall>q. q \<notin> set (normalizeLockPaths paths) \<longrightarrow> lock_on m' q = lock_on m q)) \<and>
         (failed out \<longrightarrow> (\<exists>k < length (normalizeLockPaths paths). \<forall>q. lock_on m' q =
            (if q \<in> set (take k (normalizeLockPaths paths)) then None else lock_on m q)))"
proof (cases "normalizeLockPaths paths = []")
  case True
  then show ?thesis
    using assms(5) by (auto simp: AcquireMultiple_def succeeded_def failed_def)
next
  case False
  then have "acquire_each agent task (if ttl \<le> 0 then lm_defaultTTL m else ttl) deadline finish [] scs
      (normalizeLockPaths paths) m = (out, m')"
    using assms(5) by (simp add: AcquireMultiple_def Let_def)
  from acquire_each_quiet [OF assms(1-3) _ _ _ this] show ?thesis
    using key_paths [OF assms(4)] normalizeLockPaths_sorted by simp
qed

theorem acquire_multiple_all_or_nothing_witness:
  "owner (snd (AcquireMultiple ''a'' ''t'' [''g'', ''./f'', ''g''] 5 None 9
      [\<lparr>sc_start = 5, sc_gap = [], sc_gap2 = [], sc_wait = 5, sc_events = []\<rparr>,
       \<lparr>sc_start = 6, sc_gap = [], sc_gap2 = [], sc_wait = 6, sc_events = []\<rparr>] mgr_a)) ''g'' = Some ''a''"
proof -
  let ?scs = "[\<lparr>sc_start = 5, sc_gap = [], sc_gap2 = [], sc_wait = 5, sc_events = []\<rparr>,
       \<lparr>sc_start = 6, sc_gap = [], sc_gap2 = [], sc_wait = 6, sc_events = []\<rparr>]"
  have "list_all quiet ?scs" by (simp add: quiet_def)
  moreover have "\<forall>path \<in> set [''g'', ''./f'', ''g'']. \<forall>c \<in> set path. \<not> is_space c" by code_simp
  moreover have "fst (AcquireMultiple ''a'' ''t'' [''g'', ''./f'', ''g''] 5 None 9 ?scs mgr_a) =
      Returned (no_result\<lparr>lr_Acquired := True, lr_Lock := Some \<lparr>fl_Path = [], fl_AgentID = ''a'',
        fl_TaskID = ''t'', fl_AcquiredAt = 9, fl_ExpiresAt = 0, fl_Heartbeat = 0\<rparr>\<rparr>) None"
    by code_simp
  then have "succeeded (fst (AcquireMultiple ''a'' ''t'' [''g'', ''./f'', ''g''] 5 None 9 ?scs mgr_a))"
    by (simp add: succeeded_def)
  moreover have "normalizeLockPaths [''g'', ''./f'', ''g''] = [''f'', ''g'']" by code_simp
  ultimately show ?thesis
    using acquire_multiple_all_or_nothing [OF mgr_a(1), of "''a''" ?scs "[''g'', ''./f'', ''g'']",
        OF _ _ _ prod.collapse [symmetric]] by simp
qed

text \<open>A failed \<open>AcquireMultiple\<close> takes locks away that the agent held before the call: the
  rollback releases every path it went through, and a path the agent already owned counts as
  acquired.  Here the first path is the agent's own and another agent holds the second.\<close>

theorem acquire_multiple_drops_own_lock:
  assumes "lock_inv m" "agent \<noteq> []" "quiet sc" "quiet sc'"
    and "normalizeLockPaths paths = p # q # ps" "key_path p" "key_path q"
    and "owner m p = Some agent" "sc_start sc < fl_ExpiresAt (the (lock_on m p))"
    and "lock_on m q = Some lq" "fl_AgentID lq \<noteq> agent" "sc_start sc' < fl_ExpiresAt lq"
    and "AcquireMultiple agent task paths ttl deadline finish (sc # sc' # scs) m = (out, m')"
    and "out \<noteq> StillWaiting"
  shows "failed out \<and> lock_on m' p = None"
proof -
  obtain lp where lp: "lock_on m p = Some lp" "fl_AgentID lp = agent"
    using assms(8) by (auto simp: owner_def)
  have "p \<noteq> q" using lp assms(10,11) by auto
  define ttl' where "ttl' = (if ttl \<le> 0 then lm_defaultTTL m else ttl)"
  have each: "acquire_each agent task ttl' deadline finish [] (sc # sc' # scs) (p # q # ps) m = (out, m')"
    using assms(5,13) by (simp add: AcquireMultiple_def Let_def ttl'_def)
  obtain o1 m1 where a1: "Acquire agent task p ttl' deadline sc m = (o1, m1)" by fastforce
  have kp: "normalizeLockPath p = p" "p \<noteq> []" and kq: "normalizeLockPath q = q" "q \<noteq> []"
    using assms(6,7) by (auto simp: key_path_def)
  obtain r l where o1: "lock_inv m1" "o1 = Returned r None" "lr_Acquired r" "fl_AgentID l = agent"
      "lock_on m1 = (lock_on m)(p \<mapsto> l)"
    using Acquire_quiet [OF assms(1,3) kp assms(2) a1] lp by auto
  obtain o2 m2 where a2: "Acquire agent task q ttl' deadline sc' m1 = (o2, m2)" by fastforce
  have o2: "lock_on m2 = lock_on m1" "\<forall>r e. o2 = Returned r e \<longrightarrow> \<not> lr_Acquired r"
    using Acquire_quiet [OF o1(1) assms(4) kq assms(2) a2] o1(5) assms(10-12) \<open>p \<noteq> q\<close>
    by (auto split: if_splits)
  have "failed out \<and> m' = release_list agent [p] m2"
    using each a1 o1(2,3) a2 o2(2) assms(14)
    by (auto simp: failed_def split: acquire_outcome.splits option.splits)
  moreover have "lock_on (release_list agent [p] m2) p = None"
    using release_list_lock_on [of "[p]" m2 agent p] assms(6) o2(1) o1(4,5) by (simp add: owner_def)
  ultimately show ?thesis by simp
qed

theorem acquire_multiple_drops_own_lock_witness:
  "lock_on (snd (AcquireMultiple ''a'' ''t'' [''f'', ''g''] 5 None 9
      [\<lparr>sc_start = 5, sc_gap = [], sc_gap2 = [], sc_wait = 5, sc_events = []\<rparr>,
       \<lparr>sc_start = 6, sc_gap = [], sc_gap2 = [], sc_wait = 6, sc_events = [TimerFires (40 * second)]\<rparr>]
      (run_ops [(2, OpTry ''b'' ''t'' ''g'' 50)] mgr_a))) ''f'' = None"
proof -
  let ?m = "run_ops [(2, OpTry ''b'' ''t'' ''g'' 50)] mgr_a"
  let ?sc = "\<lparr>sc_start = 5, sc_gap = [], sc_gap2 = [], sc_wait = 5, sc_events = []\<rparr>"
  let ?sc' = "\<lparr>sc_start = 6, sc_gap = [], sc_gap2 = [], sc_wait = 6, sc_events = [TimerFires (40 * second)]\<rparr>"
  let ?lq = "\<lparr>fl_Path = ''g'', fl_AgentID = ''b'', fl_TaskID = ''t'', fl_AcquiredAt = 2,
     fl_ExpiresAt = 52, fl_Heartbeat = 2\<rparr>"
  have inv: "lock_inv ?m" using mgr_a(1) by (rule lock_inv_run_ops) simp
  have 1: "quiet ?sc" "quiet ?sc'" by (simp_all add: quiet_def)
  have 2: "normalizeLockPaths [''f'', ''g''] = [''f'', ''g'']" by code_simp
  have 3: "key_path ''f''" "key_path ''g''" "owner ?m ''f'' = Some ''a''" by code_simp+
  have 4: "lock_on ?m ''f'' = Some lock_a" "lock_on ?m ''g'' = Some ?lq" by code_simp+
  have 5: "fst (AcquireMultiple ''a'' ''t'' [''f'', ''g''] 5 None 9 [?sc, ?sc'] ?m) \<noteq> StillWaiting"
    by code_simp
  show ?thesis
    using acquire_multiple_drops_own_lock [OF inv _ 1 2 3 _ 4(2) _ _ prod.collapse [symmetric] 5]
    by (simp add: 4(1))
qed

text \<open>Normalising a list of paths gives a strictly sorted list of the non-empty normal forms,
  without duplicates; for paths without white space, normalising again changes nothing.\<close>

theorem normalize_lock_paths_spec:
  "sorted (normalizeLockPaths paths) \<and> distinct (normalizeLockPaths paths) \<and>
   set (normalizeLockPaths paths) = normalizeLockPath ` set paths - {[]} \<and>
   ((\<forall>path \<in> set paths. \<forall>c \<in> set path. \<not> is_space c) \<longrightarrow>
      normalizeLockPaths (normalizeLockPaths paths) = normalizeLockPaths paths)"
proof -
  have set: "set (normalizeLockPaths xs) = normalizeLockPath ` set xs - {[]}" for xs
    using dedupe_paths_spec [of "[]" xs] by (simp add: normalizeLockPaths_def)
  have "normalizeLockPaths (normalizeLockPaths paths) = normalizeLockPaths paths"
    if "\<forall>path \<in> set paths. \<forall>c \<in> set path. \<not> is_space c"
  proof (rule sorted_distinct_set_unique)
    have "normalizeLockPath ` set (normalizeLockPaths paths) = set (normalizeLockPaths paths)"
      "[] \<notin> set (normalizeLockPaths paths)"
      using key_paths [OF that] by (force simp: key_path_def)+
    then show "set (normalizeLockPaths (normalizeLockPaths paths)) = set (normalizeLockPaths paths)"
      by (simp add: set)
  qed (rule normalizeLockPaths_sorted)+
  then show ?thesis using set normalizeLockPaths_sorted by blast
qed

theorem normalize_lock_paths_spec_witness:
  "normalizeLockPaths (normalizeLockPaths [''b/../a'', ''./a'', ''c'']) = normalizeLockPaths [''b/../a'', ''./a'', ''c'']"
proof -
  have "\<forall>path \<in> set [''b/../a'', ''./a'', ''c'']. \<forall>c \<in> set path. \<not> is_space c" by code_simp
  then show ?thesis using normalize_lock_paths_spec [of "[''b/../a'', ''./a'', ''c'']"] by blast
qed

text \<open>White space inside a path gives it two keys.  \<open>Acquire\<close> normalises its argument once,
  \<open>AcquireMultiple\<close> normalises it and hands the result to \<open>Acquire\<close>, which normalises it again,
  and the second pass can strip a space that cleaning has moved to the front: two agents can
  lock the same path at once, one through each entry point.\<close>

theorem same_path_two_owners:
  assumes "sc_start s1 = t1" "sc_start s2 = t2" "t2 < t1 + ttl" "0 < ttl"
    and "m0 = fst (NewFileLockManager cfg)"
    and "Acquire ''a'' ''t'' ''x/../ f'' ttl d1 s1 m0 = (o1, m1)"
    and "AcquireMultiple ''b'' ''t'' [''x/../ f''] ttl d2 fin [s2] m1 = (o2, m2)"
  shows "succeeded o1 \<and> succeeded o2 \<and> ListLocksForAgent t2 ''a'' m2 \<noteq> [] \<and>
         ListLocksForAgent t2 ''b'' m2 \<noteq> []"
proof -
  have n: "normalizeLockPath ''x/../ f'' = '' f''" "normalizeLockPath '' f'' = ''f''"
    "normalizeLockPaths [''x/../ f''] = ['' f'']" by code_simp+
  have 1: "o1 = Returned (no_result\<lparr>lr_Acquired := True, lr_Lock := Some \<lparr>fl_Path = '' f'', fl_AgentID = ''a'',
       fl_TaskID = ''t'', fl_AcquiredAt = t1, fl_ExpiresAt = t1 + ttl, fl_Heartbeat = t1\<rparr>\<rparr>) None"
    "lm_locks m1 = [('' f'', \<lparr>fl_Path = '' f'', fl_AgentID = ''a'',
       fl_TaskID = ''t'', fl_AcquiredAt = t1, fl_ExpiresAt = t1 + ttl, fl_Heartbeat = t1\<rparr>)]"
    using assms(1,4-6) by (auto simp: Acquire_def n tryAcquire_def lock_on_def NewFileLockManager_def Let_def)
  then have "lock_on m1 ''f'' = None" by (simp add: lock_on_def)
  then have 2: "succeeded o2" "lm_locks m2 = lm_locks m1 @ [(''f'', \<lparr>fl_Path = ''f'', fl_AgentID = ''b'',
       fl_TaskID = ''t'', fl_AcquiredAt = t2, fl_ExpiresAt = t2 + ttl, fl_Heartbeat = t2\<rparr>)]"
    using assms(2,4,7) 1(2)
    by (auto simp: AcquireMultiple_def Acquire_def n tryAcquire_def Let_def succeeded_def)
  show ?thesis
    using 1 2 assms(3,4) by (simp add: succeeded_def ListLocksForAgent_def)
qed

theorem same_path_two_owners_witness:
  "ListLocksForAgent 2 ''b'' (snd (AcquireMultiple ''b'' ''t'' [''x/../ f''] 5 None 9
     [\<lparr>sc_start = 2, sc_gap = [], sc_gap2 = [], sc_wait = 2, sc_events = []\<rparr>]
     (snd (Acquire ''a'' ''t'' ''x/../ f'' 5 None
       \<lparr>sc_start = 1, sc_gap = [], sc_gap2 = [], sc_wait = 1, sc_events = []\<rparr>
       (fst (NewFileLockManager DefaultFileLockConfig)))))) \<noteq> []"
  using same_path_two_owners [OF _ _ _ _ refl prod.collapse [symmetric] prod.collapse [symmetric],
      of "\<lparr>sc_start = 1, sc_gap = [], sc_gap2 = [], sc_wait = 1, sc_events = []\<rparr>" 1
         "\<lparr>sc_start = 2, sc_gap = [], sc_gap2 = [], sc_wait = 2, sc_events = []\<rparr>" 2 5]
  by (simp del: One_nat_def)

text \<open>The second normalisation also breaks the order in which \<open>AcquireMultiple\<close> takes its paths: sorted by their first normal forms
  the space comes before the letters, so one call takes \<open>f\<close> before \<open>a\<close> and another \<open>a\<close> before \<open>f\<close>.  Here two agents
  hold one of the two each and wait for the other's.\<close>

abbreviation plain_schedule :: "go_time \<Rightarrow> schedule" where
  "plain_schedule t \<equiv> \<lparr>sc_start = t, sc_gap = [], sc_gap2 = [], sc_wait = t, sc_events = []\<rparr>"

definition crossed_first :: "acquire_outcome \<times> FileLockManager" where
  "crossed_first = AcquireMultiple ''a1'' ''t'' [''a'', ''x/../ f''] 100 None 9 [plain_schedule 1] (fst (NewFileLockManager DefaultFileLockConfig))"

definition crossed :: "acquire_outcome \<times> FileLockManager" where
  "crossed = AcquireMultiple ''a2'' ''t'' [''a'', ''f''] 100 None 9 [plain_schedule 2, plain_schedule 3] (snd crossed_first)"

theorem lock_orders_cross:
  "fst crossed_first = StillWaiting \<and> fst crossed = StillWaiting \<and>
   owner (snd crossed) ''f'' = Some ''a1'' \<and> owner (snd crossed) ''a'' = Some ''a2'' \<and>
   fst (tryAcquire 4 ''a1'' ''t'' ''a'' 100 (snd crossed)) = None \<and> fst (tryAcquire 4 ''a2'' ''t'' ''f'' 100 (snd crossed)) = None"
  by (intro conjI; code_simp)

text \<open>The instant of expiry.  At exactly \<open>ExpiresAt\<close> the queries disagree: \<open>GetLock\<close> still
  returns the lock and the cleanup keeps it, while \<open>IsLocked\<close> says no and another agent's attempt
  takes it over; at every other time \<open>GetLock\<close> and \<open>IsLocked\<close> agree.\<close>

theorem expiry_instant:
  assumes "lock_inv m" "lock_on m (normalizeLockPath path) = Some l"
  shows "(now \<noteq> fl_ExpiresAt l \<longrightarrow> (GetLock now path m \<noteq> None) = IsLocked now path m) \<and>
     (now = fl_ExpiresAt l \<longrightarrow> GetLock now path m = Some l \<and> \<not> IsLocked now path m \<and>
        lock_on (cleanup now m) (normalizeLockPath path) = Some l \<and>
        fst (tryAcquire now agent task (normalizeLockPath path) ttl m) \<noteq> None)"
  using assms unfolding tryAcquire_succeeds_iff
  by (simp add: GetLock_def IsLocked_def lock_on_cleanup)

theorem expiry_instant_witness: "GetLock 11 ''f'' mgr_a = Some lock_a \<and> \<not> IsLocked 11 ''f'' mgr_a"
proof -
  have "lock_on mgr_a (normalizeLockPath ''f'') = Some lock_a" by (simp add: mgr_a)
  from expiry_instant [OF mgr_a(1) this, of 11] show ?thesis by simp
qed

end
