(* ===== verification/Conflict_Detector.thy ===== *)
theory Conflict_Detector
  imports Exclusive_Locks "HOL-Library.AList"
begin

text \<open>
  The conflict detector of package \<open>rlm\<close> (src/pkg/rlm/conflict.go): reentrant read and write
  locks on paths, taken by tasks.  A Go map is an association list whose order stands for the
  unspecified iteration order (\<open>AcquireWrite\<close> reports the first foreign reader it meets).

  Shown here: readers and writers exclude each other in every reachable state, exactly which
  requests are granted, that the reentrancy counts balance, that \<open>ReleaseAll\<close> removes a task and
  nothing else, and that the write locks satisfy the contract of \<open>Exclusive_Locks\<close>.
\<close>

section \<open>State and operations\<close>

record resourceLock =
  rl_readers :: "(string \<times> int) list"
  rl_writer :: string
  rl_writerCount :: int

type_synonym ConflictDetector = "(string \<times> resourceLock) list"

datatype conflict_error = InvalidReadLock | InvalidWriteLock
  | LockConflictError string string string \<comment> \<open>path, holder, mode\<close>

definition NewConflictDetector :: ConflictDetector where
  "NewConflictDetector = []"

definition normalizeLockInputs :: "string \<Rightarrow> string \<Rightarrow> string \<times> string" where
  "normalizeLockInputs taskID path =
     (let t = trim_space taskID; p = trim_space path
      in if p = [] then (t, [])
         else let q = clean p in if q = ''.'' then (t, []) else (t, q))"

definition no_lock :: resourceLock where
  "no_lock = \<lparr>rl_readers = [], rl_writer = [], rl_writerCount = 0\<rparr>"

text \<open>\<open>lockFor\<close> returns the entry of the table, a new one when there is none.\<close>

definition lockFor :: "string \<Rightarrow> ConflictDetector \<Rightarrow> resourceLock \<times> ConflictDetector" where
  "lockFor path c =
     (case map_of c path of
        Some lock \<Rightarrow> (lock, c)
      | None \<Rightarrow> (no_lock, AList.update path no_lock c))"

definition cleanupLock :: "string \<Rightarrow> resourceLock \<Rightarrow> ConflictDetector \<Rightarrow> ConflictDetector" where
  "cleanupLock path lock c =
     (if rl_writer lock = [] \<and> rl_readers lock = [] then AList.delete path c else c)"

definition reader_count :: "resourceLock \<Rightarrow> string \<Rightarrow> int" where
  "reader_count lock t = (case map_of (rl_readers lock) t of None \<Rightarrow> 0 | Some n \<Rightarrow> n)"

definition AcquireRead ::
  "string \<Rightarrow> string \<Rightarrow> ConflictDetector \<Rightarrow> conflict_error option \<times> ConflictDetector" where
  "AcquireRead taskID0 path0 c =
     (let (taskID, path) = normalizeLockInputs taskID0 path0
      in if taskID = [] \<or> path = [] then (Some InvalidReadLock, c)
         else let (lock, c1) = lockFor path c
         in if rl_writer lock \<noteq> [] \<and> rl_writer lock \<noteq> taskID
            then (Some (LockConflictError path (rl_writer lock) ''write''), c1)
            else (None, AList.update path
                   (lock\<lparr>rl_readers := AList.update taskID (reader_count lock taskID + 1)
                            (rl_readers lock)\<rparr>) c1))"

definition AcquireWrite ::
  "string \<Rightarrow> string \<Rightarrow> ConflictDetector \<Rightarrow> conflict_error option \<times> ConflictDetector" where
  "AcquireWrite taskID0 path0 c =
     (let (taskID, path) = normalizeLockInputs taskID0 path0
      in if taskID = [] \<or> path = [] then (Some InvalidWriteLock, c)
         else let (lock, c1) = lockFor path c
         in if rl_writer lock \<noteq> [] \<and> rl_writer lock \<noteq> taskID
            then (Some (LockConflictError path (rl_writer lock) ''write''), c1)
            else case find (\<lambda>r. r \<noteq> taskID) (map fst (rl_readers lock)) of
              Some reader \<Rightarrow> (Some (LockConflictError path reader ''read''), c1)
            | None \<Rightarrow> (None, AList.update path
                   (lock\<lparr>rl_readers := AList.delete taskID (rl_readers lock), rl_writer := taskID,
                         rl_writerCount := rl_writerCount lock + 1\<rparr>) c1))"

definition ReleaseRead :: "string \<Rightarrow> string \<Rightarrow> ConflictDetector \<Rightarrow> ConflictDetector" where
  "ReleaseRead taskID0 path0 c =
     (let (taskID, path) = normalizeLockInputs taskID0 path0
      in if taskID = [] \<or> path = [] then c
         else case map_of c path of
           None \<Rightarrow> c
         | Some lock \<Rightarrow>
             let lock1 = (case map_of (rl_readers lock) taskID of
                   None \<Rightarrow> lock
                 | Some count \<Rightarrow>
                     if count \<le> 1 then lock\<lparr>rl_readers := AList.delete taskID (rl_readers lock)\<rparr>
                     else lock\<lparr>rl_readers := AList.update taskID (count - 1) (rl_readers lock)\<rparr>)
             in cleanupLock path lock1 (AList.update path lock1 c))"

definition ReleaseWrite :: "string \<Rightarrow> string \<Rightarrow> ConflictDetector \<Rightarrow> ConflictDetector" where
  "ReleaseWrite taskID0 path0 c =
     (let (taskID, path) = normalizeLockInputs taskID0 path0
      in if taskID = [] \<or> path = [] then c
         else case map_of c path of
           None \<Rightarrow> c
         | Some lock \<Rightarrow>
             if rl_writer lock \<noteq> taskID then c
             else let lock1 = (if rl_writerCount lock > 1
                     then lock\<lparr>rl_writerCount := rl_writerCount lock - 1\<rparr>
                     else lock\<lparr>rl_writer := [], rl_writerCount := 0\<rparr>)
             in cleanupLock path lock1 (AList.update path lock1 c))"

definition release_task :: "string \<Rightarrow> resourceLock \<Rightarrow> resourceLock" where
  "release_task taskID lock =
     (let lock1 = lock\<lparr>rl_readers := AList.delete taskID (rl_readers lock)\<rparr>
      in if rl_writer lock1 = taskID then lock1\<lparr>rl_writer := [], rl_writerCount := 0\<rparr> else lock1)"

definition ReleaseAll :: "string \<Rightarrow> ConflictDetector \<Rightarrow> ConflictDetector" where
  "ReleaseAll taskID0 c =
     (let taskID = trim_space taskID0
      in if taskID = [] then c
         else fold (\<lambda>(path, lock) c. cleanupLock path (release_task taskID lock)
                      (AList.update path (release_task taskID lock) c)) c c)"

record LockState =
  st_Readers :: "string list"
  st_Writer :: string

definition Snapshot :: "ConflictDetector \<Rightarrow> (string \<times> LockState) list" where
  "Snapshot c = map (\<lambda>(path, lock). (path, \<lparr>st_Readers = map fst (rl_readers lock),
     st_Writer = rl_writer lock\<rparr>)) c"

text \<open>The message of \<open>LockConflictError\<close>.\<close>

fun LockConflictError_Error :: "conflict_error \<Rightarrow> string" where
  "LockConflictError_Error (LockConflictError path holder mode) =
     ''lock conflict on '' @ path @ '' (held '' @ mode @ '' by '' @ holder @ '')''"
| "LockConflictError_Error InvalidReadLock = ''invalid read lock: taskID and path required''"
| "LockConflictError_Error InvalidWriteLock = ''invalid write lock: taskID and path required''"

section \<open>The lock of a path\<close>

definition lock_at :: "ConflictDetector \<Rightarrow> string \<Rightarrow> resourceLock" where
  "lock_at c p = (case map_of c p of None \<Rightarrow> no_lock | Some l \<Rightarrow> l)"

definition held :: "resourceLock \<Rightarrow> bool" where
  "held l \<longleftrightarrow> rl_writer l \<noteq> [] \<or> rl_readers l \<noteq> []"

text \<open>A well-formed lock: every reader has a positive count, there is a writer exactly when the
  writer count is positive, and a writer excludes every other reader.\<close>

definition lock_wf :: "resourceLock \<Rightarrow> bool" where
  "lock_wf l \<longleftrightarrow>
     distinct (map fst (rl_readers l)) \<and> (\<forall>(r, n) \<in> set (rl_readers l). r \<noteq> [] \<and> 1 \<le> n) \<and>
     0 \<le> rl_writerCount l \<and> (rl_writer l = [] \<longleftrightarrow> rl_writerCount l = 0) \<and>
     (rl_writer l \<noteq> [] \<longrightarrow> fst ` set (rl_readers l) \<subseteq> {rl_writer l})"

definition det_inv :: "ConflictDetector \<Rightarrow> bool" where
  "det_inv c \<longleftrightarrow> distinct (map fst c) \<and> (\<forall>(p, l) \<in> set c. p \<noteq> [] \<and> lock_wf l \<and> held l)"

lemma no_lock_simps [simp]:
  "rl_readers no_lock = []" "rl_writer no_lock = []" "rl_writerCount no_lock = 0"
  "lock_wf no_lock" "\<not> held no_lock"
  by (simp_all add: no_lock_def lock_wf_def held_def)

lemma lock_at_update [simp]: "lock_at (AList.update p l c) q = (if q = p then l else lock_at c q)"
  by (simp add: lock_at_def update_conv')

lemma lock_at_delete [simp]: "lock_at (AList.delete p c) q = (if q = p then no_lock else lock_at c q)"
  by (simp add: lock_at_def delete_conv')

lemma lock_wf_not_held: "lock_wf l \<Longrightarrow> \<not> held l \<Longrightarrow> l = no_lock"
  by (cases l) (auto simp: lock_wf_def held_def no_lock_def)

lemma lock_at_cleanup:
  "lock_wf l \<Longrightarrow> lock_at (cleanupLock p l (AList.update p l c)) q = (if q = p then l else lock_at c q)"
  using lock_wf_not_held [of l] by (auto simp: cleanupLock_def held_def)

lemma lock_at_wf: "det_inv c \<Longrightarrow> lock_wf (lock_at c p)"
  by (auto simp: lock_at_def det_inv_def split: option.split dest!: map_of_SomeD)

lemma map_of_held: "det_inv c \<Longrightarrow> map_of c p = None \<longleftrightarrow> \<not> held (lock_at c p)"
  by (auto simp: lock_at_def det_inv_def split: option.split dest!: map_of_SomeD)

lemma lockFor_eq: "fst (lockFor p c) = lock_at c p" "lock_at (snd (lockFor p c)) q = lock_at c q"
  by (auto simp: lockFor_def lock_at_def update_conv' split: option.split)

lemma lockFor_held: "held (lock_at c p) \<Longrightarrow> snd (lockFor p c) = c"
  by (auto simp: lockFor_def lock_at_def split: option.split)

lemma update_lockFor: "AList.update p l (snd (lockFor p c)) = AList.update p l c"
  by (auto simp: lockFor_def split: option.split)

lemma det_inv_put:
  "det_inv c \<Longrightarrow> p \<noteq> [] \<Longrightarrow> lock_wf l \<Longrightarrow> held l \<Longrightarrow> det_inv (AList.update p l c)"
  using set_AList_update [of p l c] by (fastforce simp: det_inv_def distinct_update)

lemma det_inv_cleanup:
  assumes "det_inv c" "p \<noteq> []" "lock_wf l"
  shows "det_inv (cleanupLock p l (AList.update p l c))"
proof (cases "held l")
  case True
  with assms show ?thesis by (auto simp: cleanupLock_def held_def intro: det_inv_put)
next
  case False
  have "(q, x) \<in> set (AList.delete p (AList.update p l c)) \<Longrightarrow> (q, x) \<in> set c" for q x
    using set_AList_update [of p l c] by (auto simp: AList.delete_eq)
  with False assms(1) show ?thesis
    by (fastforce simp: cleanupLock_def held_def det_inv_def distinct_delete distinct_update)
qed

section \<open>What each operation does to the locks\<close>

definition valid_key :: "string \<Rightarrow> string \<Rightarrow> bool" where
  "valid_key t p \<longleftrightarrow> t \<noteq> [] \<and> p \<noteq> [] \<and> normalizeLockInputs t p = (t, p)"

definition can_read :: "string \<Rightarrow> resourceLock \<Rightarrow> bool" where
  "can_read t l \<longleftrightarrow> rl_writer l = [] \<or> rl_writer l = t"

definition can_write :: "string \<Rightarrow> resourceLock \<Rightarrow> bool" where
  "can_write t l \<longleftrightarrow> can_read t l \<and> (\<forall>r \<in> fst ` set (rl_readers l). r = t)"

definition read_by :: "string \<Rightarrow> resourceLock \<Rightarrow> resourceLock" where
  "read_by t l = l\<lparr>rl_readers := AList.update t (reader_count l t + 1) (rl_readers l)\<rparr>"

definition write_by :: "string \<Rightarrow> resourceLock \<Rightarrow> resourceLock" where
  "write_by t l = l\<lparr>rl_readers := AList.delete t (rl_readers l), rl_writer := t,
     rl_writerCount := rl_writerCount l + 1\<rparr>"

definition unread_by :: "string \<Rightarrow> resourceLock \<Rightarrow> resourceLock" where
  "unread_by t l = (case map_of (rl_readers l) t of
       None \<Rightarrow> l
     | Some n \<Rightarrow> if n \<le> 1 then l\<lparr>rl_readers := AList.delete t (rl_readers l)\<rparr>
                 else l\<lparr>rl_readers := AList.update t (n - 1) (rl_readers l)\<rparr>)"

definition unwrite_by :: "string \<Rightarrow> resourceLock \<Rightarrow> resourceLock" where
  "unwrite_by t l = (if rl_writer l \<noteq> t then l
     else if rl_writerCount l > 1 then l\<lparr>rl_writerCount := rl_writerCount l - 1\<rparr>
     else l\<lparr>rl_writer := [], rl_writerCount := 0\<rparr>)"

lemma lock_wf_read_by: "lock_wf l \<Longrightarrow> t \<noteq> [] \<Longrightarrow> can_read t l \<Longrightarrow> lock_wf (read_by t l) \<and> held (read_by t l)"
proof -
  assume wf: "lock_wf l" and t: "t \<noteq> []" "can_read t l"
  have "0 \<le> reader_count l t"
    using wf by (auto simp: reader_count_def lock_wf_def split: option.split dest!: map_of_SomeD)
  then show ?thesis
    using wf t set_AList_update [of t "reader_count l t + 1" "rl_readers l"]
    by (fastforce simp: read_by_def lock_wf_def held_def can_read_def distinct_update)
qed

lemma delete_only: "fst ` set xs \<subseteq> {t} \<Longrightarrow> AList.delete t xs = []"
  by (auto simp: AList.delete_eq filter_empty_conv)

lemma lock_wf_write_by:
  "lock_wf l \<Longrightarrow> t \<noteq> [] \<Longrightarrow> can_write t l \<Longrightarrow> lock_wf (write_by t l) \<and> held (write_by t l)"
  using delete_only [of "rl_readers l" t]
  by (fastforce simp: write_by_def lock_wf_def held_def can_write_def)

lemma lock_wf_readers:
  assumes "lock_wf l" "distinct (map fst rs)" "\<forall>(r, n) \<in> set rs. 1 \<le> n"
    and "fst ` set rs \<subseteq> fst ` set (rl_readers l)"
  shows "lock_wf (l\<lparr>rl_readers := rs\<rparr>)"
proof -
  have "\<forall>(r, n) \<in> set rs. r \<noteq> []" using assms(1,4) by (fastforce simp: lock_wf_def)
  moreover have "fst ` set rs \<subseteq> {rl_writer l}" if "rl_writer l \<noteq> []"
    using assms(1,4) that unfolding lock_wf_def by blast
  ultimately show ?thesis using assms unfolding lock_wf_def by auto
qed

lemma lock_wf_unread_by:
  assumes "lock_wf l"
  shows "lock_wf (unread_by t l)"
proof (cases "map_of (rl_readers l) t")
  case (Some n)
  have wf: "distinct (map fst (rl_readers l))" "\<forall>(r, n) \<in> set (rl_readers l). 1 \<le> n"
    using assms by (auto simp: lock_wf_def)
  have t: "(t, n) \<in> set (rl_readers l)" using Some by (rule map_of_SomeD)
  have "lock_wf (l\<lparr>rl_readers := AList.delete t (rl_readers l)\<rparr>)"
    using assms wf by (intro lock_wf_readers) (auto simp: AList.delete_eq distinct_map_filter)
  moreover have "lock_wf (l\<lparr>rl_readers := AList.update t (n - 1) (rl_readers l)\<rparr>)" if "1 < n"
  proof (rule lock_wf_readers [OF assms])
    show "\<forall>(r, n) \<in> set (AList.update t (n - 1) (rl_readers l)). 1 \<le> n"
      using wf(2) that set_AList_update [of t "n - 1" "rl_readers l"] by auto
    show "fst ` set (AList.update t (n - 1) (rl_readers l)) \<subseteq> fst ` set (rl_readers l)"
      using set_AList_update [of t "n - 1" "rl_readers l"] t by force
  qed (simp add: distinct_update wf(1))
  ultimately show ?thesis using Some by (simp add: unread_by_def)
qed (use assms in \<open>simp add: unread_by_def\<close>)

lemma lock_wf_unwrite_by: "lock_wf l \<Longrightarrow> t \<noteq> [] \<Longrightarrow> lock_wf (unwrite_by t l)"
  by (auto simp: unwrite_by_def lock_wf_def)

lemma find_other_reader:
  "find (\<lambda>r. r \<noteq> t) rs = None \<longleftrightarrow> (\<forall>r \<in> set rs. r = t)"
  by (auto simp: find_None_iff)

lemma find_Some_member: "find P xs = Some x \<Longrightarrow> x \<in> set xs \<and> P x"
  by (auto simp: find_Some_iff)

lemma AcquireRead_eq:
  assumes "normalizeLockInputs t0 p0 = (t, p)" "t \<noteq> []" "p \<noteq> []"
  shows "AcquireRead t0 p0 c =
     (if can_read t (lock_at c p) then (None, AList.update p (read_by t (lock_at c p)) c)
      else (Some (LockConflictError p (rl_writer (lock_at c p)) ''write''), c))"
  using assms lockFor_held [of c p]
  by (auto simp: AcquireRead_def lockFor_eq update_lockFor can_read_def read_by_def held_def split_beta)

lemma AcquireWrite_eq:
  assumes "normalizeLockInputs t0 p0 = (t, p)" "t \<noteq> []" "p \<noteq> []"
  shows "AcquireWrite t0 p0 c =
     (if can_write t (lock_at c p) then (None, AList.update p (write_by t (lock_at c p)) c)
      else if can_read t (lock_at c p)
      then (Some (LockConflictError p (the (find (\<lambda>r. r \<noteq> t) (map fst (rl_readers (lock_at c p))))) ''read''), c)
      else (Some (LockConflictError p (rl_writer (lock_at c p)) ''write''), c))"
proof -
  have "held (lock_at c p)" if "\<not> can_write t (lock_at c p)"
    using that by (auto simp: can_write_def can_read_def held_def)
  with lockFor_held [of c p] have c: "\<not> can_write t (lock_at c p) \<Longrightarrow> snd (lockFor p c) = c" by blast
  have "can_write t (lock_at c p) \<longleftrightarrow> can_read t (lock_at c p) \<and>
      find (\<lambda>r. r \<noteq> t) (map fst (rl_readers (lock_at c p))) = None"
    by (auto simp: can_write_def find_other_reader)
  with assms c show ?thesis
    by (auto simp: AcquireWrite_def lockFor_eq update_lockFor can_read_def write_by_def split_beta
        split: option.split)
qed

lemma ReleaseRead_eq:
  assumes "det_inv c" "normalizeLockInputs t0 p0 = (t, p)" "t \<noteq> []" "p \<noteq> []"
  shows "lock_at (ReleaseRead t0 p0 c) = (lock_at c)(p := unread_by t (lock_at c p)) \<and>
         det_inv (ReleaseRead t0 p0 c)"
proof (cases "map_of c p")
  case None
  then have "lock_at c p = no_lock" by (simp add: lock_at_def)
  with None assms show ?thesis by (auto simp: ReleaseRead_def unread_by_def)
next
  case (Some l)
  then have l: "lock_at c p = l" by (simp add: lock_at_def)
  then have wf: "lock_wf (unread_by t l)" using lock_at_wf [OF assms(1), of p] by (simp add: lock_wf_unread_by)
  have "ReleaseRead t0 p0 c = cleanupLock p (unread_by t l) (AList.update p (unread_by t l) c)"
    using Some assms by (simp add: ReleaseRead_def unread_by_def Let_def)
  with l wf assms show ?thesis by (auto simp: lock_at_cleanup det_inv_cleanup fun_eq_iff)
qed

lemma ReleaseWrite_eq:
  assumes "det_inv c" "normalizeLockInputs t0 p0 = (t, p)" "t \<noteq> []" "p \<noteq> []"
  shows "lock_at (ReleaseWrite t0 p0 c) = (lock_at c)(p := unwrite_by t (lock_at c p)) \<and>
         det_inv (ReleaseWrite t0 p0 c)"
proof (cases "map_of c p")
  case None
  then have "lock_at c p = no_lock" by (simp add: lock_at_def)
  with None assms show ?thesis by (auto simp: ReleaseWrite_def unwrite_by_def)
next
  case (Some l)
  then have l: "lock_at c p = l" by (simp add: lock_at_def)
  then have wf: "lock_wf (unwrite_by t l)"
    using lock_at_wf [OF assms(1), of p] assms(3) by (simp add: lock_wf_unwrite_by)
  have "ReleaseWrite t0 p0 c = (if rl_writer l \<noteq> t then c
      else cleanupLock p (unwrite_by t l) (AList.update p (unwrite_by t l) c))"
    using Some assms by (simp add: ReleaseWrite_def unwrite_by_def Let_def)
  moreover have "rl_writer l \<noteq> t \<Longrightarrow> unwrite_by t l = l" by (simp add: unwrite_by_def)
  ultimately show ?thesis using l wf assms by (auto simp: lock_at_cleanup det_inv_cleanup fun_eq_iff)
qed

lemma lock_wf_release_task: "lock_wf l \<Longrightarrow> t \<noteq> [] \<Longrightarrow> lock_wf (release_task t l)"
proof -
  assume wf: "lock_wf l" and t: "t \<noteq> []"
  have "lock_wf (l\<lparr>rl_readers := AList.delete t (rl_readers l)\<rparr>)"
    using wf by (intro lock_wf_readers) (auto simp: lock_wf_def AList.delete_eq distinct_map_filter)
  with t show ?thesis by (auto simp: release_task_def Let_def lock_wf_def)
qed

lemma ReleaseAll_fold:
  assumes "t \<noteq> []" "distinct (map fst xs)" "\<forall>(p, l) \<in> set xs. p \<noteq> [] \<and> lock_wf l" "det_inv c"
  shows "det_inv (fold (\<lambda>(p, l) c. cleanupLock p (release_task t l) (AList.update p (release_task t l) c)) xs c) \<and>
     lock_at (fold (\<lambda>(p, l) c. cleanupLock p (release_task t l) (AList.update p (release_task t l) c)) xs c) q =
       (case map_of xs q of None \<Rightarrow> lock_at c q | Some l \<Rightarrow> release_task t l)"
  using assms
proof (induction xs arbitrary: c)
  case (Cons x xs)
  obtain p l where x: "x = (p, l)" by fastforce
  let ?c = "cleanupLock p (release_task t l) (AList.update p (release_task t l) c)"
  have wf: "lock_wf (release_task t l)" "p \<noteq> []"
    using Cons.prems x by (auto simp: lock_wf_release_task)
  have "det_inv ?c" using Cons.prems(4) wf by (simp add: det_inv_cleanup)
  moreover have "map_of xs p = None" using Cons.prems(2) x by (simp add: map_of_eq_None_iff)
  ultimately show ?case
    using Cons x wf(1) by (auto simp: lock_at_cleanup split: option.split)
qed simp

lemma ReleaseAll_eq:
  assumes "det_inv c" "trim_space t0 = t" "t \<noteq> []"
  shows "det_inv (ReleaseAll t0 c) \<and> lock_at (ReleaseAll t0 c) p = release_task t (lock_at c p)"
proof -
  have "release_task t no_lock = no_lock"
    using assms(3) by (simp add: release_task_def no_lock_def)
  moreover have "\<forall>(p, l) \<in> set c. p \<noteq> [] \<and> lock_wf l" "distinct (map fst c)"
    using assms(1) by (auto simp: det_inv_def)
  ultimately show ?thesis
    using ReleaseAll_fold [OF assms(3) _ _ assms(1), of c p] assms(2,3)
    by (auto simp: ReleaseAll_def Let_def lock_at_def [of c p] split: option.split)
qed

section \<open>Runs of the detector\<close>

inductive det_step :: "ConflictDetector \<Rightarrow> ConflictDetector \<Rightarrow> bool" where
  step_read: "det_step c (snd (AcquireRead t p c))"
| step_write: "det_step c (snd (AcquireWrite t p c))"
| step_unread: "det_step c (ReleaseRead t p c)"
| step_unwrite: "det_step c (ReleaseWrite t p c)"
| step_release_all: "det_step c (ReleaseAll t c)"

lemma det_inv_AcquireRead:
  assumes "det_inv c"
  shows "det_inv (snd (AcquireRead t0 p0 c))"
proof -
  obtain t p where n: "normalizeLockInputs t0 p0 = (t, p)" by fastforce
  show ?thesis
  proof (cases "t = [] \<or> p = []")
    case True
    with n assms show ?thesis by (auto simp: AcquireRead_def)
  next
    case False
    then show ?thesis
      using assms AcquireRead_eq [OF n, of c] lock_wf_read_by [OF lock_at_wf [OF assms]] det_inv_put [OF assms]
      by simp
  qed
qed

lemma det_inv_AcquireWrite:
  assumes "det_inv c"
  shows "det_inv (snd (AcquireWrite t0 p0 c))"
proof -
  obtain t p where n: "normalizeLockInputs t0 p0 = (t, p)" by fastforce
  show ?thesis
  proof (cases "t = [] \<or> p = []")
    case True
    with n assms show ?thesis by (auto simp: AcquireWrite_def)
  next
    case False
    then show ?thesis
      using assms AcquireWrite_eq [OF n, of c] lock_wf_write_by [OF lock_at_wf [OF assms]] det_inv_put [OF assms]
      by simp
  qed
qed

lemma det_inv_release:
  assumes "det_inv c"
  shows "det_inv (ReleaseRead t0 p0 c)" "det_inv (ReleaseWrite t0 p0 c)" "det_inv (ReleaseAll t0 c)"
proof -
  obtain t p where n: "normalizeLockInputs t0 p0 = (t, p)" by fastforce
  show "det_inv (ReleaseRead t0 p0 c)"
    using assms ReleaseRead_eq [OF assms n] n by (cases "t = [] \<or> p = []") (auto simp: ReleaseRead_def)
  show "det_inv (ReleaseWrite t0 p0 c)"
    using assms ReleaseWrite_eq [OF assms n] n by (cases "t = [] \<or> p = []") (auto simp: ReleaseWrite_def)
  show "det_inv (ReleaseAll t0 c)"
    using assms ReleaseAll_eq [OF assms refl, of t0] by (cases "trim_space t0 = []") (auto simp: ReleaseAll_def)
qed

lemma det_step_inv: "det_inv c \<Longrightarrow> det_step c c' \<Longrightarrow> det_inv c'"
  by (auto elim!: det_step.cases intro: det_inv_AcquireRead det_inv_AcquireWrite det_inv_release)

lemma det_inv_new: "det_inv NewConflictDetector"
  by (simp add: NewConflictDetector_def det_inv_def)

interpretation det: transition_system "\<lambda>c. c = NewConflictDetector" det_step det_inv
  by unfold_locales (auto intro: det_inv_new det_step_inv)

text \<open>The write locks as a service of exclusive locks: the holder of a path is its writer.\<close>

definition writer_of :: "ConflictDetector \<Rightarrow> string \<Rightarrow> string option" where
  "writer_of c p = (if rl_writer (lock_at c p) = [] then None else Some (rl_writer (lock_at c p)))"

definition grab_write :: "string \<Rightarrow> string \<Rightarrow> ConflictDetector \<Rightarrow> bool \<times> ConflictDetector" where
  "grab_write t p c = (case AcquireWrite t p c of (err, c') \<Rightarrow> (err = None, c'))"

lemma grab_write_eq:
  "valid_key t p \<Longrightarrow> grab_write t p c =
     (if can_write t (lock_at c p) then (True, AList.update p (write_by t (lock_at c p)) c) else (False, c))"
  unfolding grab_write_def valid_key_def by (subst AcquireWrite_eq) auto

lemma ReleaseWrite_valid:
  "valid_key t p \<Longrightarrow> det_inv c \<Longrightarrow>
   lock_at (ReleaseWrite t p c) = (lock_at c)(p := unwrite_by t (lock_at c p)) \<and> det_inv (ReleaseWrite t p c)"
  using ReleaseWrite_eq [of c t p t p] by (simp add: valid_key_def)

interpretation wl: exclusive_locks det_inv valid_key writer_of grab_write ReleaseWrite
proof
  fix c t p
  assume c: "det_inv c" and v: "valid_key t p"
  note rel = ReleaseWrite_valid [OF v c]
  have t: "t \<noteq> []" "p \<noteq> []" using v by (auto simp: valid_key_def)
  show "det_inv (snd (grab_write t p c))"
    using det_inv_AcquireWrite [OF c, of t p] by (simp add: grab_write_def split_beta)
  show "det_inv (ReleaseWrite t p c)" using rel by simp
  show "writer_of (snd (grab_write t p c)) = (writer_of c)(p \<mapsto> t)" if "fst (grab_write t p c)"
    using that t by (auto simp: grab_write_eq [OF v] writer_of_def write_by_def fun_eq_iff split: if_splits)
  show "writer_of (snd (grab_write t p c)) = writer_of c" if "\<not> fst (grab_write t p c)"
    using that by (auto simp: grab_write_eq [OF v] split: if_splits)
  show "\<not> fst (grab_write t p c)" if "writer_of c p = Some b" "b \<noteq> t" for b
    using that by (auto simp: grab_write_eq [OF v] writer_of_def can_write_def can_read_def split: if_splits)
  show "writer_of (ReleaseWrite t p c) q = writer_of c q" if "q \<noteq> p" for q
    using rel that by (simp add: writer_of_def)
  show "writer_of (ReleaseWrite t p c) p = writer_of c p" if "writer_of c p \<noteq> Some t"
    using rel that t by (auto simp: writer_of_def unwrite_by_def split: if_splits)
  show "writer_of (ReleaseWrite t p c) p = None \<or> writer_of (ReleaseWrite t p c) p = Some t"
    if "writer_of c p = Some t"
    using rel that by (auto simp: writer_of_def unwrite_by_def split: if_splits)
qed

section \<open>Properties\<close>

text \<open>C22: Readers and writers exclude each other.  In every state the detector can reach, a path
  with a writer has no reader but that writer, every reader and every writer count is at least
  one, and the table has an entry only for paths that somebody holds.\<close>

theorem readers_writers_exclude:
  assumes "det_step\<^sup>*\<^sup>* NewConflictDetector c" "map_of c p = Some l"
  shows "(rl_writer l \<noteq> [] \<longrightarrow> (\<forall>(r, n) \<in> set (rl_readers l). r = rl_writer l) \<and> 1 \<le> rl_writerCount l) \<and>
         (\<forall>(r, n) \<in> set (rl_readers l). 1 \<le> n) \<and> (rl_writer l \<noteq> [] \<or> rl_readers l \<noteq> [])"
proof -
  have "det_inv c" using assms(1) by (rule det.reachable_inv [OF refl])
  then have wf: "lock_wf l" and "held l"
    using assms(2) by (auto simp: det_inv_def dest!: map_of_SomeD)
  have "1 \<le> rl_writerCount l" if "rl_writer l \<noteq> []"
    using wf that unfolding lock_wf_def by linarith
  with wf \<open>held l\<close> show ?thesis by (fastforce simp: lock_wf_def held_def)
qed

theorem readers_writers_exclude_witness:
  "\<exists>c l. det_step\<^sup>*\<^sup>* NewConflictDetector c \<and> map_of c ''f'' = Some l \<and> rl_writer l = ''t'' \<and>
     (\<forall>(r, n) \<in> set (rl_readers l). r = rl_writer l)"
proof -
  let ?c1 = "snd (AcquireWrite ''t'' ''f'' NewConflictDetector)"
  let ?c2 = "snd (AcquireRead ''t'' ''f'' ?c1)"
  let ?l = "\<lparr>rl_readers = [(''t'', 1)], rl_writer = ''t'', rl_writerCount = 1\<rparr>"
  have run: "det_step\<^sup>*\<^sup>* NewConflictDetector ?c2"
    by (meson converse_rtranclp_into_rtranclp det_step.step_read det_step.step_write rtranclp.rtrancl_refl)
  have l: "map_of ?c2 ''f'' = Some ?l" by code_simp
  from readers_writers_exclude [OF run l] run l show ?thesis by force
qed

text \<open>Which requests are granted.  A read lock is granted exactly when no other task has the
  write lock, a write lock exactly when no other task has a write or a read lock; a request that
  is refused names a holder and changes nothing.\<close>

theorem lock_requests_granted:
  assumes "normalizeLockInputs t0 p0 = (t, p)" "t \<noteq> []" "p \<noteq> []"
  shows "(fst (AcquireRead t0 p0 c) = None \<longleftrightarrow> rl_writer (lock_at c p) \<in> {[], t}) \<and>
    (fst (AcquireWrite t0 p0 c) = None \<longleftrightarrow> rl_writer (lock_at c p) \<in> {[], t} \<and>
       fst ` set (rl_readers (lock_at c p)) \<subseteq> {t}) \<and>
    (fst (AcquireRead t0 p0 c) \<noteq> None \<longrightarrow> snd (AcquireRead t0 p0 c) = c) \<and>
    (fst (AcquireWrite t0 p0 c) \<noteq> None \<longrightarrow> snd (AcquireWrite t0 p0 c) = c \<and>
       (\<exists>h mode. fst (AcquireWrite t0 p0 c) = Some (LockConflictError p h mode) \<and> h \<noteq> t \<and>
          (h = rl_writer (lock_at c p) \<or> h \<in> fst ` set (rl_readers (lock_at c p)))))"
proof -
  let ?l = "lock_at c p"
  have "can_read t ?l \<Longrightarrow> \<not> can_write t ?l \<Longrightarrow>
      the (find (\<lambda>r. r \<noteq> t) (map fst (rl_readers ?l))) \<in> fst ` set (rl_readers ?l) - {t}"
    by (cases "find (\<lambda>r. r \<noteq> t) (map fst (rl_readers ?l))")
      (auto simp: can_write_def find_other_reader dest: find_Some_member)
  then show ?thesis
    unfolding AcquireRead_eq [OF assms] AcquireWrite_eq [OF assms]
    by (auto simp: can_read_def can_write_def)
qed

theorem lock_requests_granted_witness:
  "fst (AcquireWrite '' b '' ''./f'' [(''f'', \<lparr>rl_readers = [(''a'', 1)], rl_writer = [], rl_writerCount = 0\<rparr>)]) \<noteq> None"
proof -
  have "normalizeLockInputs '' b '' ''./f'' = (''b'', ''f'')" by code_simp
  from lock_requests_granted [OF this] show ?thesis by (simp add: lock_at_def)
qed

text \<open>The write lock is reentrant and balanced: after \<open>n\<close> write requests and \<open>k \<le> n\<close> releases
  by the same task on a free path, the task is the writer exactly when \<open>k < n\<close>, and the path is
  free again after \<open>n\<close> releases.\<close>

theorem write_reentrancy_balanced:
  assumes "det_inv c" "valid_key t p" "map_of c p = None" "k \<le> n"
  shows "writer_of ((ReleaseWrite t p ^^ k) (((\<lambda>c. snd (AcquireWrite t p c)) ^^ n) c)) p =
           (if k < n then Some t else None) \<and>
         (k = n \<longrightarrow> map_of ((ReleaseWrite t p ^^ k) (((\<lambda>c. snd (AcquireWrite t p c)) ^^ n) c)) p = None)"
proof -
  have t: "t \<noteq> []" "p \<noteq> []" "normalizeLockInputs t p = (t, p)" using assms(2) by (auto simp: valid_key_def)
  define w :: "nat \<Rightarrow> resourceLock" where
    "w i = (if i = 0 then no_lock else \<lparr>rl_readers = [], rl_writer = t, rl_writerCount = int i\<rparr>)" for i
  have up: "det_inv (((\<lambda>c. snd (AcquireWrite t p c)) ^^ i) c) \<and>
      lock_at (((\<lambda>c. snd (AcquireWrite t p c)) ^^ i) c) p = w i" for i
  proof (induction i)
    case 0
    show ?case using assms(1,3) by (simp add: w_def lock_at_def)
  next
    case (Suc i)
    have "can_write t (w i)" "write_by t (w i) = w (Suc i)"
      by (auto simp: w_def can_write_def can_read_def write_by_def no_lock_def)
    then have "lock_at (snd (AcquireWrite t p d)) p = w (Suc i)" if "lock_at d p = w i" for d
      using that by (simp add: AcquireWrite_eq [OF t(3,1,2)])
    with Suc show ?case using det_inv_AcquireWrite by simp
  qed
  have down: "j \<le> n \<Longrightarrow> det_inv ((ReleaseWrite t p ^^ j) (((\<lambda>c. snd (AcquireWrite t p c)) ^^ n) c)) \<and>
      lock_at ((ReleaseWrite t p ^^ j) (((\<lambda>c. snd (AcquireWrite t p c)) ^^ n) c)) p = w (n - j)" for j
  proof (induction j)
    case 0
    show ?case using up by simp
  next
    case (Suc j)
    then have "unwrite_by t (w (n - j)) = w (n - Suc j)"
      using t(1) by (auto simp: w_def unwrite_by_def no_lock_def Suc_diff_Suc)
    with Suc show ?case using ReleaseWrite_valid [OF assms(2)] by simp
  qed
  show ?thesis
    using down [OF assms(4)] assms(4) t(1) map_of_held
    by (auto simp: writer_of_def w_def)
qed

theorem write_reentrancy_balanced_witness:
  "writer_of ((ReleaseWrite ''t'' ''f'' ^^ 1) (((\<lambda>c. snd (AcquireWrite ''t'' ''f'' c)) ^^ 2) [])) ''f'' = Some ''t''"
proof -
  have "valid_key ''t'' ''f''" by code_simp
  then show ?thesis
    using write_reentrancy_balanced [of "[]" "''t''" "''f''" 1 2] by (simp add: det_inv_def)
qed

text \<open>\<open>ReleaseAll\<close> removes everything a task holds and nothing else: afterwards the task is
  neither reader nor writer of any path, and the read count and the write lock of every other
  task are as before.\<close>

theorem release_all_exact:
  assumes "det_inv c" "trim_space t0 = t" "t \<noteq> []"
  shows "reader_count (lock_at (ReleaseAll t0 c) p) t = 0 \<and> rl_writer (lock_at (ReleaseAll t0 c) p) \<noteq> t \<and>
    (u \<noteq> t \<longrightarrow> reader_count (lock_at (ReleaseAll t0 c) p) u = reader_count (lock_at c p) u \<and>
       (rl_writer (lock_at c p) = u \<longrightarrow> rl_writer (lock_at (ReleaseAll t0 c) p) = u \<and>
          rl_writerCount (lock_at (ReleaseAll t0 c) p) = rl_writerCount (lock_at c p)))"
  using ReleaseAll_eq [OF assms, of p] assms(3)
  by (auto simp: release_task_def reader_count_def Let_def delete_conv')

theorem release_all_exact_witness:
  "rl_writer (lock_at (ReleaseAll '' t '' (snd (AcquireWrite ''t'' ''f'' []))) ''f'') \<noteq> ''t''"
proof -
  have "det_inv (snd (AcquireWrite ''t'' ''f'' []))" by (rule det_inv_AcquireWrite) (simp add: det_inv_def)
  moreover have "trim_space '' t '' = ''t''" by code_simp
  ultimately show ?thesis using release_all_exact [of _ "'' t ''" "''t''"] by simp
qed

text \<open>A write lock is never taken away: no sequence of write requests and write releases by
  other tasks changes the writer of a path.\<close>

theorem foreign_tasks_keep_writer:
  assumes "det_inv c" "writer_of c p = Some t"
    and "\<forall>(u, q, release) \<in> set xs. valid_key u q \<and> u \<noteq> t"
  shows "writer_of (fold (\<lambda>(u, q, release) c.
            if release then ReleaseWrite u q c else snd (AcquireWrite u q c)) xs c) p = Some t"
proof -
  let ?f = "\<lambda>(u, q, release). if release then Drop u q else Grab u q"
  have acts: "fold (\<lambda>(u, q, release) c. if release then ReleaseWrite u q c else snd (AcquireWrite u q c)) xs c =
      fold wl.act (map ?f xs) c" for c
    by (induction xs arbitrary: c) (auto simp: grab_write_def split_beta)
  have "\<forall>x \<in> set (map ?f xs). wl.action_valid x \<and> action_agent x \<noteq> t"
    using assms(3) by (auto split: if_splits)
  then show ?thesis
    unfolding acts by (rule wl.foreign_actions_keep [OF assms(1,2)])
qed

theorem foreign_tasks_keep_writer_witness:
  "writer_of (fold (\<lambda>(u, q, release) c. if release then ReleaseWrite u q c else snd (AcquireWrite u q c))
     [(''b'', ''f'', False), (''b'', ''f'', True)] (snd (AcquireWrite ''t'' ''f'' []))) ''f'' = Some ''t''"
proof (rule foreign_tasks_keep_writer)
  show "det_inv (snd (AcquireWrite ''t'' ''f'' []))" by (rule det_inv_AcquireWrite) (simp add: det_inv_def)
  show "writer_of (snd (AcquireWrite ''t'' ''f'' [])) ''f'' = Some ''t''" by code_simp
  have "valid_key ''b'' ''f''" by code_simp
  then show "\<forall>(u, q, release) \<in> set [(''b'', ''f'', False), (''b'', ''f'', True)]. valid_key u q \<and> u \<noteq> ''t''"
    by simp
qed

end
