(* ===== verification/Circuit_Breakers.thy ===== *)
theory Circuit_Breakers
  imports Go_Prelude "HOL-Library.Word"
begin

text \<open>
  The two circuit breakers of the program: package \<open>reliability\<close>
  (src/pkg/coordination/reliability/circuit_breaker.go) for the coordination layer and package
  \<open>model\<close> (src/pkg/model/circuit_breaker.go) for model providers.

  A protected call is two critical sections around the user function: admission, which may
  reject the call, and the recording of its result.  Both are atomic operations here, with the
  time read inside as an argument, so calls of several goroutines interleave as sequences of
  admissions and recordings.  In the coordination breaker the \<open>OnFailure\<close> callback runs with the
  mutex released in the middle of the recording of a failure, so that recording has two parts.
  Log output is left out; the emitted events are returned.

  Shown here: the state invariants, when calls are rejected and for how long, that enough
  failures open a circuit and enough successes close it again, what the interleaving with
  callbacks can break, and how the model breaker can lose the ability to recover.
\<close>

section \<open>What both breakers promise\<close>

text \<open>Calls made one after the other, with the list of those that were let through.\<close>

fun attempts :: "('c \<Rightarrow> 's \<Rightarrow> bool \<times> 's) \<Rightarrow> 'c list \<Rightarrow> 's \<Rightarrow> bool list \<times> 's" where
  "attempts f [] s = ([], s)"
| "attempts f (c # cs) s =
     (case f c s of (a, s1) \<Rightarrow> case attempts f cs s1 of (as, s2) \<Rightarrow> (a # as, s2))"

lemma attempts_snd: "snd (attempts f (c # cs) s) = snd (attempts f cs (snd (f c s)))"
  by (simp split: prod.splits)

text \<open>
  The contract shared by the breakers, for calls that do not overlap.  \<open>begins c\<close> is the instant
  of the admission test of a call and \<open>succeeds c\<close> the outcome of its function; \<open>reopen s\<close> is
  the first instant at which an open breaker lets a call through, and \<open>strikes s\<close> the number of
  failures after which a closed breaker opens.
\<close>

locale circuit_breaker =
  fixes inv :: "'s \<Rightarrow> bool"
    and is_closed :: "'s \<Rightarrow> bool"
    and is_open :: "'s \<Rightarrow> bool"
    and reopen :: "'s \<Rightarrow> go_time"
    and strikes :: "'s \<Rightarrow> nat"
    and begins :: "'c \<Rightarrow> go_time"
    and succeeds :: "'c \<Rightarrow> bool"
    and wf_call :: "'c \<Rightarrow> bool"
    and attempt :: "'c \<Rightarrow> 's \<Rightarrow> bool \<times> 's"
  assumes attempt_inv: "inv s \<Longrightarrow> wf_call c \<Longrightarrow> inv (snd (attempt c s))"
    and open_rejects: "inv s \<Longrightarrow> is_open s \<Longrightarrow> begins c < reopen s \<Longrightarrow>
      \<not> fst (attempt c s) \<and> is_open (snd (attempt c s)) \<and> reopen (snd (attempt c s)) = reopen s"
    and closed_admits: "inv s \<Longrightarrow> is_closed s \<Longrightarrow> fst (attempt c s)"
    and closed_success: "inv s \<Longrightarrow> is_closed s \<Longrightarrow> succeeds c \<Longrightarrow> is_closed (snd (attempt c s))"
    and closed_failure: "inv s \<Longrightarrow> is_closed s \<Longrightarrow> \<not> succeeds c \<Longrightarrow> 1 < strikes s \<Longrightarrow>
      is_closed (snd (attempt c s)) \<and> strikes (snd (attempt c s)) = strikes s - 1"
    and last_failure: "inv s \<Longrightarrow> is_closed s \<Longrightarrow> \<not> succeeds c \<Longrightarrow> strikes s \<le> 1 \<Longrightarrow>
      is_open (snd (attempt c s))"
begin

lemma open_rejects_all:
  assumes "inv s" "is_open s" "\<forall>c \<in> set cs. begins c < reopen s \<and> wf_call c"
  shows "fst (attempts attempt cs s) = replicate (length cs) False
    \<and> is_open (snd (attempts attempt cs s)) \<and> reopen (snd (attempts attempt cs s)) = reopen s"
  using assms
proof (induction cs arbitrary: s)
  case (Cons c cs)
  obtain a s1 where "attempt c s = (a, s1)" by fastforce
  then show ?case
    using Cons.prems Cons.IH[of s1] open_rejects[of s c] attempt_inv[of s c]
    by (auto split: prod.splits)
qed simp

lemma attempts_inv: "inv s \<Longrightarrow> \<forall>c \<in> set cs. wf_call c \<Longrightarrow> inv (snd (attempts attempt cs s))"
proof (induction cs arbitrary: s)
  case (Cons c cs)
  then show ?case using attempt_inv[of s c] by (simp only: attempts_snd list.set_intros ball_simps) simp
qed simp

lemma successes_stay_closed:
  assumes "inv s" "is_closed s" "\<forall>c \<in> set cs. wf_call c \<and> succeeds c"
  shows "is_closed (snd (attempts attempt cs s))"
  using assms
proof (induction cs arbitrary: s)
  case (Cons c cs)
  obtain a s1 where "attempt c s = (a, s1)" by fastforce
  then show ?case
    using Cons.prems Cons.IH[of s1] closed_success[of s c] attempt_inv[of s c]
    by (auto split: prod.splits)
qed simp

lemma failures_open:
  assumes "inv s" "is_closed s" "\<forall>c \<in> set cs. wf_call c \<and> \<not> succeeds c" "0 < strikes s"
  shows "(length cs < strikes s \<longrightarrow> is_closed (snd (attempts attempt cs s))) \<and>
    (length cs = strikes s \<longrightarrow> is_open (snd (attempts attempt cs s)))"
  using assms
proof (induction cs arbitrary: s)
  case (Cons c cs)
  obtain a s1 where a: "attempt c s = (a, s1)" by fastforce
  have i: "inv s1" using attempt_inv[of s c] Cons.prems a by simp
  show ?case
  proof (cases "1 < strikes s")
    case True
    then have "is_closed s1 \<and> strikes s1 = strikes s - 1"
      using closed_failure[of s c] Cons.prems a by simp
    then show ?thesis using Cons.prems Cons.IH[of s1] a i True by (auto split: prod.splits)
  next
    case False
    then have "is_open s1" using last_failure[of s c] Cons.prems a by simp
    then show ?thesis using Cons.prems a False by (cases cs) (auto split: prod.splits)
  qed
qed auto

end

section \<open>The coordination breaker\<close>

datatype CircuitState = CircuitClosed | CircuitOpen | CircuitHalfOpen

fun CircuitState_String :: "CircuitState \<Rightarrow> string" where
  "CircuitState_String CircuitClosed = ''Closed''"
| "CircuitState_String CircuitOpen = ''Open''"
| "CircuitState_String CircuitHalfOpen = ''HalfOpen''"

record 'e FailureEvent =
  fe_Error :: 'e
  fe_ConsecutiveNum :: int
  fe_MaxFailures :: int
  fe_WillOpen :: bool

text \<open>The reason of a state change is text in the code; here its three fixed forms and the
  one with the number of failures.\<close>

datatype change_reason = TimeoutElapsed | ConsecutiveFailures int | Recovered | UnexpectedSuccess

record 'e StateChangeEvent =
  sce_From :: CircuitState
  sce_To :: CircuitState
  sce_Reason :: change_reason
  sce_LastError :: "'e option"

datatype 'e cb_event = FailureRecorded "'e FailureEvent" | StateChanged "'e StateChangeEvent"

record 'e CircuitOpenError =
  coe_Failures :: int
  coe_LastError :: "'e option"
  coe_OpenedAt :: go_time
  coe_RetryAfter :: go_duration
  coe_RecentErrors :: "'e list"

record CircuitBreakerConfig =
  cbc_MaxFailures :: int
  cbc_Timeout :: go_duration
  cbc_SuccessThreshold :: int
  cbc_OnFailure :: bool
  cbc_OnStateChange :: bool
  cbc_MaxRecentErrors :: int

record 'e CircuitBreaker =
  cb_config :: CircuitBreakerConfig
  cb_state :: CircuitState
  cb_failures :: int
  cb_successes :: int
  cb_lastFailTime :: go_time
  cb_totalCalls :: int
  cb_successCount :: int
  cb_failureCount :: int
  cb_lastError :: "'e option"
  cb_recentErrors :: "'e list"
  cb_openedAt :: go_time

definition NewCircuitBreaker :: "CircuitBreakerConfig \<Rightarrow> 'e CircuitBreaker" where
  "NewCircuitBreaker config =
     (let c1 = (if cbc_MaxFailures config \<le> 0 then config\<lparr>cbc_MaxFailures := 5\<rparr> else config);
          c2 = (if cbc_Timeout c1 \<le> 0 then c1\<lparr>cbc_Timeout := 60 * second\<rparr> else c1);
          c3 = (if cbc_SuccessThreshold c2 \<le> 0 then c2\<lparr>cbc_SuccessThreshold := 2\<rparr> else c2);
          c4 = (if cbc_MaxRecentErrors c3 \<le> 0 then c3\<lparr>cbc_MaxRecentErrors := 5\<rparr> else c3)
      in \<lparr>cb_config = c4, cb_state = CircuitClosed, cb_failures = 0, cb_successes = 0,
          cb_lastFailTime = 0, cb_totalCalls = 0, cb_successCount = 0, cb_failureCount = 0,
          cb_lastError = None, cb_recentErrors = [], cb_openedAt = 0\<rparr>)"

definition notifyFailure :: "'e \<Rightarrow> int \<Rightarrow> bool \<Rightarrow> 'e CircuitBreaker \<Rightarrow> 'e cb_event list" where
  "notifyFailure err n willOpen cb =
     (if \<not> cbc_OnFailure (cb_config cb) then []
      else [FailureRecorded \<lparr>fe_Error = err, fe_ConsecutiveNum = n,
              fe_MaxFailures = cbc_MaxFailures (cb_config cb), fe_WillOpen = willOpen\<rparr>])"

definition notifyStateChange ::
  "CircuitState \<Rightarrow> CircuitState \<Rightarrow> change_reason \<Rightarrow> 'e CircuitBreaker \<Rightarrow> 'e cb_event list" where
  "notifyStateChange old new_state reason cb =
     (if \<not> cbc_OnStateChange (cb_config cb) then []
      else [StateChanged \<lparr>sce_From = old, sce_To = new_state, sce_Reason = reason,
              sce_LastError = cb_lastError cb\<rparr>])"

text \<open>\<open>Inl\<close> is the rejection.\<close>

definition canExecute ::
  "go_time \<Rightarrow> 'e CircuitBreaker \<Rightarrow> ('e CircuitOpenError + unit) \<times> 'e cb_event list \<times> 'e CircuitBreaker" where
  "canExecute now cb =
     (case cb_state cb of
        CircuitClosed \<Rightarrow> (Inr (), [], cb)
      | CircuitOpen \<Rightarrow>
          if now - cb_lastFailTime cb > cbc_Timeout (cb_config cb) then
            (let cb1 = cb\<lparr>cb_state := CircuitHalfOpen, cb_successes := 0\<rparr>
             in (Inr (), notifyStateChange CircuitOpen CircuitHalfOpen TimeoutElapsed cb1, cb1))
          else
            (let retryAfter = cbc_Timeout (cb_config cb) - (now - cb_openedAt cb)
             in (Inl \<lparr>coe_Failures = cb_failures cb, coe_LastError = cb_lastError cb,
                      coe_OpenedAt = cb_openedAt cb, coe_RetryAfter = (if retryAfter < 0 then 0 else retryAfter),
                      coe_RecentErrors = cb_recentErrors cb\<rparr>, [], cb))
      | CircuitHalfOpen \<Rightarrow> (Inr (), [], cb))"

text \<open>The recording of a failure up to and including \<open>notifyFailure\<close>, and the rest.  The second
  part acts on the decision \<open>willOpen\<close> of the first.\<close>

definition trim_recent :: "int \<Rightarrow> 'e list \<Rightarrow> 'e list" where
  "trim_recent maxn errs = (if int (length errs) \<ge> maxn then tl errs else errs)"

definition record_failure_count ::
  "go_time \<Rightarrow> 'e \<Rightarrow> 'e CircuitBreaker \<Rightarrow> bool \<times> 'e cb_event list \<times> 'e CircuitBreaker" where
  "record_failure_count now err cb =
     (let cb1 = cb\<lparr>cb_failures := cb_failures cb + 1, cb_failureCount := cb_failureCount cb + 1,
                   cb_lastFailTime := now, cb_lastError := Some err,
                   cb_recentErrors := trim_recent (cbc_MaxRecentErrors (cb_config cb)) (cb_recentErrors cb) @ [err],
                   cb_successes := 0\<rparr>;
          willOpen = (cb_failures cb1 \<ge> cbc_MaxFailures (cb_config cb1))
      in (willOpen, notifyFailure err (cb_failures cb1) willOpen cb1, cb1))"

definition record_failure_open ::
  "go_time \<Rightarrow> bool \<Rightarrow> 'e CircuitBreaker \<Rightarrow> 'e cb_event list \<times> 'e CircuitBreaker" where
  "record_failure_open now willOpen cb =
     (if willOpen then
        (let cb1 = cb\<lparr>cb_state := CircuitOpen, cb_openedAt := now\<rparr>
         in (notifyStateChange (cb_state cb) CircuitOpen (ConsecutiveFailures (cb_failures cb1)) cb1, cb1))
      else ([], cb))"

definition record_success :: "'e CircuitBreaker \<Rightarrow> 'e cb_event list \<times> 'e CircuitBreaker" where
  "record_success cb0 =
     (let cb = cb0\<lparr>cb_successCount := cb_successCount cb0 + 1, cb_successes := cb_successes cb0 + 1\<rparr>
      in case cb_state cb of
           CircuitClosed \<Rightarrow> ([], cb\<lparr>cb_failures := 0, cb_recentErrors := []\<rparr>)
         | CircuitHalfOpen \<Rightarrow>
             if cb_successes cb \<ge> cbc_SuccessThreshold (cb_config cb) then
               (let cb1 = cb\<lparr>cb_state := CircuitClosed, cb_failures := 0, cb_successes := 0,
                             cb_recentErrors := []\<rparr>
                in (notifyStateChange CircuitHalfOpen CircuitClosed Recovered cb1, cb1))
             else ([], cb)
         | CircuitOpen \<Rightarrow>
             (let cb1 = cb\<lparr>cb_state := CircuitHalfOpen, cb_successes := 1\<rparr>
              in (notifyStateChange CircuitOpen CircuitHalfOpen UnexpectedSuccess cb1, cb1)))"

text \<open>The recording in one piece: what happens when nothing runs during the callback (always so
  without an \<open>OnFailure\<close> callback).  The clock is read a second time for \<open>openedAt\<close>.\<close>

definition recordResult ::
  "go_time \<Rightarrow> go_time \<Rightarrow> 'e option \<Rightarrow> 'e CircuitBreaker \<Rightarrow> 'e cb_event list \<times> 'e CircuitBreaker" where
  "recordResult now now2 result cb =
     (case result of
        Some err \<Rightarrow>
          (let (willOpen, ev1, cb1) = record_failure_count now err cb;
               (ev2, cb2) = record_failure_open now2 willOpen cb1
           in (ev1 @ ev2, cb2))
      | None \<Rightarrow> record_success cb)"

definition count_call :: "'e CircuitBreaker \<Rightarrow> 'e CircuitBreaker" where
  "count_call cb = cb\<lparr>cb_totalCalls := cb_totalCalls cb + 1\<rparr>"

datatype 'e exec_result = Rejected "'e CircuitOpenError" | Ran "'e option"

text \<open>A call that no other call overlaps; \<open>result\<close> is what the user function returns, \<open>later\<close>
  and \<open>later2\<close> the clock readings after it.\<close>

definition Execute ::
  "go_time \<Rightarrow> go_time \<Rightarrow> go_time \<Rightarrow> 'e option \<Rightarrow> 'e CircuitBreaker \<Rightarrow> 'e exec_result \<times> 'e cb_event list \<times> 'e CircuitBreaker" where
  "Execute now later later2 result cb =
     (case canExecute now (count_call cb) of
        (Inl openErr, ev, cb1) \<Rightarrow> (Rejected openErr, ev, cb1)
      | (Inr _, ev, cb1) \<Rightarrow>
          (case recordResult later later2 result cb1 of (ev2, cb2) \<Rightarrow> (Ran result, ev @ ev2, cb2)))"

definition Reset :: "'e CircuitBreaker \<Rightarrow> 'e CircuitBreaker" where
  "Reset cb = cb\<lparr>cb_state := CircuitClosed, cb_failures := 0, cb_successes := 0, cb_lastFailTime := 0,
     cb_lastError := None, cb_recentErrors := [], cb_openedAt := 0\<rparr>"

record CircuitBreakerMetrics =
  cbm_TotalCalls :: int
  cbm_SuccessCount :: int
  cbm_FailureCount :: int
  cbm_CurrentState :: CircuitState

definition Metrics :: "'e CircuitBreaker \<Rightarrow> CircuitBreakerMetrics" where
  "Metrics cb = \<lparr>cbm_TotalCalls = cb_totalCalls cb, cbm_SuccessCount = cb_successCount cb,
     cbm_FailureCount = cb_failureCount cb, cbm_CurrentState = cb_state cb\<rparr>"

section \<open>The model breaker\<close>

record ModelBreakerConfig =
  mbc_MaxFailures :: "32 word"
  mbc_ResetTimeout :: go_duration

record ModelBreaker =
  mb_config :: ModelBreakerConfig
  mb_state :: CircuitState
  mb_failureCount :: "32 word"
  mb_lastFailureTime :: go_time
  mb_halfOpenProbe :: bool

definition DefaultCircuitBreakerConfig :: ModelBreakerConfig where
  "DefaultCircuitBreakerConfig = \<lparr>mbc_MaxFailures = 5, mbc_ResetTimeout = 30 * second\<rparr>"

definition NewModelBreaker :: "ModelBreakerConfig \<Rightarrow> ModelBreaker" where
  "NewModelBreaker config = \<lparr>mb_config = config, mb_state = CircuitClosed, mb_failureCount = 0,
     mb_lastFailureTime = 0, mb_halfOpenProbe = False\<rparr>"

definition DefaultModelBreaker :: ModelBreaker where
  "DefaultModelBreaker = NewModelBreaker DefaultCircuitBreakerConfig"

fun ModelState_String :: "CircuitState \<Rightarrow> string" where
  "ModelState_String CircuitClosed = ''closed''"
| "ModelState_String CircuitOpen = ''open''"
| "ModelState_String CircuitHalfOpen = ''half-open''"

definition ModelReset :: "ModelBreaker \<Rightarrow> ModelBreaker" where
  "ModelReset cb = cb\<lparr>mb_state := CircuitClosed, mb_failureCount := 0, mb_lastFailureTime := 0\<rparr>"

datatype call_error = OpenProbeInProgress | OpenLastFailure go_duration

text \<open>The first critical section of \<open>Call\<close>.\<close>

definition Call_admit :: "go_time \<Rightarrow> ModelBreaker \<Rightarrow> (call_error + unit) \<times> ModelBreaker" where
  "Call_admit now cb =
     (if mb_state cb = CircuitOpen then
        if now - mb_lastFailureTime cb \<ge> mbc_ResetTimeout (mb_config cb) then
          if mb_halfOpenProbe cb then (Inl OpenProbeInProgress, cb)
          else (Inr (), cb\<lparr>mb_halfOpenProbe := True, mb_state := CircuitHalfOpen, mb_failureCount := 0\<rparr>)
        else (Inl (OpenLastFailure (now - mb_lastFailureTime cb)), cb)
      else (Inr (), cb))"

definition recordFailure :: "go_time \<Rightarrow> ModelBreaker \<Rightarrow> ModelBreaker" where
  "recordFailure now cb0 =
     (let cb = cb0\<lparr>mb_failureCount := mb_failureCount cb0 + 1, mb_lastFailureTime := now\<rparr>
      in case mb_state cb of
           CircuitHalfOpen \<Rightarrow> cb\<lparr>mb_state := CircuitOpen, mb_halfOpenProbe := False\<rparr>
         | CircuitClosed \<Rightarrow>
             if mb_failureCount cb \<ge> mbc_MaxFailures (mb_config cb) then cb\<lparr>mb_state := CircuitOpen\<rparr> else cb
         | CircuitOpen \<Rightarrow> cb)"

definition recordSuccess :: "ModelBreaker \<Rightarrow> ModelBreaker" where
  "recordSuccess cb =
     (case mb_state cb of
        CircuitHalfOpen \<Rightarrow> cb\<lparr>mb_state := CircuitClosed, mb_failureCount := 0, mb_lastFailureTime := 0,
                             mb_halfOpenProbe := False\<rparr>
      | CircuitClosed \<Rightarrow> if mb_failureCount cb > 0 then cb\<lparr>mb_failureCount := 0\<rparr> else cb
      | CircuitOpen \<Rightarrow> cb)"

text \<open>The second critical section of \<open>Call\<close>.\<close>

definition Call_record :: "go_time \<Rightarrow> bool \<Rightarrow> ModelBreaker \<Rightarrow> ModelBreaker" where
  "Call_record now ok cb = (if ok then recordSuccess cb else recordFailure now cb)"

definition Call :: "go_time \<Rightarrow> go_time \<Rightarrow> bool \<Rightarrow> ModelBreaker \<Rightarrow> (call_error + bool) \<times> ModelBreaker" where
  "Call now later ok cb =
     (case Call_admit now cb of
        (Inl err, cb1) \<Rightarrow> (Inl err, cb1)
      | (Inr _, cb1) \<Rightarrow> (Inr ok, Call_record later ok cb1))"

section \<open>Behaviour of the coordination breaker\<close>

definition cb_inv :: "'e CircuitBreaker \<Rightarrow> bool" where
  "cb_inv cb \<longleftrightarrow>
     0 < cbc_MaxFailures (cb_config cb) \<and> 0 < cbc_Timeout (cb_config cb) \<and>
     0 < cbc_SuccessThreshold (cb_config cb) \<and> 0 < cbc_MaxRecentErrors (cb_config cb) \<and>
     0 \<le> cb_failures cb \<and> int (length (cb_recentErrors cb)) \<le> cbc_MaxRecentErrors (cb_config cb) \<and>
     (case cb_state cb of
        CircuitClosed \<Rightarrow> cb_failures cb < cbc_MaxFailures (cb_config cb)
      | CircuitOpen \<Rightarrow> cbc_MaxFailures (cb_config cb) \<le> cb_failures cb \<and>
          cb_lastFailTime cb \<le> cb_openedAt cb \<and> cb_lastError cb \<noteq> None
      | CircuitHalfOpen \<Rightarrow> cbc_MaxFailures (cb_config cb) \<le> cb_failures cb \<and>
          0 \<le> cb_successes cb \<and> cb_successes cb < max 2 (cbc_SuccessThreshold (cb_config cb)))"

text \<open>The critical sections of concurrent calls and resets, in any order.  With an \<open>OnFailure\<close> callback the mutex is free while
  the callback runs, between the two parts of the recording of a failure: the decisions of the failures that are being reported are
  kept beside the breaker, and each is acted on some time later.\<close>

inductive cb_step :: "'e CircuitBreaker \<times> bool list \<Rightarrow> 'e CircuitBreaker \<times> bool list \<Rightarrow> bool" where
  Count: "cb_step (cb, ds) (count_call cb, ds)"
| Admit: "canExecute now cb = (r, ev, cb') \<Longrightarrow> cb_step (cb, ds) (cb', ds)"
| Succeed: "record_success cb = (ev, cb') \<Longrightarrow> cb_step (cb, ds) (cb', ds)"
| Fail: "\<not> cbc_OnFailure (cb_config cb) \<Longrightarrow> now \<le> now2 \<Longrightarrow> recordResult now now2 (Some err) cb = (ev, cb') \<Longrightarrow>
    cb_step (cb, ds) (cb', ds)"
| Report: "cbc_OnFailure (cb_config cb) \<Longrightarrow> record_failure_count now err cb = (willOpen, ev, cb') \<Longrightarrow>
    cb_step (cb, ds) (cb', willOpen # ds)"
| Act: "record_failure_open now willOpen cb = (ev, cb') \<Longrightarrow> cb_step (cb, ds @ willOpen # ds') (cb', ds @ ds')"
| DoReset: "cb_step (cb, ds) (Reset cb, ds)"

lemmas cb_defs = count_call_def canExecute_def recordResult_def record_failure_count_def
  record_failure_open_def record_success_def Reset_def Let_def trim_recent_def

lemma trim_recent_length:
  "0 < m \<Longrightarrow> int (length xs) \<le> m \<Longrightarrow> int (length (trim_recent m xs @ [e])) \<le> m"
  by (cases xs) (auto simp: trim_recent_def)

lemma new_breaker_inv: "cb_inv (NewCircuitBreaker config)"
  by (simp add: cb_inv_def NewCircuitBreaker_def Let_def)

lemma canExecute_inv: "cb_inv cb \<Longrightarrow> canExecute now cb = (r, ev, cb') \<Longrightarrow> cb_inv cb'"
  by (auto simp: cb_inv_def canExecute_def Let_def split: CircuitState.splits if_splits)

lemma record_failure_inv:
  assumes "cb_inv cb" "now \<le> now2"
  shows "cb_inv (snd (recordResult now now2 (Some err) cb))"
proof -
  have "int (length (trim_recent (cbc_MaxRecentErrors (cb_config cb)) (cb_recentErrors cb) @ [err]))
      \<le> cbc_MaxRecentErrors (cb_config cb)"
    using assms(1) by (intro trim_recent_length) (auto simp: cb_inv_def)
  with assms show ?thesis
    by (auto simp: cb_inv_def recordResult_def record_failure_count_def record_failure_open_def
        Let_def split: CircuitState.splits)
qed

lemma record_success_inv: "cb_inv cb \<Longrightarrow> cb_inv (snd (record_success cb))"
  by (auto simp: cb_inv_def record_success_def Let_def split: CircuitState.splits)

lemma recordResult_inv:
  "cb_inv cb \<Longrightarrow> now \<le> now2 \<Longrightarrow> recordResult now now2 result cb = (ev, cb') \<Longrightarrow> cb_inv cb'"
  using record_failure_inv[of cb now now2 "the result"] record_success_inv[of cb]
  by (cases result) (simp_all add: recordResult_def)

lemma count_call_inv: "cb_inv cb \<Longrightarrow> cb_inv (count_call cb)"
  by (simp add: cb_inv_def count_call_def cong: CircuitState.case_cong)

text \<open>What also holds while failures are being reported: a closed circuit that has reached the limit is about to be opened.\<close>

definition cb_report_inv :: "'e CircuitBreaker \<times> bool list \<Rightarrow> bool" where
  "cb_report_inv s = (case s of (cb, ds) \<Rightarrow>
     0 < cbc_MaxFailures (cb_config cb) \<and> 0 < cbc_MaxRecentErrors (cb_config cb) \<and>
     int (length (cb_recentErrors cb)) \<le> cbc_MaxRecentErrors (cb_config cb) \<and>
     (cb_state cb = CircuitClosed \<and> cbc_MaxFailures (cb_config cb) \<le> cb_failures cb \<longrightarrow> True \<in> set ds) \<and>
     (\<not> cbc_OnFailure (cb_config cb) \<longrightarrow> ds = [] \<and> cb_inv cb))"

lemma canExecute_report:
  assumes "cb_report_inv (cb, ds)" "canExecute now cb = (r, ev, cb')"
  shows "cb_report_inv (cb', ds)"
proof -
  have "cb_config cb' = cb_config cb" "cb_recentErrors cb' = cb_recentErrors cb" "cb_failures cb' = cb_failures cb"
    "cb_state cb' = CircuitClosed \<Longrightarrow> cb_state cb = CircuitClosed"
    using assms(2) by (auto simp: canExecute_def Let_def split: CircuitState.splits if_splits)
  then show ?thesis using assms canExecute_inv [of cb] by (auto simp: cb_report_inv_def)
qed

lemma success_report:
  assumes "cb_report_inv (cb, ds)"
  shows "cb_report_inv (snd (record_success cb), ds)"
proof -
  have "cb_config (snd (record_success cb)) = cb_config cb"
    "int (length (cb_recentErrors (snd (record_success cb)))) \<le> int (length (cb_recentErrors cb))"
    "cb_state (snd (record_success cb)) = CircuitClosed \<Longrightarrow> cb_failures (snd (record_success cb)) = 0"
    by (auto simp: record_success_def Let_def split: CircuitState.splits)
  then show ?thesis using assms record_success_inv [of cb] by (auto simp: cb_report_inv_def)
qed

lemma failure_report:
  assumes "cb_report_inv (cb, ds)" "cbc_OnFailure (cb_config cb)" "record_failure_count now err cb = (willOpen, ev, cb')"
  shows "cb_report_inv (cb', willOpen # ds)"
proof -
  have "int (length (trim_recent (cbc_MaxRecentErrors (cb_config cb)) (cb_recentErrors cb) @ [err])) \<le> cbc_MaxRecentErrors (cb_config cb)"
    using assms(1) by (intro trim_recent_length) (auto simp: cb_report_inv_def)
  then show ?thesis using assms by (auto simp: cb_report_inv_def record_failure_count_def Let_def)
qed

lemma cb_step_inv: "cb_step s s' \<Longrightarrow> cb_report_inv s \<Longrightarrow> cb_report_inv s'"
proof (induction rule: cb_step.induct)
  case (Count cb ds)
  then show ?case using count_call_inv [of cb] by (auto simp: cb_report_inv_def) (simp_all add: count_call_def)
next
  case (Succeed cb ev cb' ds)
  then show ?case using success_report [of cb ds] by simp
next
  case (Fail cb now now2 err ev cb' ds)
  then have "cb_inv cb'" "cb_config cb' = cb_config cb"
    using recordResult_inv [of cb now now2 "Some err"]
    by (auto simp: cb_report_inv_def recordResult_def record_failure_count_def record_failure_open_def Let_def split: if_splits)
  then show ?case using Fail by (auto simp: cb_report_inv_def cb_inv_def split: CircuitState.splits)
next
  case (Act now willOpen cb ev cb' ds ds')
  then show ?case by (auto simp: cb_report_inv_def record_failure_open_def Let_def split: if_splits)
next
  case (DoReset cb ds)
  then show ?case by (auto simp: cb_report_inv_def cb_inv_def Reset_def)
qed (auto intro: canExecute_report failure_report)

lemma new_report_inv: "cb_report_inv (NewCircuitBreaker config, [])"
  using new_breaker_inv [of config] by (auto simp: cb_report_inv_def cb_inv_def split: CircuitState.splits)

interpretation cb_sys: transition_system
  "\<lambda>s. \<exists>config. s = (NewCircuitBreaker config, [])" cb_step cb_report_inv
  by unfold_locales (auto intro: new_report_inv cb_step_inv)

lemma section_config:
  "cb_config (snd (snd (canExecute now cb))) = cb_config cb" "cb_config (snd (record_success cb)) = cb_config cb"
  "cb_config (snd (snd (record_failure_count now err cb))) = cb_config cb"
  "cb_config (snd (record_failure_open now w cb)) = cb_config cb"
  by (simp_all add: canExecute_def record_success_def record_failure_count_def record_failure_open_def Let_def split: CircuitState.split)

lemma failure_config: "cb_config (snd (recordResult now now2 (Some err) cb)) = cb_config cb"
  by (simp add: recordResult_def record_failure_count_def record_failure_open_def Let_def)

lemma cb_step_config: "cb_step\<^sup>*\<^sup>* s s' \<Longrightarrow> cb_config (fst s') = cb_config (fst s)"
proof (induction rule: rtranclp_induct)
  case (step s1 s2)
  from step.hyps(2) have "cb_config (fst s2) = cb_config (fst s1)"
  proof cases
    case (Admit now cb r ev cb' ds)
    then show ?thesis using section_config(1) [of now cb] by simp
  next
    case (Succeed cb ev cb' ds)
    then show ?thesis using section_config(2) [of cb] by simp
  next
    case (Fail cb now now2 err ev cb' ds)
    then show ?thesis using failure_config [of now now2 err cb] by simp
  next
    case (Report cb now err w ev cb' ds)
    then show ?thesis using section_config(3) [of now err cb] by simp
  next
    case (Act now w cb ev cb' ds ds')
    then show ?thesis using section_config(4) [of now w cb] by simp
  qed (simp_all add: count_call_def Reset_def)
  then show ?case using step.IH by simp
qed simp

lemma new_OnFailure [simp]: "cbc_OnFailure (cb_config (NewCircuitBreaker config)) = cbc_OnFailure config"
  by (simp add: NewCircuitBreaker_def Let_def)

lemma uninterrupted_inv:
  assumes "cb_step\<^sup>*\<^sup>* (NewCircuitBreaker config, []) (cb, ds)" "\<not> cbc_OnFailure config"
  shows "cb_inv cb \<and> ds = []"
proof -
  have "cb_report_inv (cb, ds)" using assms(1) cb_sys.reachable_inv by blast
  then show ?thesis using cb_step_config [OF assms(1)] assms(2) by (simp add: cb_report_inv_def)
qed

record 'e cb_call =
  call_now :: go_time
  call_later :: go_time
  call_later2 :: go_time
  call_result :: "'e option"

definition cb_attempt :: "'e cb_call \<Rightarrow> 'e CircuitBreaker \<Rightarrow> bool \<times> 'e CircuitBreaker" where
  "cb_attempt c cb =
     (case Execute (call_now c) (call_later c) (call_later2 c) (call_result c) cb of
        (Rejected _, _, cb') \<Rightarrow> (False, cb')
      | (Ran _, _, cb') \<Rightarrow> (True, cb'))"

lemma count_call_simps [simp]:
  "cb_state (count_call cb) = cb_state cb" "cb_config (count_call cb) = cb_config cb"
  "cb_failures (count_call cb) = cb_failures cb" "cb_successes (count_call cb) = cb_successes cb"
  "cb_lastFailTime (count_call cb) = cb_lastFailTime cb"
  "cb_openedAt (count_call cb) = cb_openedAt cb" "cb_lastError (count_call cb) = cb_lastError cb"
  by (simp_all add: count_call_def)

lemma record_failure_simps [simp]:
  "cb_state (snd (recordResult t t2 (Some e) cb)) =
     (if cbc_MaxFailures (cb_config cb) \<le> cb_failures cb + 1 then CircuitOpen else cb_state cb)"
  "cb_failures (snd (recordResult t t2 (Some e) cb)) = cb_failures cb + 1"
  "cb_config (snd (recordResult t t2 (Some e) cb)) = cb_config cb"
  "cb_lastFailTime (snd (recordResult t t2 (Some e) cb)) = t"
  by (simp_all add: recordResult_def record_failure_count_def record_failure_open_def Let_def)

lemma attempt_admitted:
  assumes "fst (canExecute (call_now c) (count_call cb)) = Inr ()"
  shows "cb_attempt c cb = (True, snd (recordResult (call_later c) (call_later2 c) (call_result c)
    (snd (snd (canExecute (call_now c) (count_call cb))))))"
  using assms by (auto simp: cb_attempt_def Execute_def split: prod.splits sum.splits)

lemma attempt_closed:
  "cb_state cb = CircuitClosed \<Longrightarrow> cb_attempt c cb =
     (True, snd (recordResult (call_later c) (call_later2 c) (call_result c) (count_call cb)))"
  by (subst attempt_admitted) (simp_all add: canExecute_def)

lemma attempt_open:
  "cb_state cb = CircuitOpen \<Longrightarrow> call_now c - cb_lastFailTime cb \<le> cbc_Timeout (cb_config cb) \<Longrightarrow>
   cb_attempt c cb = (False, count_call cb)"
  by (simp add: cb_attempt_def Execute_def canExecute_def Let_def)

lemma Execute_inv:
  assumes "cb_inv cb" "call_later c \<le> call_later2 c"
  shows "cb_inv (snd (cb_attempt c cb))"
proof -
  obtain r ev cb1 where x: "canExecute (call_now c) (count_call cb) = (r, ev, cb1)"
    by (metis prod_cases3)
  then have "cb_inv cb1" using assms(1) canExecute_inv count_call_inv by blast
  then have "cb_inv (snd (recordResult (call_later c) (call_later2 c) (call_result c) cb1))"
    using recordResult_inv[OF _ assms(2)] by (metis prod.collapse)
  then show ?thesis using x \<open>cb_inv cb1\<close>
    by (auto simp: cb_attempt_def Execute_def split: prod.splits sum.splits)
qed

interpretation cb: circuit_breaker cb_inv
  "\<lambda>s. cb_state s = CircuitClosed" "\<lambda>s. cb_state s = CircuitOpen"
  "\<lambda>s. cb_lastFailTime s + cbc_Timeout (cb_config s) + 1"
  "\<lambda>s. nat (cbc_MaxFailures (cb_config s) - cb_failures s)"
  call_now "\<lambda>c. call_result c = None" "\<lambda>c. call_later c \<le> call_later2 c" cb_attempt
proof (unfold_locales, goal_cases)
  case (4 s c)
  then show ?case by (simp add: attempt_closed recordResult_def record_success_def Let_def)
qed (auto simp: Execute_inv attempt_open attempt_closed)

lemma half_open_success:
  assumes "cb_state cb = CircuitHalfOpen" "call_result c = None"
  shows "cb_attempt c cb = (True, snd (record_success (count_call cb)))"
  using assms by (simp add: attempt_admitted canExecute_def recordResult_def)

lemma half_open_successes:
  assumes "cb_inv cb" "cb_state cb = CircuitHalfOpen"
    "\<forall>c \<in> set cs. call_later c \<le> call_later2 c \<and> call_result c = None"
    "cb_successes cb < cbc_SuccessThreshold (cb_config cb)"
  shows "cb_state (snd (attempts cb_attempt cs cb)) =
    (if cb_successes cb + int (length cs) < cbc_SuccessThreshold (cb_config cb)
     then CircuitHalfOpen else CircuitClosed)"
  using assms
proof (induction cs arbitrary: cb)
  case (Cons c cs)
  let ?cb = "snd (record_success (count_call cb))"
  have step: "snd (attempts cb_attempt (c # cs) cb) = snd (attempts cb_attempt cs ?cb)"
    using half_open_success[of cb c] Cons.prems by (simp split: prod.splits)
  have inv: "cb_inv ?cb"
    using Cons.prems(1) by (intro record_success_inv count_call_inv)
  show ?case
  proof (cases "cb_successes cb + 1 < cbc_SuccessThreshold (cb_config cb)")
    case True
    then have "cb_state ?cb = CircuitHalfOpen \<and> cb_successes ?cb = cb_successes cb + 1 \<and>
        cb_config ?cb = cb_config cb"
      using Cons.prems by (simp add: record_success_def Let_def)
    then show ?thesis using Cons.IH[of ?cb] Cons.prems inv True step by simp
  next
    case False
    then have "cb_state ?cb = CircuitClosed"
      using Cons.prems by (simp add: record_success_def Let_def)
    then show ?thesis using cb.successes_stay_closed[OF inv, of cs] Cons.prems False step by simp
  qed
qed simp

definition half_opened :: "'e CircuitBreaker \<Rightarrow> 'e CircuitBreaker" where
  "half_opened cb = cb\<lparr>cb_state := CircuitHalfOpen, cb_successes := 0\<rparr>"

lemma half_opened_simps [simp]:
  "cb_state (half_opened cb) = CircuitHalfOpen" "cb_successes (half_opened cb) = 0"
  "cb_config (half_opened cb) = cb_config cb" "cb_failures (half_opened cb) = cb_failures cb"
  by (simp_all add: half_opened_def)

lemma half_opened_count:
  "(count_call cb)\<lparr>cb_state := CircuitHalfOpen, cb_successes := 0\<rparr> = count_call (half_opened cb)"
  by (cases cb) (simp add: half_opened_def count_call_def)

lemma attempt_after_timeout:
  "cb_state cb = CircuitOpen \<Longrightarrow> call_now c - cb_lastFailTime cb > cbc_Timeout (cb_config cb) \<Longrightarrow>
   cb_attempt c cb = cb_attempt c (half_opened cb)"
  by (simp add: attempt_admitted canExecute_def Let_def half_opened_count)

lemma half_opened_inv: "cb_inv cb \<Longrightarrow> cb_state cb = CircuitOpen \<Longrightarrow> cb_inv (half_opened cb)"
  by (auto simp: cb_inv_def half_opened_def)

lemma attempt_steps:
  assumes "call_later c \<le> call_later2 c" "\<not> cbc_OnFailure (cb_config cb)"
  shows "cb_step\<^sup>*\<^sup>* (cb, ds) (snd (cb_attempt c cb), ds)"
proof -
  obtain r ev cb1 where x: "canExecute (call_now c) (count_call cb) = (r, ev, cb1)"
    by (metis prod_cases3)
  have cb1: "cb_step\<^sup>*\<^sup>* (cb, ds) (cb1, ds)"
    using cb_step.Count cb_step.Admit[OF x] by (meson converse_rtranclp_into_rtranclp r_into_rtranclp)
  then have off: "\<not> cbc_OnFailure (cb_config cb1)" using cb_step_config [OF cb1] assms(2) by simp
  obtain ev2 cb2 where y: "recordResult (call_later c) (call_later2 c) (call_result c) cb1 = (ev2, cb2)"
    by fastforce
  have "cb_step (cb1, ds) (cb2, ds)"
  proof (cases "call_result c")
    case None
    then show ?thesis using y cb_step.Succeed [of cb1 ev2 cb2] by (simp add: recordResult_def)
  next
    case (Some err)
    then show ?thesis using cb_step.Fail [OF off assms(1)] y by simp
  qed
  with cb1 show ?thesis using x y
    by (auto simp: cb_attempt_def Execute_def split: sum.splits)
qed

lemma attempts_steps:
  "\<forall>c \<in> set cs. call_later c \<le> call_later2 c \<Longrightarrow> \<not> cbc_OnFailure (cb_config cb) \<Longrightarrow>
   cb_step\<^sup>*\<^sup>* (cb, ds) (snd (attempts cb_attempt cs cb), ds)"
proof (induction cs arbitrary: cb)
  case (Cons c cs)
  have first: "cb_step\<^sup>*\<^sup>* (cb, ds) (snd (cb_attempt c cb), ds)" using Cons.prems by (intro attempt_steps) simp_all
  then have "\<not> cbc_OnFailure (cb_config (snd (cb_attempt c cb)))" using cb_step_config [OF first] Cons.prems(2) by simp
  then have "cb_step\<^sup>*\<^sup>* (snd (cb_attempt c cb), ds) (snd (attempts cb_attempt cs (snd (cb_attempt c cb))), ds)"
    using Cons by simp
  with first show ?case unfolding attempts_snd by (rule rtranclp_trans)
qed simp

text \<open>C34: In every state the coordination breaker reaches through any interleaving of the critical sections of calls and resets,
  the list of recent errors stays within its bound, and a closed circuit whose consecutive failures have reached the limit has a
  failure that is being reported to \<open>OnFailure\<close> and will open it.  Without an \<open>OnFailure\<close> callback the circuit is closed exactly while there
  are fewer consecutive failures than the limit, and an open circuit has an error and was opened no earlier than its last failure.\<close>

theorem breaker_invariant:
  assumes "cb_step\<^sup>*\<^sup>* (NewCircuitBreaker config, []) (cb, reported)"
  shows "int (length (cb_recentErrors cb)) \<le> cbc_MaxRecentErrors (cb_config cb) \<and>
    (cb_state cb = CircuitClosed \<and> cbc_MaxFailures (cb_config cb) \<le> cb_failures cb \<longrightarrow> True \<in> set reported) \<and>
    (\<not> cbc_OnFailure config \<longrightarrow> reported = [] \<and>
       (cb_state cb = CircuitClosed \<longleftrightarrow> cb_failures cb < cbc_MaxFailures (cb_config cb)) \<and>
       (cb_state cb = CircuitOpen \<longrightarrow> cb_lastError cb \<noteq> None \<and> cb_lastFailTime cb \<le> cb_openedAt cb))"
proof -
  have "cb_report_inv (cb, reported)" using assms cb_sys.reachable_inv by blast
  moreover have "\<not> cbc_OnFailure config \<Longrightarrow> cb_inv cb \<and> reported = []" using uninterrupted_inv [OF assms] by blast
  ultimately show ?thesis by (auto simp: cb_report_inv_def cb_inv_def split: CircuitState.splits)
qed

definition demo_config :: CircuitBreakerConfig where
  "demo_config = \<lparr>cbc_MaxFailures = 2, cbc_Timeout = 10, cbc_SuccessThreshold = 2,
     cbc_OnFailure = False, cbc_OnStateChange = True, cbc_MaxRecentErrors = 1\<rparr>"

definition demo_failures :: "nat cb_call list" where
  "demo_failures = [\<lparr>call_now = 0, call_later = 1, call_later2 = 2, call_result = Some 7\<rparr>,
      \<lparr>call_now = 3, call_later = 4, call_later2 = 5, call_result = Some 8\<rparr>]"

definition demo_open :: "nat CircuitBreaker" where
  "demo_open = snd (attempts cb_attempt demo_failures (NewCircuitBreaker demo_config))"

lemmas demo_defs = demo_config_def demo_failures_def NewCircuitBreaker_def

lemma demo_open_eq:
  "demo_open = \<lparr>cb_config = demo_config, cb_state = CircuitOpen, cb_failures = 2, cb_successes = 0,
     cb_lastFailTime = 4, cb_totalCalls = 2, cb_successCount = 0, cb_failureCount = 2,
     cb_lastError = Some 8, cb_recentErrors = [8], cb_openedAt = 5\<rparr>"
  by (simp add: demo_open_def demo_defs attempt_closed cb_defs)

lemma demo_open_reachable: "cb_step\<^sup>*\<^sup>* (NewCircuitBreaker demo_config, []) (demo_open, [])"
  unfolding demo_open_def by (rule attempts_steps) (simp_all add: demo_failures_def demo_config_def)

lemma demo_uninterrupted: "\<not> cbc_OnFailure demo_config"
  by (simp add: demo_config_def)

theorem breaker_invariant_witness:
  "cb_failures demo_open \<ge> cbc_MaxFailures (cb_config demo_open) \<and> cb_lastError demo_open \<noteq> None"
  using breaker_invariant[OF demo_open_reachable] demo_uninterrupted by (simp add: demo_open_eq)

text \<open>While an open circuit is within \<open>Timeout\<close> of the last failure, every call of a sequence
  is rejected without running its function and the circuit stays open; the error says how long to
  wait, at most \<open>Timeout\<close>, and a call made later than that is let through.\<close>

theorem open_circuit_rejects:
  assumes "cb_step\<^sup>*\<^sup>* (NewCircuitBreaker config, []) (cb, ds)" "cb_state cb = CircuitOpen" "\<not> cbc_OnFailure config"
    "\<forall>c \<in> set cs. call_now c \<le> cb_lastFailTime cb + cbc_Timeout (cb_config cb) \<and>
       call_later c \<le> call_later2 c"
    "cb_openedAt cb \<le> now" "now \<le> cb_lastFailTime cb + cbc_Timeout (cb_config cb)"
    "Execute now later later2 result cb = (r, ev, cb')"
  shows "fst (attempts cb_attempt cs cb) = replicate (length cs) False \<and>
    cb_state (snd (attempts cb_attempt cs cb)) = CircuitOpen \<and>
    (\<exists>e. r = Rejected e \<and> cb' = count_call cb \<and> coe_LastError e = cb_lastError cb \<and>
       0 \<le> coe_RetryAfter e \<and> coe_RetryAfter e \<le> cbc_Timeout (cb_config cb) \<and>
       (\<forall>t > now + coe_RetryAfter e. fst (canExecute t cb') = Inr ()))"
proof -
  have i: "cb_inv cb" using uninterrupted_inv [OF assms(1,3)] by blast
  then have "cb_lastFailTime cb \<le> cb_openedAt cb" using assms(2) by (simp add: cb_inv_def)
  moreover have "canExecute now (count_call cb) = (case fst (canExecute now (count_call cb)) of
      Inl e \<Rightarrow> (Inl e, [], count_call cb) | Inr _ \<Rightarrow> (Inr (), [], cb))"
    using assms(2,6) by (simp add: canExecute_def Let_def)
  ultimately show ?thesis
    using cb.open_rejects_all[OF i assms(2), of cs] assms
    by (auto simp: Execute_def canExecute_def Let_def)
qed

theorem open_circuit_rejects_witness:
  "\<exists>e ev. Execute 6 7 8 None demo_open = (Rejected e, ev, count_call demo_open) \<and>
     coe_RetryAfter e \<le> 10 \<and> coe_LastError e = Some 8"
proof -
  obtain r ev cb' where x: "Execute 6 7 8 None demo_open = (r, ev, cb')"
    using prod_cases3 by blast
  show ?thesis
    using open_circuit_rejects[OF demo_open_reachable _ demo_uninterrupted, of "[]" 6 7 8 None r ev cb'] x
    by (auto simp: demo_open_eq demo_config_def)
qed

text \<open>A fresh coordination breaker stays closed while fewer calls than its failure limit have
  failed in a row and is open exactly when the limit is reached.\<close>

theorem opens_after_max_failures:
  assumes "\<forall>c \<in> set cs. call_later c \<le> call_later2 c \<and> call_result c \<noteq> None"
    and "M = cbc_MaxFailures (cb_config (NewCircuitBreaker config :: 'e CircuitBreaker))"
  shows "(int (length cs) < M \<longrightarrow>
      cb_state (snd (attempts cb_attempt cs (NewCircuitBreaker config :: 'e CircuitBreaker))) = CircuitClosed) \<and>
    (int (length cs) = M \<longrightarrow>
      cb_state (snd (attempts cb_attempt cs (NewCircuitBreaker config :: 'e CircuitBreaker))) = CircuitOpen)"
proof -
  let ?new = "NewCircuitBreaker config :: 'e CircuitBreaker"
  have "cb_inv ?new" "cb_state ?new = CircuitClosed" "0 < M"
    using new_breaker_inv[of config] assms(2) by (auto simp: cb_inv_def NewCircuitBreaker_def Let_def)
  moreover have "cb_failures ?new = 0" by (simp add: NewCircuitBreaker_def Let_def)
  ultimately show ?thesis
    using cb.failures_open[of ?new cs] assms by auto
qed

theorem opens_after_max_failures_witness:
  "cb_state demo_open = CircuitOpen"
proof -
  have "\<forall>c \<in> set demo_failures. call_later c \<le> call_later2 c \<and> call_result c \<noteq> None"
    and "2 = cbc_MaxFailures (cb_config (NewCircuitBreaker demo_config :: nat CircuitBreaker))"
    and "int (length demo_failures) = 2"
    by (simp_all add: demo_defs)
  then show ?thesis
    using opens_after_max_failures[of demo_failures 2 demo_config] unfolding demo_open_def by metis
qed

text \<open>Once the timeout of an open circuit has passed, the next calls probe it: after
  \<open>SuccessThreshold\<close> successes in a row, and not before, the circuit is closed, while one
  failure during the probing opens it again.\<close>

theorem recovers_after_successes:
  assumes "cb_step\<^sup>*\<^sup>* (NewCircuitBreaker config, []) (cb, ds)" "cb_state cb = CircuitOpen"
    "call_now c > cb_lastFailTime cb + cbc_Timeout (cb_config cb)"
    "\<forall>d \<in> set (c # cs). call_later d \<le> call_later2 d \<and> call_result d = None"
    "call_later f \<le> call_later2 f" "call_result f = Some e"
    "n = int (length (c # cs))" "T = cbc_SuccessThreshold (cb_config cb)" "\<not> cbc_OnFailure config"
  shows "cb_state (snd (attempts cb_attempt (c # cs) cb)) = (if n < T then CircuitHalfOpen else CircuitClosed) \<and>
    (n < T \<longrightarrow> cb_state (snd (cb_attempt f (snd (attempts cb_attempt (c # cs) cb)))) = CircuitOpen)"
proof -
  have i: "cb_inv cb" using uninterrupted_inv [OF assms(1,9)] by blast
  have eq: "attempts cb_attempt (c # cs) cb = attempts cb_attempt (c # cs) (half_opened cb)"
    using assms(2,3) attempt_after_timeout[of cb c] by simp
  let ?s = "snd (attempts cb_attempt (c # cs) (half_opened cb))"
  have hi: "cb_inv (half_opened cb)" using i assms(2) by (rule half_opened_inv)
  have st: "cb_state ?s = (if n < T then CircuitHalfOpen else CircuitClosed)"
    using half_open_successes[OF hi, of "c # cs"] i assms(4,7,8) by (simp add: cb_inv_def)
  have si: "cb_inv ?s" using assms(4) by (intro cb.attempts_inv [OF hi]) blast
  have "n < T \<Longrightarrow> cb_state (snd (cb_attempt f ?s)) = CircuitOpen"
    using st si assms(6) by (simp add: attempt_admitted canExecute_def cb_inv_def)
  then show ?thesis using st eq by simp
qed

definition demo_probe :: "go_time \<Rightarrow> nat option \<Rightarrow> nat cb_call" where
  "demo_probe t r = \<lparr>call_now = t, call_later = t, call_later2 = t, call_result = r\<rparr>"

theorem recovers_after_successes_witness:
  "cb_state (snd (attempts cb_attempt [demo_probe 15 None, demo_probe 16 None] demo_open)) = CircuitClosed"
proof -
  have "cb_state demo_open = CircuitOpen"
    and "call_now (demo_probe 15 None) > cb_lastFailTime demo_open + cbc_Timeout (cb_config demo_open)"
    and "2 = cbc_SuccessThreshold (cb_config demo_open)"
    by (simp_all add: demo_open_eq demo_config_def demo_probe_def)
  moreover have "\<forall>d \<in> set [demo_probe 15 None, demo_probe 16 None].
      call_later d \<le> call_later2 d \<and> call_result d = None"
    and "call_later (demo_probe 17 (Some 9)) \<le> call_later2 (demo_probe 17 (Some 9))"
    and "call_result (demo_probe 17 (Some 9)) = Some 9"
    and "2 = int (length [demo_probe 15 None, demo_probe 16 None])"
    by (simp_all add: demo_probe_def)
  ultimately have "cb_state (snd (attempts cb_attempt [demo_probe 15 None, demo_probe 16 None] demo_open))
      = (if (2::int) < 2 then CircuitHalfOpen else CircuitClosed)"
    using recovers_after_successes[OF demo_open_reachable, of "demo_probe 15 None"
        "[demo_probe 16 None]" "demo_probe 17 (Some 9)" 9 2 2] demo_uninterrupted by blast
  then show ?thesis by presburger
qed

text \<open>With an \<open>OnFailure\<close> callback, the failure that reaches the limit decides to open the
  circuit before the callback and opens it after; a success recorded in between resets the count,
  and the circuit opens nevertheless, with no consecutive failure and the reason text
  saying so.\<close>

theorem stale_open_decision:
  assumes "cb_inv cb" "cb_state cb = CircuitClosed" "cbc_OnStateChange (cb_config cb)"
    "cb_failures cb + 1 = cbc_MaxFailures (cb_config cb)"
    "record_failure_count now err cb = (willOpen, ev1, cb1)"
    "record_success cb1 = (ev2, cb2)"
    "record_failure_open now2 willOpen cb2 = (ev3, cb3)"
  shows "cb_state cb2 = CircuitClosed \<and> cb_failures cb2 = 0 \<and> cb_state cb3 = CircuitOpen \<and>
    cb_failures cb3 = 0 \<and> \<not> cb_inv cb3 \<and>
    ev3 = [StateChanged \<lparr>sce_From = CircuitClosed, sce_To = CircuitOpen,
             sce_Reason = ConsecutiveFailures 0, sce_LastError = Some err\<rparr>]"
  using assms
  by (auto simp: record_failure_count_def record_success_def record_failure_open_def
      notifyStateChange_def cb_inv_def Let_def)

theorem stale_open_decision_witness:
  "\<exists>cb :: nat CircuitBreaker. cb_state cb = CircuitOpen \<and> cb_failures cb = 0 \<and>
     \<not> cb_inv cb \<and> 0 < cbc_MaxFailures (cb_config cb)"
proof -
  let ?config = "demo_config\<lparr>cbc_MaxFailures := 1, cbc_OnFailure := True\<rparr>"
  let ?cb = "NewCircuitBreaker ?config :: nat CircuitBreaker"
  have new: "cb_state ?cb = CircuitClosed" "cb_failures ?cb = 0" "cb_config ?cb = ?config"
    by (simp_all add: NewCircuitBreaker_def demo_config_def)
  have config: "cbc_OnStateChange ?config" "cbc_MaxFailures ?config = 1"
    by (simp_all add: demo_config_def)
  obtain w ev1 cb1 where 1: "record_failure_count 1 3 ?cb = (w, ev1, cb1)" using prod_cases3 by blast
  obtain ev2 cb2 where 2: "record_success cb1 = (ev2, cb2)" by fastforce
  obtain ev3 cb3 where 3: "record_failure_open 2 w cb2 = (ev3, cb3)" by fastforce
  have "cb_config cb3 = ?config"
    using 1 2 3 new(3) by (auto simp: cb_defs split: CircuitState.splits if_splits)
  then show ?thesis
    using stale_open_decision[OF new_breaker_inv new(1) _ _ 1 2 3] new(2,3) config by auto
qed

section \<open>Behaviour of the model breaker\<close>

definition mb_inv :: "ModelBreaker \<Rightarrow> bool" where
  "mb_inv s \<longleftrightarrow> (mb_halfOpenProbe s \<longleftrightarrow> mb_state s = CircuitHalfOpen) \<and>
     (mb_state s = CircuitClosed \<longrightarrow>
        mb_failureCount s = 0 \<or> mb_failureCount s < mbc_MaxFailures (mb_config s))"

text \<open>The critical sections of concurrent calls and manual resets.  \<open>allow\<close> says in which states
  a reset happens.\<close>

inductive mb_step :: "(ModelBreaker \<Rightarrow> bool) \<Rightarrow> ModelBreaker \<Rightarrow> ModelBreaker \<Rightarrow> bool" for allow where
  Admit: "mb_step allow s (snd (Call_admit now s))"
| Record: "mb_step allow s (Call_record now ok s)"
| DoReset: "allow s \<Longrightarrow> mb_step allow s (ModelReset s)"

lemma word_Suc_unat: "(a :: 32 word) < b \<Longrightarrow> unat (a + 1) = Suc (unat a)"
  using unsigned_less[of b, where ?'a = nat] by (simp add: word_less_nat_alt unat_word_ariths)

lemma mb_admit_inv: "mb_inv s \<Longrightarrow> mb_inv (snd (Call_admit now s))"
  by (auto simp: mb_inv_def Call_admit_def)

lemma mb_record_inv: "mb_inv s \<Longrightarrow> mb_inv (Call_record now ok s)"
  by (auto simp: mb_inv_def Call_record_def recordFailure_def recordSuccess_def Let_def
      not_le split: CircuitState.splits)

lemma mb_step_inv: "mb_step (\<lambda>s. mb_state s \<noteq> CircuitHalfOpen) s t \<Longrightarrow> mb_inv s \<Longrightarrow> mb_inv t"
  by (induction rule: mb_step.induct)
    (auto simp: mb_admit_inv mb_record_inv, auto simp: mb_inv_def ModelReset_def)

interpretation mb_sys: transition_system
  "\<lambda>s. \<exists>config. s = NewModelBreaker config" "mb_step (\<lambda>s. mb_state s \<noteq> CircuitHalfOpen)" mb_inv
proof (unfold_locales, goal_cases)
  case 1
  then show ?case by (auto simp: mb_inv_def NewModelBreaker_def)
qed (auto intro: mb_step_inv)

text \<open>A call: start, end, outcome.\<close>

definition mb_attempt :: "go_time \<times> go_time \<times> bool \<Rightarrow> ModelBreaker \<Rightarrow> bool \<times> ModelBreaker" where
  "mb_attempt c s =
     (case c of (now, later, ok) \<Rightarrow>
        case Call now later ok s of (Inl _, t) \<Rightarrow> (False, t) | (Inr _, t) \<Rightarrow> (True, t))"

definition mb_strikes :: "ModelBreaker \<Rightarrow> nat" where
  "mb_strikes s = max 1 (unat (mbc_MaxFailures (mb_config s)) - unat (mb_failureCount s))"

lemma mb_attempt_inv: "mb_inv s \<Longrightarrow> mb_inv (snd (mb_attempt c s))"
  using mb_admit_inv[of s] mb_record_inv
  by (auto simp: mb_attempt_def Call_def split: prod.splits sum.splits) (metis snd_conv)+

lemma mb_attempt_closed:
  "mb_state s = CircuitClosed \<Longrightarrow> mb_attempt (now, later, ok) s = (True, Call_record later ok s)"
  by (simp add: mb_attempt_def Call_def Call_admit_def)

lemma mb_fail_closed:
  assumes "mb_inv s" "mb_state s = CircuitClosed"
  shows "1 < mb_strikes s \<Longrightarrow> mb_state (recordFailure t s) = CircuitClosed \<and>
      mb_strikes (recordFailure t s) = mb_strikes s - 1"
    and "mb_strikes s \<le> 1 \<Longrightarrow> mb_state (recordFailure t s) = CircuitOpen"
proof -
  let ?n = "mb_failureCount s" and ?m = "mbc_MaxFailures (mb_config s)"
  have suc: "?n < ?m \<Longrightarrow> unat (?n + 1) = Suc (unat ?n)" by (rule word_Suc_unat)
  show "1 < mb_strikes s \<Longrightarrow> mb_state (recordFailure t s) = CircuitClosed \<and>
      mb_strikes (recordFailure t s) = mb_strikes s - 1"
    using suc assms(2)
    by (auto simp: mb_strikes_def recordFailure_def Let_def word_le_nat_alt word_less_nat_alt)
  show "mb_strikes s \<le> 1 \<Longrightarrow> mb_state (recordFailure t s) = CircuitOpen"
    using suc assms
    by (auto simp: mb_inv_def mb_strikes_def recordFailure_def Let_def word_le_nat_alt word_less_nat_alt)
qed

interpretation mb: circuit_breaker mb_inv
  "\<lambda>s. mb_state s = CircuitClosed" "\<lambda>s. mb_state s = CircuitOpen"
  "\<lambda>s. mb_lastFailureTime s + mbc_ResetTimeout (mb_config s)" mb_strikes
  fst "\<lambda>c. snd (snd c)" "\<lambda>c. True" mb_attempt
proof (unfold_locales, goal_cases)
  case (2 s c)
  then show ?case by (auto simp: mb_attempt_def Call_def Call_admit_def split: prod.splits)
next
  case (4 s c)
  then show ?case
    by (cases c) (auto simp: mb_attempt_closed Call_record_def recordSuccess_def)
qed (auto simp: mb_attempt_inv mb_attempt_closed Call_record_def mb_fail_closed)

lemma mb_new: "mb_inv (NewModelBreaker config)" "mb_state (NewModelBreaker config) = CircuitClosed"
  "mb_strikes (NewModelBreaker config) = max 1 (unat (mbc_MaxFailures config))"
  by (simp_all add: mb_inv_def NewModelBreaker_def mb_strikes_def)

text \<open>A fresh model breaker is closed while fewer calls than its limit have failed in a row
  and open once the limit is reached (a limit of 0 counts as 1); the failure counter does not
  wrap around on the way.\<close>

theorem model_breaker_opens:
  assumes "\<forall>c \<in> set cs. \<not> snd (snd c)" and "M = max 1 (unat (mbc_MaxFailures config))"
  shows "(length cs < M \<longrightarrow> mb_state (snd (attempts mb_attempt cs (NewModelBreaker config))) = CircuitClosed) \<and>
    (length cs = M \<longrightarrow> mb_state (snd (attempts mb_attempt cs (NewModelBreaker config))) = CircuitOpen)"
  using mb.failures_open[OF mb_new(1,2), of cs config] assms mb_new(3)[of config] by auto

theorem model_breaker_opens_witness:
  "mb_state (snd (attempts mb_attempt (replicate 5 (0, 1, False)) DefaultModelBreaker)) = CircuitOpen"
proof -
  have "\<forall>c \<in> set (replicate 5 (0 :: go_time, 1 :: go_time, False)). \<not> snd (snd c)"
    and "(5 :: nat) = max 1 (unat (mbc_MaxFailures DefaultCircuitBreakerConfig))"
    and "length (replicate 5 (0 :: go_time, 1 :: go_time, False)) = 5"
    by (simp_all add: DefaultCircuitBreakerConfig_def)
  then show ?thesis using model_breaker_opens unfolding DefaultModelBreaker_def by blast
qed

text \<open>C35: As long as nobody resets the model breaker while it is half-open, an open circuit rejects
  every call of a sequence made before \<open>ResetTimeout\<close> has passed since the last failure, lets the
  next one through, and the outcome of that call closes the circuit or opens it again.\<close>

theorem model_breaker_recovers:
  assumes "(mb_step (\<lambda>s. mb_state s \<noteq> CircuitHalfOpen))\<^sup>*\<^sup>* (NewModelBreaker config) s"
    "mb_state s = CircuitOpen" "T = mb_lastFailureTime s + mbc_ResetTimeout (mb_config s)"
    "\<forall>c \<in> set cs. fst c < T" "T \<le> now"
  shows "fst (attempts mb_attempt cs s) = replicate (length cs) False \<and>
    mb_state (snd (attempts mb_attempt cs s)) = CircuitOpen \<and>
    fst (mb_attempt (now, later, ok) s) \<and>
    mb_state (snd (mb_attempt (now, later, ok) s)) = (if ok then CircuitClosed else CircuitOpen)"
proof -
  have i: "mb_inv s" using assms(1) mb_sys.reachable_inv by blast
  have "fst (mb_attempt (now, later, ok) s) \<and>
    mb_state (snd (mb_attempt (now, later, ok) s)) = (if ok then CircuitClosed else CircuitOpen)"
    using i assms(2,3,5)
    by (auto simp: mb_attempt_def Call_def Call_admit_def mb_inv_def Call_record_def
        recordFailure_def recordSuccess_def Let_def)
  then show ?thesis using mb.open_rejects_all[OF i assms(2), of cs] assms(3,4) by auto
qed

definition demo_mb_open :: ModelBreaker where
  "demo_mb_open = Call_record 7 False (NewModelBreaker \<lparr>mbc_MaxFailures = 1, mbc_ResetTimeout = 30\<rparr>)"

lemmas mb_defs = Call_record_def recordFailure_def recordSuccess_def NewModelBreaker_def Let_def

theorem model_breaker_recovers_witness:
  "mb_state (snd (mb_attempt (40, 41, True) demo_mb_open)) = CircuitClosed"
proof -
  have "(mb_step (\<lambda>s. mb_state s \<noteq> CircuitHalfOpen))\<^sup>*\<^sup>*
      (NewModelBreaker \<lparr>mbc_MaxFailures = 1, mbc_ResetTimeout = 30\<rparr>) demo_mb_open"
    unfolding demo_mb_open_def by (rule r_into_rtranclp) (rule mb_step.Record)
  moreover have "mb_state demo_mb_open = CircuitOpen"
    "37 = mb_lastFailureTime demo_mb_open + mbc_ResetTimeout (mb_config demo_mb_open)"
    by (simp_all add: demo_mb_open_def mb_defs)
  ultimately show ?thesis
    using model_breaker_recovers[of _ demo_mb_open 37 "[]" 40 41 True] by simp
qed

text \<open>A reset of a half-open model breaker leaves the probe flag set.  From then on the flag is
  never cleared, because only a half-open breaker clears it and an open one with the flag
  set does not become half-open.\<close>

definition mb_wedged :: "ModelBreaker \<Rightarrow> bool" where
  "mb_wedged s \<longleftrightarrow> mb_halfOpenProbe s \<and> mb_state s \<noteq> CircuitHalfOpen"

lemma mb_wedged_step: "mb_wedged s \<Longrightarrow> mb_step allow s t \<Longrightarrow> mb_wedged t"
  by (erule mb_step.cases)
    (auto simp: mb_wedged_def Call_admit_def ModelReset_def Call_record_def recordFailure_def
      recordSuccess_def Let_def split: CircuitState.splits)

interpretation mb_wedge: transition_system mb_wedged "mb_step (\<lambda>_. True)" mb_wedged
  by unfold_locales (auto intro: mb_wedged_step)

text \<open>After a manual reset of a half-open model breaker, whatever happens next, including
  further resets, the breaker is never half-open again, and whenever it is open it rejects every
  call at any time, however long ago the last failure was: it no longer recovers by itself.\<close>

theorem model_breaker_reset_wedges:
  assumes "mb_halfOpenProbe s" "(mb_step (\<lambda>_. True))\<^sup>*\<^sup>* (ModelReset s) t"
  shows "mb_state t \<noteq> CircuitHalfOpen \<and>
    (mb_state t = CircuitOpen \<longrightarrow> (\<forall>now. \<exists>e. Call_admit now t = (Inl e, t)))"
proof -
  have "mb_wedged (ModelReset s)" using assms(1) by (simp add: mb_wedged_def ModelReset_def)
  then have "mb_wedged t" using assms(2) mb_wedge.steps_inv by blast
  then show ?thesis by (auto simp: mb_wedged_def Call_admit_def)
qed

definition demo_mb_wedged :: ModelBreaker where
  "demo_mb_wedged = Call_record 50 False (ModelReset (snd (Call_admit 40 demo_mb_open)))"

theorem model_breaker_reset_wedges_witness:
  "mb_state demo_mb_wedged = CircuitOpen \<and> mb_lastFailureTime demo_mb_wedged = 50 \<and>
   (\<exists>e. Call_admit 1000000 demo_mb_wedged = (Inl e, demo_mb_wedged))"
proof -
  have "mb_halfOpenProbe (snd (Call_admit 40 demo_mb_open))"
    by (simp add: demo_mb_open_def mb_defs Call_admit_def)
  moreover have "(mb_step (\<lambda>_. True))\<^sup>*\<^sup>* (ModelReset (snd (Call_admit 40 demo_mb_open))) demo_mb_wedged"
    unfolding demo_mb_wedged_def by (rule r_into_rtranclp) (rule mb_step.Record)
  moreover have "mb_state demo_mb_wedged = CircuitOpen \<and> mb_lastFailureTime demo_mb_wedged = 50"
    by (simp add: demo_mb_wedged_def demo_mb_open_def mb_defs Call_admit_def ModelReset_def)
  ultimately show ?thesis using model_breaker_reset_wedges by blast
qed

end
