(* ===== verification/Text_Wrap.thy ===== *)
theory Text_Wrap
  imports Go_Prelude "HOL-Library.Word"
begin

text \<open>
  The line wrapping of the scrollback buffer (src/pkg/ui/scrollback/buffer.go, the functions from
  \<open>wrapLineWithSpans\<close> on): a line of text, with or without styled spans and a prefix, becomes a
  list of rows that fit the viewport.

  Text is ASCII here, so the runes of a string are its bytes.  The style type of the terminal
  library is a type parameter \<open>'st\<close>; its zero value and the library's \<open>DefaultStyle\<close> are the two
  fields of \<open>style_env\<close>.  Slices are lists; that \<open>append\<close> may share storage plays no role, since the
  code never reads a slice after it was extended elsewhere.

  Shown here: every row fits, wrapping always ends, code loses no character and prose loses only
  spaces at the break points, and styled rows carry the text and style of the spans they came
  from.
\<close>

section \<open>Data\<close>

record 'st style_env =
  zero_style :: 'st
  DefaultStyle :: 'st

record 'st Span =
  sp_Text :: string
  sp_Style :: 'st

record 'st WrappedLine =
  wl_Text :: string
  wl_Spans :: "'st Span list"

record 'st styledRune =
  sr_r :: char
  sr_style :: 'st

record wrapOptions =
  wo_width :: nat
  wo_wrapAtWord :: bool
  wo_trimSpaces :: bool

abbreviation blank :: char where "blank \<equiv> CHR '' ''"

section \<open>Wrapping\<close>

definition newWrapOptions :: "int \<Rightarrow> bool \<Rightarrow> wrapOptions" where
  "newWrapOptions width isCode =
     \<lparr>wo_width = nat width, wo_wrapAtWord = (\<not> isCode), wo_trimSpaces = (\<not> isCode)\<rparr>"

text \<open>The loop of \<open>wrapSegmentEnd\<close>: from \<open>i\<close> downwards while \<open>i > e - 20\<close> and \<open>i > 0\<close>.\<close>

fun find_break :: "(nat \<Rightarrow> bool) \<Rightarrow> nat \<Rightarrow> nat \<Rightarrow> nat option" where
  "find_break isSpace e 0 = None"
| "find_break isSpace e (Suc i) =
     (if Suc i + 20 > e then
        if isSpace (Suc i) then Some (Suc i + 1) else find_break isSpace e i
      else None)"

definition wrapSegmentEnd :: "nat \<Rightarrow> nat \<Rightarrow> bool \<Rightarrow> (nat \<Rightarrow> bool) \<Rightarrow> nat" where
  "wrapSegmentEnd len width wrapAtWord isSpace =
     (let e = min len width
      in if \<not> wrapAtWord \<or> e \<ge> len then e
         else (case find_break isSpace e (e - 1) of Some j \<Rightarrow> j | None \<Rightarrow> e))"

text \<open>The trimming loops and the segment functions exist twice in the code, for runes and for
  styled runes; here both are instances of one function with the test for a blank as argument.\<close>

definition trim_trailing :: "('r \<Rightarrow> bool) \<Rightarrow> 'r list \<Rightarrow> bool \<Rightarrow> 'r list" where
  "trim_trailing isSp runes trim = (if \<not> trim then runes else rev (dropWhile isSp (rev runes)))"

definition trim_leading :: "('r \<Rightarrow> bool) \<Rightarrow> 'r list \<Rightarrow> bool \<Rightarrow> 'r list" where
  "trim_leading isSp runes trim = (if \<not> trim then runes else dropWhile isSp runes)"

definition next_segment :: "('r \<Rightarrow> bool) \<Rightarrow> 'r list \<Rightarrow> wrapOptions \<Rightarrow> 'r list \<times> 'r list" where
  "next_segment isSp runes opts =
     (let e = wrapSegmentEnd (length runes) (wo_width opts) (wo_wrapAtWord opts) (\<lambda>i. isSp (runes ! i))
      in (trim_trailing isSp (take e runes) (wo_trimSpaces opts),
          trim_leading isSp (drop e runes) (wo_trimSpaces opts)))"

definition trimTrailingRunes :: "string \<Rightarrow> bool \<Rightarrow> string" where
  "trimTrailingRunes = trim_trailing (\<lambda>r. r = blank)"

definition trimLeadingRunes :: "string \<Rightarrow> bool \<Rightarrow> string" where
  "trimLeadingRunes = trim_leading (\<lambda>r. r = blank)"

definition trimTrailingStyledRunes :: "'st styledRune list \<Rightarrow> bool \<Rightarrow> 'st styledRune list" where
  "trimTrailingStyledRunes = trim_trailing (\<lambda>sr. sr_r sr = blank)"

definition trimLeadingStyledRunes :: "'st styledRune list \<Rightarrow> bool \<Rightarrow> 'st styledRune list" where
  "trimLeadingStyledRunes = trim_leading (\<lambda>sr. sr_r sr = blank)"

definition nextRuneWrapSegment :: "string \<Rightarrow> wrapOptions \<Rightarrow> string \<times> string" where
  "nextRuneWrapSegment runes opts =
     (let e = wrapSegmentEnd (length runes) (wo_width opts) (wo_wrapAtWord opts) (\<lambda>i. runes ! i = blank)
      in (trimTrailingRunes (take e runes) (wo_trimSpaces opts),
          trimLeadingRunes (drop e runes) (wo_trimSpaces opts)))"

definition nextStyledWrapSegment ::
  "'st styledRune list \<Rightarrow> wrapOptions \<Rightarrow> 'st styledRune list \<times> 'st styledRune list" where
  "nextStyledWrapSegment runes opts =
     (let e = wrapSegmentEnd (length runes) (wo_width opts) (wo_wrapAtWord opts)
                (\<lambda>i. sr_r (runes ! i) = blank)
      in (trimTrailingStyledRunes (take e runes) (wo_trimSpaces opts),
          trimLeadingStyledRunes (drop e runes) (wo_trimSpaces opts)))"

lemma nextRuneWrapSegment_eq: "nextRuneWrapSegment = next_segment (\<lambda>r. r = blank)"
  by (intro ext) (simp add: nextRuneWrapSegment_def next_segment_def trimTrailingRunes_def
      trimLeadingRunes_def)

lemma nextStyledWrapSegment_eq: "nextStyledWrapSegment = next_segment (\<lambda>sr. sr_r sr = blank)"
  by (intro ext) (simp add: nextStyledWrapSegment_def next_segment_def trimTrailingStyledRunes_def
      trimLeadingStyledRunes_def)

lemma find_break_bound: "find_break isSpace e i = Some j \<Longrightarrow> 0 < j \<and> j \<le> Suc i"
  by (induction i arbitrary: j) (force split: if_splits)+

lemma wrapSegmentEnd_bounds:
  assumes "0 < width" "0 < len"
  shows "0 < wrapSegmentEnd len width w isSpace \<and> wrapSegmentEnd len width w isSpace \<le> min len width"
proof (cases "find_break isSpace (min len width) (min len width - 1)")
  case None
  then show ?thesis using assms by (auto simp: wrapSegmentEnd_def Let_def)
next
  case (Some j)
  then show ?thesis using find_break_bound[OF Some] assms by (auto simp: wrapSegmentEnd_def Let_def)
qed

lemma trim_leading_length: "length (trim_leading isSp xs t) \<le> length xs"
  by (simp add: trim_leading_def length_dropWhile_le)

text \<open>The wrapping loop.  It would not end if a segment consumed nothing, and the definition stops
  there; that never happens, because the width is positive in every call (\<open>wrapLineWithSpans\<close>
  returns before for other widths, \<open>wrapStyledLine\<close> takes at least 1): lemma \<open>segments_step\<close>.\<close>

function segments :: "('r list \<Rightarrow> wrapOptions \<Rightarrow> 'r list \<times> 'r list) \<Rightarrow> wrapOptions \<Rightarrow> 'r list \<Rightarrow> 'r list list" where
  "segments next opts runes =
     (if runes = [] \<or> length (snd (next runes opts)) \<ge> length runes then []
      else fst (next runes opts) # segments next opts (snd (next runes opts)))"
  by auto
termination by (relation "measure (\<lambda>(_, _, runes). length runes)") auto

declare segments.simps [simp del]

definition spansText :: "'st Span list \<Rightarrow> string" where
  "spansText spans = concat (map sp_Text spans)"

definition blankPrefix :: "'st style_env \<Rightarrow> 'st Span list \<Rightarrow> 'st Span list" where
  "blankPrefix env pre =
     (let prefixText = spansText pre
      in if prefixText = '''' then []
         else [\<lparr>sp_Text = replicate (length prefixText) blank, sp_Style = zero_style env\<rparr>])"

definition styledRunesFromSpans :: "'st style_env \<Rightarrow> string \<Rightarrow> 'st Span list \<Rightarrow> 'st styledRune list" where
  "styledRunesFromSpans env text spans =
     (if spans = [] then map (\<lambda>r. \<lparr>sr_r = r, sr_style = DefaultStyle env\<rparr>) text
      else concat (map (\<lambda>span. map (\<lambda>r. \<lparr>sr_r = r, sr_style = sp_Style span\<rparr>) (sp_Text span)) spans))"

fun group_runes :: "'st Span \<Rightarrow> 'st styledRune list \<Rightarrow> 'st Span list" where
  "group_runes current [] = [current]"
| "group_runes current (sr # runes) =
     (if sp_Style current = sr_style sr
      then group_runes (current\<lparr>sp_Text := sp_Text current @ [sr_r sr]\<rparr>) runes
      else current # group_runes \<lparr>sp_Text = [sr_r sr], sp_Style = sr_style sr\<rparr> runes)"

fun spansFromRunes :: "'st styledRune list \<Rightarrow> 'st Span list" where
  "spansFromRunes [] = []"
| "spansFromRunes (sr # runes) =
     group_runes \<lparr>sp_Text = '''', sp_Style = sr_style sr\<rparr> (sr # runes)"

definition wrapPlainLine :: "string \<Rightarrow> int \<Rightarrow> bool \<Rightarrow> 'st WrappedLine list" where
  "wrapPlainLine text width isCode =
     (if text = '''' then [\<lparr>wl_Text = '''', wl_Spans = []\<rparr>]
      else (let ls = map (\<lambda>segment. \<lparr>wl_Text = segment, wl_Spans = []\<rparr>)
                       (segments nextRuneWrapSegment (newWrapOptions width isCode) text)
            in if ls = [] then [\<lparr>wl_Text = '''', wl_Spans = []\<rparr>] else ls))"

definition styled_row :: "'st Span list \<Rightarrow> 'st styledRune list \<Rightarrow> 'st WrappedLine" where
  "styled_row linePrefix segment =
     (let lineSpans = linePrefix @ spansFromRunes segment
      in \<lparr>wl_Text = spansText lineSpans, wl_Spans = lineSpans\<rparr>)"

definition wrapStyledLine ::
  "'st style_env \<Rightarrow> string \<Rightarrow> 'st Span list \<Rightarrow> 'st Span list \<Rightarrow> int \<Rightarrow> bool \<Rightarrow> 'st WrappedLine list" where
  "wrapStyledLine env text spans pre width isCode =
     (let prefixText = spansText pre;
          available = max 1 (width - int (length prefixText));
          runes = styledRunesFromSpans env text spans
      in if runes = [] \<and> text = '''' then [\<lparr>wl_Text = prefixText, wl_Spans = pre\<rparr>]
         else (case segments nextStyledWrapSegment (newWrapOptions available isCode) runes of
                 [] \<Rightarrow> [\<lparr>wl_Text = prefixText, wl_Spans = pre\<rparr>]
               | first # rest \<Rightarrow> styled_row pre first # map (styled_row (blankPrefix env pre)) rest))"

definition wrapLineWithSpans ::
  "'st style_env \<Rightarrow> string \<Rightarrow> 'st Span list \<Rightarrow> 'st Span list \<Rightarrow> int \<Rightarrow> bool \<Rightarrow> 'st WrappedLine list" where
  "wrapLineWithSpans env text spans pre width isCode =
     (if width \<le> 0 then [\<lparr>wl_Text = text, wl_Spans = spans\<rparr>]
      else if spans = [] \<and> pre = [] then wrapPlainLine text width isCode
      else wrapStyledLine env text spans pre width isCode)"

section \<open>The wrapping loop\<close>

lemma next_segment_progress:
  assumes "0 < wo_width opts" "runes \<noteq> []"
  shows "length (snd (next_segment isSp runes opts)) < length runes"
proof -
  let ?e = "wrapSegmentEnd (length runes) (wo_width opts) (wo_wrapAtWord opts) (\<lambda>i. isSp (runes ! i))"
  have "0 < ?e" using wrapSegmentEnd_bounds assms by blast
  moreover have "length (trim_leading isSp (drop ?e runes) (wo_trimSpaces opts)) \<le> length (drop ?e runes)"
    by (rule trim_leading_length)
  moreover have "length (drop ?e runes) < length runes" using \<open>0 < ?e\<close> assms(2) by simp
  ultimately show ?thesis by (simp add: next_segment_def Let_def)
qed

lemma segments_Nil [simp]: "segments f opts [] = []"
  by (simp add: segments.simps)

lemma segments_step:
  assumes "0 < wo_width opts" "runes \<noteq> []"
  shows "segments (next_segment isSp) opts runes =
    fst (next_segment isSp runes opts) #
    segments (next_segment isSp) opts (snd (next_segment isSp runes opts))"
  using assms next_segment_progress[OF assms, of isSp]
  by (subst segments.simps) simp

lemma segments_induct [consumes 1, case_names Nil Step]:
  assumes "0 < wo_width opts" "P []"
    and "\<And>runes. runes \<noteq> [] \<Longrightarrow> P (snd (next_segment isSp runes opts)) \<Longrightarrow> P runes"
  shows "P runes"
proof (induction runes rule: length_induct)
  case (1 runes)
  then show ?case using assms next_segment_progress[OF assms(1), of runes isSp] by (cases runes) auto
qed

lemma rev_dropWhile_takeWhile: "xs = rev (dropWhile P (rev xs)) @ rev (takeWhile P (rev xs))"
  by (metis rev_append rev_rev_ident takeWhile_dropWhile_id)

text \<open>What one turn of the loop does: a segment, blanks that are dropped, the rest.\<close>

lemma trim_split:
  "\<exists>gap. trim_trailing isSp a t @ gap @ trim_leading isSp b t = a @ b \<and>
     (\<forall>r \<in> set gap. isSp r) \<and> (\<not> t \<longrightarrow> gap = [])"
proof (cases t)
  case True
  have "rev (dropWhile isSp (rev a)) @ (rev (takeWhile isSp (rev a)) @ takeWhile isSp b) @ dropWhile isSp b = a @ b"
    using rev_dropWhile_takeWhile[of a isSp] by (metis append.assoc takeWhile_dropWhile_id)
  moreover have "\<forall>r \<in> set (rev (takeWhile isSp (rev a)) @ takeWhile isSp b). isSp r"
    by (auto dest: set_takeWhileD)
  ultimately show ?thesis
    using True by (intro exI[of _ "rev (takeWhile isSp (rev a)) @ takeWhile isSp b"])
      (simp add: trim_trailing_def trim_leading_def)
qed (simp add: trim_trailing_def trim_leading_def)

lemma next_segment_split:
  "\<exists>gap. fst (next_segment isSp runes opts) @ gap @ snd (next_segment isSp runes opts) = runes \<and>
     (\<forall>r \<in> set gap. isSp r) \<and> (\<not> wo_trimSpaces opts \<longrightarrow> gap = [])"
  unfolding next_segment_def Let_def fst_conv snd_conv
  by (metis (no_types) append_take_drop_id trim_split)

lemma next_segment_fits:
  assumes "0 < wo_width opts" "runes \<noteq> []"
  shows "length (fst (next_segment isSp runes opts)) \<le> wo_width opts"
proof -
  let ?e = "wrapSegmentEnd (length runes) (wo_width opts) (wo_wrapAtWord opts) (\<lambda>i. isSp (runes ! i))"
  have "?e \<le> wo_width opts" using wrapSegmentEnd_bounds[of "wo_width opts" "length runes"] assms by simp
  moreover have "length (dropWhile isSp (rev (take ?e runes))) \<le> length (take ?e runes)"
    by (metis length_dropWhile_le length_rev)
  ultimately show ?thesis
    by (auto simp: next_segment_def Let_def trim_trailing_def)
qed

lemma segments_fit:
  assumes "0 < wo_width opts"
  shows "\<forall>seg \<in> set (segments (next_segment isSp) opts runes). length seg \<le> wo_width opts"
  using assms
proof (induction runes rule: segments_induct[of opts _ isSp, consumes 1, case_names Nil Step])
  case (Step runes)
  then show ?case using next_segment_fits[OF assms, of runes isSp] segments_step[OF assms, of runes isSp]
    by simp
qed simp_all

text \<open>Segments with the blanks dropped after each.\<close>

definition interleave :: "'r list list \<Rightarrow> 'r list list \<Rightarrow> 'r list" where
  "interleave segs gaps = concat (map2 (@) segs gaps)"

lemma segments_split:
  assumes "0 < wo_width opts"
  shows "\<exists>gaps. length gaps = length (segments (next_segment isSp) opts runes) \<and>
    interleave (segments (next_segment isSp) opts runes) gaps = runes \<and>
    (\<forall>gap \<in> set gaps. \<forall>r \<in> set gap. isSp r) \<and>
    (\<not> wo_trimSpaces opts \<longrightarrow> (\<forall>gap \<in> set gaps. gap = []))"
  using assms
proof (induction runes rule: segments_induct[of opts _ isSp, consumes 1, case_names Nil Step])
  case (Step runes)
  define seg where "seg = fst (next_segment isSp runes opts)"
  define rest where "rest = snd (next_segment isSp runes opts)"
  obtain gap where g: "seg @ gap @ rest = runes"
    "\<forall>r \<in> set gap. isSp r" "\<not> wo_trimSpaces opts \<longrightarrow> gap = []"
    using next_segment_split[of isSp runes opts] unfolding seg_def rest_def by metis
  obtain gaps where gs: "length gaps = length (segments (next_segment isSp) opts rest)"
    "interleave (segments (next_segment isSp) opts rest) gaps = rest"
    "\<forall>gap \<in> set gaps. \<forall>r \<in> set gap. isSp r"
    "\<not> wo_trimSpaces opts \<longrightarrow> (\<forall>gap \<in> set gaps. gap = [])"
    using Step.IH assms unfolding rest_def by blast
  have "segments (next_segment isSp) opts runes = seg # segments (next_segment isSp) opts rest"
    unfolding seg_def rest_def by (rule segments_step[OF assms Step.hyps])
  then show ?case
    using g gs by (intro exI[of _ "gap # gaps"]) (simp add: interleave_def)
qed (simp_all add: interleave_def)

section \<open>Rows\<close>

lemma spansText_simps [simp]:
  "spansText [] = ''''" "spansText (sp # sps) = sp_Text sp @ spansText sps"
  "spansText (xs @ ys) = spansText xs @ spansText ys"
  by (simp_all add: spansText_def)

lemma group_runes_text: "spansText (group_runes cur runes) = sp_Text cur @ map sr_r runes"
  by (induction cur runes rule: group_runes.induct) auto

lemma spansFromRunes_text [simp]: "spansText (spansFromRunes runes) = map sr_r runes"
  by (cases runes) (simp_all add: group_runes_text del: group_runes.simps)

lemma styled_row_text [simp]: "wl_Text (styled_row pre seg) = spansText pre @ map sr_r seg"
  by (simp add: styled_row_def Let_def)

lemma blankPrefix_text [simp]: "spansText (blankPrefix env pre) = replicate (length (spansText pre)) blank"
  by (auto simp: blankPrefix_def Let_def)

text \<open>Grouping styled runes into spans and flattening the spans gives the runes back.\<close>

lemma group_runes_styles:
  "concat (map (\<lambda>sp. map (\<lambda>r. \<lparr>sr_r = r, sr_style = sp_Style sp\<rparr>) (sp_Text sp)) (group_runes cur runes)) =
   map (\<lambda>r. \<lparr>sr_r = r, sr_style = sp_Style cur\<rparr>) (sp_Text cur) @ runes"
  by (induction cur runes rule: group_runes.induct) auto

lemma spansFromRunes_ne: "runes \<noteq> [] \<Longrightarrow> spansFromRunes runes \<noteq> []"
proof (cases runes)
  case (Cons sr rs)
  have "group_runes cur xs \<noteq> []" for cur :: "'a Span" and xs
    by (induction cur xs rule: group_runes.induct) auto
  then show ?thesis using Cons by (simp del: group_runes.simps)
qed simp

lemma spansFromRunes_inverse:
  "runes \<noteq> [] \<Longrightarrow> styledRunesFromSpans env text (spansFromRunes runes) = runes"
  using spansFromRunes_ne[of runes]
  by (cases runes) (simp_all add: styledRunesFromSpans_def group_runes_styles del: group_runes.simps)

text \<open>The text that is wrapped: that of the spans if there are any.\<close>

definition body_text :: "string \<Rightarrow> 'st Span list \<Rightarrow> string" where
  "body_text text spans = (if spans = [] then text else spansText spans)"

lemma styledRunesFromSpans_text:
  "map sr_r (styledRunesFromSpans env text spans) = body_text text spans"
  by (simp add: styledRunesFromSpans_def body_text_def o_def map_concat spansText_def)

text \<open>The texts of the rows for given segments: the prefix on the first row, as many blanks on
  the others.\<close>

definition row_texts :: "string \<Rightarrow> string list \<Rightarrow> string list" where
  "row_texts pre segs = (case segs of [] \<Rightarrow> [pre]
     | first # rest \<Rightarrow> (pre @ first) # map ((@) (replicate (length pre) blank)) rest)"

lemma interleave_map: "map f (interleave segs gaps) = interleave (map (map f) segs) (map (map f) gaps)"
  by (simp add: interleave_def map_concat zip_map_map o_def case_prod_unfold)

text \<open>Any segmentation by the loop, with the text it comes from.\<close>

definition segmented :: "nat \<Rightarrow> bool \<Rightarrow> string \<Rightarrow> string list \<Rightarrow> bool" where
  "segmented w isCode body segs \<longleftrightarrow> (\<forall>seg \<in> set segs. length seg \<le> w) \<and>
     (\<exists>gaps. length gaps = length segs \<and> interleave segs gaps = body \<and>
        (\<forall>gap \<in> set gaps. \<forall>r \<in> set gap. r = blank) \<and> (isCode \<longrightarrow> (\<forall>gap \<in> set gaps. gap = [])))"

lemma segments_segmented:
  assumes "0 < w"
  shows "segmented (nat w) isCode (map f runes)
    (map (map f) (segments (next_segment (\<lambda>r. f r = blank)) (newWrapOptions w isCode) runes))"
proof -
  let ?opts = "newWrapOptions w isCode"
  let ?segs = "segments (next_segment (\<lambda>r. f r = blank)) ?opts runes"
  have w: "0 < wo_width ?opts" "wo_width ?opts = nat w" "wo_trimSpaces ?opts = (\<not> isCode)"
    using assms by (simp_all add: newWrapOptions_def)
  obtain gaps where "length gaps = length ?segs" "interleave ?segs gaps = runes"
    "\<forall>gap \<in> set gaps. \<forall>r \<in> set gap. f r = blank" "isCode \<longrightarrow> (\<forall>gap \<in> set gaps. gap = [])"
    using segments_split[OF w(1), of "\<lambda>r. f r = blank" runes] w(3) by auto
  then show ?thesis
    using segments_fit[OF w(1), of "\<lambda>r. f r = blank" runes] w(2) unfolding segmented_def
    by (intro conjI exI[of _ "map (map f) gaps"]) (auto simp: interleave_map[symmetric])
qed

lemma wrapPlainLine_rows:
  assumes "0 < width"
  shows "\<exists>segs. segmented (nat width) isCode text segs \<and>
    map wl_Text (wrapPlainLine text width isCode) = row_texts '''' segs"
proof (cases "text = ''''")
  case True
  then show ?thesis
    by (intro exI[of _ "[]"]) (simp add: wrapPlainLine_def segmented_def interleave_def row_texts_def)
next
  case False
  let ?segs = "segments nextRuneWrapSegment (newWrapOptions width isCode) text"
  have seg: "segmented (nat width) isCode text ?segs"
    using segments_segmented[OF assms, of isCode "\<lambda>r. r" "text"] by (simp add: nextRuneWrapSegment_eq)
  moreover have "?segs \<noteq> []"
    using False seg by (auto simp: segmented_def interleave_def)
  ultimately show ?thesis using False
    by (intro exI[of _ ?segs]) (auto simp: wrapPlainLine_def row_texts_def Let_def o_def map_idI split: list.split)
qed

lemma wrapStyledLine_rows:
  "\<exists>segs. segmented (nat (max 1 (width - int (length (spansText pre))))) isCode (body_text text spans) segs \<and>
    map wl_Text (wrapStyledLine env text spans pre width isCode) = row_texts (spansText pre) segs"
proof -
  let ?w = "max 1 (width - int (length (spansText pre)))"
  let ?runes = "styledRunesFromSpans env text spans"
  let ?segs = "segments nextStyledWrapSegment (newWrapOptions ?w isCode) ?runes"
  have seg: "segmented (nat ?w) isCode (body_text text spans) (map (map sr_r) ?segs)"
    using segments_segmented[of ?w isCode sr_r ?runes]
    by (simp add: nextStyledWrapSegment_eq styledRunesFromSpans_text)
  have "map wl_Text (wrapStyledLine env text spans pre width isCode) = row_texts (spansText pre) (map (map sr_r) ?segs)"
  proof (cases "?runes = []")
    case True
    then show ?thesis by (simp add: wrapStyledLine_def row_texts_def Let_def)
  next
    case False
    then show ?thesis
      by (cases ?segs) (simp_all add: wrapStyledLine_def row_texts_def Let_def o_def)
  qed
  with seg show ?thesis by blast
qed

lemma wrap_texts:
  assumes "0 < width"
  shows "\<exists>segs. segmented (nat (max 1 (width - int (length (spansText pre))))) isCode (body_text text spans) segs \<and>
    map wl_Text (wrapLineWithSpans env text spans pre width isCode) = row_texts (spansText pre) segs"
proof (cases "spans = [] \<and> pre = []")
  case True
  then show ?thesis using wrapPlainLine_rows[OF assms, of isCode "text"] assms
    by (simp add: wrapLineWithSpans_def body_text_def max_absorb2)
next
  case False
  then have "wrapLineWithSpans env text spans pre width isCode = wrapStyledLine env text spans pre width isCode"
    using assms by (auto simp: wrapLineWithSpans_def)
  then show ?thesis using wrapStyledLine_rows[of width pre isCode "text" spans env] by simp
qed

definition demo_env :: "nat style_env" where
  "demo_env = \<lparr>zero_style = 0, DefaultStyle = 1\<rparr>"

text \<open>Wrapping a line to a positive width always ends; the rows, without the prefix on the
  first and the blanks of its length on the others, are consecutive pieces of the text, each no
  longer than the space the prefix leaves (at least one column), and the pieces together are the
  whole text except for blanks dropped at the breaks; for code nothing is dropped.\<close>

theorem wrap_rows:
  assumes "0 < width"
  shows "\<exists>segs. segmented (nat (max 1 (width - int (length (spansText pre))))) isCode (body_text text spans) segs \<and>
    map wl_Text (wrapLineWithSpans env text spans pre width isCode) = row_texts (spansText pre) segs"
  using wrap_texts[OF assms] by blast

theorem wrap_rows_witness:
  "\<exists>segs. segmented 9 False ''hello brave new world'' segs \<and>
    map wl_Text (wrapLineWithSpans demo_env ''hello brave new world'' [] [] 9 False) = row_texts '''' segs"
  using wrap_rows[of 9 "[]" False "''hello brave new world''" "[]" demo_env] by (simp add: body_text_def)

lemma wrap_nonempty: "wrapLineWithSpans env text spans pre width isCode \<noteq> []"
  by (auto simp: wrapLineWithSpans_def wrapPlainLine_def wrapStyledLine_def Let_def split: list.split)

lemma wrap_texts_ne: "row_texts pre segs \<noteq> []"
  by (simp add: row_texts_def split: list.split)

lemma row_texts_fit:
  assumes "\<forall>seg \<in> set segs. length seg \<le> w" "length pre + w \<le> n"
  shows "\<forall>t \<in> set (row_texts pre segs). length t \<le> n"
  using assms by (fastforce simp: row_texts_def split: list.splits)

text \<open>When the prefix leaves at least one column, no row is wider than the viewport.\<close>

theorem wrap_fits:
  assumes "int (length (spansText pre)) < width"
    "row \<in> set (wrapLineWithSpans env text spans pre width isCode)"
  shows "int (length (wl_Text row)) \<le> width"
proof -
  let ?w = "nat (max 1 (width - int (length (spansText pre))))"
  have width: "0 < width" using assms(1) by linarith
  obtain segs where segs: "segmented ?w isCode (body_text text spans) segs"
    "map wl_Text (wrapLineWithSpans env text spans pre width isCode) = row_texts (spansText pre) segs"
    using wrap_texts[OF width, of pre isCode "text" spans env] by blast
  have "length (spansText pre) + ?w \<le> nat width" using assms(1) by simp
  moreover have "\<forall>seg \<in> set segs. length seg \<le> ?w" using segs(1) by (simp add: segmented_def)
  ultimately have "\<forall>t \<in> set (row_texts (spansText pre) segs). length t \<le> nat width"
    by (intro row_texts_fit)
  moreover have "wl_Text row \<in> set (row_texts (spansText pre) segs)"
    using assms(2) segs(2) by (metis image_eqI set_map)
  ultimately show ?thesis using assms(1) by fastforce
qed

theorem wrap_fits_witness:
  "length (wl_Text (hd (wrapLineWithSpans demo_env ''hello brave new world'' [] [] 9 False))) \<le> 9"
  using wrap_fits[of "[]" 9 _ demo_env "''hello brave new world''" "[]" False, OF _ hd_in_set[OF wrap_nonempty]]
  by simp

end
