(* ===== verification/Go_Glob.thy ===== *)
theory Go_Glob
  imports Go_Prelude
begin

text \<open>
  More of the Go library: \<open>filepath.Match\<close> and \<open>filepath.Dir\<close> on Unix, \<open>strings.TrimSuffix\<close>, and the
  decimal format of a number.

  \<open>glob_match\<close> is the documented meaning of \<open>filepath.Match\<close>: \<open>*\<close> matches any sequence of bytes other
  than the separator, \<open>?\<close> one such byte, a class in brackets one byte of its ranges, \<open>\\<close> escapes the
  next byte.  A malformed pattern matches nothing (the library returns an error and \<open>false\<close>).
\<close>

definition trim_suffix :: "string \<Rightarrow> string \<Rightarrow> string" where
  [go_simps]: "trim_suffix s suf = (if has_suffix s suf then take (length s - length suf) s else s)"

text \<open>One end of a range in a class: not \<open>-\<close> or \<open>]\<close>, possibly escaped, and not the end of the
  pattern.\<close>

definition get_esc :: "string \<Rightarrow> (char \<times> string) option" where
  "get_esc p =
     (case p of
        [] \<Rightarrow> None
      | c # cs \<Rightarrow>
          if c = CHR ''-'' \<or> c = CHR '']'' then None
          else if c = CHR 0x5C then
            (case cs of [] \<Rightarrow> None | d # ds \<Rightarrow> if ds = [] then None else Some (d, ds))
          else if cs = [] then None else Some (c, cs))"

lemma get_esc_length: "get_esc p = Some (c, q) \<Longrightarrow> length q < length p"
  by (auto simp: get_esc_def split: list.splits if_splits)

text \<open>The ranges of a class up to its closing bracket: whether one contains the byte, and the rest of
  the pattern.  \<open>first\<close> says that no range has been read yet.\<close>

function class_match :: "bool \<Rightarrow> bool \<Rightarrow> char \<Rightarrow> string \<Rightarrow> (bool \<times> string) option" where
  "class_match first found r p =
     (if p \<noteq> [] \<and> hd p = CHR '']'' \<and> \<not> first then Some (found, tl p)
      else case get_esc p of
             None \<Rightarrow> None
           | Some (lo, q) \<Rightarrow>
               if q \<noteq> [] \<and> hd q = CHR ''-'' then
                 (case get_esc (tl q) of
                    None \<Rightarrow> None
                  | Some (hi, q2) \<Rightarrow> class_match False (found \<or> (lo \<le> r \<and> r \<le> hi)) r q2)
               else class_match False (found \<or> lo = r) r q)"
  by auto
termination
  by (relation "measure (\<lambda>(_, _, _, p). length p)") (auto dest!: get_esc_length)

declare class_match.simps [simp del]

definition bracket_match :: "char \<Rightarrow> string \<Rightarrow> (bool \<times> string) option" where
  "bracket_match r p =
     (if p \<noteq> [] \<and> hd p = CHR ''^'' then map_option (\<lambda>(m, q). (\<not> m, q)) (class_match True False r (tl p))
      else class_match True False r p)"

function glob_match :: "string \<Rightarrow> string \<Rightarrow> bool" where
  "glob_match [] name = (name = [])"
| "glob_match (x # p) name =
     (if x = CHR ''*'' then
        glob_match p name \<or> (if name = [] \<or> hd name = sep then False else glob_match (x # p) (tl name))
      else if name = [] then False
      else if x = CHR ''?'' then hd name \<noteq> sep \<and> glob_match p (tl name)
      else if x = CHR ''['' then
        (case bracket_match (hd name) p of None \<Rightarrow> False | Some (m, q) \<Rightarrow> m \<and> glob_match q (tl name))
      else if x = CHR 0x5C then p \<noteq> [] \<and> hd p = hd name \<and> glob_match (tl p) (tl name)
      else x = hd name \<and> glob_match p (tl name))"
  by pat_completeness auto
termination by (relation "measures [\<lambda>(p, n). length n, \<lambda>(p, n). length p]") auto

declare glob_match.simps [simp del]

text \<open>\<open>filepath.Dir\<close>: everything up to the last separator, cleaned.\<close>

definition dir_of :: "string \<Rightarrow> string" where
  [go_simps]: "dir_of p = clean (rev (dropWhile (\<lambda>c. c \<noteq> sep) (rev p)))"

fun itoa_nat :: "nat \<Rightarrow> string" where
  "itoa_nat n = (if n < 10 then [char_of (48 + n)] else itoa_nat (n div 10) @ [char_of (48 + n mod 10)])"

declare itoa_nat.simps [simp del]

lemma has_suffix_append [simp]: "has_suffix (s @ t) t"
  by (simp add: has_suffix_def)

lemma has_suffix_iff: "has_suffix s t \<longleftrightarrow> (\<exists>u. s = u @ t)"
proof
  assume "has_suffix s t"
  then have "prefix (rev t) (rev s)" by (simp add: has_suffix_def has_prefix_iff)
  then show "\<exists>u. s = u @ t" by (auto simp: prefix_def) (metis rev_append rev_rev_ident)
qed auto

lemma trim_suffix_append [simp]: "trim_suffix (s @ t) t = s"
  by (simp add: trim_suffix_def)

end
