(* ===== verification/Go_Numbers.thy ===== *)
theory Go_Numbers
  imports Go_Glob
begin

text \<open>
  Numbers of Go: that \<open>strconv.Atoi\<close> reads back a printed number, the remainder that takes the sign of the dividend,
  and the operations on \<open>float64\<close> that the sources use.

  \<open>float64\<close> is not modelled bit by bit: a definition that computes with it takes the operations as an
  argument of type \<open>float_ops\<close>, and what a property needs of them is one of its hypotheses.
\<close>

section \<open>Decimal numbers\<close>

lemma digits_val_snoc: "digits_val (xs @ [c]) = 10 * digits_val xs + digit_val c"
  by (simp add: digits_val_def)

lemma digit_char: "d < 10 \<Longrightarrow> is_digit (char_of (48 + d)) \<and> digit_val (char_of (48 + d)) = int d"
  by (simp add: is_digit_def digit_val_def)

lemma itoa_nat_digits:
  "list_all is_digit (itoa_nat n) \<and> itoa_nat n \<noteq> [] \<and> digits_val (itoa_nat n) = int n"
proof (induction n rule: itoa_nat.induct)
  case (1 n)
  have d: "is_digit (char_of (48 + n mod 10))" "digit_val (char_of (48 + n mod 10)) = int (n mod 10)"
    using digit_char [of "n mod 10"] by simp_all
  show ?case
  proof (cases "n < 10")
    case True
    then show ?thesis using d by (subst (1 2 3) itoa_nat.simps) (simp add: digits_val_def)
  next
    case False
    have "10 * int (n div 10) + int (n mod 10) = int n" by (metis mult_div_mod_eq of_nat_add of_nat_mult of_nat_numeral)
    then show ?thesis using False d 1 by (subst (1 2 3) itoa_nat.simps) (simp add: digits_val_snoc)
  qed
qed

lemma itoa_nat_chars: "c \<in> set (itoa_nat n) \<Longrightarrow> is_digit c"
  using itoa_nat_digits [of n] by (simp add: list_all_iff)

lemma digit_not_sign:
  "is_digit c \<Longrightarrow> c \<noteq> CHR ''-'' \<and> c \<noteq> CHR ''+'' \<and> c \<noteq> CHR '','' \<and> c \<noteq> CHR ''*'' \<and> \<not> is_space c"
  by (auto simp: is_digit_def is_space_def Let_def)

lemma atoi_itoa_nat: "int n < 2 ^ 63 \<Longrightarrow> atoi (itoa_nat n) = Some (int n)"
proof -
  assume le: "int n < 2 ^ 63"
  obtain c cs where eq: "itoa_nat n = c # cs" using itoa_nat_digits [of n] by (cases "itoa_nat n") auto
  then have "c \<noteq> CHR ''-''" "c \<noteq> CHR ''+''"
    using itoa_nat_digits [of n] digit_not_sign [of c] by simp_all
  then show ?thesis using itoa_nat_digits [of n] le eq by (simp add: atoi_def)
qed

lemma itoa_no_char: "\<not> is_digit c \<Longrightarrow> c \<notin> set (itoa_nat n)"
  using itoa_nat_chars by blast

section \<open>Words on a line\<close>

lemma fields_aux_word:
  "\<forall>c \<in> set w. \<not> is_space c \<Longrightarrow> fields_aux acc (w @ s) = fields_aux (rev w @ acc) s"
  by (induction w arbitrary: acc) simp_all

lemma fields_join:
  "\<forall>w \<in> set ws. w \<noteq> [] \<and> (\<forall>c \<in> set w. \<not> is_space c) \<Longrightarrow> Go_Prelude.fields (join_with CHR '' '' ws) = ws"
  unfolding Go_Prelude.fields_def
proof (induction "CHR '' ''" ws rule: join_with.induct)
  case (2 w)
  then show ?case using fields_aux_word [of w "[]" "[]"] by simp
next
  case (3 w v ws)
  have "is_space CHR '' ''" by (simp add: is_space_def)
  then show ?case using 3 fields_aux_word [of w "[]" "CHR '' '' # join_with CHR '' '' (v # ws)"] by simp
qed simp

section \<open>The remainder\<close>

definition go_rem :: "int \<Rightarrow> int \<Rightarrow> int" where
  "go_rem a b = sgn a * (\<bar>a\<bar> mod \<bar>b\<bar>)"

lemma go_rem_nonneg [simp]: "0 \<le> a \<Longrightarrow> 0 < b \<Longrightarrow> go_rem a b = a mod b"
  by (cases "a = 0") (simp_all add: go_rem_def)

section \<open>Floating point\<close>

text \<open>The operations on \<open>float64\<close> in use: zero, sum, order, equality, the conversions from and to \<open>int\<close>,
  and \<open>strconv.ParseFloat\<close>.\<close>

record 'f float_ops =
  f_zero :: 'f
  f_add :: "'f \<Rightarrow> 'f \<Rightarrow> 'f"
  f_less :: "'f \<Rightarrow> 'f \<Rightarrow> bool"
  f_le :: "'f \<Rightarrow> 'f \<Rightarrow> bool"
  f_eq :: "'f \<Rightarrow> 'f \<Rightarrow> bool"
  f_of_int :: "int \<Rightarrow> 'f"
  f_to_int :: "'f \<Rightarrow> int"
  f_parse :: "string \<Rightarrow> 'f option"

text \<open>The operations on whole numbers, for concrete runs.\<close>

definition int_floats :: "int float_ops" where
  "int_floats = \<lparr>f_zero = 0, f_add = (+), f_less = (<), f_le = (\<le>), f_eq = (=),
     f_of_int = id, f_to_int = id, f_parse = atoi\<rparr>"

end
