(* ===== verification/Scrollback.thy ===== *)
theory Scrollback
  imports Text_Wrap Go_Numbers "HOL-Library.Monad_Syntax"
begin

text \<open>
  The scrollback buffer of the terminal interface (src/pkg/ui/scrollback/buffer.go): the
  conversation history with its viewport, selection, search and the marker of the last message,
  which streaming replaces.  Every exported method is an operation on the record \<open>Buffer\<close>; the
  mutex makes each of them atomic.  The time that \<open>time.Now\<close> returns is an argument.

  An operation that may index outside a slice returns an option: \<^const>\<open>None\<close> is the panic.  That
  concerns the trimming of the history (for a negative limit), the replacement of the last message, the
  steps to the next and the previous match and the reading of a selection.

  A line holds its spans as a value.  In the code it holds a slice, and \<open>AppendText\<close> writes to its last element: the model is that
  of a buffer no two lines of which share the array of their spans, with each other or with the caller.

  Text is ASCII here.  Outside ASCII lower case can have fewer bytes than the text, and \<open>Search\<close>, which advances by the length of the
  query as it was typed, can then slice a line beyond its end (the Kelvin sign looked for in a line that ends in \<open>k\<close>).

  Shown here: the invariant of the row counter, the history limit, the last-message marker and the
  scroll position; that the viewport shows exactly its window of the rows; that search finds
  correct, disjoint matches and finds one whenever there is one; that a mouse position in a code
  line is mapped to the character under it, and that in wrapped prose it is not.
\<close>

section \<open>Data\<close>

record LineStyle =
  ls_Prefix :: string
  ls_FG :: "32 word"
  ls_BG :: "32 word"
  ls_Bold :: bool
  ls_Italic :: bool
  ls_Dim :: bool

definition no_style :: LineStyle where
  "no_style = \<lparr>ls_Prefix = '''', ls_FG = 0, ls_BG = 0, ls_Bold = False, ls_Italic = False, ls_Dim = False\<rparr>"

record 'st Line =
  ln_Content :: string
  ln_Style :: LineStyle
  ln_Timestamp :: go_time
  ln_Source :: string
  ln_Spans :: "'st Span list"
  ln_Prefix :: "'st Span list"
  ln_Wrapped :: "'st WrappedLine list"
  ln_IsCode :: bool
  ln_IsCodeHeader :: bool
  ln_Language :: string

record Position =
  pos_Line :: int
  pos_Column :: int

definition no_position :: Position where
  "no_position = \<lparr>pos_Line = 0, pos_Column = 0\<rparr>"

datatype ScrollMode = ScrollModeFollow | ScrollModeManual

record 'st Buffer =
  sb_lines :: "'st Line list"
  sb_maxLines :: int
  sb_totalRows :: int
  sb_width :: int
  sb_height :: int
  sb_scrollTop :: int
  sb_scrollMode :: ScrollMode
  sb_selStart :: Position
  sb_selEnd :: Position
  sb_selecting :: bool
  sb_hasSelection :: bool
  sb_searchQuery :: string
  sb_searchMatches :: "Position list"
  sb_searchIndex :: int
  sb_lastMessageStart :: int
  sb_hasLastMessage :: bool

definition DefaultMaxLines :: int where
  "DefaultMaxLines = 10000"

definition NewBuffer :: "int \<Rightarrow> int \<Rightarrow> 'st Buffer" where
  "NewBuffer width height =
     \<lparr>sb_lines = [], sb_maxLines = DefaultMaxLines, sb_totalRows = 0, sb_width = width,
      sb_height = height, sb_scrollTop = 0, sb_scrollMode = ScrollModeFollow,
      sb_selStart = no_position, sb_selEnd = no_position, sb_selecting = False,
      sb_hasSelection = False, sb_searchQuery = '''', sb_searchMatches = [], sb_searchIndex = 0,
      sb_lastMessageStart = 0, sb_hasLastMessage = False\<rparr>"

section \<open>Scrolling\<close>

definition scroll_to_bottom :: "'st Buffer \<Rightarrow> 'st Buffer" where
  "scroll_to_bottom b = b\<lparr>sb_scrollTop := max 0 (sb_totalRows b - sb_height b)\<rparr>"

definition clampScroll :: "'st Buffer \<Rightarrow> 'st Buffer" where
  "clampScroll b =
     (let maxScroll = max 0 (sb_totalRows b - sb_height b)
      in b\<lparr>sb_scrollTop := max 0 (min (sb_scrollTop b) maxScroll)\<rparr>)"

definition follow_or_clamp :: "'st Buffer \<Rightarrow> 'st Buffer" where
  "follow_or_clamp b = (if sb_scrollMode b = ScrollModeFollow then scroll_to_bottom b else clampScroll b)"

definition ScrollUp :: "int \<Rightarrow> 'st Buffer \<Rightarrow> 'st Buffer" where
  "ScrollUp n b = clampScroll (b\<lparr>sb_scrollMode := ScrollModeManual, sb_scrollTop := sb_scrollTop b - n\<rparr>)"

definition ScrollDown :: "int \<Rightarrow> 'st Buffer \<Rightarrow> 'st Buffer" where
  "ScrollDown n b =
     (let b1 = clampScroll (b\<lparr>sb_scrollTop := sb_scrollTop b + n\<rparr>)
      in if sb_scrollTop b1 \<ge> sb_totalRows b1 - sb_height b1
         then b1\<lparr>sb_scrollMode := ScrollModeFollow\<rparr> else b1)"

definition ScrollToTop :: "'st Buffer \<Rightarrow> 'st Buffer" where
  "ScrollToTop b = b\<lparr>sb_scrollMode := ScrollModeManual, sb_scrollTop := 0\<rparr>"

definition ScrollToBottom :: "'st Buffer \<Rightarrow> 'st Buffer" where
  "ScrollToBottom b = (scroll_to_bottom b)\<lparr>sb_scrollMode := ScrollModeFollow\<rparr>"

definition PageUp :: "'st Buffer \<Rightarrow> 'st Buffer" where
  "PageUp b = ScrollUp (sb_height b - 1) b"

definition PageDown :: "'st Buffer \<Rightarrow> 'st Buffer" where
  "PageDown b = ScrollDown (sb_height b - 1) b"

definition IsFollowing :: "'st Buffer \<Rightarrow> bool" where
  "IsFollowing b = (sb_scrollMode b = ScrollModeFollow)"

definition ScrollPosition :: "'st Buffer \<Rightarrow> int \<times> int \<times> int" where
  "ScrollPosition b = (sb_scrollTop b, sb_totalRows b, sb_height b)"

section \<open>Content\<close>

definition ClearSelection :: "'st Buffer \<Rightarrow> 'st Buffer" where
  "ClearSelection b = b\<lparr>sb_selecting := False, sb_hasSelection := False,
     sb_selStart := no_position, sb_selEnd := no_position\<rparr>"

definition shift_marker :: "'st Buffer \<Rightarrow> 'st Buffer" where
  "shift_marker b =
     (if sb_hasLastMessage b then
        if sb_lastMessageStart b - 1 < 0
        then b\<lparr>sb_lastMessageStart := 0, sb_hasLastMessage := False\<rparr>
        else b\<lparr>sb_lastMessageStart := sb_lastMessageStart b - 1\<rparr>
      else b)"

definition shift_selection :: "'st Buffer \<Rightarrow> 'st Buffer" where
  "shift_selection b =
     (if sb_hasSelection b then
        (let s = (sb_selStart b)\<lparr>pos_Line := pos_Line (sb_selStart b) - 1\<rparr>;
             e = (sb_selEnd b)\<lparr>pos_Line := pos_Line (sb_selEnd b) - 1\<rparr>
         in if pos_Line s < 0 \<or> pos_Line e < 0 then ClearSelection b
            else b\<lparr>sb_selStart := s, sb_selEnd := e\<rparr>)
      else b)"

definition drop_first :: "'st Line \<Rightarrow> 'st Line list \<Rightarrow> 'st Buffer \<Rightarrow> 'st Buffer" where
  "drop_first removed rest b =
     shift_selection (shift_marker
       (b\<lparr>sb_totalRows := sb_totalRows b - int (length (ln_Wrapped removed)), sb_lines := rest\<rparr>))"

lemma drop_first_lines [simp]: "sb_lines (drop_first r rest b) = rest"
  by (simp add: drop_first_def shift_selection_def shift_marker_def ClearSelection_def Let_def)

function trimExcess :: "'st Buffer \<Rightarrow> 'st Buffer option" where
  "trimExcess b =
     (if int (length (sb_lines b)) > sb_maxLines b then
        (case sb_lines b of
           [] \<Rightarrow> None
         | removed # rest \<Rightarrow> trimExcess (drop_first removed rest b))
      else Some b)"
  by auto
termination by (relation "measure (\<lambda>b. length (sb_lines b))") auto

declare trimExcess.simps [simp del]

definition SetMaxLines :: "int \<Rightarrow> 'st Buffer \<Rightarrow> 'st Buffer option" where
  "SetMaxLines m b = trimExcess (b\<lparr>sb_maxLines := m\<rparr>)"

definition rewrap :: "'st style_env \<Rightarrow> int \<Rightarrow> 'st Line \<Rightarrow> 'st Line" where
  "rewrap env width line = line\<lparr>ln_Wrapped :=
     wrapLineWithSpans env (ln_Content line) (ln_Spans line) (ln_Prefix line) (width - 2) (ln_IsCode line)\<rparr>"

definition row_total :: "'st Line list \<Rightarrow> int" where
  "row_total ls = int (sum_list (map (length \<circ> ln_Wrapped) ls))"

definition rewrapAll :: "'st style_env \<Rightarrow> 'st Buffer \<Rightarrow> 'st Buffer" where
  "rewrapAll env b =
     (let ls = map (rewrap env (sb_width b)) (sb_lines b)
      in b\<lparr>sb_lines := ls, sb_totalRows := row_total ls\<rparr>)"

definition Resize :: "'st style_env \<Rightarrow> int \<Rightarrow> int \<Rightarrow> 'st Buffer \<Rightarrow> 'st Buffer" where
  "Resize env width height b =
     (if width = sb_width b \<and> height = sb_height b then b
      else follow_or_clamp (rewrapAll env (b\<lparr>sb_width := width, sb_height := height\<rparr>)))"

definition appendLineLocked :: "'st style_env \<Rightarrow> go_time \<Rightarrow> 'st Line \<Rightarrow> bool \<Rightarrow> 'st Buffer \<Rightarrow> 'st Buffer option" where
  "appendLineLocked env now line0 trackMessage b0 =
     (let b1 = (if trackMessage
                then b0\<lparr>sb_lastMessageStart := int (length (sb_lines b0)), sb_hasLastMessage := True\<rparr>
                else b0);
          line1 = (if ln_Timestamp line0 = 0 then line0\<lparr>ln_Timestamp := now\<rparr> else line0);
          line = rewrap env (sb_width b1) line1;
          b2 = b1\<lparr>sb_lines := sb_lines b1 @ [line],
                  sb_totalRows := sb_totalRows b1 + int (length (ln_Wrapped line))\<rparr>
      in do { b3 \<leftarrow> trimExcess b2;
              Some (if sb_scrollMode b3 = ScrollModeFollow then scroll_to_bottom b3 else b3) })"

definition plain_line :: "go_time \<Rightarrow> string \<Rightarrow> LineStyle \<Rightarrow> string \<Rightarrow> 'st Line" where
  "plain_line now content style source =
     \<lparr>ln_Content = content, ln_Style = style, ln_Timestamp = now, ln_Source = source, ln_Spans = [],
      ln_Prefix = [], ln_Wrapped = [], ln_IsCode = False, ln_IsCodeHeader = False, ln_Language = ''''\<rparr>"

definition AppendLine :: "'st style_env \<Rightarrow> go_time \<Rightarrow> string \<Rightarrow> LineStyle \<Rightarrow> string \<Rightarrow> 'st Buffer \<Rightarrow> 'st Buffer option" where
  "AppendLine env now content style source b =
     appendLineLocked env now (plain_line now content style source) True b"

definition AppendStyledLine ::
  "'st style_env \<Rightarrow> go_time \<Rightarrow> string \<Rightarrow> 'st Span list \<Rightarrow> 'st Span list \<Rightarrow> string \<Rightarrow> bool \<Rightarrow> string \<Rightarrow>
   'st Buffer \<Rightarrow> 'st Buffer option" where
  "AppendStyledLine env now content spans pre source isCode language b =
     appendLineLocked env now
       \<lparr>ln_Content = content, ln_Style = no_style, ln_Timestamp = now, ln_Source = source,
        ln_Spans = spans, ln_Prefix = pre, ln_Wrapped = [], ln_IsCode = isCode,
        ln_IsCodeHeader = False, ln_Language = language\<rparr> True b"

definition AppendAuxLine :: "'st style_env \<Rightarrow> go_time \<Rightarrow> string \<Rightarrow> LineStyle \<Rightarrow> string \<Rightarrow> 'st Buffer \<Rightarrow> 'st Buffer option" where
  "AppendAuxLine env now content style source b =
     appendLineLocked env now (plain_line now content style source) False b"

fun append_lines :: "'st style_env \<Rightarrow> go_time \<Rightarrow> 'st Line list \<Rightarrow> 'st Buffer \<Rightarrow> 'st Buffer option" where
  "append_lines env now [] b = Some b"
| "append_lines env now (l # ls) b = do { b1 \<leftarrow> appendLineLocked env now l False b; append_lines env now ls b1 }"

definition AppendMessage :: "'st style_env \<Rightarrow> go_time \<Rightarrow> 'st Line list \<Rightarrow> 'st Buffer \<Rightarrow> 'st Buffer option" where
  "AppendMessage env now ls b =
     append_lines env now ls
       (b\<lparr>sb_lastMessageStart := int (length (sb_lines b)), sb_hasLastMessage := True\<rparr>)"

definition ReplaceLastMessage :: "'st style_env \<Rightarrow> go_time \<Rightarrow> 'st Line list \<Rightarrow> 'st Buffer \<Rightarrow> 'st Buffer option" where
  "ReplaceLastMessage env now ls b =
     (let b1 = (if \<not> sb_hasLastMessage b
                then b\<lparr>sb_lastMessageStart := int (length (sb_lines b)), sb_hasLastMessage := True\<rparr> else b);
          start = sb_lastMessageStart b1;
          b2 = (if start < int (length (sb_lines b1))
                then b1\<lparr>sb_totalRows := sb_totalRows b1 - row_total (drop (nat start) (sb_lines b1)),
                        sb_lines := take (nat start) (sb_lines b1)\<rparr> else b1);
          b3 = (if sb_hasSelection b2 \<and> (pos_Line (sb_selStart b2) \<ge> start \<or> pos_Line (sb_selEnd b2) \<ge> start)
                then ClearSelection b2 else b2)
      in if start < 0 \<and> start < int (length (sb_lines b1)) then None else append_lines env now ls b3)"

definition append_to_spans :: "string \<Rightarrow> 'st Span list \<Rightarrow> 'st Span list" where
  "append_to_spans txt spans =
     (if spans = [] then [] else butlast spans @ [(last spans)\<lparr>sp_Text := sp_Text (last spans) @ txt\<rparr>])"

definition AppendText :: "'st style_env \<Rightarrow> string \<Rightarrow> 'st Buffer \<Rightarrow> 'st Buffer" where
  "AppendText env txt b =
     (if sb_lines b = [] then b
      else (let old = last (sb_lines b);
                line = rewrap env (sb_width b)
                  (old\<lparr>ln_Content := ln_Content old @ txt, ln_Spans := append_to_spans txt (ln_Spans old)\<rparr>);
                b1 = b\<lparr>sb_lines := butlast (sb_lines b) @ [line],
                       sb_totalRows := sb_totalRows b + int (length (ln_Wrapped line)) - int (length (ln_Wrapped old))\<rparr>
            in if sb_scrollMode b1 = ScrollModeFollow then scroll_to_bottom b1 else b1))"

definition Clear :: "'st Buffer \<Rightarrow> 'st Buffer" where
  "Clear b = (ClearSelection b)\<lparr>sb_lines := [], sb_totalRows := 0, sb_scrollTop := 0, sb_searchQuery := '''',
     sb_searchMatches := [], sb_lastMessageStart := 0, sb_hasLastMessage := False\<rparr>"

definition RemoveLastLineIfSource :: "string \<Rightarrow> 'st Buffer \<Rightarrow> bool \<times> 'st Buffer" where
  "RemoveLastLineIfSource source b =
     (if sb_lines b = [] then (False, b)
      else (let lastl = last (sb_lines b)
            in if ln_Source lastl \<noteq> source then (False, b)
               else (let b1 = b\<lparr>sb_totalRows := sb_totalRows b - int (length (ln_Wrapped lastl)),
                                sb_lines := butlast (sb_lines b)\<rparr>;
                         b2 = follow_or_clamp b1
                     in (True, if sb_hasLastMessage b2 \<and> sb_lastMessageStart b2 \<ge> int (length (sb_lines b2))
                               then b2\<lparr>sb_hasLastMessage := False, sb_lastMessageStart := 0\<rparr> else b2))))"

section \<open>Selection\<close>

definition StartSelection :: "int \<Rightarrow> int \<Rightarrow> 'st Buffer \<Rightarrow> 'st Buffer" where
  "StartSelection line col b =
     (let p = \<lparr>pos_Line = line, pos_Column = col\<rparr>
      in b\<lparr>sb_selStart := p, sb_selEnd := p, sb_selecting := True, sb_hasSelection := False\<rparr>)"

definition UpdateSelection :: "int \<Rightarrow> int \<Rightarrow> 'st Buffer \<Rightarrow> 'st Buffer" where
  "UpdateSelection line col b =
     (if \<not> sb_selecting b then b
      else (let p = \<lparr>pos_Line = line, pos_Column = col\<rparr>
            in b\<lparr>sb_selEnd := p, sb_hasSelection := (sb_selStart b \<noteq> p)\<rparr>))"

definition EndSelection :: "'st Buffer \<Rightarrow> 'st Buffer" where
  "EndSelection b = b\<lparr>sb_selecting := False\<rparr>"

definition HasSelection :: "'st Buffer \<Rightarrow> bool" where
  "HasSelection b = sb_hasSelection b"

definition ordered_selection :: "'st Buffer \<Rightarrow> Position \<times> Position" where
  "ordered_selection b =
     (let s = sb_selStart b; e = sb_selEnd b
      in if pos_Line s > pos_Line e \<or> (pos_Line s = pos_Line e \<and> pos_Column s > pos_Column e)
         then (e, s) else (s, e))"

text \<open>The part of one line that lies in the selection.  A slice with a negative lower bound
  panics.\<close>

definition selected_part :: "Position \<Rightarrow> Position \<Rightarrow> int \<Rightarrow> string \<Rightarrow> string option" where
  "selected_part s e i line =
     (let startCol = (if i = pos_Line s then min (pos_Column s) (int (length line)) else 0);
          endCol = (if i = pos_Line e then min (pos_Column e) (int (length line)) else int (length line))
      in if startCol < endCol then
           if startCol < 0 then None
           else Some (take (nat endCol - nat startCol) (drop (nat startCol) line))
         else Some '''')"

abbreviation newline :: char where "newline \<equiv> CHR 0x0A"

function selection_loop :: "Position \<Rightarrow> Position \<Rightarrow> int \<Rightarrow> 'st Line list \<Rightarrow> string option" where
  "selection_loop s e i ls =
     (if i \<le> pos_Line e \<and> i < int (length ls) then
        if i < 0 then None
        else do { part \<leftarrow> selected_part s e i (ln_Content (ls ! nat i));
                  rest \<leftarrow> selection_loop s e (i + 1) ls;
                  Some (part @ (if i < pos_Line e then [newline] else []) @ rest) }
      else Some '''')"
  by auto
termination by (relation "measure (\<lambda>(s, e, i, ls). nat (int (length ls) - i))") auto

declare selection_loop.simps [simp del]

definition GetSelection :: "'st Buffer \<Rightarrow> string option" where
  "GetSelection b =
     (if \<not> sb_hasSelection b then Some ''''
      else case ordered_selection b of (s, e) \<Rightarrow> selection_loop s e (pos_Line s) (sb_lines b))"

section \<open>Search\<close>

text \<open>The positions found from \<open>offset\<close> on, going on \<open>Suc skip\<close> bytes after the start of each: for
  \<open>Search\<close> the length of the query, which is not empty, for the highlights one byte.\<close>

function occurrences :: "string \<Rightarrow> nat \<Rightarrow> string \<Rightarrow> nat \<Rightarrow> nat list" where
  "occurrences query skip content offset =
     (if offset > length content then []
      else case str_index (drop offset content) query of
             None \<Rightarrow> []
           | Some idx \<Rightarrow> (offset + idx) # occurrences query skip content (offset + idx + Suc skip))"
  by pat_completeness auto
termination by (relation "measure (\<lambda>(q, k, content, offset). Suc (length content) - offset)") auto

declare occurrences.simps [simp del]

definition line_matches :: "string \<Rightarrow> nat \<times> 'st Line \<Rightarrow> Position list" where
  "line_matches query il =
     map (\<lambda>c. \<lparr>pos_Line = int (fst il), pos_Column = int c\<rparr>)
       (occurrences (to_lower query) (length query - 1) (to_lower (ln_Content (snd il))) 0)"

definition Search :: "string \<Rightarrow> 'st Buffer \<Rightarrow> int \<times> 'st Buffer" where
  "Search query b =
     (if query = '''' then (0, b\<lparr>sb_searchQuery := query, sb_searchMatches := [], sb_searchIndex := 0\<rparr>)
      else (let ms = concat (map (line_matches query) (enumerate 0 (sb_lines b)))
            in (int (length ms), b\<lparr>sb_searchQuery := query, sb_searchMatches := ms, sb_searchIndex := 0\<rparr>)))"

text \<open>Division of Go integers by two, which rounds to zero.\<close>

definition half :: "int \<Rightarrow> int" where
  "half h = (if h \<ge> 0 then h div 2 else - ((- h) div 2))"

definition scrollToMatch :: "Position \<Rightarrow> 'st Buffer \<Rightarrow> 'st Buffer" where
  "scrollToMatch pos b =
     (let rowIndex = row_total (take (nat (pos_Line pos)) (sb_lines b))
      in (clampScroll (b\<lparr>sb_scrollTop := max 0 (rowIndex - half (sb_height b))\<rparr>))\<lparr>sb_scrollMode := ScrollModeManual\<rparr>)"

text \<open>An index expression of Go.\<close>

definition slice_at :: "'a list \<Rightarrow> int \<Rightarrow> 'a option" where
  "slice_at xs i = (if 0 \<le> i \<and> i < int (length xs) then Some (xs ! nat i) else None)"

definition go_to_match :: "int \<Rightarrow> 'st Buffer \<Rightarrow> (bool \<times> 'st Buffer) option" where
  "go_to_match i b = map_option (\<lambda>pos. (True, scrollToMatch pos (b\<lparr>sb_searchIndex := i\<rparr>))) (slice_at (sb_searchMatches b) i)"

definition NextMatch :: "'st Buffer \<Rightarrow> (bool \<times> 'st Buffer) option" where
  "NextMatch b =
     (if sb_searchMatches b = [] then Some (False, b)
      else go_to_match (go_rem (sb_searchIndex b + 1) (int (length (sb_searchMatches b)))) b)"

definition PrevMatch :: "'st Buffer \<Rightarrow> (bool \<times> 'st Buffer) option" where
  "PrevMatch b =
     (if sb_searchMatches b = [] then Some (False, b)
      else (let i = sb_searchIndex b - 1
            in go_to_match (if i < 0 then int (length (sb_searchMatches b)) - 1 else i) b))"

definition SearchMatches :: "'st Buffer \<Rightarrow> int \<times> int" where
  "SearchMatches b = (if sb_searchMatches b = [] then (0, 0)
     else (sb_searchIndex b + 1, int (length (sb_searchMatches b))))"

definition LatestCodeBlock :: "'st Buffer \<Rightarrow> string \<times> string \<times> bool" where
  "LatestCodeBlock b =
     (let block = rev (takeWhile ln_IsCode (dropWhile (\<lambda>l. \<not> ln_IsCode l) (rev (sb_lines b))))
      in if block = [] then ('''', '''', False)
         else (let language = (case filter (\<lambda>l. ln_Language l \<noteq> '''') block of [] \<Rightarrow> '''' | l # _ \<Rightarrow> ln_Language l);
                   ls = map ln_Content (filter (\<lambda>l. \<not> ln_IsCodeHeader l) block)
               in if ls = [] then (language, '''', False) else (language, join_with newline ls, True)))"

section \<open>The viewport\<close>

record visibleRowRange =
  vr_start :: int
  vr_end :: int

definition vr_contains :: "visibleRowRange \<Rightarrow> int \<Rightarrow> bool" where
  "vr_contains r row = (row \<ge> vr_start r \<and> row < vr_end r)"

record 'st VisibleLine =
  vl_Content :: string
  vl_Spans :: "'st Span list"
  vl_Style :: LineStyle
  vl_Source :: string
  vl_LineIndex :: nat
  vl_WrapIndex :: nat
  vl_RowIndex :: int
  vl_Selected :: bool
  vl_SearchHighlights :: "nat list"
  vl_IsCode :: bool
  vl_Language :: string

definition isRowSelected :: "'st Buffer \<Rightarrow> nat \<Rightarrow> bool" where
  "isRowSelected b lineIdx =
     (let s0 = sb_selStart b; e0 = sb_selEnd b;
          (s, e) = (if pos_Line s0 > pos_Line e0 then (e0, s0) else (s0, e0))
      in int lineIdx \<ge> pos_Line s \<and> int lineIdx \<le> pos_Line e)"

definition getSearchHighlights :: "'st Buffer \<Rightarrow> string \<Rightarrow> nat list" where
  "getSearchHighlights b content = occurrences (to_lower (sb_searchQuery b)) 0 (to_lower content) 0"

definition visibleLine :: "'st Buffer \<Rightarrow> nat \<Rightarrow> 'st Line \<Rightarrow> nat \<Rightarrow> 'st WrappedLine \<Rightarrow> int \<Rightarrow> 'st VisibleLine" where
  "visibleLine b lineIdx line wrapIdx wrapped rowIndex =
     \<lparr>vl_Content = wl_Text wrapped, vl_Spans = wl_Spans wrapped, vl_Style = ln_Style line,
      vl_Source = ln_Source line, vl_LineIndex = lineIdx, vl_WrapIndex = wrapIdx, vl_RowIndex = rowIndex,
      vl_Selected = (sb_hasSelection b \<and> isRowSelected b lineIdx),
      vl_SearchHighlights = (if sb_searchQuery b \<noteq> '''' then getSearchHighlights b (wl_Text wrapped) else []),
      vl_IsCode = ln_IsCode line, vl_Language = ln_Language line\<rparr>"

text \<open>The rows in the order of the two nested loops, and the loops with their early return.\<close>

definition all_rows :: "'st Line list \<Rightarrow> (nat \<times> 'st Line \<times> nat \<times> 'st WrappedLine) list" where
  "all_rows ls = concat (map (\<lambda>(lineIdx, line).
     map (\<lambda>(wrapIdx, wrapped). (lineIdx, line, wrapIdx, wrapped)) (enumerate 0 (ln_Wrapped line))) (enumerate 0 ls))"

fun visible_loop ::
  "'st Buffer \<Rightarrow> visibleRowRange \<Rightarrow> int \<Rightarrow> (nat \<times> 'st Line \<times> nat \<times> 'st WrappedLine) list \<Rightarrow> 'st VisibleLine list" where
  "visible_loop b rows rowIndex [] = []"
| "visible_loop b rows rowIndex ((lineIdx, line, wrapIdx, wrapped) # rs) =
     (if vr_contains rows rowIndex then [visibleLine b lineIdx line wrapIdx wrapped (rowIndex - vr_start rows)] else []) @
     (if rowIndex + 1 \<ge> vr_end rows then [] else visible_loop b rows (rowIndex + 1) rs)"

definition visibleLines :: "'st Buffer \<Rightarrow> visibleRowRange \<Rightarrow> 'st VisibleLine list" where
  "visibleLines b rows = visible_loop b rows 0 (all_rows (sb_lines b))"

definition GetVisibleLines :: "'st Buffer \<Rightarrow> 'st VisibleLine list" where
  "GetVisibleLines b = visibleLines b \<lparr>vr_start = sb_scrollTop b, vr_end = sb_scrollTop b + sb_height b\<rparr>"

definition LineCount :: "'st Buffer \<Rightarrow> int" where
  "LineCount b = int (length (sb_lines b))"

definition RowCount :: "'st Buffer \<Rightarrow> int" where
  "RowCount b = sb_totalRows b"

section \<open>Mouse positions\<close>

record 'st wrappedRowPosition =
  wp_lineIndex :: nat
  wp_content :: string
  wp_wrapped :: "'st WrappedLine"
  wp_contentOffset :: int
  wp_prefixLen :: int

definition wrappedContentLen :: "'st WrappedLine \<Rightarrow> int \<Rightarrow> int" where
  "wrappedContentLen wrapped prefixLen = max 0 (int (length (wl_Text wrapped)) - prefixLen)"

definition absoluteViewRow :: "'st Buffer \<Rightarrow> int \<Rightarrow> int \<Rightarrow> int option" where
  "absoluteViewRow b row col =
     (if row < 0 \<or> row \<ge> sb_height b \<or> col < 0 then None
      else (let absoluteRow = sb_scrollTop b + row
            in if absoluteRow < 0 \<or> absoluteRow \<ge> sb_totalRows b then None else Some absoluteRow))"

text \<open>The inner loop over the rows of one line; \<open>rowIndex\<close> is compared with the target.\<close>

fun find_in_line ::
  "nat \<Rightarrow> 'st Line \<Rightarrow> int \<Rightarrow> int \<Rightarrow> int \<Rightarrow> int \<Rightarrow> 'st WrappedLine list \<Rightarrow> 'st wrappedRowPosition option" where
  "find_in_line lineIdx line prefixLen contentOffset rowIndex absoluteRow [] = None"
| "find_in_line lineIdx line prefixLen contentOffset rowIndex absoluteRow (wrapped # ws) =
     (if rowIndex = absoluteRow then
        Some \<lparr>wp_lineIndex = lineIdx, wp_content = ln_Content line, wp_wrapped = wrapped,
              wp_contentOffset = contentOffset, wp_prefixLen = prefixLen\<rparr>
      else find_in_line lineIdx line prefixLen (contentOffset + wrappedContentLen wrapped prefixLen)
             (rowIndex + 1) absoluteRow ws)"

fun find_in_lines :: "nat \<Rightarrow> int \<Rightarrow> int \<Rightarrow> 'st Line list \<Rightarrow> 'st wrappedRowPosition option" where
  "find_in_lines lineIdx rowIndex absoluteRow [] = None"
| "find_in_lines lineIdx rowIndex absoluteRow (line # ls) =
     (case find_in_line lineIdx line (int (length (spansText (ln_Prefix line)))) 0 rowIndex absoluteRow (ln_Wrapped line) of
        Some p \<Rightarrow> Some p
      | None \<Rightarrow> find_in_lines (Suc lineIdx) (rowIndex + int (length (ln_Wrapped line))) absoluteRow ls)"

definition findWrappedRow :: "'st Line list \<Rightarrow> int \<Rightarrow> 'st wrappedRowPosition option" where
  "findWrappedRow ls absoluteRow = find_in_lines 0 0 absoluteRow ls"

definition contentColumn :: "'st wrappedRowPosition \<Rightarrow> int \<Rightarrow> int" where
  "contentColumn p col =
     (let segmentLen = wrappedContentLen (wp_wrapped p) (wp_prefixLen p);
          contentCol = (if col < wp_prefixLen p then 0 else col - wp_prefixLen p)
      in min contentCol segmentLen)"

text \<open>The byte offset of a rune; each rune is one byte long here.\<close>

fun rune_loop :: "string \<Rightarrow> int \<Rightarrow> int \<Rightarrow> int \<Rightarrow> int" where
  "rune_loop [] i count offset = i"
| "rune_loop (r # s) i count offset = (if count = offset then i else rune_loop s (i + 1) (count + 1) offset)"

definition runeOffsetToByte :: "string \<Rightarrow> int \<Rightarrow> int" where
  "runeOffsetToByte s offset = (if offset \<le> 0 then 0 else rune_loop s 0 0 offset)"

definition PositionForView :: "'st Buffer \<Rightarrow> int \<Rightarrow> int \<Rightarrow> (nat \<times> int) option" where
  "PositionForView b row col =
     do { absoluteRow \<leftarrow> absoluteViewRow b row col;
          wrapped \<leftarrow> findWrappedRow (sb_lines b) absoluteRow;
          let position = wp_contentOffset wrapped + contentColumn wrapped col;
          Some (wp_lineIndex wrapped, runeOffsetToByte (wp_content wrapped) (max 0 position)) }"


section \<open>Sequences of operations\<close>

datatype 'st sb_op =
    OpSetMaxLines int | OpResize int int
  | OpAppendLine go_time string LineStyle string
  | OpAppendStyledLine go_time string "'st Span list" "'st Span list" string bool string
  | OpAppendAuxLine go_time string LineStyle string
  | OpAppendMessage go_time "'st Line list" | OpReplaceLastMessage go_time "'st Line list"
  | OpAppendText string | OpClear | OpRemoveLastLineIfSource string
  | OpScrollUp int | OpScrollDown int | OpScrollToTop | OpScrollToBottom | OpPageUp | OpPageDown
  | OpStartSelection int int | OpUpdateSelection int int | OpEndSelection | OpClearSelection | OpGetSelection
  | OpSearch string | OpNextMatch | OpPrevMatch

fun run_op :: "'st style_env \<Rightarrow> 'st sb_op \<Rightarrow> 'st Buffer \<Rightarrow> 'st Buffer option" where
  "run_op env (OpSetMaxLines m) b = SetMaxLines m b"
| "run_op env (OpResize w h) b = Some (Resize env w h b)"
| "run_op env (OpAppendLine now c st src) b = AppendLine env now c st src b"
| "run_op env (OpAppendStyledLine now c sps pre src code lang) b = AppendStyledLine env now c sps pre src code lang b"
| "run_op env (OpAppendAuxLine now c st src) b = AppendAuxLine env now c st src b"
| "run_op env (OpAppendMessage now ls) b = AppendMessage env now ls b"
| "run_op env (OpReplaceLastMessage now ls) b = ReplaceLastMessage env now ls b"
| "run_op env (OpAppendText txt) b = Some (AppendText env txt b)"
| "run_op env OpClear b = Some (Clear b)"
| "run_op env (OpRemoveLastLineIfSource src) b = Some (snd (RemoveLastLineIfSource src b))"
| "run_op env (OpScrollUp n) b = Some (ScrollUp n b)"
| "run_op env (OpScrollDown n) b = Some (ScrollDown n b)"
| "run_op env OpScrollToTop b = Some (ScrollToTop b)"
| "run_op env OpScrollToBottom b = Some (ScrollToBottom b)"
| "run_op env OpPageUp b = Some (PageUp b)"
| "run_op env OpPageDown b = Some (PageDown b)"
| "run_op env (OpStartSelection l c) b = Some (StartSelection l c b)"
| "run_op env (OpUpdateSelection l c) b = Some (UpdateSelection l c b)"
| "run_op env OpEndSelection b = Some (EndSelection b)"
| "run_op env OpClearSelection b = Some (ClearSelection b)"
| "run_op env OpGetSelection b = map_option (\<lambda>_. b) (GetSelection b)"
| "run_op env (OpSearch q) b = Some (snd (Search q b))"
| "run_op env OpNextMatch b = map_option snd (NextMatch b)"
| "run_op env OpPrevMatch b = map_option snd (PrevMatch b)"

fun run_ops :: "'st style_env \<Rightarrow> 'st sb_op list \<Rightarrow> 'st Buffer \<Rightarrow> 'st Buffer option" where
  "run_ops env [] b = Some b"
| "run_ops env (op # ops) b = do { b1 \<leftarrow> run_op env op b; run_ops env ops b1 }"

text \<open>A negative history limit and negative coordinates of a selection are the inputs that the operations do not stand.\<close>

fun op_safe :: "'st sb_op \<Rightarrow> bool" where
  "op_safe (OpSetMaxLines m) = (0 \<le> m)"
| "op_safe (OpStartSelection l c) = (0 \<le> l \<and> 0 \<le> c)"
| "op_safe (OpUpdateSelection l c) = (0 \<le> l \<and> 0 \<le> c)"
| "op_safe _ = True"

section \<open>The invariant\<close>

definition rows_ok :: "'st style_env \<Rightarrow> 'st Buffer \<Rightarrow> bool" where
  "rows_ok env b \<longleftrightarrow> sb_totalRows b = row_total (sb_lines b) \<and>
     (\<forall>l \<in> set (sb_lines b). rewrap env (sb_width b) l = l)"

definition marker_ok :: "'st Buffer \<Rightarrow> bool" where
  "marker_ok b \<longleftrightarrow> (sb_hasLastMessage b \<longrightarrow>
     0 \<le> sb_lastMessageStart b \<and> sb_lastMessageStart b \<le> int (length (sb_lines b)))"

definition search_ok :: "'st Buffer \<Rightarrow> bool" where
  "search_ok b \<longleftrightarrow> (sb_searchMatches b \<noteq> [] \<longrightarrow>
     0 \<le> sb_searchIndex b \<and> sb_searchIndex b < int (length (sb_searchMatches b)))"

definition selection_ok :: "'st Buffer \<Rightarrow> bool" where
  "selection_ok b \<longleftrightarrow> 0 \<le> pos_Line (sb_selStart b) \<and> 0 \<le> pos_Column (sb_selStart b) \<and>
     0 \<le> pos_Line (sb_selEnd b) \<and> 0 \<le> pos_Column (sb_selEnd b)"

definition sb_pre :: "'st style_env \<Rightarrow> 'st Buffer \<Rightarrow> bool" where
  "sb_pre env b \<longleftrightarrow> 0 \<le> sb_maxLines b \<and> rows_ok env b \<and> marker_ok b \<and> search_ok b \<and>
     selection_ok b \<and> 0 \<le> sb_scrollTop b"

definition sb_inv :: "'st style_env \<Rightarrow> 'st Buffer \<Rightarrow> bool" where
  "sb_inv env b \<longleftrightarrow> sb_pre env b \<and> int (length (sb_lines b)) \<le> sb_maxLines b"

lemmas sb_inv_defs = sb_inv_def sb_pre_def rows_ok_def marker_ok_def search_ok_def selection_ok_def no_position_def

text \<open>Reading a selection with coordinates that are not negative.\<close>

lemma selection_loop_returns: "0 \<le> i \<Longrightarrow> 0 \<le> pos_Column s \<Longrightarrow> \<exists>t. selection_loop s e i ls = Some t"
proof (induction s e i ls rule: selection_loop.induct)
  case (1 s e i ls)
  have "\<exists>part. selected_part s e i x = Some part" for x using 1(3) by (auto simp: selected_part_def Let_def)
  then show ?case using 1 by (subst selection_loop.simps) (fastforce split: bind_split)
qed

lemma GetSelection_returns: "selection_ok b \<Longrightarrow> \<exists>t. GetSelection b = Some t"
  by (auto simp: GetSelection_def ordered_selection_def selection_ok_def Let_def intro: selection_loop_returns)

lemma row_total_simps [simp]:
  "row_total [] = 0" "row_total (l # ls) = int (length (ln_Wrapped l)) + row_total ls"
  "row_total (xs @ ys) = row_total xs + row_total ys"
  by (simp_all add: row_total_def)

lemma row_total_nonneg [simp]: "0 \<le> row_total ls"
  by (simp add: row_total_def)

lemma row_total_butlast:
  "ls \<noteq> [] \<Longrightarrow> row_total (butlast ls) = row_total ls - int (length (ln_Wrapped (last ls)))"
  by (metis add_diff_cancel_right' append_butlast_last_id row_total_simps add.right_neutral)

lemma row_total_take: "row_total (take n ls) = row_total ls - row_total (drop n ls)"
  by (metis add_diff_cancel_right' append_take_drop_id row_total_simps(3))

lemma rewrap_rewrap [simp]: "rewrap env w (rewrap env v l) = rewrap env w l"
  by (simp add: rewrap_def)

lemma rewrap_nonempty [simp]: "ln_Wrapped (rewrap env w l) \<noteq> []"
  by (simp add: rewrap_def wrap_nonempty)

text \<open>Trimming.\<close>

lemma drop_first_pre:
  assumes "sb_pre env b" "sb_lines b = r # rest"
  shows "sb_pre env (drop_first r rest b)"
  using assms
  by (auto simp: sb_pre_def rows_ok_def marker_ok_def search_ok_def selection_ok_def drop_first_def shift_selection_def
      shift_marker_def ClearSelection_def no_position_def Let_def)

lemma drop_first_same [simp]:
  "sb_maxLines (drop_first r rest b) = sb_maxLines b" "sb_scrollMode (drop_first r rest b) = sb_scrollMode b"
  "sb_scrollTop (drop_first r rest b) = sb_scrollTop b" "sb_height (drop_first r rest b) = sb_height b"
  "sb_width (drop_first r rest b) = sb_width b"
  by (simp_all add: drop_first_def shift_selection_def shift_marker_def ClearSelection_def Let_def)

lemma trimExcess_pre:
  "sb_pre env b \<Longrightarrow> \<exists>b'. trimExcess b = Some b' \<and> sb_inv env b' \<and>
     sb_scrollMode b' = sb_scrollMode b \<and> sb_scrollTop b' = sb_scrollTop b \<and> sb_height b' = sb_height b \<and>
     sb_width b' = sb_width b \<and> sb_maxLines b' = sb_maxLines b \<and>
     sb_lines b' = drop (length (sb_lines b) - nat (sb_maxLines b)) (sb_lines b)"
proof (induction b rule: trimExcess.induct)
  case (1 b)
  show ?case
  proof (cases "int (length (sb_lines b)) > sb_maxLines b")
    case True
    then obtain r rest where ls: "sb_lines b = r # rest"
      using 1(2) by (cases "sb_lines b") (auto simp: sb_pre_def)
    have "trimExcess b = trimExcess (drop_first r rest b)"
      using True ls by (simp add: trimExcess.simps[of b])
    moreover have "length (sb_lines b) - nat (sb_maxLines b) = Suc (length rest - nat (sb_maxLines b))"
      using True ls 1(2) by (auto simp: sb_pre_def)
    ultimately show ?thesis using 1(1)[OF True ls] drop_first_pre[OF 1(2) ls] ls by auto
  next
    case False
    then show ?thesis using 1(2) by (auto simp: sb_inv_def trimExcess.simps[of b])
  qed
qed

text \<open>Changes of the viewport.\<close>

lemma scroll_inv:
  "sb_inv env b \<Longrightarrow> 0 \<le> n \<Longrightarrow> sb_inv env (b\<lparr>sb_scrollTop := n\<rparr>)"
  "sb_inv env b \<Longrightarrow> sb_inv env (b\<lparr>sb_scrollMode := mode\<rparr>)"
  by (simp_all add: sb_inv_defs)

lemma clampScroll_inv: "sb_inv env (b\<lparr>sb_scrollTop := 0\<rparr>) \<Longrightarrow> sb_inv env (clampScroll b)"
  by (simp add: sb_inv_defs clampScroll_def Let_def)

lemma scroll_to_bottom_inv: "sb_inv env b \<Longrightarrow> sb_inv env (scroll_to_bottom b)"
  by (simp add: scroll_to_bottom_def scroll_inv)

lemma follow_or_clamp_inv: "sb_inv env b \<Longrightarrow> sb_inv env (follow_or_clamp b)"
  by (simp add: follow_or_clamp_def scroll_to_bottom_inv clampScroll_inv scroll_inv)

lemma ScrollUp_inv: "sb_inv env b \<Longrightarrow> sb_inv env (ScrollUp n b)"
  unfolding ScrollUp_def by (rule clampScroll_inv) (simp add: sb_inv_defs)

lemma ScrollDown_inv: "sb_inv env b \<Longrightarrow> sb_inv env (ScrollDown n b)"
proof -
  assume "sb_inv env b"
  then have "sb_inv env (clampScroll (b\<lparr>sb_scrollTop := sb_scrollTop b + n\<rparr>))"
    by (intro clampScroll_inv) (simp add: scroll_inv)
  then show ?thesis by (simp add: ScrollDown_def Let_def scroll_inv)
qed

lemma scrollToMatch_inv: "sb_inv env b \<Longrightarrow> sb_inv env (scrollToMatch pos b)"
  unfolding scrollToMatch_def Let_def
  by (rule scroll_inv, rule clampScroll_inv) (simp add: sb_inv_defs)

lemma go_to_match_inv:
  assumes "sb_inv env b" "0 \<le> i" "i < int (length (sb_searchMatches b))"
  shows "\<exists>r b'. go_to_match i b = Some (r, b') \<and> sb_inv env b'"
proof -
  have "sb_inv env (b\<lparr>sb_searchIndex := i\<rparr>)" using assms by (simp add: sb_inv_defs)
  then show ?thesis using assms(2,3) by (auto simp: go_to_match_def slice_at_def scrollToMatch_inv)
qed

lemma match_inv:
  assumes "sb_inv env b"
  shows "\<exists>r b'. NextMatch b = Some (r, b') \<and> sb_inv env b'" "\<exists>r b'. PrevMatch b = Some (r, b') \<and> sb_inv env b'"
proof -
  have "0 \<le> sb_searchIndex b \<and> sb_searchIndex b < int (length (sb_searchMatches b))" if "sb_searchMatches b \<noteq> []"
    using assms that by (simp add: sb_inv_defs)
  then show "\<exists>r b'. NextMatch b = Some (r, b') \<and> sb_inv env b'" "\<exists>r b'. PrevMatch b = Some (r, b') \<and> sb_inv env b'"
    using assms by (auto simp: NextMatch_def PrevMatch_def Let_def intro!: go_to_match_inv)
qed

text \<open>Changes of the content.\<close>

lemma appendLineLocked_inv:
  assumes "sb_inv env b"
  shows "\<exists>b'. appendLineLocked env now line track b = Some b' \<and> sb_inv env b'"
proof -
  let ?b1 = "if track then b\<lparr>sb_lastMessageStart := int (length (sb_lines b)), sb_hasLastMessage := True\<rparr> else b"
  let ?line = "rewrap env (sb_width ?b1) (if ln_Timestamp line = 0 then line\<lparr>ln_Timestamp := now\<rparr> else line)"
  let ?b2 = "?b1\<lparr>sb_lines := sb_lines ?b1 @ [?line],
      sb_totalRows := sb_totalRows ?b1 + int (length (ln_Wrapped ?line))\<rparr>"
  have "sb_pre env ?b2" using assms by (auto simp: sb_inv_defs)
  then obtain b3 where "trimExcess ?b2 = Some b3" "sb_inv env b3" using trimExcess_pre by blast
  then show ?thesis by (simp add: appendLineLocked_def Let_def scroll_to_bottom_inv)
qed

lemma append_lines_inv:
  "sb_inv env b \<Longrightarrow> \<exists>b'. append_lines env now ls b = Some b' \<and> sb_inv env b'"
proof (induction ls arbitrary: b)
  case (Cons l ls)
  obtain b1 where "appendLineLocked env now l False b = Some b1" "sb_inv env b1"
    using appendLineLocked_inv[OF Cons.prems] by blast
  then show ?case using Cons.IH[of b1] by simp
qed simp

lemma ReplaceLastMessage_inv:
  assumes "sb_inv env b"
  shows "\<exists>b'. ReplaceLastMessage env now ls b = Some b' \<and> sb_inv env b'"
proof -
  define b1 where "b1 = (if \<not> sb_hasLastMessage b
    then b\<lparr>sb_lastMessageStart := int (length (sb_lines b)), sb_hasLastMessage := True\<rparr> else b)"
  define start where "start = sb_lastMessageStart b1"
  define b2 where "b2 = (if start < int (length (sb_lines b1))
    then b1\<lparr>sb_totalRows := sb_totalRows b1 - row_total (drop (nat start) (sb_lines b1)),
            sb_lines := take (nat start) (sb_lines b1)\<rparr> else b1)"
  define b3 where "b3 = (if sb_hasSelection b2 \<and>
      (pos_Line (sb_selStart b2) \<ge> start \<or> pos_Line (sb_selEnd b2) \<ge> start)
    then ClearSelection b2 else b2)"
  have "sb_inv env b1" using assms by (auto simp: b1_def sb_inv_defs)
  then have "sb_inv env b2"
    by (auto simp: b2_def start_def sb_inv_defs row_total_take dest: in_set_takeD)
  then have "sb_inv env b3" by (auto simp: b3_def ClearSelection_def sb_inv_defs)
  moreover have "0 \<le> start" using \<open>sb_inv env b1\<close> by (auto simp: start_def b1_def sb_inv_defs)
  then have "ReplaceLastMessage env now ls b = append_lines env now ls b3"
    unfolding ReplaceLastMessage_def Let_def b1_def[symmetric] start_def[symmetric] b2_def[symmetric] b3_def[symmetric] by simp
  ultimately show ?thesis using append_lines_inv by metis
qed

lemma AppendText_inv: "sb_inv env b \<Longrightarrow> sb_inv env (AppendText env txt b)"
proof -
  assume inv: "sb_inv env b"
  show ?thesis
  proof (cases "sb_lines b = []")
    case False
    let ?old = "last (sb_lines b)"
    let ?line = "rewrap env (sb_width b)
        (?old\<lparr>ln_Content := ln_Content ?old @ txt, ln_Spans := append_to_spans txt (ln_Spans ?old)\<rparr>)"
    have "sb_inv env (b\<lparr>sb_lines := butlast (sb_lines b) @ [?line],
        sb_totalRows := sb_totalRows b + int (length (ln_Wrapped ?line)) - int (length (ln_Wrapped ?old))\<rparr>)"
      using inv False by (auto simp: sb_inv_defs row_total_butlast dest: in_set_butlastD)
    then show ?thesis using False scroll_to_bottom_inv by (auto simp: AppendText_def Let_def)
  qed (use inv in \<open>simp add: AppendText_def\<close>)
qed

lemma Resize_inv:
  assumes "sb_inv env b"
  shows "sb_inv env (Resize env w h b)"
proof -
  have "sb_inv env (rewrapAll env (b\<lparr>sb_width := w, sb_height := h\<rparr>))"
    using assms by (auto simp: sb_inv_defs rewrapAll_def Let_def)
  then show ?thesis using assms by (auto simp: Resize_def follow_or_clamp_inv)
qed

lemma RemoveLastLineIfSource_inv:
  assumes "sb_inv env b"
  shows "sb_inv env (snd (RemoveLastLineIfSource src b))"
proof -
  let ?b1 = "b\<lparr>sb_totalRows := sb_totalRows b - int (length (ln_Wrapped (last (sb_lines b)))),
               sb_lines := butlast (sb_lines b)\<rparr>"
  have "rows_ok env (follow_or_clamp ?b1) \<and> search_ok (follow_or_clamp ?b1) \<and> selection_ok (follow_or_clamp ?b1) \<and>
      0 \<le> sb_scrollTop (follow_or_clamp ?b1) \<and> 0 \<le> sb_maxLines (follow_or_clamp ?b1) \<and>
      int (length (sb_lines (follow_or_clamp ?b1))) \<le> sb_maxLines (follow_or_clamp ?b1) \<and>
      (sb_hasLastMessage (follow_or_clamp ?b1) \<longrightarrow> 0 \<le> sb_lastMessageStart (follow_or_clamp ?b1))"
    if "sb_lines b \<noteq> []"
    using assms that
    by (auto simp: sb_inv_defs follow_or_clamp_def scroll_to_bottom_def clampScroll_def Let_def
        row_total_butlast dest: in_set_butlastD)
  then show ?thesis using assms
    by (auto simp: RemoveLastLineIfSource_def Let_def sb_inv_def sb_pre_def marker_ok_def rows_ok_def search_ok_def selection_ok_def)
qed

lemma run_op_inv:
  assumes "sb_inv env b" "op_safe op"
  shows "\<exists>b'. run_op env op b = Some b' \<and> sb_inv env b'"
proof (cases op)
  case (OpSetMaxLines m)
  then have "sb_pre env (b\<lparr>sb_maxLines := m\<rparr>)" using assms by (simp add: sb_inv_defs)
  then show ?thesis using trimExcess_pre[of env "b\<lparr>sb_maxLines := m\<rparr>"] OpSetMaxLines by (auto simp: SetMaxLines_def)
next
  case (OpAppendMessage now ls)
  have "sb_inv env (b\<lparr>sb_lastMessageStart := int (length (sb_lines b)), sb_hasLastMessage := True\<rparr>)"
    using assms by (simp add: sb_inv_defs)
  then show ?thesis using append_lines_inv OpAppendMessage by (simp add: AppendMessage_def)
next
  case OpGetSelection
  have "selection_ok b" using assms(1) by (simp add: sb_inv_def sb_pre_def)
  then show ?thesis using GetSelection_returns OpGetSelection assms(1) by fastforce
next
  case OpNextMatch
  then show ?thesis using match_inv(1)[OF assms(1)] by auto
next
  case OpPrevMatch
  then show ?thesis using match_inv(2)[OF assms(1)] by auto
qed (use assms appendLineLocked_inv[OF assms(1)] ReplaceLastMessage_inv[OF assms(1)] in
  \<open>auto simp: AppendLine_def AppendStyledLine_def AppendAuxLine_def AppendText_inv Resize_inv
     RemoveLastLineIfSource_inv ScrollUp_inv ScrollDown_inv PageUp_def PageDown_def ScrollToBottom_def
     scroll_to_bottom_inv scroll_inv\<close>,
  auto simp: sb_inv_defs Clear_def ClearSelection_def ScrollToTop_def StartSelection_def UpdateSelection_def
    EndSelection_def Search_def Let_def)


lemma run_ops_inv:
  "sb_inv env b \<Longrightarrow> list_all op_safe ops \<Longrightarrow> \<exists>b'. run_ops env ops b = Some b' \<and> sb_inv env b'"
proof (induction ops arbitrary: b)
  case (Cons op ops)
  obtain b1 where "run_op env op b = Some b1" "sb_inv env b1" using run_op_inv[of env b op] Cons.prems by auto
  then show ?case using Cons.IH[of b1] Cons.prems by simp
qed simp

lemma NewBuffer_inv: "sb_inv env (NewBuffer w h)"
  by (simp add: sb_inv_defs NewBuffer_def DefaultMaxLines_def)

lemma reached_inv: "run_ops env ops (NewBuffer w h) = Some b \<Longrightarrow> list_all op_safe ops \<Longrightarrow> sb_inv env b"
  using run_ops_inv[OF NewBuffer_inv, of ops env w h] by auto

text \<open>C40: For ASCII text, no sequence of operations on a new buffer panics - the reading of a selection and the steps between matches
  included - as long as the history limit and the coordinates of selections are not negative.  Afterwards the history is within its
  limit, the row counter is the number of rows of the wrapped lines, each line is wrapped for the current width, the last-message
  marker lies in the history, the index of the current match is that of a match, and the scroll position is not negative (it may lie
  beyond the last row).\<close>

theorem buffer_invariant:
  assumes "list_all op_safe ops"
  shows "\<exists>b. run_ops env ops (NewBuffer w h) = Some b \<and>
    int (length (sb_lines b)) \<le> sb_maxLines b \<and>
    sb_totalRows b = row_total (sb_lines b) \<and>
    (\<forall>l \<in> set (sb_lines b). rewrap env (sb_width b) l = l) \<and>
    (sb_hasLastMessage b \<longrightarrow> 0 \<le> sb_lastMessageStart b \<and> sb_lastMessageStart b \<le> LineCount b) \<and>
    (sb_searchMatches b \<noteq> [] \<longrightarrow> 0 \<le> sb_searchIndex b \<and> sb_searchIndex b < int (length (sb_searchMatches b))) \<and>
    0 \<le> sb_scrollTop b"
proof -
  obtain b where "run_ops env ops (NewBuffer w h) = Some b" "sb_inv env b"
    using run_ops_inv[OF NewBuffer_inv assms] by blast
  then show ?thesis by (intro exI[of _ b]) (simp add: sb_inv_defs LineCount_def)
qed

text \<open>The two conditions are needed: a selection that starts above the first line makes \<open>GetSelection\<close> panic, as does a
  negative limit the trimming.\<close>

theorem buffer_panics:
  "run_ops demo_env [OpStartSelection (- 1) 0, OpUpdateSelection 0 3, OpAppendLine 1 ''hello'' no_style ''user'', OpGetSelection]
     (NewBuffer 80 24) = None \<and>
   run_ops demo_env [OpSetMaxLines (- 1)] (NewBuffer 80 24) = None"
  by (intro conjI; code_simp)

theorem buffer_invariant_witness:
  "\<exists>b. run_ops demo_env [OpAppendLine 1 ''hello'' no_style ''user'', OpSearch ''l'', OpPrevMatch, OpStartSelection 0 1, OpUpdateSelection 0 4,
     OpGetSelection, OpSetMaxLines 0] (NewBuffer 80 24) = Some b \<and> int (length (sb_lines b)) \<le> sb_maxLines b"
  using buffer_invariant[of "[OpAppendLine 1 ''hello'' no_style ''user'', OpSearch ''l'', OpPrevMatch, OpStartSelection 0 1,
     OpUpdateSelection 0 4, OpGetSelection, OpSetMaxLines 0]" demo_env 80 24]
  by auto

section \<open>What the viewport shows\<close>

abbreviation show_row :: "'st Buffer \<Rightarrow> int \<Rightarrow> nat \<times> nat \<times> 'st Line \<times> nat \<times> 'st WrappedLine \<Rightarrow> 'st VisibleLine" where
  "show_row b s ir \<equiv> (case ir of (i, lineIdx, line, wrapIdx, wrapped) \<Rightarrow>
     visibleLine b lineIdx line wrapIdx wrapped (int i - s))"

lemma map_snd_enum: "map (f \<circ> snd) (enumerate n xs) = map f xs"
  by (metis map_map map_snd_enumerate)

lemma enumerate_index_ge: "(i, x) \<in> set (enumerate n xs) \<Longrightarrow> n \<le> i"
  by (auto simp: in_set_enumerate_eq)

lemma visible_loop_filter:
  "visible_loop b rows (int k) rs = map (show_row b (vr_start rows))
     (filter (\<lambda>ir. vr_contains rows (int (fst ir))) (enumerate k rs))"
proof (induction rs arbitrary: k)
  case (Cons r rs)
  obtain lineIdx line wrapIdx wrapped where r: "r = (lineIdx, line, wrapIdx, wrapped)"
    using prod_cases4 by blast
  have "filter (\<lambda>ir. vr_contains rows (int (fst ir))) (enumerate (Suc k) rs) = []"
    if "int k + 1 \<ge> vr_end rows"
    using that by (auto simp: filter_empty_conv vr_contains_def dest: enumerate_index_ge)
  then show ?case using Cons.IH[of "Suc k"] by (auto simp: r add.commute)
qed simp

lemma filter_window:
  "filter (\<lambda>ix. a \<le> fst ix \<and> fst ix < c) (enumerate n xs) =
   take (c - max a n) (drop (a - n) (enumerate n xs))"
proof (induction xs arbitrary: n)
  case (Cons x xs)
  show ?case
  proof (cases "a \<le> n")
    case True
    have "n < c \<Longrightarrow> c - n = Suc (c - Suc n)" by simp
    then show ?thesis using True Cons.IH[of "Suc n"] by (cases "n < c") (auto simp: max_def)
  next
    case False
    then have "a - n = Suc (a - Suc n)" "max a n = a" "max a (Suc n) = a" by auto
    then show ?thesis using False Cons.IH[of "Suc n"] by simp
  qed
qed simp

lemma window_take_drop:
  assumes "0 \<le> s"
  shows "filter (\<lambda>ir. vr_contains \<lparr>vr_start = s, vr_end = s + h\<rparr> (int (fst ir))) (enumerate 0 rs) =
    take (nat h) (drop (nat s) (enumerate 0 rs))"
proof -
  have "vr_contains \<lparr>vr_start = s, vr_end = s + h\<rparr> (int i) \<longleftrightarrow> nat s \<le> i \<and> i < nat (s + h)" for i
    using assms by (auto simp: vr_contains_def)
  then have "filter (\<lambda>ir. vr_contains \<lparr>vr_start = s, vr_end = s + h\<rparr> (int (fst ir))) (enumerate 0 rs) =
      take (nat (s + h) - nat s) (drop (nat s) (enumerate 0 rs))"
    using filter_window[of "nat s" "nat (s + h)" 0 rs] by simp
  moreover have "nat (s + h) - nat s = nat h" using assms by (cases "0 \<le> h") auto
  ultimately show ?thesis by simp
qed

lemma GetVisibleLines_window:
  assumes "0 \<le> sb_scrollTop b"
  shows "GetVisibleLines b = map (show_row b (sb_scrollTop b))
    (take (nat (sb_height b)) (drop (nat (sb_scrollTop b)) (enumerate 0 (all_rows (sb_lines b)))))"
  using visible_loop_filter[of b "\<lparr>vr_start = sb_scrollTop b, vr_end = sb_scrollTop b + sb_height b\<rparr>" 0]
    window_take_drop[OF assms, of "sb_height b" "all_rows (sb_lines b)"]
  by (simp add: GetVisibleLines_def visibleLines_def)

definition rows_from :: "nat \<Rightarrow> 'st Line list \<Rightarrow> (nat \<times> 'st Line \<times> nat \<times> 'st WrappedLine) list" where
  "rows_from n ls = concat (map (\<lambda>(lineIdx, line).
     map (\<lambda>(wrapIdx, wrapped). (lineIdx, line, wrapIdx, wrapped)) (enumerate 0 (ln_Wrapped line))) (enumerate n ls))"

lemma rows_from_simps [simp]:
  "rows_from n [] = []"
  "rows_from n (l # ls) = map (\<lambda>(wrapIdx, wrapped). (n, l, wrapIdx, wrapped)) (enumerate 0 (ln_Wrapped l)) @
     rows_from (Suc n) ls"
  by (simp_all add: rows_from_def)

lemma all_rows_from: "all_rows ls = rows_from 0 ls"
  by (simp add: all_rows_def rows_from_def)

lemma rows_from_length: "int (length (rows_from n ls)) = row_total ls"
  by (induction ls arbitrary: n) (auto simp: row_total_def)

lemma rows_from_texts:
  "map (\<lambda>(_, _, _, w). wl_Text w) (rows_from n ls) = concat (map (map wl_Text \<circ> ln_Wrapped) ls)"
proof (induction ls arbitrary: n)
  case (Cons l ls)
  have "map ((\<lambda>(_, _, _, w). wl_Text w) \<circ> (\<lambda>(wrapIdx, wrapped). (n, l, wrapIdx, wrapped))) (enumerate 0 (ln_Wrapped l)) =
      map (wl_Text \<circ> snd) (enumerate 0 (ln_Wrapped l))"
    by auto
  then show ?case using Cons.IH by (simp add: map_snd_enum)
qed simp

text \<open>In every reachable state the viewport shows exactly the rows of the history from the
  scroll position on, as many as fit its height, each labelled with its distance from the top.\<close>

theorem viewport_window:
  assumes "list_all op_safe ops" "run_ops env ops (NewBuffer w h) = Some b"
  shows "map vl_Content (GetVisibleLines b) =
      take (nat (sb_height b)) (drop (nat (sb_scrollTop b)) (concat (map (map wl_Text \<circ> ln_Wrapped) (sb_lines b)))) \<and>
    map vl_RowIndex (GetVisibleLines b) = map int [0..<length (GetVisibleLines b)] \<and>
    int (length (GetVisibleLines b)) = max 0 (min (sb_height b) (RowCount b - sb_scrollTop b))"
proof -
  have inv: "sb_inv env b" using reached_inv assms by blast
  then have top: "0 \<le> sb_scrollTop b" and total: "sb_totalRows b = row_total (sb_lines b)"
    by (simp_all add: sb_inv_defs)
  let ?rows = "all_rows (sb_lines b)" and ?n = "nat (sb_height b)" and ?s = "nat (sb_scrollTop b)"
  have vis: "GetVisibleLines b = map (show_row b (sb_scrollTop b)) (take ?n (drop ?s (enumerate 0 ?rows)))"
    by (rule GetVisibleLines_window[OF top])
  have "map vl_Content (GetVisibleLines b) = map (\<lambda>(_, _, _, w). wl_Text w) (map snd (take ?n (drop ?s (enumerate 0 ?rows))))"
    unfolding vis by (auto simp: visibleLine_def)
  also have "\<dots> = take ?n (drop ?s (map (\<lambda>(_, _, _, w). wl_Text w) ?rows))"
    by (simp only: take_map[symmetric] drop_map[symmetric] map_snd_enumerate)
  finally have c: "map vl_Content (GetVisibleLines b) = \<dots>" .
  have "map vl_RowIndex (GetVisibleLines b) = map (\<lambda>i. int i - sb_scrollTop b) (map fst (take ?n (drop ?s (enumerate 0 ?rows))))"
    unfolding vis by (auto simp: visibleLine_def)
  also have "map fst (take ?n (drop ?s (enumerate 0 ?rows))) = take ?n (drop ?s [0..<length ?rows])"
    by (simp add: take_map[symmetric] drop_map[symmetric])
  finally have r: "map vl_RowIndex (GetVisibleLines b) = map (\<lambda>i. int i - sb_scrollTop b) (take ?n [?s..<length ?rows])"
    by simp
  have len: "length (GetVisibleLines b) = min ?n (length ?rows - ?s)"
    unfolding vis by simp
  have "map (\<lambda>i. int i - sb_scrollTop b) (take ?n [?s..<length ?rows]) = map int [0..<min ?n (length ?rows - ?s)]"
    using top by (intro nth_equalityI) auto
  moreover have "int (length ?rows) = sb_totalRows b"
    using total by (simp add: all_rows_from rows_from_length)
  then have "int (min ?n (length ?rows - ?s)) = max 0 (min (sb_height b) (sb_totalRows b - sb_scrollTop b))"
    using top by linarith
  ultimately show ?thesis
    using c r len top rows_from_texts[of 0 "sb_lines b"] by (auto simp: all_rows_from RowCount_def)
qed


theorem viewport_window_witness:
  "\<exists>b. run_ops demo_env [OpAppendLine 1 ''hello'' no_style ''user''] (NewBuffer 80 24) = Some b \<and>
     map vl_RowIndex (GetVisibleLines b) = map int [0..<length (GetVisibleLines b)]"
proof -
  let ?ops = "[OpAppendLine 1 ''hello'' no_style ''user'']"
  have safe: "list_all op_safe ?ops" by simp
  obtain b where "run_ops demo_env ?ops (NewBuffer 80 24) = Some b"
    using run_ops_inv[OF NewBuffer_inv safe] by blast
  with viewport_window[OF safe this] show ?thesis by blast
qed

section \<open>What search finds\<close>

lemma occurrences_none:
  "offset > length s \<or> str_index (drop offset s) q = None \<Longrightarrow> occurrences q k s offset = []"
  by (auto simp: occurrences.simps[of q k s offset])

lemma occurrences_some:
  "\<not> offset > length s \<Longrightarrow> str_index (drop offset s) q = Some idx \<Longrightarrow>
   occurrences q k s offset = (offset + idx) # occurrences q k s (offset + idx + Suc k)"
  by (simp add: occurrences.simps[of q k s offset])

lemma occurrences_sound:
  "c \<in> set (occurrences q k s off) \<Longrightarrow> off \<le> c \<and> has_prefix (drop c s) q"
proof (induction q k s off rule: occurrences.induct)
  case (1 q k s offset)
  show ?case
  proof (cases "offset > length s \<or> str_index (drop offset s) q = None")
    case True
    then show ?thesis using 1(2) occurrences_none by fastforce
  next
    case False
    then obtain idx where idx: "str_index (drop offset s) q = Some idx" by auto
    have "has_prefix (drop (offset + idx) s) q" using str_index_Some[OF idx] by (simp add: add.commute)
    moreover have "c = offset + idx \<or> c \<in> set (occurrences q k s (offset + idx + Suc k))"
      using 1(2) occurrences_some[OF _ idx] False by auto
    ultimately show ?thesis using 1(1)[OF _ idx] False by auto
  qed
qed

lemma occurrences_spaced: "sorted_wrt (\<lambda>a c. a + Suc k \<le> c) (occurrences q k s off)"
proof (induction q k s off rule: occurrences.induct)
  case (1 q k s offset)
  show ?case
  proof (cases "offset > length s \<or> str_index (drop offset s) q = None")
    case True
    then show ?thesis using occurrences_none[OF True] by simp
  next
    case False
    then obtain idx where idx: "str_index (drop offset s) q = Some idx" by auto
    have "\<forall>c \<in> set (occurrences q k s (offset + idx + Suc k)). offset + idx + Suc k \<le> c"
      using occurrences_sound by blast
    then show ?thesis
      using 1(1)[OF _ idx] occurrences_some[OF _ idx, of k] False by simp
  qed
qed

lemma has_prefix_drop_contains: "has_prefix (drop k s) q \<Longrightarrow> contains s q"
  by (metis append_take_drop_id contains_iff has_prefix_iff prefix_def)

lemma occurrences_complete:
  "off \<le> j \<Longrightarrow> j \<le> length s \<Longrightarrow> has_prefix (drop j s) q \<Longrightarrow>
   \<exists>c \<in> set (occurrences q k s off). c \<le> j \<and> j < c + Suc k"
proof (induction q k s off rule: occurrences.induct)
  case (1 q k s offset)
  have "drop j s = drop (j - offset) (drop offset s)" using 1(2) by simp
  then have occ: "has_prefix (drop (j - offset) (drop offset s)) q" using 1(4) by simp
  then obtain idx where idx: "str_index (drop offset s) q = Some idx"
    using str_index_None has_prefix_drop_contains by fastforce
  have "\<not> j - offset < idx" using str_index_Some[OF idx] occ by blast
  then have le: "offset + idx \<le> j" using 1(2) by simp
  have eq: "occurrences q k s offset = (offset + idx) # occurrences q k s (offset + idx + Suc k)"
    using 1(2,3) idx by (intro occurrences_some) auto
  show ?case
  proof (cases "j < offset + idx + Suc k")
    case True
    then show ?thesis using le eq by simp
  next
    case False
    then show ?thesis using 1(1)[OF _ idx] 1(2-4) eq by simp
  qed
qed

text \<open>A search with a non-empty query returns the number of matches it records; every match is
  an occurrence of the query in its line, regardless of case; the matches are listed from top to
  bottom and do not overlap; and every occurrence in the history starts inside some match.\<close>

theorem search_matches:
  assumes "query \<noteq> ''''" "Search query b = (n, b')"
  shows "n = int (length (sb_searchMatches b')) \<and>
    (\<forall>p \<in> set (sb_searchMatches b'). 0 \<le> pos_Line p \<and> pos_Line p < LineCount b \<and> 0 \<le> pos_Column p \<and>
       has_prefix (drop (nat (pos_Column p)) (to_lower (ln_Content (sb_lines b ! nat (pos_Line p))))) (to_lower query)) \<and>
    sorted_wrt (\<lambda>p p'. pos_Line p < pos_Line p' \<or>
       pos_Line p = pos_Line p' \<and> pos_Column p + int (length query) \<le> pos_Column p') (sb_searchMatches b') \<and>
    (\<forall>i < length (sb_lines b). \<forall>j \<le> length (ln_Content (sb_lines b ! i)).
       has_prefix (drop j (to_lower (ln_Content (sb_lines b ! i)))) (to_lower query) \<longrightarrow>
       (\<exists>p \<in> set (sb_searchMatches b'). pos_Line p = int i \<and> pos_Column p \<le> int j \<and>
          int j < pos_Column p + int (length query)))"
proof -
  let ?ms = "concat (map (line_matches query) (enumerate 0 (sb_lines b)))"
  have ms: "sb_searchMatches b' = ?ms" "n = int (length ?ms)"
    using assms by (auto simp: Search_def Let_def)
  have len: "Suc (length query - 1) = length query" using assms(1) by (cases query) auto
  have sound: "\<forall>p \<in> set ?ms. 0 \<le> pos_Line p \<and> pos_Line p < LineCount b \<and> 0 \<le> pos_Column p \<and>
      has_prefix (drop (nat (pos_Column p)) (to_lower (ln_Content (sb_lines b ! nat (pos_Line p))))) (to_lower query)"
    by (auto simp: line_matches_def in_set_enumerate_eq LineCount_def dest: occurrences_sound)
  have sorted: "sorted_wrt (\<lambda>p p'. pos_Line p < pos_Line p' \<or>
      pos_Line p = pos_Line p' \<and> pos_Column p + int (length query) \<le> pos_Column p')
      (concat (map (line_matches query) (enumerate k ls)))" for k and ls :: "'a Line list"
  proof (induction ls arbitrary: k)
    case (Cons l ls)
    have "sorted_wrt (\<lambda>p p'. pos_Line p < pos_Line p' \<or>
        pos_Line p = pos_Line p' \<and> pos_Column p + int (length query) \<le> pos_Column p') (line_matches query (k, l))"
      using occurrences_spaced[of "length query - 1" "to_lower query" "to_lower (ln_Content l)" 0] len
      by (auto simp: line_matches_def sorted_wrt_map intro: sorted_wrt_mono_rel[rotated])
    moreover have "\<forall>p \<in> set (line_matches query (k, l)). pos_Line p = int k"
      by (auto simp: line_matches_def)
    moreover have "\<forall>p \<in> set (concat (map (line_matches query) (enumerate (Suc k) ls))). int k < pos_Line p"
      by (auto simp: line_matches_def dest: enumerate_index_ge)
    ultimately show ?case using Cons.IH[of "Suc k"] by (auto simp: sorted_wrt_append)
  qed simp
  have complete: "\<exists>p \<in> set ?ms. pos_Line p = int i \<and> pos_Column p \<le> int j \<and> int j < pos_Column p + int (length query)"
    if i: "i < length (sb_lines b)" and j: "j \<le> length (ln_Content (sb_lines b ! i))"
      and occ: "has_prefix (drop j (to_lower (ln_Content (sb_lines b ! i)))) (to_lower query)" for i j
  proof -
    have "j \<le> length (to_lower (ln_Content (sb_lines b ! i)))" using j by (simp add: to_lower_def)
    then obtain c where c: "c \<in> set (occurrences (to_lower query) (length query - 1) (to_lower (ln_Content (sb_lines b ! i))) 0)"
      "c \<le> j" "j < c + length query"
      using occurrences_complete[OF _ _ occ, of 0 "length query - 1"] len by auto
    have "(i, sb_lines b ! i) \<in> set (enumerate 0 (sb_lines b))" using i by (simp add: in_set_enumerate_eq)
    moreover have "\<lparr>pos_Line = int i, pos_Column = int c\<rparr> \<in> set (line_matches query (i, sb_lines b ! i))"
      using c(1) by (auto simp: line_matches_def)
    ultimately have "\<lparr>pos_Line = int i, pos_Column = int c\<rparr> \<in> set ?ms" by force
    then show ?thesis using c(2,3) by force
  qed
  show ?thesis
    unfolding ms using sound sorted[of 0 "sb_lines b"] complete by simp
qed


definition demo_buffer :: "nat Buffer" where
  "demo_buffer = (NewBuffer 80 24)\<lparr>sb_lines := [plain_line 1 ''Hello hello'' no_style ''user'']\<rparr>"

theorem search_matches_witness:
  "\<exists>p \<in> set (sb_searchMatches (snd (Search ''LO'' demo_buffer))). pos_Line p = 0 \<and>
     pos_Column p \<le> 9 \<and> 9 < pos_Column p + 2"
proof -
  have "has_prefix (drop 9 (to_lower (ln_Content (sb_lines demo_buffer ! 0)))) (to_lower ''LO'')"
    "0 < length (sb_lines demo_buffer)" "9 \<le> length (ln_Content (sb_lines demo_buffer ! 0))"
    by code_simp+
  moreover have "\<forall>i < length (sb_lines demo_buffer). \<forall>j \<le> length (ln_Content (sb_lines demo_buffer ! i)).
       has_prefix (drop j (to_lower (ln_Content (sb_lines demo_buffer ! i)))) (to_lower ''LO'') \<longrightarrow>
       (\<exists>p \<in> set (sb_searchMatches (snd (Search ''LO'' demo_buffer))). pos_Line p = int i \<and> pos_Column p \<le> int j \<and>
          int j < pos_Column p + int (length ''LO''))"
    using search_matches[OF list.distinct(2) prod.collapse[symmetric]] by blast
  ultimately have "\<exists>p \<in> set (sb_searchMatches (snd (Search ''LO'' demo_buffer))). pos_Line p = int 0 \<and>
      pos_Column p \<le> int 9 \<and> int 9 < pos_Column p + int (length ''LO'')"
    by blast
  then show ?thesis by simp
qed

section \<open>Mouse positions\<close>

definition content_before :: "int \<Rightarrow> 'st WrappedLine list \<Rightarrow> int" where
  "content_before prefixLen ws = sum_list (map (\<lambda>w. wrappedContentLen w prefixLen) ws)"

definition row_position :: "nat \<times> 'st Line \<times> nat \<times> 'st WrappedLine \<Rightarrow> 'st wrappedRowPosition" where
  "row_position r = (case r of (lineIdx, line, wrapIdx, wrapped) \<Rightarrow>
     (let p = int (length (spansText (ln_Prefix line)))
      in \<lparr>wp_lineIndex = lineIdx, wp_content = ln_Content line, wp_wrapped = wrapped,
          wp_contentOffset = content_before p (take wrapIdx (ln_Wrapped line)), wp_prefixLen = p\<rparr>))"

lemma content_before_simps [simp]:
  "content_before p [] = 0" "content_before p (w # ws) = wrappedContentLen w p + content_before p ws"
  by (simp_all add: content_before_def)

lemma find_in_line_spec:
  "find_in_line li line p off (int k) (int r) ws =
     (if k \<le> r \<and> r < k + length ws then
        Some \<lparr>wp_lineIndex = li, wp_content = ln_Content line, wp_wrapped = ws ! (r - k),
              wp_contentOffset = off + content_before p (take (r - k) ws), wp_prefixLen = p\<rparr>
      else None)"
proof (induction ws arbitrary: off k)
  case (Cons w ws)
  show ?case
  proof (cases "k = r")
    case False
    have "k < r \<Longrightarrow> r - k = Suc (r - Suc k)" by simp
    then show ?thesis using False Cons.IH[of "off + wrappedContentLen w p" "Suc k"]
      by (auto simp: add.commute)
  qed simp
qed simp

lemma find_in_lines_spec:
  "k \<le> r \<Longrightarrow> r < k + length (rows_from n ls) \<Longrightarrow>
   find_in_lines n (int k) (int r) ls = Some (row_position (rows_from n ls ! (r - k)))"
proof (induction ls arbitrary: n k)
  case (Cons l ls)
  let ?w = "ln_Wrapped l"
  show ?case
  proof (cases "r < k + length ?w")
    case True
    then show ?thesis using Cons.prems
      by (simp add: find_in_line_spec nth_append row_position_def Let_def nth_enumerate_eq)
  next
    case False
    have "r - (k + length ?w) = r - k - length ?w" by simp
    then show ?thesis using False Cons.prems Cons.IH[of "k + length ?w" "Suc n"]
      by (simp add: find_in_line_spec nth_append)
  qed
qed simp

lemma findWrappedRow_spec:
  "r < length (all_rows ls) \<Longrightarrow> findWrappedRow ls (int r) = Some (row_position (all_rows ls ! r))"
  using find_in_lines_spec[of 0 r 0 ls] by (simp add: findWrappedRow_def all_rows_from)

lemma rune_loop_eq: "count \<le> offset \<Longrightarrow> rune_loop s i count offset = i + min (offset - count) (int (length s))"
  by (induction s arbitrary: i count) auto

lemma runeOffsetToByte_eq: "runeOffsetToByte s offset = max 0 (min offset (int (length s)))"
  by (simp add: runeOffsetToByte_def rune_loop_eq)

lemma rows_from_nth:
  "(li, l, wi, w) \<in> set (rows_from n ls) \<Longrightarrow>
   n \<le> li \<and> li < n + length ls \<and> l = ls ! (li - n) \<and> wi < length (ln_Wrapped l) \<and> w = ln_Wrapped l ! wi"
  by (auto simp: rows_from_def in_set_enumerate_eq)

text \<open>In a code line the displayed segments are the content, cut at the offsets the code computes.\<close>

lemma row_texts_nth:
  assumes "i < length segs"
  shows "length (row_texts pre segs) = length segs" "length (row_texts pre segs ! i) = length pre + length (segs ! i)"
    "drop (length pre) (row_texts pre segs ! i) = segs ! i"
  using assms by (cases segs; cases i; simp add: row_texts_def)+

lemma interleave_no_gaps:
  "length segs = length gaps \<Longrightarrow> \<forall>gap \<in> set gaps. gap = [] \<Longrightarrow> interleave segs gaps = concat segs"
  by (induction segs gaps rule: list_induct2) (auto simp: interleave_def)

lemma concat_nth:
  assumes "i < length segs" "k < length (segs ! i)"
  shows "length (concat (take i segs)) + k < length (concat segs)"
    and "concat segs ! (length (concat (take i segs)) + k) = segs ! i ! k"
proof -
  have "concat segs = concat (take i segs) @ segs ! i @ concat (drop (Suc i) segs)"
    using id_take_nth_drop[OF assms(1)] by (metis concat.simps(2) concat_append)
  then show "length (concat (take i segs)) + k < length (concat segs)"
    and "concat segs ! (length (concat (take i segs)) + k) = segs ! i ! k"
    using assms(2) by (simp_all add: nth_append)
qed

lemma row_content_len:
  assumes "map wl_Text ws = row_texts pre segs" "segs \<noteq> []"
  shows "map (\<lambda>w. wrappedContentLen w (int (length pre))) ws = map (int \<circ> length) segs"
proof -
  have "map (\<lambda>t. max 0 (int (length t) - int (length pre))) (map wl_Text ws) = map (int \<circ> length) segs"
    unfolding assms(1) using assms(2) by (cases segs) (auto simp: row_texts_def)
  then show ?thesis by (simp add: wrappedContentLen_def o_def)
qed

lemma content_before_segs:
  assumes "map wl_Text ws = row_texts pre segs" "segs \<noteq> []"
  shows "content_before (int (length pre)) (take i ws) = int (length (concat (take i segs)))"
proof -
  have "content_before (int (length pre)) (take i ws) = sum_list (take i (map (int \<circ> length) segs))"
    by (simp add: content_before_def flip: row_content_len[OF assms] take_map)
  also have "\<dots> = int (length (concat (take i segs)))"
    by (simp add: take_map length_concat o_def flip: sum_list_of_nat)
  finally show ?thesis .
qed

text \<open>A code line: the character in column \<open>c\<close> of row \<open>i\<close> is the character of the content at the offset
  of the row plus the column without the prefix.\<close>

lemma code_row_content:
  assumes "rewrap env width line = line" "2 < width" "ln_IsCode line"
    and body: "body_text (ln_Content line) (ln_Spans line) = ln_Content line"
    and i: "i < length (ln_Wrapped line)" and c: "length (spansText (ln_Prefix line)) \<le> c"
    and d: "c < length (wl_Text (ln_Wrapped line ! i))"
  defines "p \<equiv> length (spansText (ln_Prefix line))"
  shows "\<exists>k. content_before (int p) (take i (ln_Wrapped line)) = int k \<and>
    k + (c - p) < length (ln_Content line) \<and>
    wl_Text (ln_Wrapped line ! i) ! c = ln_Content line ! (k + (c - p))"
proof -
  let ?pre = "spansText (ln_Prefix line)"
  have "ln_Wrapped (rewrap env width line) =
      wrapLineWithSpans env (ln_Content line) (ln_Spans line) (ln_Prefix line) (width - 2) True"
    using assms(3) by (simp add: rewrap_def)
  then have wrapped: "ln_Wrapped line =
      wrapLineWithSpans env (ln_Content line) (ln_Spans line) (ln_Prefix line) (width - 2) True"
    using assms(1) by simp
  have "0 < width - 2" using assms(2) by simp
  from wrap_texts[OF this, of "ln_Prefix line" True "ln_Content line" "ln_Spans line" env]
  obtain segs where seg: "segmented (nat (max 1 (width - 2 - int (length ?pre)))) True (ln_Content line) segs"
    and segs: "map wl_Text (ln_Wrapped line) = row_texts ?pre segs"
    using body wrapped by auto
  obtain gaps where gaps: "length gaps = length segs" "interleave segs gaps = ln_Content line" "\<forall>gap \<in> set gaps. gap = []"
    using seg by (auto simp: segmented_def)
  have content: "concat segs = ln_Content line" using interleave_no_gaps gaps by metis
  have row: "wl_Text (ln_Wrapped line ! i) = row_texts ?pre segs ! i" using segs i by (metis nth_map)
  have ne: "segs \<noteq> []"
  proof
    assume "segs = []"
    then have "row_texts ?pre segs = [?pre]" by (simp add: row_texts_def)
    moreover have "length (ln_Wrapped line) = length (row_texts ?pre segs)" using segs by (metis length_map)
    ultimately show False using row i c d by simp
  qed
  then have n: "i < length segs" using segs i row_texts_nth(1)[of 0 segs ?pre] by (metis length_greater_0_conv length_map)
  have seg_i: "drop p (wl_Text (ln_Wrapped line ! i)) = segs ! i" using row row_texts_nth(3)[OF n, of ?pre] p_def by simp
  have "length (wl_Text (ln_Wrapped line ! i)) = p + length (segs ! i)"
    using row row_texts_nth(2)[OF n, of ?pre] p_def by simp
  then have "c - p < length (segs ! i)" "p \<le> c" using c d p_def by auto
  moreover have "wl_Text (ln_Wrapped line ! i) ! c = segs ! i ! (c - p)"
    using \<open>p \<le> c\<close> d unfolding seg_i[symmetric] by simp
  ultimately show ?thesis
    using concat_nth[OF n, of "c - p"] content content_before_segs[OF segs ne, of i] p_def by auto
qed

text \<open>In every reachable state, for a viewport wider than two columns, a mouse position on a
  character of a code line is mapped to the line and to the position of that very character in its
  content (for a line whose spans carry its content).\<close>

theorem position_in_code:
  assumes "list_all op_safe ops" "run_ops env ops (NewBuffer w h) = Some b" "2 < sb_width b"
    "0 \<le> row" "row < int (length (GetVisibleLines b))"
    "vl = GetVisibleLines b ! nat row" "line = sb_lines b ! vl_LineIndex vl"
    "vl_IsCode vl" "body_text (ln_Content line) (ln_Spans line) = ln_Content line"
    "length (spansText (ln_Prefix line)) \<le> col" "col < length (vl_Content vl)"
  shows "\<exists>c. PositionForView b row (int col) = Some (vl_LineIndex vl, int c) \<and>
    c < length (ln_Content line) \<and> vl_Content vl ! col = ln_Content line ! c"
proof -
  have inv: "sb_inv env b" using reached_inv assms(1,2) by blast
  then have top: "0 \<le> sb_scrollTop b" and total: "sb_totalRows b = int (length (all_rows (sb_lines b)))"
    by (simp_all add: sb_inv_defs all_rows_from rows_from_length)
  define r where "r = nat (sb_scrollTop b) + nat row"
  have lens: "nat row < nat (sb_height b)" "r < length (all_rows (sb_lines b))"
    using assms(4,5) GetVisibleLines_window[OF top] unfolding r_def by auto
  obtain li l wi wl where x: "all_rows (sb_lines b) ! r = (li, l, wi, wl)" using prod_cases4 by blast
  have vl: "vl = visibleLine b li l wi wl (int r - sb_scrollTop b)"
    using assms(4-6) lens x unfolding GetVisibleLines_window[OF top] r_def
    by (simp add: nth_enumerate_eq)
  have "(li, l, wi, wl) \<in> set (all_rows (sb_lines b))" using x lens(2) by (metis nth_mem)
  then have l: "l = line" "li < length (sb_lines b)" "wi < length (ln_Wrapped line)" "wl = ln_Wrapped line ! wi"
    using rows_from_nth[of li l wi wl 0 "sb_lines b"] assms(7) vl by (auto simp: all_rows_from visibleLine_def)
  have "line \<in> set (sb_lines b)" using l(2) assms(7) vl by (simp add: visibleLine_def)
  then have "rewrap env (sb_width b) line = line" using inv unfolding sb_inv_defs by blast
  moreover have "ln_IsCode line" "vl_Content vl = wl_Text wl" using assms(8) vl l by (simp_all add: visibleLine_def)
  ultimately obtain k where k: "content_before (int (length (spansText (ln_Prefix line)))) (take wi (ln_Wrapped line)) = int k"
    "k + (col - length (spansText (ln_Prefix line))) < length (ln_Content line)"
    "wl_Text wl ! col = ln_Content line ! (k + (col - length (spansText (ln_Prefix line))))"
    using code_row_content[of env "sb_width b" line wi col] assms(3,9-11) l by auto
  have "absoluteViewRow b row (int col) = Some (int r)"
    using assms(4) lens top total by (auto simp: absoluteViewRow_def Let_def r_def)
  moreover have "findWrappedRow (sb_lines b) (int r) = Some (row_position (li, line, wi, wl))"
    using findWrappedRow_spec[OF lens(2)] x l by simp
  ultimately have "PositionForView b row (int col) = Some (li, int (k + (col - length (spansText (ln_Prefix line)))))"
    using k assms(10,11) \<open>vl_Content vl = wl_Text wl\<close>
    by (simp add: PositionForView_def row_position_def Let_def contentColumn_def wrappedContentLen_def
        runeOffsetToByte_eq)
  moreover have "vl_LineIndex vl = li" using vl by (simp add: visibleLine_def)
  ultimately show ?thesis
    using k(2,3) \<open>vl_Content vl = wl_Text wl\<close>
    by (intro exI[of _ "k + (col - length (spansText (ln_Prefix line)))"]) simp
qed

definition code_ops :: "nat sb_op list" where
  "code_ops = [OpAppendStyledLine 1 ''abcdefgh'' [] [] ''assistant'' True ''go'']"

definition code_buffer :: "nat Buffer" where
  "code_buffer = the (run_ops demo_env code_ops (NewBuffer 7 10))"

lemma code_buffer_run: "run_ops demo_env code_ops (NewBuffer 7 10) = Some code_buffer"
proof -
  have "list_all op_safe code_ops" by (simp add: code_ops_def)
  then show ?thesis using run_ops_inv[OF NewBuffer_inv, of code_ops demo_env 7 10] by (auto simp: code_buffer_def)
qed

theorem position_in_code_witness:
  "\<exists>c. PositionForView code_buffer 1 2 = Some (0, int c) \<and> ''abcdefgh'' ! c = CHR ''h''"
proof -
  let ?vl = "GetVisibleLines code_buffer ! nat 1" and ?line = "sb_lines code_buffer ! 0"
  have "list_all op_safe code_ops" "2 < sb_width code_buffer" "1 < int (length (GetVisibleLines code_buffer))"
    "vl_LineIndex ?vl = 0" "vl_IsCode ?vl" "ln_Content ?line = ''abcdefgh''" "ln_Spans ?line = []"
    "spansText (ln_Prefix ?line) = ''''" "vl_Content ?vl = ''fgh''"
    by code_simp+
  then show ?thesis
    using position_in_code[OF _ code_buffer_run, of 1 ?vl ?line 2] by (auto simp: body_text_def)
qed

text \<open>In wrapped prose the blanks dropped at a break are not counted: with the line
  \<open>hello world\<close> shown in two rows, the position of the first character of the second row is the
  position of the blank before it.\<close>

theorem position_in_prose_shifted:
  "\<exists>b. run_ops demo_env [OpAppendLine 1 ''hello world'' no_style ''user''] (NewBuffer 7 10) = Some b \<and>
     map vl_Content (GetVisibleLines b) = [''hello'', ''world''] \<and>
     PositionForView b 1 0 = Some (0, 5) \<and> ''hello world'' ! 5 = blank \<and> ''hello world'' ! 6 = CHR ''w''"
proof -
  let ?ops = "[OpAppendLine 1 ''hello world'' no_style ''user'']"
  let ?b = "the (run_ops demo_env ?ops (NewBuffer 7 10))"
  have run: "run_ops demo_env ?ops (NewBuffer 7 10) = Some ?b"
    using run_ops_inv[OF NewBuffer_inv, of ?ops demo_env 7 10] by auto
  have view: "map vl_Content (GetVisibleLines ?b) = [''hello'', ''world'']"
    and pos: "PositionForView ?b 1 0 = Some (0, 5)"
    and chars: "''hello world'' ! 5 = blank" "''hello world'' ! 6 = CHR ''w''"
    by code_simp+
  show ?thesis by (intro exI[of _ ?b] conjI run view pos chars)
qed

text \<open>A buffer that the user has scrolled does not move its viewport when the history limit
  drops a line: after one append the viewport can lie below the last row and show nothing, although
  the history is not empty.\<close>

theorem trimmed_viewport_blank:
  "\<exists>ops b. list_all op_safe ops \<and> run_ops demo_env ops (NewBuffer 3 1) = Some b \<and> sb_lines b \<noteq> [] \<and>
     RowCount b = 2 \<and> sb_scrollTop b = 4 \<and> GetVisibleLines b = []"
proof -
  let ?ops = "[OpSetMaxLines 2, OpAppendLine 1 ''aaaaa'' no_style ''user'',
    OpAppendLine 2 ''b'' no_style ''user'', OpScrollUp 1, OpAppendLine 3 ''c'' no_style ''user'']"
  let ?b = "the (run_ops demo_env ?ops (NewBuffer 3 1))"
  have safe: "list_all op_safe ?ops" by simp
  then have "run_ops demo_env ?ops (NewBuffer 3 1) = Some ?b"
    using run_ops_inv[OF NewBuffer_inv safe, of demo_env 3 1] by auto
  moreover have "length (sb_lines ?b) = 2" "RowCount ?b = 2" "sb_scrollTop ?b = 4" "length (GetVisibleLines ?b) = 0"
    by code_simp+
  moreover have "sb_lines ?b \<noteq> []" "GetVisibleLines ?b = []" using calculation(2,5) by auto
  ultimately show ?thesis using safe by blast
qed


end
