(* ===== verification/Fnv_Hash.thy ===== *)
theory Fnv_Hash
  imports Go_Prelude "HOL-Library.Word"
begin

text \<open>
  The 64-bit FNV-1a hash of Go's \<open>hash/fnv\<close> (\<open>fnv.New64a\<close>) and the format \<open>%016x\<close>, which the tool
  selection cache and the deduplication of tool results use as keys.
\<close>

unbundle bit_operations_syntax

definition fnv_step :: "64 word \<Rightarrow> char \<Rightarrow> 64 word" where
  "fnv_step h c = (h XOR of_nat (of_char c)) * 1099511628211"

definition fnv1a :: "string \<Rightarrow> 64 word" where
  "fnv1a s = foldl fnv_step 14695981039346656037 s"

definition hex_digit :: "nat \<Rightarrow> char" where
  "hex_digit n = (if n < 10 then char_of (48 + n) else char_of (87 + n))"

fun hex_digits :: "nat \<Rightarrow> nat \<Rightarrow> string" where
  "hex_digits 0 n = []"
| "hex_digits (Suc k) n = hex_digits k (n div 16) @ [hex_digit (n mod 16)]"

definition hex16 :: "64 word \<Rightarrow> string" where
  "hex16 w = hex_digits 16 (unat w)"

end
