(* ===== verification/Refinement.thy ===== *)
theory Refinement
  imports Main
begin

text \<open>
  Functional refinement, the form in which the development relates an implementation to an
  abstract specification: an abstraction function and an invariant of the implementation such that
  every operation keeps the invariant, returns what the specification returns and commutes with
  the abstraction.  Proved once: a whole sequence of operations then returns the same results as the
  specification.
\<close>

fun run_all :: "('op \<Rightarrow> 's \<Rightarrow> 'r \<times> 's) \<Rightarrow> 'op list \<Rightarrow> 's \<Rightarrow> 'r list \<times> 's" where
  "run_all f [] s = ([], s)"
| "run_all f (op # ops) s =
     (case f op s of (r, s1) \<Rightarrow> case run_all f ops s1 of (rs, s2) \<Rightarrow> (r # rs, s2))"

locale functional_refinement =
  fixes inv :: "'c \<Rightarrow> bool"
    and abs :: "'c \<Rightarrow> 'a"
    and cstep :: "'op \<Rightarrow> 'c \<Rightarrow> 'r \<times> 'c"
    and astep :: "'op \<Rightarrow> 'a \<Rightarrow> 'r \<times> 'a"
  assumes step_inv: "inv c \<Longrightarrow> inv (snd (cstep op c))"
    and step_refines: "inv c \<Longrightarrow> astep op (abs c) = (fst (cstep op c), abs (snd (cstep op c)))"
begin

lemma run_inv: "inv c \<Longrightarrow> inv (snd (run_all cstep ops c))"
proof (induction ops arbitrary: c)
  case (Cons op ops)
  show ?case
    using Cons.prems step_inv[of c op] Cons.IH[of "snd (cstep op c)"] by (auto split: prod.splits)
qed simp

lemma run_refines:
  "inv c \<Longrightarrow> run_all astep ops (abs c) = (fst (run_all cstep ops c), abs (snd (run_all cstep ops c)))"
proof (induction ops arbitrary: c)
  case (Cons op ops)
  show ?case
    using Cons.prems step_refines[of c op] step_inv[of c op] Cons.IH[of "snd (cstep op c)"]
    by (auto split: prod.splits)
qed simp

end

end
