(* ===== verification/LRU_Cache.thy ===== *)
theory LRU_Cache
  imports Fnv_Hash Refinement "HOL-Library.AList"
begin

text \<open>
  The tool selection cache (src/pkg/toolrunner/cache.go and cache_pool.go): a map from hashed
  contexts to tool names with a time to live and least-recently-used eviction, kept as a Go map into
  a doubly linked list of nodes that a pool recycles.

  The nodes and the cached entries live in explicit heaps, functions from addresses to records, so
  that the pointer surgery of \<open>addToHead\<close>, \<open>moveToHead\<close> and \<open>removeNode\<close> is that of the code.  The Go
  map is an association list.  \<open>sync.Pool\<close> may hand out any recycled node or a new one: which one is
  an argument.  The three counters are 64-bit words.  \<open>get\<close> runs in several critical sections; it is
  given both in one piece and as its sections, for the interleavings with other calls.

  Shown here: used by one goroutine at a time the cache refines an abstract list of entries in order
  of use, with its capacity and its expiry; and the two ways in which it can go wrong, a hash
  collision and the update of a node that was recycled between the sections of \<open>get\<close>.
\<close>

section \<open>Data\<close>

type_synonym addr = nat

record cacheEntry =
  ce_key :: string
  ce_toolNames :: "string list"
  ce_createdAt :: go_time

definition IsExpired :: "go_time \<Rightarrow> cacheEntry \<Rightarrow> go_duration \<Rightarrow> bool" where
  "IsExpired now e ttl = (now - ce_createdAt e > ttl)"

record lruNode =
  nd_key :: string
  nd_value :: "addr option"
  nd_prev :: "addr option"
  nd_next :: "addr option"

definition zero_node :: lruNode where
  "zero_node = \<lparr>nd_key = '''', nd_value = None, nd_prev = None, nd_next = None\<rparr>"

record toolSelectionCache =
  c_entries :: "(string \<times> addr) list"
  c_head :: "addr option"
  c_tail :: "addr option"
  c_size :: int
  c_ttl :: go_duration
  c_hits :: "64 word"
  c_misses :: "64 word"
  c_evictions :: "64 word"
  c_nodes :: "addr \<Rightarrow> lruNode"
  c_values :: "addr \<Rightarrow> cacheEntry"
  c_pool :: "addr list"
  c_newNode :: addr
  c_newValue :: addr

definition newToolSelectionCache :: "int \<Rightarrow> go_duration \<Rightarrow> toolSelectionCache" where
  "newToolSelectionCache sz ttl =
     \<lparr>c_entries = [], c_head = None, c_tail = None,
      c_size = (if sz \<le> 0 then 100 else sz), c_ttl = (if ttl \<le> 0 then 5 * minute else ttl),
      c_hits = 0, c_misses = 0, c_evictions = 0, c_nodes = (\<lambda>_. zero_node),
      c_values = (\<lambda>_. \<lparr>ce_key = '''', ce_toolNames = [], ce_createdAt = 0\<rparr>),
      c_pool = [], c_newNode = 0, c_newValue = 0\<rparr>"

definition hashKey :: "string \<Rightarrow> string" where
  "hashKey key = hex16 (fnv1a key)"

section \<open>The linked list\<close>

definition upd_node :: "addr \<Rightarrow> (lruNode \<Rightarrow> lruNode) \<Rightarrow> toolSelectionCache \<Rightarrow> toolSelectionCache" where
  "upd_node a f c = c\<lparr>c_nodes := (c_nodes c)(a := f (c_nodes c a))\<rparr>"

text \<open>The pool: \<open>pick\<close> is the recycled node that is taken, if it is in the pool.\<close>

definition getNode :: "addr option \<Rightarrow> toolSelectionCache \<Rightarrow> addr \<times> toolSelectionCache" where
  "getNode pick c =
     (case pick of
        Some a \<Rightarrow> if a \<in> set (c_pool c) then (a, c\<lparr>c_pool := remove1 a (c_pool c)\<rparr>)
                  else (c_newNode c, c\<lparr>c_newNode := Suc (c_newNode c)\<rparr>)
      | None \<Rightarrow> (c_newNode c, c\<lparr>c_newNode := Suc (c_newNode c)\<rparr>))"

definition putNode :: "addr \<Rightarrow> toolSelectionCache \<Rightarrow> toolSelectionCache" where
  "putNode a c = (upd_node a (\<lambda>_. zero_node) c)\<lparr>c_pool := a # c_pool c\<rparr>"

definition addToHead :: "addr \<Rightarrow> toolSelectionCache \<Rightarrow> toolSelectionCache" where
  "addToHead a c0 =
     (let c1 = upd_node a (\<lambda>n. n\<lparr>nd_prev := None, nd_next := c_head c0\<rparr>) c0;
          c2 = (case c_head c1 of Some h \<Rightarrow> upd_node h (\<lambda>n. n\<lparr>nd_prev := Some a\<rparr>) c1 | None \<Rightarrow> c1);
          c3 = c2\<lparr>c_head := Some a\<rparr>
      in if c_tail c3 = None then c3\<lparr>c_tail := Some a\<rparr> else c3)"

definition moveToHead :: "addr \<Rightarrow> toolSelectionCache \<Rightarrow> toolSelectionCache" where
  "moveToHead a c0 =
     (if c_head c0 = Some a then c0
      else (let c1 = (case nd_prev (c_nodes c0 a) of
                        Some p \<Rightarrow> upd_node p (\<lambda>n. n\<lparr>nd_next := nd_next (c_nodes c0 a)\<rparr>) c0 | None \<Rightarrow> c0);
                c2 = (case nd_next (c_nodes c1 a) of
                        Some q \<Rightarrow> upd_node q (\<lambda>n. n\<lparr>nd_prev := nd_prev (c_nodes c1 a)\<rparr>) c1 | None \<Rightarrow> c1);
                c3 = (if c_tail c2 = Some a then c2\<lparr>c_tail := nd_prev (c_nodes c2 a)\<rparr> else c2)
            in addToHead a c3))"

definition removeNode :: "addr \<Rightarrow> toolSelectionCache \<Rightarrow> toolSelectionCache" where
  "removeNode a c0 =
     (let c1 = c0\<lparr>c_entries := AList.delete (nd_key (c_nodes c0 a)) (c_entries c0)\<rparr>;
          c2 = (case nd_prev (c_nodes c1 a) of
                  Some p \<Rightarrow> upd_node p (\<lambda>n. n\<lparr>nd_next := nd_next (c_nodes c1 a)\<rparr>) c1
                | None \<Rightarrow> c1\<lparr>c_head := nd_next (c_nodes c1 a)\<rparr>);
          c3 = (case nd_next (c_nodes c2 a) of
                  Some q \<Rightarrow> upd_node q (\<lambda>n. n\<lparr>nd_prev := nd_prev (c_nodes c2 a)\<rparr>) c2
                | None \<Rightarrow> c2\<lparr>c_tail := nd_prev (c_nodes c2 a)\<rparr>)
      in putNode a c3)"

definition evictOldest :: "toolSelectionCache \<Rightarrow> toolSelectionCache" where
  "evictOldest c =
     (case c_tail c of
        None \<Rightarrow> c
      | Some a \<Rightarrow> (removeNode a c)\<lparr>c_evictions := c_evictions c + 1\<rparr>)"

section \<open>Operations\<close>

text \<open>The end of \<open>set\<close> and of one turn of \<open>WarmCache\<close>: evict if full, then add a new node.\<close>

definition insert_new :: "addr option \<Rightarrow> go_time \<Rightarrow> string \<Rightarrow> string \<Rightarrow> string list \<Rightarrow> toolSelectionCache \<Rightarrow> toolSelectionCache" where
  "insert_new pick now hashedKey key toolNames c0 =
     (let c1 = (if int (length (c_entries c0)) \<ge> c_size c0 then evictOldest c0 else c0);
          (a, c2) = getNode pick c1;
          v = c_newValue c2;
          c3 = c2\<lparr>c_newValue := Suc v,
                  c_values := (c_values c2)(v := \<lparr>ce_key = key, ce_toolNames = toolNames, ce_createdAt = now\<rparr>)\<rparr>;
          c4 = upd_node a (\<lambda>n. n\<lparr>nd_key := hashedKey, nd_value := Some v\<rparr>) c3;
          c5 = c4\<lparr>c_entries := AList.update hashedKey a (c_entries c4)\<rparr>
      in addToHead a c5)"

definition upd_value :: "addr \<Rightarrow> (cacheEntry \<Rightarrow> cacheEntry) \<Rightarrow> toolSelectionCache \<Rightarrow> toolSelectionCache" where
  "upd_value v f c = c\<lparr>c_values := (c_values c)(v := f (c_values c v))\<rparr>"

text \<open>A node of the map whose value is nil would panic; \<open>set\<close> and \<open>get\<close> then stop.\<close>

definition cache_set :: "addr option \<Rightarrow> go_time \<Rightarrow> string \<Rightarrow> string list \<Rightarrow> toolSelectionCache \<Rightarrow> toolSelectionCache option" where
  "cache_set pick now key toolNames c =
     (let hashedKey = hashKey key
      in case map_of (c_entries c) hashedKey of
           Some a \<Rightarrow>
             (case nd_value (c_nodes c a) of
                None \<Rightarrow> None
              | Some v \<Rightarrow> Some (moveToHead a
                  (upd_value v (\<lambda>e. e\<lparr>ce_toolNames := toolNames, ce_createdAt := now\<rparr>) c)))
         | None \<Rightarrow> Some (insert_new pick now hashedKey key toolNames c))"

text \<open>The sections of \<open>get\<close>: the lookup under the read lock, the reading of the node's value without
  a lock, and one of the two sections under the write lock.\<close>

definition get_lookup :: "string \<Rightarrow> toolSelectionCache \<Rightarrow> addr option" where
  "get_lookup key c = map_of (c_entries c) (hashKey key)"

definition get_miss :: "toolSelectionCache \<Rightarrow> toolSelectionCache" where
  "get_miss c = c\<lparr>c_misses := c_misses c + 1\<rparr>"

definition get_drop :: "go_time \<Rightarrow> string \<Rightarrow> toolSelectionCache \<Rightarrow> toolSelectionCache option" where
  "get_drop now key c =
     (case map_of (c_entries c) (hashKey key) of
        None \<Rightarrow> Some c
      | Some a \<Rightarrow>
          (case nd_value (c_nodes c a) of
             None \<Rightarrow> None
           | Some v \<Rightarrow>
               if IsExpired now (c_values c v) (c_ttl c)
               then Some ((removeNode a c)\<lparr>c_evictions := c_evictions c + 1\<rparr>) else Some c))"

definition get_touch :: "go_time \<Rightarrow> addr \<Rightarrow> addr \<Rightarrow> toolSelectionCache \<Rightarrow> toolSelectionCache" where
  "get_touch now a v c = upd_value v (\<lambda>e. e\<lparr>ce_createdAt := now\<rparr>) (moveToHead a c)"

definition get_hit :: "addr \<Rightarrow> toolSelectionCache \<Rightarrow> string list \<times> toolSelectionCache" where
  "get_hit v c = (ce_toolNames (c_values c v), c\<lparr>c_hits := c_hits c + 1\<rparr>)"

text \<open>\<open>get\<close> when no other call runs in between; \<open>now\<close> and \<open>now2\<close> are its two readings of the
  clock.\<close>

definition cache_get :: "go_time \<Rightarrow> go_time \<Rightarrow> string \<Rightarrow> toolSelectionCache \<Rightarrow> (string list option \<times> toolSelectionCache) option" where
  "cache_get now now2 key c =
     (case get_lookup key c of
        None \<Rightarrow> Some (None, get_miss c)
      | Some a \<Rightarrow>
          (case nd_value (c_nodes c a) of
             None \<Rightarrow> None
           | Some v \<Rightarrow>
               if IsExpired now (c_values c v) (c_ttl c) then
                 (case get_drop now2 key c of None \<Rightarrow> None | Some c1 \<Rightarrow> Some (None, get_miss c1))
               else (case get_hit v (get_touch now2 a v c) of (names, c1) \<Rightarrow> Some (Some names, c1))))"

record CacheStats =
  cs_Hits :: "64 word"
  cs_Misses :: "64 word"
  cs_Evictions :: "64 word"

definition Stats :: "toolSelectionCache \<Rightarrow> CacheStats" where
  "Stats c = \<lparr>cs_Hits = c_hits c, cs_Misses = c_misses c, cs_Evictions = c_evictions c\<rparr>"

definition ResetStats :: "toolSelectionCache \<Rightarrow> toolSelectionCache" where
  "ResetStats c = c\<lparr>c_hits := 0, c_misses := 0, c_evictions := 0\<rparr>"

text \<open>\<open>WarmCache\<close>, with the names of the tools and one choice of the pool per context.\<close>

fun WarmCache :: "go_time \<Rightarrow> (string \<times> addr option) list \<Rightarrow> string list \<Rightarrow> toolSelectionCache \<Rightarrow> toolSelectionCache" where
  "WarmCache now [] toolNames c = c"
| "WarmCache now ((ctx, pick) # ctxs) toolNames c =
     (if map_of (c_entries c) (hashKey ctx) \<noteq> None then WarmCache now ctxs toolNames c
      else WarmCache now ctxs toolNames (insert_new pick now (hashKey ctx) ctx toolNames c))"

section \<open>Doubly linked lists\<close>

definition fst_or :: "addr option \<Rightarrow> addr list \<Rightarrow> addr option" where
  "fst_or n xs = (case xs of [] \<Rightarrow> n | x # _ \<Rightarrow> Some x)"

definition last_or :: "addr option \<Rightarrow> addr list \<Rightarrow> addr option" where
  "last_or p xs = (if xs = [] then p else Some (last xs))"

lemma fst_or_simps [simp]: "fst_or n [] = n" "fst_or n (x # xs) = Some x"
  "fst_or n (xs @ ys) = fst_or (fst_or n ys) xs"
  by (simp_all add: fst_or_def split: list.split)

lemma last_or_simps [simp]: "last_or p [] = p" "last_or p (xs @ [x]) = Some x"
  "last_or p (x # xs) = last_or (Some x) xs" "last_or p (xs @ ys) = last_or (last_or p xs) ys"
  by (simp_all add: last_or_def)

lemma fst_or_in: "fst_or None xs = Some a \<Longrightarrow> a \<in> set xs"
  by (cases xs) auto

lemma last_or_in: "last_or None xs = Some a \<Longrightarrow> a \<in> set xs"
  by (auto simp: last_or_def split: if_splits)

fun dll :: "(addr \<Rightarrow> lruNode) \<Rightarrow> addr option \<Rightarrow> addr option \<Rightarrow> addr list \<Rightarrow> bool" where
  "dll h p n [] = True"
| "dll h p n (a # as) = (nd_prev (h a) = p \<and> nd_next (h a) = fst_or n as \<and> dll h (Some a) n as)"

lemma dll_append [simp]:
  "dll h p n (xs @ ys) \<longleftrightarrow> dll h p (fst_or n ys) xs \<and> dll h (last_or p xs) n ys"
  by (induction xs arbitrary: p) auto

lemma dll_frame:
  "\<forall>a \<in> set as. nd_prev (h' a) = nd_prev (h a) \<and> nd_next (h' a) = nd_next (h a) \<Longrightarrow>
   dll h' p n as = dll h p n as"
  by (induction as arbitrary: p) auto

lemma dll_upd [simp]: "a \<notin> set as \<Longrightarrow> dll (h(a := x)) p n as = dll h p n as"
  by (rule dll_frame) auto

text \<open>What \<open>moveToHead\<close> and \<open>removeNode\<close> do to the neighbours of a node.\<close>

definition bridge :: "addr \<Rightarrow> (addr \<Rightarrow> lruNode) \<Rightarrow> addr \<Rightarrow> lruNode" where
  "bridge a h =
     (let h1 = (case nd_prev (h a) of Some p \<Rightarrow> h(p := (h p)\<lparr>nd_next := nd_next (h a)\<rparr>) | None \<Rightarrow> h)
      in case nd_next (h1 a) of Some q \<Rightarrow> h1(q := (h1 q)\<lparr>nd_prev := nd_prev (h1 a)\<rparr>) | None \<Rightarrow> h1)"

lemma dll_bridge:
  assumes "dll h None None (xs @ a # ys)" "distinct (xs @ a # ys)"
  shows "dll (bridge a h) None None (xs @ ys) \<and> bridge a h a = h a"
proof (cases xs rule: rev_cases)
  case Nil
  then show ?thesis using assms by (cases ys) (auto simp: bridge_def Let_def)
next
  case (snoc us u)
  then show ?thesis using assms by (cases ys) (auto simp: bridge_def Let_def fun_upd_twist)
qed

lemma bridge_data [simp]:
  "nd_key (bridge a h x) = nd_key (h x)" "nd_value (bridge a h x) = nd_value (h x)"
  by (auto simp: bridge_def Let_def split: option.split)

text \<open>Changes of links only.\<close>

definition relinked :: "toolSelectionCache \<Rightarrow> toolSelectionCache \<Rightarrow> bool" where
  "relinked c c' \<longleftrightarrow> c' = c\<lparr>c_nodes := c_nodes c', c_head := c_head c', c_tail := c_tail c'\<rparr> \<and>
     (\<forall>x. nd_key (c_nodes c' x) = nd_key (c_nodes c x) \<and> nd_value (c_nodes c' x) = nd_value (c_nodes c x))"

lemma relinked_same:
  assumes "relinked c c'"
  shows "c_entries c' = c_entries c" "c_pool c' = c_pool c" "c_newNode c' = c_newNode c"
    "c_newValue c' = c_newValue c" "c_size c' = c_size c" "c_values c' = c_values c" "c_ttl c' = c_ttl c"
    "\<And>x. nd_key (c_nodes c' x) = nd_key (c_nodes c x)"
    "\<And>x. nd_value (c_nodes c' x) = nd_value (c_nodes c x)"
proof -
  have c': "c' = c\<lparr>c_nodes := c_nodes c', c_head := c_head c', c_tail := c_tail c'\<rparr>"
    using assms by (simp add: relinked_def)
  show "c_entries c' = c_entries c" "c_pool c' = c_pool c" "c_newNode c' = c_newNode c"
    "c_newValue c' = c_newValue c" "c_size c' = c_size c" "c_values c' = c_values c" "c_ttl c' = c_ttl c"
    by (subst c', simp)+
qed (use assms in \<open>auto simp: relinked_def\<close>)

lemma relinked_trans: "relinked c c' \<Longrightarrow> relinked c' c'' \<Longrightarrow> relinked c c''"
  by (cases c; cases c'; cases c'') (simp add: relinked_def)

definition linked :: "toolSelectionCache \<Rightarrow> addr list \<Rightarrow> bool" where
  "linked c as \<longleftrightarrow> distinct as \<and> dll (c_nodes c) None None as \<and>
     c_head c = fst_or None as \<and> c_tail c = last_or None as"

lemma addToHead_linked:
  assumes "linked c as" "a \<notin> set as"
  shows "linked (addToHead a c) (a # as) \<and> relinked c (addToHead a c)"
proof (cases as)
  case Nil
  then show ?thesis using assms
    by (auto simp: linked_def relinked_def addToHead_def upd_node_def Let_def)
next
  case (Cons h t)
  then show ?thesis using assms
    by (auto simp: linked_def relinked_def addToHead_def upd_node_def Let_def last_or_def)
qed

lemma linked_neighbours:
  assumes "linked c (xs @ a # ys)"
  shows "nd_prev (c_nodes c a) = last_or None xs" "nd_next (c_nodes c a) = fst_or None ys"
    "bridge a (c_nodes c) a = c_nodes c a"
    "linked (c\<lparr>c_nodes := bridge a (c_nodes c), c_head := fst_or None (xs @ ys),
       c_tail := last_or None (xs @ ys)\<rparr>) (xs @ ys)"
  using assms dll_bridge[of "c_nodes c" xs a ys] by (auto simp: linked_def)

definition unlink_prev :: "addr \<Rightarrow> toolSelectionCache \<Rightarrow> toolSelectionCache" where
  "unlink_prev a c = (case nd_prev (c_nodes c a) of
     Some p \<Rightarrow> upd_node p (\<lambda>n. n\<lparr>nd_next := nd_next (c_nodes c a)\<rparr>) c | None \<Rightarrow> c)"

definition unlink_next :: "addr \<Rightarrow> toolSelectionCache \<Rightarrow> toolSelectionCache" where
  "unlink_next a c = (case nd_next (c_nodes c a) of
     Some q \<Rightarrow> upd_node q (\<lambda>n. n\<lparr>nd_prev := nd_prev (c_nodes c a)\<rparr>) c | None \<Rightarrow> c)"

lemma unlink_bridge: "unlink_next a (unlink_prev a c) = c\<lparr>c_nodes := bridge a (c_nodes c)\<rparr>"
  by (cases c) (auto simp: unlink_next_def unlink_prev_def upd_node_def bridge_def Let_def split: option.splits)

lemma moveToHead_unlink:
  "c_head c \<noteq> Some a \<Longrightarrow> moveToHead a c =
     (let c2 = unlink_next a (unlink_prev a c)
      in addToHead a (if c_tail c2 = Some a then c2\<lparr>c_tail := nd_prev (c_nodes c2 a)\<rparr> else c2))"
  by (simp add: moveToHead_def unlink_next_def unlink_prev_def Let_def)

lemma moveToHead_eq:
  assumes "c_head c \<noteq> Some a" "linked c (xs @ a # ys)"
  shows "moveToHead a c = addToHead a
    (c\<lparr>c_nodes := bridge a (c_nodes c), c_head := fst_or None (xs @ ys), c_tail := last_or None (xs @ ys)\<rparr>)"
proof -
  let ?c = "c\<lparr>c_nodes := bridge a (c_nodes c)\<rparr>"
  have "xs \<noteq> []" using assms by (auto simp: linked_def)
  then have head: "c_head c = fst_or None (xs @ ys)" using assms(2) by (cases xs) (auto simp: linked_def)
  have "(if c_tail ?c = Some a then nd_prev (c_nodes ?c a) else c_tail ?c) = last_or None (xs @ ys)"
  proof (cases "ys = []")
    case True
    then show ?thesis using assms(2) linked_neighbours[OF assms(2)] by (simp add: linked_def)
  next
    case False
    then have "last ys \<noteq> a" using assms(2) by (auto simp: linked_def)
    then show ?thesis using False assms(2) by (simp add: linked_def last_or_def)
  qed
  then have "(if c_tail ?c = Some a then ?c\<lparr>c_tail := nd_prev (c_nodes ?c a)\<rparr> else ?c) =
      ?c\<lparr>c_head := fst_or None (xs @ ys), c_tail := last_or None (xs @ ys)\<rparr>"
    using head by (cases c) (auto split: if_splits)
  then show ?thesis using moveToHead_unlink[OF assms(1)] by (simp add: unlink_bridge Let_def)
qed

lemma moveToHead_linked:
  assumes "linked c (xs @ a # ys)"
  shows "linked (moveToHead a c) (a # xs @ ys) \<and> relinked c (moveToHead a c)"
proof (cases "c_head c = Some a")
  case True
  then have "xs = []" using assms by (cases xs) (auto simp: linked_def)
  then show ?thesis using True assms by (simp add: moveToHead_def relinked_def)
next
  case False
  let ?c = "c\<lparr>c_nodes := bridge a (c_nodes c), c_head := fst_or None (xs @ ys), c_tail := last_or None (xs @ ys)\<rparr>"
  have "linked ?c (xs @ ys)" using linked_neighbours(4)[OF assms] by simp
  moreover have "a \<notin> set (xs @ ys)" using assms by (auto simp: linked_def)
  ultimately have "linked (addToHead a ?c) (a # xs @ ys) \<and> relinked ?c (addToHead a ?c)"
    by (rule addToHead_linked)
  moreover have "relinked c ?c" by (simp add: relinked_def)
  ultimately show ?thesis
    unfolding moveToHead_eq[OF False assms] using relinked_trans by blast
qed

lemma removeNode_eq:
  assumes "linked c (xs @ a # ys)"
  shows "removeNode a c = putNode a (c\<lparr>c_entries := AList.delete (nd_key (c_nodes c a)) (c_entries c),
    c_nodes := bridge a (c_nodes c), c_head := fst_or None (xs @ ys), c_tail := last_or None (xs @ ys)\<rparr>)"
proof -
  note nb = linked_neighbours[OF assms]
  have p: "nd_prev (c_nodes c a) = None \<longleftrightarrow> xs = []" and q: "nd_next (c_nodes c a) = None \<longleftrightarrow> ys = []"
    using nb by (auto simp: last_or_def fst_or_def split: list.splits)
  have head: "xs \<noteq> [] \<Longrightarrow> c_head c = fst_or None (xs @ ys)" using assms by (cases xs) (auto simp: linked_def)
  have tail: "ys \<noteq> [] \<Longrightarrow> c_tail c = last_or None (xs @ ys)" using assms by (auto simp: linked_def last_or_def)
  have ne: "nd_prev (c_nodes c a) \<noteq> Some a"
    using nb(1) assms by (auto simp: linked_def last_or_def split: if_splits)
  show ?thesis
    using nb(1,2) p q head tail ne
    by (cases c) (auto simp: removeNode_def bridge_def upd_node_def Let_def split: option.splits)
qed

section \<open>The abstract cache\<close>

text \<open>What a cache is used for: entries under their hash, most recently used first.\<close>

type_synonym lru_list = "(string \<times> cacheEntry) list"

definition lru_remove :: "string \<Rightarrow> lru_list \<Rightarrow> lru_list" where
  "lru_remove k xs = filter (\<lambda>x. fst x \<noteq> k) xs"

definition lru_set :: "int \<Rightarrow> go_time \<Rightarrow> string \<Rightarrow> string list \<Rightarrow> lru_list \<Rightarrow> lru_list" where
  "lru_set capacity now key names xs =
     (case map_of xs (hashKey key) of
        Some e \<Rightarrow> (hashKey key, e\<lparr>ce_toolNames := names, ce_createdAt := now\<rparr>) # lru_remove (hashKey key) xs
      | None \<Rightarrow> (hashKey key, \<lparr>ce_key = key, ce_toolNames = names, ce_createdAt = now\<rparr>) #
                (if int (length xs) \<ge> capacity then butlast xs else xs))"

definition lru_get :: "go_duration \<Rightarrow> go_time \<Rightarrow> go_time \<Rightarrow> string \<Rightarrow> lru_list \<Rightarrow> string list option \<times> lru_list" where
  "lru_get ttl now now2 key xs =
     (case map_of xs (hashKey key) of
        None \<Rightarrow> (None, xs)
      | Some e \<Rightarrow>
          if IsExpired now e ttl then (None, if IsExpired now2 e ttl then lru_remove (hashKey key) xs else xs)
          else (Some (ce_toolNames e), (hashKey key, e\<lparr>ce_createdAt := now2\<rparr>) # lru_remove (hashKey key) xs))"

section \<open>Representation\<close>

definition rep :: "toolSelectionCache \<Rightarrow> addr list \<Rightarrow> bool" where
  "rep c as \<longleftrightarrow> linked c as \<and>
     set (c_entries c) = (\<lambda>a. (nd_key (c_nodes c a), a)) ` set as \<and> distinct (map fst (c_entries c)) \<and>
     (\<forall>a \<in> set as. \<exists>v. nd_value (c_nodes c a) = Some v \<and> v < c_newValue c) \<and>
     inj_on (\<lambda>a. nd_value (c_nodes c a)) (set as) \<and>
     (\<forall>a \<in> set as \<union> set (c_pool c). a < c_newNode c) \<and> set as \<inter> set (c_pool c) = {} \<and> distinct (c_pool c) \<and>
     0 < c_size c \<and> int (length as) \<le> c_size c"

definition node_entry :: "toolSelectionCache \<Rightarrow> addr \<Rightarrow> string \<times> cacheEntry" where
  "node_entry c a = (nd_key (c_nodes c a), c_values c (the (nd_value (c_nodes c a))))"

text \<open>The addresses of the list, read along the links, and the abstract content.\<close>

fun chain :: "(addr \<Rightarrow> lruNode) \<Rightarrow> nat \<Rightarrow> addr option \<Rightarrow> addr list" where
  "chain h 0 p = []"
| "chain h (Suc k) None = []"
| "chain h (Suc k) (Some a) = a # chain h k (nd_next (h a))"

definition content :: "toolSelectionCache \<Rightarrow> lru_list" where
  "content c = map (node_entry c) (chain (c_nodes c) (length (c_entries c)) (c_head c))"

definition cache_inv :: "toolSelectionCache \<Rightarrow> bool" where
  "cache_inv c \<longleftrightarrow> (\<exists>as. rep c as)"

lemma chain_dll: "dll h p None as \<Longrightarrow> chain h (length as) (fst_or None as) = as"
  by (induction as arbitrary: p) (auto split: list.splits simp: fst_or_def)

lemma rep_length: assumes "rep c as" shows "length (c_entries c) = length as"
proof -
  have "length (c_entries c) = card (set (c_entries c))"
    using assms distinct_map distinct_card unfolding rep_def by metis
  also have "\<dots> = card (set as)"
    using assms by (auto simp: rep_def intro: card_image inj_onI)
  also have "\<dots> = length as" using assms by (simp add: rep_def linked_def distinct_card)
  finally show ?thesis .
qed

lemma rep_content: "rep c as \<Longrightarrow> content c = map (node_entry c) as"
  using chain_dll[of "c_nodes c" None as] rep_length[of c as]
  by (simp add: content_def rep_def linked_def)

lemma rep_lookup: "rep c as \<Longrightarrow> map_of (c_entries c) k = Some a \<longleftrightarrow> a \<in> set as \<and> nd_key (c_nodes c a) = k"
  by (auto simp: rep_def map_of_eq_Some_iff image_iff)

lemma rep_keys: assumes "rep c as" shows "inj_on (\<lambda>a. nd_key (c_nodes c a)) (set as)"
proof (rule inj_onI)
  fix a b assume "a \<in> set as" "b \<in> set as" "nd_key (c_nodes c a) = nd_key (c_nodes c b)"
  then show "a = b" using rep_lookup[OF assms] by (metis option.inject)
qed

lemma rep_relinked:
  assumes "rep c as" "relinked c c'" "linked c' as'" "set as' = set as"
  shows "rep c' as' \<and> content c' = map (node_entry c) as'"
proof -
  note same = relinked_same[OF assms(2)]
  have "length as' = length as" using assms by (metis linked_def rep_def distinct_card)
  then have "rep c' as'"
    using assms(1,3,4) unfolding rep_def same by simp
  moreover have "node_entry c' a = node_entry c a" for a by (simp add: node_entry_def same)
  ultimately show ?thesis using rep_content by fastforce
qed


lemma content_lookup:
  assumes "rep c as"
  shows "map_of (content c) k = map_option (\<lambda>a. snd (node_entry c a)) (map_of (c_entries c) k)"
proof -
  have "map_of (map (node_entry c) bs) k = map_option (\<lambda>a. snd (node_entry c a)) (find (\<lambda>a. nd_key (c_nodes c a) = k) bs)" for bs
    by (induction bs) (auto simp: node_entry_def)
  moreover have "find (\<lambda>a. nd_key (c_nodes c a) = k) as = map_of (c_entries c) k"
  proof (cases "map_of (c_entries c) k")
    case None
    then show ?thesis using rep_lookup[OF assms, of k] by (auto simp: find_None_iff)
  next
    case (Some a)
    then have "a \<in> set as" "nd_key (c_nodes c a) = k" using rep_lookup[OF assms] by auto
    then obtain b where "find (\<lambda>a. nd_key (c_nodes c a) = k) as = Some b" "b \<in> set as" "nd_key (c_nodes c b) = k"
      by (metis (mono_tags, lifting) find_None_iff find_Some_iff not_None_eq nth_mem)
    then show ?thesis using Some rep_lookup[OF assms, of k b] by simp
  qed
  ultimately show ?thesis using rep_content[OF assms] by simp
qed

lemma remove_content:
  assumes "rep c (xs @ a # ys)"
  shows "lru_remove (nd_key (c_nodes c a)) (content c) = map (node_entry c) (xs @ ys)"
proof -
  have "nd_key (c_nodes c b) \<noteq> nd_key (c_nodes c a)" if "b \<in> set (xs @ ys)" for b
    using rep_keys[OF assms] that assms by (auto simp: inj_on_def rep_def linked_def)
  then have "filter (\<lambda>x. fst x \<noteq> nd_key (c_nodes c a)) (map (node_entry c) (xs @ ys)) = map (node_entry c) (xs @ ys)"
    by (auto simp: node_entry_def)
  then show ?thesis unfolding rep_content[OF assms] lru_remove_def by (simp add: node_entry_def)
qed

lemma upd_value_rep:
  assumes "rep c as" "a \<in> set as" "nd_value (c_nodes c a) = Some v"
  shows "rep (upd_value v f c) as"
    and "node_entry (upd_value v f c) a = (nd_key (c_nodes c a), f (c_values c v))"
    and "b \<in> set as \<Longrightarrow> b \<noteq> a \<Longrightarrow> node_entry (upd_value v f c) b = node_entry c b"
proof -
  show "rep (upd_value v f c) as" using assms(1) by (simp add: rep_def linked_def upd_value_def)
  show "node_entry (upd_value v f c) a = (nd_key (c_nodes c a), f (c_values c v))"
    using assms(3) by (simp add: node_entry_def upd_value_def)
  assume b: "b \<in> set as" "b \<noteq> a"
  obtain w where w: "nd_value (c_nodes c b) = Some w" using assms(1) b by (auto simp: rep_def)
  then have "w \<noteq> v" using assms b by (auto simp: rep_def inj_on_def)
  then show "node_entry (upd_value v f c) b = node_entry c b" using w by (simp add: node_entry_def upd_value_def)
qed

lemma upd_value_commute:
  "upd_node x g (upd_value v f c) = upd_value v f (upd_node x g c)"
  "(upd_value v f c)\<lparr>c_head := h\<rparr> = upd_value v f (c\<lparr>c_head := h\<rparr>)"
  "(upd_value v f c)\<lparr>c_tail := h\<rparr> = upd_value v f (c\<lparr>c_tail := h\<rparr>)"
  "c_nodes (upd_value v f c) = c_nodes c" "c_head (upd_value v f c) = c_head c"
  "c_tail (upd_value v f c) = c_tail c" "c_entries (upd_value v f c) = c_entries c"
  "c_ttl (upd_value v f c) = c_ttl c" "c_size (upd_value v f c) = c_size c"
  by (simp_all add: upd_value_def upd_node_def)

text \<open>Using an entry: its value is changed and its node moves to the head.\<close>

lemma touch_rep:
  assumes "rep c as" "a \<in> set as" "nd_value (c_nodes c a) = Some v" "k = nd_key (c_nodes c a)"
  shows "cache_inv (moveToHead a (upd_value v f c))"
    and "content (moveToHead a (upd_value v f c)) = (k, f (c_values c v)) # lru_remove k (content c)"
    and "c_size (moveToHead a (upd_value v f c)) = c_size c" "c_ttl (moveToHead a (upd_value v f c)) = c_ttl c"
proof -
  obtain xs ys where as: "as = xs @ a # ys" using split_list[OF assms(2)] by blast
  let ?c = "upd_value v f c"
  have r: "rep ?c (xs @ a # ys)" using upd_value_rep(1)[OF assms(1-3)] as by simp
  have "linked (moveToHead a ?c) (a # xs @ ys)" "relinked ?c (moveToHead a ?c)"
    using moveToHead_linked[of ?c xs a ys] r by (auto simp: rep_def)
  then have m: "rep (moveToHead a ?c) (a # xs @ ys)"
    "content (moveToHead a ?c) = map (node_entry ?c) (a # xs @ ys)"
    using rep_relinked[OF r] by auto
  show "cache_inv (moveToHead a ?c)" using m(1) unfolding cache_inv_def by blast
  show "c_size (moveToHead a ?c) = c_size c" "c_ttl (moveToHead a ?c) = c_ttl c"
    using relinked_same(5,7)[OF \<open>relinked ?c (moveToHead a ?c)\<close>] by (simp_all add: upd_value_commute)
  have "\<forall>b \<in> set (xs @ ys). node_entry ?c b = node_entry c b"
    using upd_value_rep(3)[OF assms(1-3)] assms(1) as by (auto simp: rep_def linked_def)
  then have "map (node_entry ?c) (xs @ ys) = lru_remove k (content c)"
    using remove_content[of c xs a ys] assms(1,4) as by (auto intro: map_cong)
  then show "content (moveToHead a ?c) = (k, f (c_values c v)) # lru_remove k (content c)"
    using m(2) upd_value_rep(2)[OF assms(1-3), of f] assms(4) by simp
qed

lemma addToHead_upd_value: "addToHead a (upd_value v f c) = upd_value v f (addToHead a c)"
  by (auto simp add: addToHead_def Let_def upd_value_commute split: option.split)

lemma moveToHead_upd_value: "moveToHead a (upd_value v f c) = upd_value v f (moveToHead a c)"
proof (cases "c_head c = Some a")
  case False
  have "unlink_next a (unlink_prev a (upd_value v f c)) = upd_value v f (unlink_next a (unlink_prev a c))"
    by (simp add: unlink_next_def unlink_prev_def upd_value_commute split: option.split)
  then show ?thesis
    using False by (simp add: moveToHead_unlink upd_value_commute Let_def flip: addToHead_upd_value)
qed (simp add: moveToHead_def upd_value_commute)

text \<open>Removing an entry.\<close>

lemma removeNode_rep:
  assumes "rep c (xs @ a # ys)"
  shows "rep (removeNode a c) (xs @ ys)"
    and "content (removeNode a c) = map (node_entry c) (xs @ ys)"
    and "c_size (removeNode a c) = c_size c" "c_ttl (removeNode a c) = c_ttl c"
proof -
  have l: "linked c (xs @ a # ys)" using assms by (simp add: rep_def)
  note eq = removeNode_eq[OF l]
  have keys: "nd_key (c_nodes c b) \<noteq> nd_key (c_nodes c a)" if "b \<in> set (xs @ ys)" for b
    using rep_keys[OF assms] that assms by (auto simp: inj_on_def rep_def linked_def)
  have notin: "a \<notin> set (xs @ ys)" using l by (auto simp: linked_def)
  have "linked (removeNode a c) (xs @ ys)"
    using linked_neighbours(4)[OF l] notin unfolding eq by (auto simp: linked_def putNode_def upd_node_def)
  moreover have v: "\<forall>b \<in> set (xs @ ys). nd_value (c_nodes (removeNode a c) b) = nd_value (c_nodes c b) \<and>
      nd_key (c_nodes (removeNode a c) b) = nd_key (c_nodes c b)"
    using notin unfolding eq by (auto simp: putNode_def upd_node_def)
  moreover have "c_entries (removeNode a c) = AList.delete (nd_key (c_nodes c a)) (c_entries c)"
    unfolding eq by (simp add: putNode_def upd_node_def)
  moreover have "set (AList.delete (nd_key (c_nodes c a)) (c_entries c)) = (\<lambda>b. (nd_key (c_nodes c b), b)) ` set (xs @ ys)"
  proof -
    have "set (c_entries c) = insert (nd_key (c_nodes c a), a) ((\<lambda>b. (nd_key (c_nodes c b), b)) ` set (xs @ ys))"
      using assms by (auto simp: rep_def)
    then show ?thesis using keys unfolding AList.delete_eq set_filter by fastforce
  qed
  moreover have "(\<lambda>b. (nd_key (c_nodes (removeNode a c) b), b)) ` set (xs @ ys) = (\<lambda>b. (nd_key (c_nodes c b), b)) ` set (xs @ ys)"
    using v by (intro image_cong) auto
  moreover have "distinct (map fst (c_entries (removeNode a c)))"
    using assms unfolding eq by (auto simp: putNode_def upd_node_def rep_def distinct_delete)
  moreover have "inj_on (\<lambda>b. nd_value (c_nodes (removeNode a c) b)) (set (xs @ ys))"
    using assms v by (auto simp: rep_def inj_on_def)
  ultimately show r: "rep (removeNode a c) (xs @ ys)"
    using assms notin unfolding rep_def eq by (auto simp: putNode_def upd_node_def linked_def)
  show "content (removeNode a c) = map (node_entry c) (xs @ ys)"
    using v unfolding rep_content[OF r] by (auto simp: node_entry_def eq putNode_def upd_node_def)
  show "c_size (removeNode a c) = c_size c" "c_ttl (removeNode a c) = c_ttl c"
    unfolding eq by (simp_all add: putNode_def upd_node_def)
qed


lemma counters_rep [simp]:
  "rep (c\<lparr>c_evictions := n\<rparr>) as = rep c as" "rep (c\<lparr>c_misses := n\<rparr>) as = rep c as"
  "rep (c\<lparr>c_hits := n\<rparr>) as = rep c as"
  "content (c\<lparr>c_evictions := n\<rparr>) = content c" "content (c\<lparr>c_misses := n\<rparr>) = content c"
  "content (c\<lparr>c_hits := n\<rparr>) = content c"
  by (simp_all add: rep_def linked_def content_def node_entry_def)

lemma evictOldest_rep:
  assumes "rep c as" "as \<noteq> []"
  shows "rep (evictOldest c) (butlast as)" "content (evictOldest c) = butlast (content c)"
    "c_size (evictOldest c) = c_size c" "c_ttl (evictOldest c) = c_ttl c"
proof -
  have as: "as = butlast as @ last as # []" using assms(2) by simp
  have "c_tail c = Some (last as)" using assms by (simp add: rep_def linked_def last_or_def)
  then have e: "evictOldest c = (removeNode (last as) c)\<lparr>c_evictions := c_evictions c + 1\<rparr>"
    by (simp add: evictOldest_def)
  have r: "rep c (butlast as @ last as # [])" using assms as by simp
  show "rep (evictOldest c) (butlast as)" using removeNode_rep(1)[OF r] by (simp add: e)
  show "content (evictOldest c) = butlast (content c)"
    using removeNode_rep(2)[OF r] rep_content[OF assms(1)] by (simp add: e map_butlast)
  show "c_size (evictOldest c) = c_size c" "c_ttl (evictOldest c) = c_ttl c"
    using removeNode_rep(3,4)[OF r] by (simp_all add: e)
qed

lemma getNode_rep:
  assumes "rep c as" "getNode pick c = (a, c')"
  shows "rep c' as" "a \<notin> set as" "a \<notin> set (c_pool c')" "a < c_newNode c'" "content c' = content c"
    "c_size c' = c_size c" "c_entries c' = c_entries c" "c_ttl c' = c_ttl c"
proof -
  have "a \<notin> set as \<and> a \<notin> set (c_pool c') \<and> a < c_newNode c' \<and> rep c' as \<and> content c' = content c \<and>
      c_size c' = c_size c \<and> c_entries c' = c_entries c \<and> c_ttl c' = c_ttl c"
    using assms
    by (auto simp: getNode_def rep_def linked_def content_def node_entry_def less_Suc_eq
        split: option.splits if_splits dest: notin_set_remove1)
  then show "rep c' as" "a \<notin> set as" "a \<notin> set (c_pool c')" "a < c_newNode c'" "content c' = content c"
    "c_size c' = c_size c" "c_entries c' = c_entries c" "c_ttl c' = c_ttl c" by blast+
qed

lemma alist_update_new: "k \<notin> fst ` set xs \<Longrightarrow> AList.update k v xs = xs @ [(k, v)]"
  by (induction xs) auto

text \<open>The node that \<open>insert_new\<close> fills and links.\<close>

lemma fill_rep:
  fixes e :: cacheEntry
  assumes "rep c as" "a \<notin> set as" "a \<notin> set (c_pool c)" "a < c_newNode c" "int (length as) < c_size c"
    "k \<notin> fst ` set (c_entries c)"
  defines "v \<equiv> c_newValue c"
  defines "c1 \<equiv> upd_node a (\<lambda>n. n\<lparr>nd_key := k, nd_value := Some v\<rparr>)
      (c\<lparr>c_newValue := Suc v, c_values := (c_values c)(v := e)\<rparr>)"
  defines "c2 \<equiv> c1\<lparr>c_entries := AList.update k a (c_entries c1)\<rparr>"
  shows "rep (addToHead a c2) (a # as)" "content (addToHead a c2) = (k, e) # content c"
    "c_size (addToHead a c2) = c_size c" "c_ttl (addToHead a c2) = c_ttl c"
proof -
  have nodes: "\<forall>b \<in> set as. c_nodes c2 b = c_nodes c b" using assms(2) by (auto simp: c2_def c1_def upd_node_def)
  have "linked c2 as"
    using assms(1,2) by (auto simp: c2_def c1_def upd_node_def linked_def rep_def)
  then have l: "linked (addToHead a c2) (a # as)" "relinked c2 (addToHead a c2)"
    using addToHead_linked assms(2) by blast+
  note same = relinked_same[OF l(2)]
  have new: "nd_key (c_nodes c2 a) = k" "nd_value (c_nodes c2 a) = Some v" "c_values c2 = (c_values c)(v := e)"
    "c_entries c2 = c_entries c @ [(k, a)]" "c_newValue c2 = Suc v" "c_pool c2 = c_pool c" "c_newNode c2 = c_newNode c"
    "c_size c2 = c_size c" "c_ttl c2 = c_ttl c"
    using assms(6) by (auto simp: c2_def c1_def upd_node_def alist_update_new)
  have vals: "\<forall>b \<in> set as. \<exists>w. nd_value (c_nodes c b) = Some w \<and> w < v" using assms(1) by (simp add: rep_def v_def)
  show "c_size (addToHead a c2) = c_size c" "c_ttl (addToHead a c2) = c_ttl c" by (simp_all add: same new)
  have "set (c_entries c2) = (\<lambda>b. (nd_key (c_nodes c2 b), b)) ` set (a # as)"
    using assms(1) nodes new by (auto simp: rep_def)
  moreover have "distinct (map fst (c_entries c2))" using assms(1,6) by (auto simp: new rep_def)
  moreover have "inj_on (\<lambda>b. nd_value (c_nodes c2 b)) (set (a # as))"
    using assms(1) nodes vals new(2) unfolding rep_def inj_on_def by auto
  moreover have "\<forall>b \<in> set (a # as). \<exists>w. nd_value (c_nodes c2 b) = Some w \<and> w < Suc v"
    using vals nodes new(2) by (auto intro: less_SucI)
  ultimately show r: "rep (addToHead a c2) (a # as)"
    using l(1) assms(1-5) unfolding rep_def same new by auto
  have "node_entry (addToHead a c2) b = node_entry c b" if "b \<in> set as" for b
    using that vals nodes by (auto simp: node_entry_def same new)
  then have "map (node_entry (addToHead a c2)) as = content c"
    using rep_content[OF assms(1)] by (auto intro: map_cong)
  then show "content (addToHead a c2) = (k, e) # content c"
    using rep_content[OF r] by (simp add: node_entry_def same new)
qed

lemma map_of_butlast: "map_of xs k = None \<Longrightarrow> map_of (butlast xs) k = None"
  by (auto simp: map_of_eq_None_iff dest: in_set_butlastD)

lemma insert_new_rep:
  assumes "rep c as" "map_of (c_entries c) k = None"
  shows "cache_inv (insert_new pick now k key names c)"
    and "content (insert_new pick now k key names c) =
      (k, \<lparr>ce_key = key, ce_toolNames = names, ce_createdAt = now\<rparr>) #
      (if int (length (content c)) \<ge> c_size c then butlast (content c) else content c)"
    and "c_size (insert_new pick now k key names c) = c_size c" "c_ttl (insert_new pick now k key names c) = c_ttl c"
proof -
  let ?full = "int (length (c_entries c)) \<ge> c_size c"
  define c1 where "c1 = (if ?full then evictOldest c else c)"
  define bs where "bs = (if ?full then butlast as else as)"
  have len: "length (c_entries c) = length as" "length (content c) = length as"
    using rep_length[OF assms(1)] rep_content[OF assms(1)] by simp_all
  have "0 < c_size c" using assms(1) by (simp add: rep_def)
  then have ne: "?full \<Longrightarrow> as \<noteq> []" using len(1) by auto
  have c1: "rep c1 bs" "content c1 = (if int (length (content c)) \<ge> c_size c then butlast (content c) else content c)"
    "c_size c1 = c_size c" "c_ttl c1 = c_ttl c"
    using evictOldest_rep[OF assms(1) ne] assms(1) len by (auto simp: c1_def bs_def)
  have short: "int (length bs) < c_size c"
    using ne len(1) assms(1) \<open>0 < c_size c\<close> unfolding bs_def rep_def by auto
  have "map_of (content c) k = None" using content_lookup[OF assms(1)] assms(2) by simp
  then have "map_of (content c1) k = None" using map_of_butlast c1(2) by auto
  then have k1: "map_of (c_entries c1) k = None" using content_lookup[OF c1(1), of k] by simp
  obtain a c2 where g: "getNode pick c1 = (a, c2)" by fastforce
  note gr = getNode_rep[OF c1(1) g]
  have "k \<notin> fst ` set (c_entries c2)" using k1 gr(7) by (metis map_of_eq_None_iff)
  moreover have "int (length bs) < c_size c2" using short c1(3) gr(6) by simp
  ultimately have f: "a \<notin> set bs" "a \<notin> set (c_pool c2)" "a < c_newNode c2" "int (length bs) < c_size c2"
    "k \<notin> fst ` set (c_entries c2)" using gr by auto
  note fr = fill_rep[OF gr(1) f, of "\<lparr>ce_key = key, ce_toolNames = names, ce_createdAt = now\<rparr>"]
  let ?r = "insert_new pick now k key names c"
  have eq: "?r = addToHead a (upd_node a (\<lambda>n. n\<lparr>nd_key := k, nd_value := Some (c_newValue c2)\<rparr>)
      (c2\<lparr>c_newValue := Suc (c_newValue c2),
          c_values := (c_values c2)(c_newValue c2 := \<lparr>ce_key = key, ce_toolNames = names, ce_createdAt = now\<rparr>)\<rparr>)
      \<lparr>c_entries := AList.update k a (c_entries (upd_node a (\<lambda>n. n\<lparr>nd_key := k, nd_value := Some (c_newValue c2)\<rparr>)
      (c2\<lparr>c_newValue := Suc (c_newValue c2),
          c_values := (c_values c2)(c_newValue c2 := \<lparr>ce_key = key, ce_toolNames = names, ce_createdAt = now\<rparr>)\<rparr>)))\<rparr>)"
    unfolding insert_new_def Let_def c1_def[symmetric] g by simp
  show "cache_inv ?r" unfolding eq cache_inv_def using fr(1) by blast
  show "content ?r = (k, \<lparr>ce_key = key, ce_toolNames = names, ce_createdAt = now\<rparr>) #
      (if int (length (content c)) \<ge> c_size c then butlast (content c) else content c)"
    unfolding eq using fr(2) gr(5) c1(2) by simp
  show "c_size ?r = c_size c" "c_ttl ?r = c_ttl c" unfolding eq using fr(3,4) gr(6,8) c1(3,4) by simp_all
qed

text \<open>Sequences of calls.\<close>

datatype cache_op = Get go_time go_time string | Put "addr option" go_time string "string list"
  | Warm go_time "(string \<times> addr option) list" "string list" | ResetCounters

datatype cache_result = Found "string list" | NotFound | Done | Panicked

fun cache_step :: "cache_op \<Rightarrow> toolSelectionCache \<Rightarrow> cache_result \<times> toolSelectionCache" where
  "cache_step (Get now now2 key) c =
     (case cache_get now now2 key c of
        None \<Rightarrow> (Panicked, c)
      | Some (None, c1) \<Rightarrow> (NotFound, c1)
      | Some (Some names, c1) \<Rightarrow> (Found names, c1))"
| "cache_step (Put pick now key names) c =
     (case cache_set pick now key names c of None \<Rightarrow> (Panicked, c) | Some c1 \<Rightarrow> (Done, c1))"
| "cache_step (Warm now ctxs names) c = (Done, WarmCache now ctxs names c)"
| "cache_step ResetCounters c = (Done, ResetStats c)"

fun lru_warm :: "int \<Rightarrow> go_time \<Rightarrow> string list \<Rightarrow> string list \<Rightarrow> lru_list \<Rightarrow> lru_list" where
  "lru_warm capacity now [] names xs = xs"
| "lru_warm capacity now (ctx # ctxs) names xs =
     lru_warm capacity now ctxs names
       (if map_of xs (hashKey ctx) \<noteq> None then xs else lru_set capacity now ctx names xs)"

fun lru_step :: "int \<Rightarrow> go_duration \<Rightarrow> cache_op \<Rightarrow> lru_list \<Rightarrow> cache_result \<times> lru_list" where
  "lru_step capacity ttl (Get now now2 key) xs =
     (case lru_get ttl now now2 key xs of (None, ys) \<Rightarrow> (NotFound, ys) | (Some names, ys) \<Rightarrow> (Found names, ys))"
| "lru_step capacity ttl (Put pick now key names) xs = (Done, lru_set capacity now key names xs)"
| "lru_step capacity ttl (Warm now ctxs names) xs = (Done, lru_warm capacity now (map fst ctxs) names xs)"
| "lru_step capacity ttl ResetCounters xs = (Done, xs)"

definition cache_ok :: "int \<Rightarrow> go_duration \<Rightarrow> toolSelectionCache \<Rightarrow> bool" where
  "cache_ok capacity ttl c \<longleftrightarrow> cache_inv c \<and> c_size c = capacity \<and> c_ttl c = ttl"


lemma insert_new_refines:
  assumes "cache_ok S T c" "map_of (c_entries c) (hashKey key) = None"
  shows "cache_ok S T (insert_new pick now (hashKey key) key names c)"
    "content (insert_new pick now (hashKey key) key names c) = lru_set S now key names (content c)"
proof -
  obtain as where r: "rep c as" using assms(1) by (auto simp: cache_ok_def cache_inv_def)
  note i = insert_new_rep[OF r assms(2)]
  have "map_of (content c) (hashKey key) = None" using content_lookup[OF r] assms(2) by simp
  then show "content (insert_new pick now (hashKey key) key names c) = lru_set S now key names (content c)"
    using i(2) assms(1) by (simp add: lru_set_def cache_ok_def)
  show "cache_ok S T (insert_new pick now (hashKey key) key names c)"
    using i assms(1) by (simp add: cache_ok_def)
qed

text \<open>What a lookup yields in a cache that is well formed.\<close>

lemma lookup_cases:
  assumes "cache_ok S T c"
  obtains (Absent) "map_of (c_entries c) k = None" "map_of (content c) k = None"
  | (Present) as a v where "rep c as" "map_of (c_entries c) k = Some a" "a \<in> set as" "nd_key (c_nodes c a) = k"
      "nd_value (c_nodes c a) = Some v" "map_of (content c) k = Some (c_values c v)"
proof -
  obtain as where r: "rep c as" using assms by (auto simp: cache_ok_def cache_inv_def)
  show ?thesis
  proof (cases "map_of (c_entries c) k")
    case None
    then show ?thesis using Absent content_lookup[OF r] by simp
  next
    case (Some a)
    then have a: "a \<in> set as" "nd_key (c_nodes c a) = k" using rep_lookup[OF r] by auto
    then obtain v where "nd_value (c_nodes c a) = Some v" using r by (auto simp: rep_def)
    then show ?thesis using Present[OF r Some a] content_lookup[OF r, of k] Some by (simp add: node_entry_def)
  qed
qed

lemma put_refines:
  assumes "cache_ok S T c"
  shows "cache_ok S T (snd (cache_step (Put pick now key names) c)) \<and>
    lru_step S T (Put pick now key names) (content c) =
      (fst (cache_step (Put pick now key names) c), content (snd (cache_step (Put pick now key names) c)))"
  using assms
proof (cases rule: lookup_cases[of S T c "hashKey key"])
  case Absent
  then show ?thesis using insert_new_refines[OF assms Absent(1)] by (simp add: cache_set_def)
next
  case (Present as a v)
  note t = touch_rep[OF Present(1,3,5) Present(4)[symmetric],
      of "\<lambda>e. e\<lparr>ce_toolNames := names, ce_createdAt := now\<rparr>"]
  then show ?thesis using Present assms by (simp add: cache_set_def lru_set_def cache_ok_def)
qed

lemma get_refines:
  assumes "cache_ok S T c"
  shows "cache_ok S T (snd (cache_step (Get now now2 key) c)) \<and>
    lru_step S T (Get now now2 key) (content c) =
      (fst (cache_step (Get now now2 key) c), content (snd (cache_step (Get now now2 key) c)))"
  using assms
proof (cases rule: lookup_cases[of S T c "hashKey key"])
  case Absent
  then show ?thesis using assms
    by (simp add: cache_get_def get_lookup_def get_miss_def lru_get_def cache_ok_def cache_inv_def)
next
  case (Present as a v)
  have ttl: "c_ttl c = T" using assms by (simp add: cache_ok_def)
  obtain xs ys where as: "as = xs @ a # ys" using split_list[OF Present(3)] by blast
  then have r: "rep c (xs @ a # ys)" using Present(1) by simp
  show ?thesis
  proof (cases "IsExpired now (c_values c v) T")
    case True
    have "lru_remove (hashKey key) (content c) = map (node_entry c) (xs @ ys)"
      using remove_content[OF r] Present(4) by simp
    then show ?thesis using True Present ttl assms removeNode_rep[OF r]
      by (auto simp: cache_get_def get_lookup_def get_miss_def get_drop_def lru_get_def cache_ok_def cache_inv_def)
  next
    case False
    have "ce_toolNames (c_values (upd_value v (\<lambda>e. e\<lparr>ce_createdAt := now2\<rparr>) (moveToHead a c)) v) =
        ce_toolNames (c_values c v)"
      using moveToHead_linked[of c xs a ys] r relinked_same(6)[of c "moveToHead a c"]
      by (auto simp: rep_def upd_value_def)
    then show ?thesis
      using False Present ttl assms touch_rep[OF Present(1,3,5) Present(4)[symmetric], of "\<lambda>e. e\<lparr>ce_createdAt := now2\<rparr>"]
      by (auto simp: cache_get_def get_lookup_def get_touch_def get_hit_def lru_get_def cache_ok_def cache_inv_def
          moveToHead_upd_value)
  qed
qed

lemma warm_refines:
  "cache_ok S T c \<Longrightarrow> cache_ok S T (WarmCache now ctxs names c) \<and>
     content (WarmCache now ctxs names c) = lru_warm S now (map fst ctxs) names (content c)"
proof (induction now ctxs names c rule: WarmCache.induct)
  case (2 now ctx pick ctxs names c)
  from 2(3) show ?case
  proof (cases rule: lookup_cases[of S T c "hashKey ctx"])
    case Absent
    then show ?thesis using 2(2) insert_new_refines[OF 2(3) Absent(1)] by simp
  next
    case (Present as a v)
    then show ?thesis using 2(1,3) by simp
  qed
qed simp

interpretation lru: functional_refinement "cache_ok S T" content cache_step "lru_step S T" for S T
proof (unfold_locales, goal_cases)
  case (1 c op)
  then show ?case using put_refines get_refines warm_refines
    by (cases op) (auto simp: ResetStats_def cache_ok_def cache_inv_def)
next
  case (2 c op)
  then show ?case using put_refines[OF 2] get_refines[OF 2] warm_refines[OF 2]
    by (cases op) (auto simp: ResetStats_def cache_ok_def cache_inv_def)
qed

lemma new_cache_ok:
  "cache_ok (if n \<le> 0 then 100 else n) (if ttl \<le> 0 then 5 * minute else ttl) (newToolSelectionCache n ttl)"
  "content (newToolSelectionCache n ttl) = []"
  by (auto simp: cache_ok_def cache_inv_def newToolSelectionCache_def rep_def linked_def content_def intro!: exI[of _ "[]"])


section \<open>What the cache guarantees\<close>

text \<open>C5: Used by one goroutine at a time, the cache built from a map, a doubly linked list and
  recycled nodes returns for every sequence of calls exactly what the abstract list of entries in
  order of use returns, whatever nodes the pool hands out; it never panics, and it never holds more
  entries than its size.\<close>

theorem cache_refines_lru:
  "run_all (lru_step (c_size (newToolSelectionCache n ttl)) (c_ttl (newToolSelectionCache n ttl))) ops [] =
      (fst (run_all cache_step ops (newToolSelectionCache n ttl)),
       content (snd (run_all cache_step ops (newToolSelectionCache n ttl)))) \<and>
   Panicked \<notin> set (fst (run_all cache_step ops (newToolSelectionCache n ttl))) \<and>
   int (length (c_entries (snd (run_all cache_step ops (newToolSelectionCache n ttl)))))
     \<le> c_size (newToolSelectionCache n ttl)"
proof -
  let ?new = "newToolSelectionCache n ttl" and ?run = "run_all cache_step ops (newToolSelectionCache n ttl)"
  let ?S = "c_size ?new" and ?T = "c_ttl ?new"
  have ok: "cache_ok ?S ?T ?new" using new_cache_ok(1)[of n ttl] by (simp add: newToolSelectionCache_def)
  have sim: "run_all (lru_step ?S ?T) ops [] = (fst ?run, content (snd ?run))"
    using lru.run_refines[OF ok, of ops] new_cache_ok(2)[of n ttl] by simp
  have "Panicked \<notin> set (fst (run_all (lru_step ?S ?T) os xs))" for os xs
  proof (induction os arbitrary: xs)
    case (Cons op os)
    have "fst (lru_step ?S ?T op xs) \<noteq> Panicked"
      by (cases op) (auto split: prod.splits option.splits)
    then show ?case using Cons by (auto split: prod.splits) (metis fst_conv)
  qed simp
  then have "Panicked \<notin> set (fst ?run)" using sim by (metis fst_conv)
  moreover obtain as where "rep (snd ?run) as" "c_size (snd ?run) = ?S"
    using lru.run_inv[OF ok, of ops] by (auto simp: cache_ok_def cache_inv_def)
  then have "int (length (c_entries (snd ?run))) \<le> ?S"
    using rep_length[of "snd ?run" as] by (simp add: rep_def)
  ultimately show ?thesis using sim by blast
qed

text \<open>The cache finds entries by their hash alone and does not compare the stored context: for two
  contexts with the same hash, a lookup of one returns the tools cached for the other.\<close>

theorem collision_returns_other_tools:
  assumes "cache_ok capacity life c" "hashKey k1 = hashKey k2" "now2 - now \<le> life"
  shows "fst (cache_step (Get now2 now2 k2) (snd (cache_step (Put pick now k1 names) c))) = Found names"
proof -
  let ?c = "snd (cache_step (Put pick now k1 names) c)"
  have ok: "cache_ok capacity life ?c"
    and content: "content ?c = lru_set capacity now k1 names (content c)"
    using put_refines[OF assms(1), of pick now k1 names] by auto
  have "\<exists>e. map_of (content ?c) (hashKey k2) = Some e \<and> ce_toolNames e = names \<and> ce_createdAt e = now"
    unfolding content using assms(2) by (cases "map_of (content c) (hashKey k2)") (simp_all add: lru_set_def)
  then obtain e where "map_of (content ?c) (hashKey k2) = Some e" "ce_toolNames e = names" "ce_createdAt e = now"
    by blast
  then have "fst (lru_step capacity life (Get now2 now2 k2) (content ?c)) = Found names"
    using assms(3) by (simp add: lru_get_def IsExpired_def)
  then show ?thesis using get_refines[OF ok, of now2 now2 k2] by simp
qed

theorem collision_returns_other_tools_witness:
  "''8yn0iYCKYHlIj4-BwPqk'' \<noteq> ''GReLUrM4wMqfg9yzV3KQ'' \<and>
   fst (cache_step (Get 5 5 ''GReLUrM4wMqfg9yzV3KQ'')
     (snd (cache_step (Put None 0 ''8yn0iYCKYHlIj4-BwPqk'' [''read_file'']) (newToolSelectionCache 10 100)))) =
   Found [''read_file'']"
proof -
  have "fnv1a ''8yn0iYCKYHlIj4-BwPqk'' = 0x4eac0c95540867e4" "fnv1a ''GReLUrM4wMqfg9yzV3KQ'' = 0x4eac0c95540867e4"
    by code_simp+
  then have "hashKey ''8yn0iYCKYHlIj4-BwPqk'' = hashKey ''GReLUrM4wMqfg9yzV3KQ''" by (simp add: hashKey_def)
  moreover have "cache_ok 10 100 (newToolSelectionCache 10 100)" using new_cache_ok(1)[of 10 100] by simp
  ultimately show ?thesis
    using collision_returns_other_tools[of 10 100 "newToolSelectionCache 10 100" _ _ 5 0 None "[''read_file'']"] by simp
qed

text \<open>Between the lookup of \<open>get\<close> and its update under the write lock the node may be removed
  and returned to the pool; the update then links the recycled, empty node into the list again, where
  it stays head of the list and in the pool at the same time.\<close>

theorem recycled_node_relinked:
  assumes "cache_ok capacity life c" "get_lookup key c = Some a"
  shows "c_head (get_touch now a v (removeNode a c)) = Some a \<and>
    a \<in> set (c_pool (get_touch now a v (removeNode a c))) \<and>
    nd_value (c_nodes (get_touch now a v (removeNode a c)) a) = None \<and>
    nd_key (c_nodes (get_touch now a v (removeNode a c)) a) = ''''"
proof -
  obtain as where r: "rep c as" using assms(1) by (auto simp: cache_ok_def cache_inv_def)
  have "a \<in> set as" using assms(2) rep_lookup[OF r] by (auto simp: get_lookup_def)
  then obtain xs ys where as: "as = xs @ a # ys" by (metis split_list)
  let ?c = "removeNode a c"
  have rep: "rep ?c (xs @ ys)" using removeNode_rep(1) r as by simp
  have l: "linked ?c (xs @ ys)" using rep by (simp add: rep_def)
  have notin: "a \<notin> set (xs @ ys)" using r as by (auto simp: rep_def linked_def)
  have "linked c (xs @ a # ys)" using r as by (simp add: rep_def)
  note eq = removeNode_eq[OF this]
  have node: "c_nodes ?c a = zero_node" "a \<in> set (c_pool ?c)" unfolding eq by (simp_all add: putNode_def upd_node_def)
  have hd: "c_head ?c \<noteq> Some a" and tl: "c_tail ?c \<noteq> Some a"
    using l notin fst_or_in last_or_in unfolding linked_def by metis+
  have "unlink_next a (unlink_prev a ?c) = ?c" using node(1) by (simp add: unlink_next_def unlink_prev_def zero_node_def)
  then have m: "moveToHead a ?c = addToHead a ?c" using moveToHead_unlink[OF hd] tl by simp
  have re: "relinked ?c (addToHead a ?c)" "linked (addToHead a ?c) (a # xs @ ys)"
    using addToHead_linked[OF l notin] by auto
  then have "c_pool (addToHead a ?c) = c_pool ?c" "nd_value (c_nodes (addToHead a ?c) a) = None"
    "nd_key (c_nodes (addToHead a ?c) a) = ''''" "c_head (addToHead a ?c) = Some a"
    using relinked_same[OF re(1)] node(1) by (simp_all add: zero_node_def linked_def)
  moreover have "c_pool (upd_value v f x) = c_pool x" for f x by (simp add: upd_value_def)
  ultimately show ?thesis using node(2) by (simp add: get_touch_def m upd_value_commute)
qed

theorem recycled_node_relinked_witness:
  "\<exists>c a. get_lookup ''ctx'' c = Some a \<and> c_head (get_touch 9 a 0 (removeNode a c)) = Some a \<and>
     a \<in> set (c_pool (get_touch 9 a 0 (removeNode a c)))"
proof -
  let ?c = "snd (cache_step (Put None 0 ''ctx'' [''read_file'']) (newToolSelectionCache 10 100))"
  have "cache_ok 10 100 (newToolSelectionCache 10 100)" using new_cache_ok(1)[of 10 100] by simp
  then have ok: "cache_ok 10 100 ?c" using put_refines by blast
  then obtain a where "get_lookup ''ctx'' ?c = Some a"
    by (auto simp: cache_set_def newToolSelectionCache_def insert_new_def getNode_def addToHead_def upd_node_def
        get_lookup_def Let_def)
  then show ?thesis using recycled_node_relinked[OF ok] by blast
qed


end
