(* ===== verification/Think_Parser.thy ===== *)
theory Think_Parser
  imports Fnv_Hash Refinement "HOL-Library.AList"
begin

text \<open>
  Processing of model output and tool results in package \<open>toolrunner\<close>: the streaming parser that
  separates reasoning between \<open><think>\<close> tags from text (src/pkg/toolrunner/think_parser.go) and the
  deduplication of tool results (src/pkg/toolrunner/dedupe.go).

  The callbacks of the parser are events in the order in which they are called.  Shown here: however
  the stream is cut into chunks, what the callbacks receive is what a parser of the whole text
  yields; and a tool result is replaced only by a reference to an earlier call with the same hash of
  name and result.
\<close>

section \<open>The parser\<close>

datatype think_event = OnReasoning string | OnText string | OnReasoningEnd

record ThinkTagParser =
  tp_buffer :: string
  tp_inThinkTag :: bool
  tp_hasReasoning :: bool

definition NewThinkTagParser :: ThinkTagParser where
  "NewThinkTagParser = \<lparr>tp_buffer = '''', tp_inThinkTag = False, tp_hasReasoning = False\<rparr>"

definition open_tag :: string where "open_tag = ''<think>''"
definition close_tag :: string where "close_tag = ''</think>''"

definition bufferEndsWith :: "string \<Rightarrow> ThinkTagParser \<Rightarrow> bool" where
  "bufferEndsWith suf p =
     (if length (tp_buffer p) < length suf then False
      else drop (length (tp_buffer p) - length suf) (tp_buffer p) = suf)"

text \<open>The body of the loop of \<open>Write\<close> for one byte.\<close>

definition write_byte :: "char \<Rightarrow> ThinkTagParser \<Rightarrow> think_event list \<times> ThinkTagParser" where
  "write_byte c p0 =
     (let p = p0\<lparr>tp_buffer := tp_buffer p0 @ [c]\<rparr>
      in if tp_inThinkTag p then
           if bufferEndsWith close_tag p then
             (let content = take (length (tp_buffer p) - 8) (tp_buffer p);
                  ev1 = (if content \<noteq> '''' then [OnReasoning content] else []);
                  p1 = (if content \<noteq> '''' then p\<lparr>tp_hasReasoning := True\<rparr> else p);
                  p2 = p1\<lparr>tp_buffer := '''', tp_inThinkTag := False\<rparr>
              in if tp_hasReasoning p2 then (ev1 @ [OnReasoningEnd], p2\<lparr>tp_hasReasoning := False\<rparr>) else (ev1, p2))
           else ([], p)
         else
           if bufferEndsWith open_tag p then
             (let content = take (length (tp_buffer p) - 7) (tp_buffer p)
              in (if content \<noteq> '''' then [OnText content] else [],
                  p\<lparr>tp_buffer := '''', tp_inThinkTag := True\<rparr>))
           else ([], p))"

fun write_bytes :: "string \<Rightarrow> ThinkTagParser \<Rightarrow> think_event list \<times> ThinkTagParser" where
  "write_bytes [] p = ([], p)"
| "write_bytes (c # cs) p =
     (case write_byte c p of (ev1, p1) \<Rightarrow> case write_bytes cs p1 of (ev2, p2) \<Rightarrow> (ev1 @ ev2, p2))"

definition emit :: "string \<Rightarrow> ThinkTagParser \<Rightarrow> think_event list \<times> ThinkTagParser" where
  "emit s p =
     (if s \<noteq> '''' then
        if tp_inThinkTag p then ([OnReasoning s], p\<lparr>tp_hasReasoning := True\<rparr>) else ([OnText s], p)
      else ([], p))"

definition flushSafeContent :: "ThinkTagParser \<Rightarrow> think_event list \<times> ThinkTagParser" where
  "flushSafeContent p =
     (if length (tp_buffer p) \<le> 8 then ([], p)
      else (let safeLen = length (tp_buffer p) - 8
            in emit (take safeLen (tp_buffer p)) (p\<lparr>tp_buffer := drop safeLen (tp_buffer p)\<rparr>)))"

definition Write :: "string \<Rightarrow> ThinkTagParser \<Rightarrow> think_event list \<times> ThinkTagParser" where
  "Write chunk p =
     (case write_bytes chunk p of (ev1, p1) \<Rightarrow> case flushSafeContent p1 of (ev2, p2) \<Rightarrow> (ev1 @ ev2, p2))"

definition Flush :: "ThinkTagParser \<Rightarrow> think_event list \<times> ThinkTagParser" where
  "Flush p =
     (if tp_buffer p = '''' then ([], p)
      else (case emit (tp_buffer p) (p\<lparr>tp_buffer := ''''\<rparr>) of (ev1, p1) \<Rightarrow>
              if tp_inThinkTag p1 \<and> tp_hasReasoning p1
              then (ev1 @ [OnReasoningEnd], p1\<lparr>tp_hasReasoning := False, tp_inThinkTag := False\<rparr>)
              else (ev1, p1\<lparr>tp_inThinkTag := False\<rparr>)))"

section \<open>Deduplication of tool results\<close>

record ToolCallRecord =
  tcr_ID :: string
  tcr_Name :: string
  tcr_Result :: string

definition hashToolResult :: "string \<Rightarrow> string \<Rightarrow> 64 word" where
  "hashToolResult name result = fnv1a (name @ [CHR 0x0A] @ result)"

text \<open>\<^const>\<open>None\<close> is the nil deduper.\<close>

type_synonym toolResultDeduper = "(64 word \<times> string) list"

definition messageFor :: "toolResultDeduper option \<Rightarrow> ToolCallRecord \<Rightarrow> string \<times> toolResultDeduper option" where
  "messageFor d rcd =
     (case d of
        None \<Rightarrow> (tcr_Result rcd, None)
      | Some seen \<Rightarrow>
          if tcr_Result rcd = '''' then (tcr_Result rcd, d)
          else (let key = hashToolResult (tcr_Name rcd) (tcr_Result rcd)
                in if key = 0 then (tcr_Result rcd, d)
                   else (case map_of seen key of
                           Some prev \<Rightarrow>
                             if prev \<noteq> '''' \<and> prev \<noteq> tcr_ID rcd
                             then (''[deduplicated tool result; same as tool call '' @ prev @ '']'', d)
                             else (tcr_Result rcd,
                                   Some (AList.update key (if tcr_ID rcd \<noteq> '''' then tcr_ID rcd else ''previous'') seen))
                         | None \<Rightarrow> (tcr_Result rcd,
                                   Some (AList.update key (if tcr_ID rcd \<noteq> '''' then tcr_ID rcd else ''previous'') seen)))))"

section \<open>The reference parser\<close>

text \<open>What the callbacks receive, byte by byte.\<close>

datatype mark = TextByte char | ReasoningByte char | EndOfReasoning

fun event_marks :: "think_event \<Rightarrow> mark list" where
  "event_marks (OnText s) = map TextByte s"
| "event_marks (OnReasoning s) = map ReasoningByte s"
| "event_marks OnReasoningEnd = [EndOfReasoning]"

definition marks :: "think_event list \<Rightarrow> mark list" where
  "marks evs = concat (map event_marks evs)"

lemma tag_lengths [simp]: "length open_tag = 7" "length close_tag = 8"
  by (simp_all add: open_tag_def close_tag_def)

lemma tags_ne [simp]: "open_tag \<noteq> []" "close_tag \<noteq> []"
  by (simp_all add: open_tag_def close_tag_def)

text \<open>The whole text at once: in text the next opening tag starts reasoning, in reasoning the next
  closing tag ends it; the end of non-empty reasoning is marked.  \<open>seen\<close> says that reasoning has been
  seen since the last opening tag.\<close>

function parse_think :: "bool \<Rightarrow> bool \<Rightarrow> string \<Rightarrow> mark list" where
  "parse_think False seen s =
     (case str_index s open_tag of
        None \<Rightarrow> map TextByte s
      | Some i \<Rightarrow> map TextByte (take i s) @ parse_think True False (drop (i + length open_tag) s))"
| "parse_think True seen s =
     (case str_index s close_tag of
        None \<Rightarrow> map ReasoningByte s @ (if seen \<or> s \<noteq> [] then [EndOfReasoning] else [])
      | Some i \<Rightarrow> map ReasoningByte (take i s) @ (if seen \<or> 0 < i then [EndOfReasoning] else []) @
                  parse_think False False (drop (i + length close_tag) s))"
  by pat_completeness auto
termination
proof (relation "measure (\<lambda>(_, _, s). length s)", goal_cases)
  case (2 seen s i)
  then show ?case using str_index_Some[of s open_tag i] by auto
next
  case (3 seen s i)
  then show ?case using str_index_Some[of s close_tag i] by auto
qed simp

declare parse_think.simps [simp del]

text \<open>The tag the parser waits for.\<close>

definition tag_of :: "bool \<Rightarrow> string" where
  "tag_of think = (if think then close_tag else open_tag)"

lemma tag_of_length: "length (tag_of think) = (if think then 8 else 7)"
  by (simp add: tag_of_def)

text \<open>No tag lies complete in the buffer, and reasoning that was reported without its end is followed
  by buffered bytes.\<close>

definition tp_inv :: "ThinkTagParser \<Rightarrow> bool" where
  "tp_inv p \<longleftrightarrow> \<not> contains (tp_buffer p) (tag_of (tp_inThinkTag p)) \<and>
     (tp_hasReasoning p \<longrightarrow> tp_inThinkTag p \<and> tp_buffer p \<noteq> [])"

definition resume :: "ThinkTagParser \<Rightarrow> string \<Rightarrow> mark list" where
  "resume p s = parse_think (tp_inThinkTag p) (tp_hasReasoning p) (tp_buffer p @ s)"

lemma has_prefix_length: "has_prefix s q \<Longrightarrow> length q \<le> length s"
  by (auto simp: has_prefix_iff dest: prefix_length_le)

lemma has_prefix_take: "j + length q \<le> n \<Longrightarrow> has_prefix (drop j (take n s)) q = has_prefix (drop j s) q"
  by (simp add: has_prefix_def drop_take min_def)

lemma contains_drop: "contains s q \<longleftrightarrow> (\<exists>j. has_prefix (drop j s) q)"
proof
  show "contains s q \<Longrightarrow> \<exists>j. has_prefix (drop j s) q"
    by (metis append_eq_conv_conj contains_iff has_prefix_append)
  show "\<exists>j. has_prefix (drop j s) q \<Longrightarrow> contains s q"
    by (metis append_take_drop_id contains_iff has_prefix_iff prefix_def)
qed

text \<open>An occurrence in a text whose first part has none reaches beyond that part.\<close>

lemma occurrence_beyond:
  assumes "\<not> contains b q" "has_prefix (drop j (b @ s)) q" "q \<noteq> []"
  shows "length b < j + length q"
proof (rule ccontr)
  assume "\<not> length b < j + length q"
  then have "has_prefix (drop j (take (length b) (b @ s))) q" using assms(2) by (subst has_prefix_take) auto
  then show False using assms(1) contains_drop by auto
qed

lemma parse_skip:
  assumes "\<forall>j < k. \<not> has_prefix (drop j s) (tag_of think)" "k \<le> length s"
  shows "parse_think think seen s =
    map (if think then ReasoningByte else TextByte) (take k s) @ parse_think think (seen \<or> (think \<and> 0 < k)) (drop k s)"
proof -
  have eq: "str_index s (tag_of think) = map_option ((+) k) (str_index (drop k s) (tag_of think))"
    by (rule str_index_skip[OF assms])
  have split: "take k s @ take i (drop k s) = take (k + i) s" for i by (simp add: take_add)
  show ?thesis
  proof (cases "str_index (drop k s) (tag_of think)")
    case None
    have "map f (take k s) @ map f (drop k s) = map f s" for f :: "char \<Rightarrow> mark"
      by (metis append_take_drop_id map_append)
    then show ?thesis using eq None assms(2)
      by (cases think) (auto simp: tag_of_def parse_think.simps)
  next
    case (Some i)
    have "map f (take (k + i) s) = map f (take k s) @ map f (take i (drop k s))" for f :: "char \<Rightarrow> mark"
      by (metis map_append split)
    moreover have "drop (k + i + n) s = drop (i + n) (drop k s)" for n by (simp add: ac_simps)
    ultimately show ?thesis using eq Some
      by (cases think) (auto simp: tag_of_def parse_think.simps)
  qed
qed


lemma marks_simps [simp]: "marks [] = []" "marks (e # es) = event_marks e @ marks es"
  "marks (xs @ ys) = marks xs @ marks ys"
  by (simp_all add: marks_def)

lemma parse_at_tag:
  assumes "has_prefix s (tag_of think)"
  shows "parse_think think seen s =
    (if think \<and> seen then [EndOfReasoning] else []) @ parse_think (\<not> think) False (drop (length (tag_of think)) s)"
  using str_index_here[OF assms] by (cases think) (auto simp: tag_of_def parse_think.simps)

text \<open>One byte.\<close>

lemma ends_with_iff: "bufferEndsWith suf p \<longleftrightarrow> (\<exists>u. tp_buffer p = u @ suf)"
  by (auto simp: bufferEndsWith_def) (metis append_take_drop_id)

lemma contains_snoc:
  assumes "contains (b @ [c]) q" "\<not> contains b q" "q \<noteq> []"
  shows "\<exists>u. b @ [c] = u @ q"
proof -
  obtain j where j: "has_prefix (drop j (b @ [c])) q" using assms(1) contains_drop by blast
  have "length b < j + length q" using occurrence_beyond[OF assms(2) j assms(3)] .
  moreover have "length q \<le> length (drop j (b @ [c]))" using has_prefix_length[OF j] .
  ultimately have "length (drop j (b @ [c])) = length q" using assms(3) by simp
  then have "drop j (b @ [c]) = q" using j by (simp add: has_prefix_def)
  then show ?thesis by (metis append_take_drop_id)
qed

lemma tag_found:
  assumes "\<not> contains b (tag_of think)" "b @ [c] = u @ tag_of think"
  shows "parse_think think seen (b @ c # s) =
    map (if think then ReasoningByte else TextByte) u @ (if think \<and> (seen \<or> u \<noteq> []) then [EndOfReasoning] else []) @
    parse_think (\<not> think) False s"
proof -
  let ?t = "tag_of think"
  have eq: "b @ c # s = u @ ?t @ s" using assms(2) by (metis append.assoc append_Cons append_Nil)
  have len: "length b + 1 = length u + length ?t" using arg_cong[OF assms(2), of length] by simp
  have ne: "?t \<noteq> []" using tag_of_length[of think] by (cases think) auto
  have "\<forall>j < length u. \<not> has_prefix (drop j (b @ c # s)) ?t"
    using occurrence_beyond[OF assms(1) _ ne, of _ "c # s"] len by fastforce
  then have "parse_think think seen (b @ c # s) = map (if think then ReasoningByte else TextByte) u @
      parse_think think (seen \<or> (think \<and> u \<noteq> [])) (?t @ s)"
    using parse_skip[of "length u" "b @ c # s" think seen] unfolding eq by simp
  also have "parse_think think (seen \<or> (think \<and> u \<noteq> [])) (?t @ s) =
      (if think \<and> (seen \<or> u \<noteq> []) then [EndOfReasoning] else []) @ parse_think (\<not> think) False s"
    by (subst parse_at_tag) auto
  finally show ?thesis .
qed

lemma write_byte_step:
  assumes "tp_inv p" "write_byte c p = (ev, p')"
  shows "tp_inv p' \<and> resume p (c # s) = marks ev @ resume p' s"
proof (cases "bufferEndsWith (tag_of (tp_inThinkTag p)) (p\<lparr>tp_buffer := tp_buffer p @ [c]\<rparr>)")
  case True
  then obtain u where u: "tp_buffer p @ [c] = u @ tag_of (tp_inThinkTag p)" by (auto simp: ends_with_iff)
  have parse: "parse_think (tp_inThinkTag p) (tp_hasReasoning p) (tp_buffer p @ c # s) =
    map (if tp_inThinkTag p then ReasoningByte else TextByte) u @
    (if tp_inThinkTag p \<and> (tp_hasReasoning p \<or> u \<noteq> []) then [EndOfReasoning] else []) @
    parse_think (\<not> tp_inThinkTag p) False s"
    using assms(1) u by (intro tag_found) (auto simp: tp_inv_def)
  have take: "take (length (tp_buffer p @ [c]) - length (tag_of (tp_inThinkTag p))) (tp_buffer p @ [c]) = u"
    unfolding u by simp
  show ?thesis
    using True take assms parse
    by (cases "tp_inThinkTag p")
      (auto simp: write_byte_def tag_of_def Let_def resume_def tp_inv_def split: if_splits)
next
  case False
  have "\<not> contains (tp_buffer p @ [c]) (tag_of (tp_inThinkTag p))"
    using False assms(1) contains_snoc[of "tp_buffer p" c "tag_of (tp_inThinkTag p)"]
    by (auto simp: tp_inv_def ends_with_iff tag_of_def open_tag_def close_tag_def)
  then show ?thesis using False assms
    by (cases "tp_inThinkTag p") (auto simp: write_byte_def tag_of_def Let_def resume_def tp_inv_def)
qed


lemma write_bytes_step:
  "tp_inv p \<Longrightarrow> write_bytes cs p = (ev, p') \<Longrightarrow> tp_inv p' \<and> resume p (cs @ s) = marks ev @ resume p' s"
proof (induction cs arbitrary: p ev)
  case (Cons c cs)
  obtain ev1 p1 where 1: "write_byte c p = (ev1, p1)" by fastforce
  obtain ev2 where 2: "write_bytes cs p1 = (ev2, p')" "ev = ev1 @ ev2"
    using Cons.prems(2) 1 by (auto split: prod.splits)
  show ?case
    using write_byte_step[OF Cons.prems(1) 1, of "cs @ s"] Cons.IH[OF _ 2(1)] 2(2) by auto
qed simp

text \<open>The bytes that may be flushed: a tag that starts there would end in the buffer.\<close>

lemma flushSafeContent_step:
  assumes "tp_inv p" "flushSafeContent p = (ev, p')"
  shows "tp_inv p' \<and> resume p s = marks ev @ resume p' s"
proof (cases "length (tp_buffer p) \<le> 8")
  case False
  let ?b = "tp_buffer p" and ?t = "tag_of (tp_inThinkTag p)" and ?k = "length (tp_buffer p) - 8"
  have ne: "?t \<noteq> []" and le: "length ?t \<le> 8" by (auto simp: tag_of_def)
  have none: "\<not> contains ?b ?t" using assms(1) by (simp add: tp_inv_def)
  have "\<forall>j < ?k. \<not> has_prefix (drop j (?b @ s)) ?t"
    using occurrence_beyond[OF none _ ne, of _ s] le False by fastforce
  then have skip: "parse_think (tp_inThinkTag p) (tp_hasReasoning p) (?b @ s) =
      map (if tp_inThinkTag p then ReasoningByte else TextByte) (take ?k ?b) @
      parse_think (tp_inThinkTag p) (tp_hasReasoning p \<or> tp_inThinkTag p) (drop ?k ?b @ s)"
    using parse_skip[of ?k "?b @ s" "tp_inThinkTag p" "tp_hasReasoning p"] False by simp
  have "\<not> contains (drop ?k ?b) ?t"
    using none by (metis contains_drop drop_drop)
  then show ?thesis
    using skip assms False
    by (cases "tp_inThinkTag p") (auto simp: flushSafeContent_def emit_def Let_def resume_def tp_inv_def split: if_splits)
qed (use assms in \<open>simp add: flushSafeContent_def\<close>)

text \<open>At the end of the stream.\<close>

lemma Flush_step:
  assumes "tp_inv p" "Flush p = (ev, p')"
  shows "resume p [] = marks ev"
proof -
  have "str_index (tp_buffer p) (tag_of (tp_inThinkTag p)) = None"
    using assms(1) by (simp add: tp_inv_def str_index_None)
  then show ?thesis using assms
    by (cases "tp_inThinkTag p") (auto simp: Flush_def emit_def resume_def tag_of_def parse_think.simps tp_inv_def
        split: if_splits)
qed

fun write_chunks :: "string list \<Rightarrow> ThinkTagParser \<Rightarrow> think_event list \<times> ThinkTagParser" where
  "write_chunks [] p = ([], p)"
| "write_chunks (c # cs) p = (case Write c p of (ev1, p1) \<Rightarrow> case write_chunks cs p1 of (ev2, p2) \<Rightarrow> (ev1 @ ev2, p2))"


lemma Write_step:
  assumes "tp_inv p" "Write c p = (ev, p')"
  shows "tp_inv p' \<and> resume p (c @ s) = marks ev @ resume p' s"
proof -
  obtain ev1 p1 where 1: "write_bytes c p = (ev1, p1)" by fastforce
  obtain ev2 where 2: "flushSafeContent p1 = (ev2, p')" "ev = ev1 @ ev2"
    using assms(2) 1 by (auto simp: Write_def split: prod.splits)
  show ?thesis
    using write_bytes_step[OF assms(1) 1, of s] flushSafeContent_step[OF _ 2(1), of s] 2(2) by auto
qed

lemma write_chunks_step:
  "tp_inv p \<Longrightarrow> write_chunks cs p = (ev, p') \<Longrightarrow>
   tp_inv p' \<and> resume p (concat cs @ s) = marks ev @ resume p' s"
proof (induction cs arbitrary: p ev)
  case (Cons c cs)
  obtain ev1 p1 where 1: "Write c p = (ev1, p1)" by fastforce
  obtain ev2 where 2: "write_chunks cs p1 = (ev2, p')" "ev = ev1 @ ev2"
    using Cons.prems(2) 1 by (auto split: prod.splits)
  show ?case
    using Write_step[OF Cons.prems(1) 1, of "concat cs @ s"] Cons.IH[OF _ 2(1)] 2(2) by auto
qed simp

text \<open>C6: However a text is cut into chunks, writing the chunks to a new parser and flushing it calls
  the callbacks with the bytes, in the order and with the ends of reasoning that the reference parser
  finds in the whole text: tags are recognised across chunk boundaries, no byte is lost, duplicated or
  sent to the wrong callback.\<close>

theorem think_parser_chunking:
  "marks (fst (write_chunks cs NewThinkTagParser) @ fst (Flush (snd (write_chunks cs NewThinkTagParser)))) =
   parse_think False False (concat cs)"
proof -
  obtain ev p where w: "write_chunks cs NewThinkTagParser = (ev, p)" by fastforce
  obtain ev2 p2 where f: "Flush p = (ev2, p2)" by fastforce
  have "tp_inv NewThinkTagParser" by (simp add: tp_inv_def NewThinkTagParser_def tag_of_def)
  then have "tp_inv p" "resume NewThinkTagParser (concat cs @ []) = marks ev @ resume p []"
    using write_chunks_step[OF _ w, of "[]"] by auto
  moreover have "resume p [] = marks ev2" using Flush_step[OF \<open>tp_inv p\<close> f] .
  ultimately show ?thesis using w f by (simp add: resume_def NewThinkTagParser_def)
qed

text \<open>A flush at the point where a thinking block has just been opened leaves the parser inside the
  block: the next text written to it is reported as reasoning.\<close>

theorem flush_keeps_thinking:
  "tp_inThinkTag (snd (Flush (snd (Write ''<think>'' NewThinkTagParser)))) \<and>
   fst (Flush (snd (Write ''hello'' (snd (Flush (snd (Write ''<think>'' NewThinkTagParser))))))) =
     [OnReasoning ''hello'', OnReasoningEnd]"
  by code_simp

section \<open>Deduplication\<close>

fun dedupe_all :: "toolResultDeduper option \<Rightarrow> ToolCallRecord list \<Rightarrow> string list \<times> toolResultDeduper option" where
  "dedupe_all d [] = ([], d)"
| "dedupe_all d (r # rs) = (case messageFor d r of (m, d1) \<Rightarrow> case dedupe_all d1 rs of (ms, d2) \<Rightarrow> (m # ms, d2))"

definition call_label :: "ToolCallRecord \<Rightarrow> string" where
  "call_label r = (if tcr_ID r \<noteq> '''' then tcr_ID r else ''previous'')"

definition call_hash :: "ToolCallRecord \<Rightarrow> 64 word" where
  "call_hash r = hashToolResult (tcr_Name r) (tcr_Result r)"

definition reference_to :: "ToolCallRecord \<Rightarrow> string" where
  "reference_to r = ''[deduplicated tool result; same as tool call '' @ call_label r @ '']''"

text \<open>Every entry of the deduper comes from an earlier call.\<close>

definition seen_from :: "ToolCallRecord list \<Rightarrow> toolResultDeduper \<Rightarrow> bool" where
  "seen_from ps seen \<longleftrightarrow> (\<forall>(k, l) \<in> set seen. \<exists>r \<in> set ps. k = call_hash r \<and> l = call_label r)"

lemma seen_from_mono: "seen_from ps seen \<Longrightarrow> seen_from (ps @ [r]) seen"
  unfolding seen_from_def by fastforce

lemma seen_from_update:
  "seen_from ps seen \<Longrightarrow> seen_from (ps @ [r]) (AList.update (call_hash r) (call_label r) seen)"
  using set_AList_update[of "call_hash r" "call_label r" seen] unfolding seen_from_def by fastforce

lemma messageFor_eq:
  "messageFor (Some seen) r =
     (let stored = Some (AList.update (call_hash r) (call_label r) seen)
      in if tcr_Result r = '''' \<or> call_hash r = 0 then (tcr_Result r, Some seen)
         else case map_of seen (call_hash r) of
                Some prev \<Rightarrow> if prev \<noteq> '''' \<and> prev \<noteq> tcr_ID r
                  then (''[deduplicated tool result; same as tool call '' @ prev @ '']'', Some seen)
                  else (tcr_Result r, stored)
              | None \<Rightarrow> (tcr_Result r, stored))"
  by (auto simp: messageFor_def call_hash_def call_label_def Let_def split: option.splits)

lemma messageFor_step:
  assumes "seen_from ps seen" "messageFor (Some seen) r = (m, d)"
  shows "(m = tcr_Result r \<or> (\<exists>p \<in> set ps. call_hash p = call_hash r \<and> call_label p \<noteq> tcr_ID r \<and> m = reference_to p)) \<and>
    (\<exists>seen'. d = Some seen' \<and> seen_from (ps @ [r]) seen')"
proof (cases "map_of seen (call_hash r)")
  case None
  then show ?thesis using assms seen_from_mono seen_from_update
    by (auto simp: messageFor_eq Let_def split: if_splits)
next
  case (Some prev)
  then obtain p where p: "p \<in> set ps" "call_hash p = call_hash r" "prev = call_label p"
    using assms(1) map_of_SomeD by (fastforce simp: seen_from_def)
  have "m = tcr_Result r \<or> prev \<noteq> tcr_ID r \<and> m = reference_to p"
    using Some assms(2) p(3) by (auto simp: messageFor_eq reference_to_def Let_def split: if_splits)
  moreover have "d = Some seen \<or> d = Some (AList.update (call_hash r) (call_label r) seen)"
    using Some assms(2) by (auto simp: messageFor_eq Let_def split: if_splits)
  ultimately show ?thesis using p seen_from_mono[OF assms(1)] seen_from_update[OF assms(1)] by blast
qed

lemma dedupe_all_step:
  "seen_from ps seen \<Longrightarrow> i < length rs \<Longrightarrow>
   fst (dedupe_all (Some seen) rs) ! i = tcr_Result (rs ! i) \<or>
   (\<exists>p \<in> set (ps @ take i rs). call_hash p = call_hash (rs ! i) \<and> call_label p \<noteq> tcr_ID (rs ! i) \<and>
      fst (dedupe_all (Some seen) rs) ! i = reference_to p)"
proof (induction rs arbitrary: ps seen i)
  case (Cons r rs)
  obtain m d where m: "messageFor (Some seen) r = (m, d)" by fastforce
  obtain seen' where d: "d = Some seen'" "seen_from (ps @ [r]) seen'"
    and msg: "m = tcr_Result r \<or> (\<exists>p \<in> set ps. call_hash p = call_hash r \<and> call_label p \<noteq> tcr_ID r \<and> m = reference_to p)"
    using messageFor_step[OF Cons.prems(1) m] by blast
  have eq: "fst (dedupe_all (Some seen) (r # rs)) = m # fst (dedupe_all (Some seen') rs)"
    using m d(1) by (simp split: prod.splits)
  show ?case
  proof (cases i)
    case 0
    then show ?thesis using msg eq by auto
  next
    case (Suc k)
    then show ?thesis using Cons.IH[OF d(2), of k] Cons.prems(2) unfolding eq by auto
  qed
qed simp

text \<open>In a conversation the message for a tool call is its own result, or a reference to an earlier
  call with another label and the same hash of tool name and result.\<close>

theorem dedupe_refers_back:
  assumes "i < length rs"
  shows "fst (dedupe_all (Some []) rs) ! i = tcr_Result (rs ! i) \<or>
    (\<exists>j < i. call_hash (rs ! j) = call_hash (rs ! i) \<and> call_label (rs ! j) \<noteq> tcr_ID (rs ! i) \<and>
       fst (dedupe_all (Some []) rs) ! i = reference_to (rs ! j))"
proof -
  have "seen_from [] []" by (simp add: seen_from_def)
  moreover have "\<exists>j < i. p = rs ! j" if "p \<in> set ([] @ take i rs)" for p
    using that assms by (auto simp: in_set_conv_nth)
  ultimately show ?thesis using dedupe_all_step[of "[]" "[]" i rs] assms by metis
qed

theorem dedupe_refers_back_witness:
  "fst (dedupe_all (Some []) [\<lparr>tcr_ID = ''a'', tcr_Name = ''ls'', tcr_Result = ''x''\<rparr>]) ! 0 = ''x''"
  using dedupe_refers_back[of 0 "[\<lparr>tcr_ID = ''a'', tcr_Name = ''ls'', tcr_Result = ''x''\<rparr>]"] by auto

end
