(* ===== verification/Task_Scope.thy ===== *)
theory Task_Scope
  imports Go_Glob "HOL-Library.Multiset"
begin

text \<open>
  The scope validator of the parallel agents (src/pkg/parallel/scope.go): it extracts from each task
  the files and patterns it will touch, finds the pairs of tasks that may touch the same files, and
  groups the tasks into waves that run one after the other.

  A nil task or scope is \<^const>\<open>None\<close>.  Go maps used as sets are lists here; the order in which Go
  ranges over a map plays no role in any result.  \<open>PartitionTasks\<close> fills in missing task IDs in place;
  the filled scopes are those of the waves it returns.

  Shown here: tasks of one wave do not conflict if the task IDs are distinct; for scopes made of
  files and of recursive directory patterns no conflict is the same as disjoint scopes; every task runs in
  exactly one wave and waits for all earlier waves; the greedy choice of a wave ends and uses no more
  waves than conflicts require; and the two ways in which conflicting tasks can share a wave.
\<close>

section \<open>Data\<close>

record AgentTask =
  at_ID :: string
  at_Name :: string
  at_Description :: string
  at_Branch :: string
  at_Prompt :: string
  at_Context :: "(string \<times> string) list"
  at_Priority :: int

record TaskScope =
  ts_TaskID :: string
  ts_Files :: "string list"
  ts_Globs :: "string list"

record Conflict =
  cf_TaskA :: string
  cf_TaskB :: string
  cf_OverlapFiles :: "string list"
  cf_OverlapGlobs :: "string list"

record TaskPartition =
  tp_Group :: nat
  tp_TaskIDs :: "string list"
  tp_WaitFor :: "string list"
  tp_Scopes :: "TaskScope list"

section \<open>Scopes\<close>

definition is_pattern :: "string \<Rightarrow> bool" where
  "is_pattern f = (contains f ''...'' \<or> contains f ''*'')"

fun add_parts :: "string list \<Rightarrow> TaskScope \<Rightarrow> TaskScope" where
  "add_parts [] s = s"
| "add_parts (f0 # fs) s =
     (let f = trim_space f0
      in if f = '''' then add_parts fs s
         else if is_pattern f then add_parts fs (s\<lparr>ts_Globs := ts_Globs s @ [f]\<rparr>)
         else add_parts fs (s\<lparr>ts_Files := ts_Files s @ [clean f]\<rparr>))"

definition ExtractScope :: "AgentTask option \<Rightarrow> TaskScope option" where
  "ExtractScope task =
     (case task of
        None \<Rightarrow> None
      | Some t \<Rightarrow>
          (let s0 = \<lparr>ts_TaskID = (if at_ID t = '''' then trim_space (at_Name t) else at_ID t),
                     ts_Files = [], ts_Globs = []\<rparr>;
               s1 = (case map_of (at_Context t) ''files'' of
                       Some raw \<Rightarrow> add_parts (split_on CHR '','' raw) s0 | None \<Rightarrow> s0);
               s2 = (case map_of (at_Context t) ''scope'' of
                       Some raw \<Rightarrow> add_parts (split_on CHR '','' raw) s1 | None \<Rightarrow> s1)
           in Some s2))"

definition matchGlob :: "string \<Rightarrow> string \<Rightarrow> bool" where
  "matchGlob pattern0 file0 =
     (let pattern = clean pattern0; file = clean file0
      in if has_suffix pattern ''/...'' then
           (let pre = trim_suffix pattern ''/...'' in has_prefix file (pre @ ''/'') \<or> file = pre)
         else if has_suffix pattern ''...'' then has_prefix file (trim_suffix pattern ''...'')
         else glob_match pattern file \<or> glob_match pattern (dir_of file))"

definition globsOverlap :: "string \<Rightarrow> string \<Rightarrow> bool" where
  "globsOverlap a0 b0 =
     (let baseA = trim_suffix (trim_suffix (clean a0) ''/...'') ''...'';
          baseB = trim_suffix (trim_suffix (clean b0) ''/...'') ''...''
      in has_prefix baseA baseB \<or> has_prefix baseB baseA)"

text \<open>\<open>uniqueStrings\<close> keeps the first occurrence of each string.\<close>

fun unique_from :: "string list \<Rightarrow> string list \<Rightarrow> string list" where
  "unique_from seen [] = []"
| "unique_from seen (v # vs) = (if v \<in> set seen then unique_from seen vs else v # unique_from (v # seen) vs)"

definition uniqueStrings :: "string list \<Rightarrow> string list" where
  "uniqueStrings s = unique_from [] s"

definition overlap_files :: "TaskScope \<Rightarrow> TaskScope \<Rightarrow> string list" where
  "overlap_files a b =
     filter (\<lambda>f. f \<in> set (ts_Files a)) (ts_Files b) @
     concat (map (\<lambda>glob. filter (matchGlob glob) (ts_Files b)) (ts_Globs a)) @
     concat (map (\<lambda>glob. filter (matchGlob glob) (ts_Files a)) (ts_Globs b))"

definition overlap_globs :: "TaskScope \<Rightarrow> TaskScope \<Rightarrow> string list" where
  "overlap_globs a b =
     concat (map (\<lambda>globA. map (\<lambda>globB. globA @ [CHR '' '', CHR 0xE2, CHR 0x88, CHR 0xA9, CHR '' ''] @ globB)
       (filter (globsOverlap globA) (ts_Globs b))) (ts_Globs a))"

definition checkPairConflict :: "TaskScope option \<Rightarrow> TaskScope option \<Rightarrow> Conflict option" where
  "checkPairConflict a0 b0 =
     (case (a0, b0) of
        (Some a, Some b) \<Rightarrow>
          if overlap_files a b = [] \<and> overlap_globs a b = [] then None
          else Some \<lparr>cf_TaskA = ts_TaskID a, cf_TaskB = ts_TaskID b,
                     cf_OverlapFiles = uniqueStrings (overlap_files a b),
                     cf_OverlapGlobs = uniqueStrings (overlap_globs a b)\<rparr>
      | _ \<Rightarrow> None)"

text \<open>The two nested loops over the pairs with \<open>i < j\<close>.\<close>

fun CheckConflicts :: "TaskScope option list \<Rightarrow> Conflict list" where
  "CheckConflicts [] = []"
| "CheckConflicts (s # ss) = List.map_filter (checkPairConflict s) ss @ CheckConflicts ss"

definition HasConflicts :: "TaskScope option list \<Rightarrow> bool" where
  "HasConflicts scopes = (length (CheckConflicts scopes) > 0)"

section \<open>Waves\<close>

text \<open>The filtered scopes, with an ID for those that have none.\<close>

fun fill_ids :: "TaskScope list \<Rightarrow> TaskScope option list \<Rightarrow> TaskScope list" where
  "fill_ids filtered [] = filtered"
| "fill_ids filtered (None # ss) = fill_ids filtered ss"
| "fill_ids filtered (Some s # ss) =
     fill_ids (filtered @ [if trim_space (ts_TaskID s) = ''''
       then s\<lparr>ts_TaskID := ''task-'' @ itoa_nat (length filtered + 1)\<rparr> else s]) ss"

text \<open>The conflict graph as pairs of task IDs, in both directions.\<close>

fun conflict_edges :: "TaskScope list \<Rightarrow> (string \<times> string) list" where
  "conflict_edges [] = []"
| "conflict_edges (s # ss) =
     concat (map (\<lambda>t. case checkPairConflict (Some s) (Some t) of
        Some _ \<Rightarrow> [(ts_TaskID s, ts_TaskID t), (ts_TaskID t, ts_TaskID s)] | None \<Rightarrow> []) ss) @ conflict_edges ss"

definition conflicts_of :: "(string \<times> string) list \<Rightarrow> string \<Rightarrow> string list" where
  "conflicts_of edges tid = remdups (map snd (filter (\<lambda>e. fst e = tid) edges))"

text \<open>The first group that is not used.\<close>

function first_free :: "nat list \<Rightarrow> nat \<Rightarrow> nat" where
  "first_free used g = (if g \<in> set used then first_free used (Suc g) else g)"
  by auto
termination
proof (relation "measure (\<lambda>(used, g). card {h \<in> set used. g \<le> h})", goal_cases)
  case (2 used g)
  have "{h \<in> set used. Suc g \<le> h} \<subseteq> {h \<in> set used. g \<le> h}" by auto
  moreover have "g \<in> {h \<in> set used. g \<le> h} - {h \<in> set used. Suc g \<le> h}" using 2 by simp
  ultimately have "{h \<in> set used. Suc g \<le> h} \<subset> {h \<in> set used. g \<le> h}" by blast
  then show ?case by (simp add: psubset_card_mono)
qed simp

declare first_free.simps [simp del]

text \<open>The greedy loop, with the map of assigned groups and the highest group given so far.\<close>

fun assign_groups :: "(string \<times> string) list \<Rightarrow> TaskScope list \<Rightarrow> (string \<rightharpoonup> nat) \<times> nat
    \<Rightarrow> (string \<rightharpoonup> nat) \<times> nat" where
  "assign_groups edges [] st = st"
| "assign_groups edges (s # ss) (assigned, maxGroup) =
     (let used = List.map_filter assigned (conflicts_of edges (ts_TaskID s));
          g = first_free used 0
      in assign_groups edges ss (assigned(ts_TaskID s \<mapsto> g), if g > maxGroup then g else maxGroup))"

definition group_of :: "(string \<rightharpoonup> nat) \<Rightarrow> string \<Rightarrow> nat" where
  "group_of assigned tid = (case assigned tid of Some g \<Rightarrow> g | None \<Rightarrow> 0)"

text \<open>\<open>scopeByID\<close>: the last scope with an ID.\<close>

definition scope_by_id :: "TaskScope list \<Rightarrow> string \<Rightarrow> TaskScope" where
  "scope_by_id filtered tid = last (filter (\<lambda>s. ts_TaskID s = tid) filtered)"

definition sorted_scopes :: "(string \<times> string) list \<Rightarrow> TaskScope list \<Rightarrow> TaskScope list" where
  "sorted_scopes edges filtered =
     sort_key (\<lambda>s. - int (length (conflicts_of edges (ts_TaskID s)))) filtered"

definition assigned_groups :: "TaskScope list \<Rightarrow> (string \<rightharpoonup> nat) \<times> nat" where
  "assigned_groups filtered =
     (let edges = conflict_edges filtered
      in assign_groups edges (sorted_scopes edges filtered) (Map.empty, 0))"

definition members :: "TaskScope list \<Rightarrow> (string \<rightharpoonup> nat) \<Rightarrow> nat \<Rightarrow> TaskScope list" where
  "members filtered assigned g = filter (\<lambda>s. group_of assigned (ts_TaskID s) = g) filtered"

definition PartitionTasks :: "TaskScope option list \<Rightarrow> TaskPartition list" where
  "PartitionTasks scopes =
     (let filtered = fill_ids [] scopes
      in if filtered = [] then []
         else (case assigned_groups filtered of (assigned, maxGroup) \<Rightarrow>
                 map (\<lambda>g. \<lparr>tp_Group = g, tp_TaskIDs = map ts_TaskID (members filtered assigned g),
                           tp_WaitFor = concat (map (\<lambda>j. map ts_TaskID (members filtered assigned j)) [0..<g]),
                           tp_Scopes = map (\<lambda>s. scope_by_id filtered (ts_TaskID s)) (members filtered assigned g)\<rparr>)
                   [0..<Suc maxGroup]))"

section \<open>Reports\<close>

definition nl :: string where "nl = [CHR 0x0A]"

definition list_section :: "string \<Rightarrow> string list \<Rightarrow> string" where
  "list_section title xs = (if xs = [] then '''' else title @ nl @ concat (map (\<lambda>f. ''  - '' @ f @ nl) xs))"

fun conflict_sections :: "nat \<Rightarrow> Conflict list \<Rightarrow> string" where
  "conflict_sections i [] = ''''"
| "conflict_sections i (c # cs) =
     ''### Conflict '' @ itoa_nat (i + 1) @ nl @
     ''- **Task A:** '' @ cf_TaskA c @ nl @ ''- **Task B:** '' @ cf_TaskB c @ nl @
     list_section ''- **Overlapping files:**'' (cf_OverlapFiles c) @
     list_section ''- **Overlapping patterns:**'' (cf_OverlapGlobs c) @
     (if cs \<noteq> [] then nl else '''') @ conflict_sections (i + 1) cs"

definition ConflictReport :: "Conflict list \<Rightarrow> string" where
  "ConflictReport conflicts =
     (if conflicts = [] then ''No conflicts detected. All tasks can run in parallel.''
      else ''## Scope Conflicts Detected'' @ nl @ nl @
           ''The following tasks have overlapping file scopes and cannot run in parallel:'' @ nl @ nl @
           conflict_sections 0 conflicts)"

fun comma_join :: "string list \<Rightarrow> string" where
  "comma_join [] = ''''"
| "comma_join [w] = w"
| "comma_join (w # v # ws) = w @ '', '' @ comma_join (v # ws)"

definition wave_section :: "TaskPartition \<Rightarrow> string" where
  "wave_section p =
     ''### Wave '' @ itoa_nat (tp_Group p + 1) @ nl @
     (if tp_WaitFor p \<noteq> [] then ''*Waits for: '' @ comma_join (tp_WaitFor p) @ ''*'' @ nl @ nl else '''') @
     ''| Task | Scope |'' @ nl @ ''|------|-------|'' @ nl @
     concat (map (\<lambda>tid. ''| '' @ tid @ '' | '' @
       (case filter (\<lambda>s. ts_TaskID s = tid) (tp_Scopes p) of
          [] \<Rightarrow> '''' | s # ss \<Rightarrow> comma_join (ts_Files (last (s # ss)) @ ts_Globs (last (s # ss)))) @ '' |'' @ nl) (tp_TaskIDs p)) @ nl"

definition PartitionReport :: "TaskPartition list \<Rightarrow> string" where
  "PartitionReport partitions =
     (if partitions = [] then ''No tasks to partition.''
      else ''## Execution Plan'' @ nl @ nl @
           (if length partitions = 1 then ''All tasks can run in parallel (no conflicts).'' @ nl @ nl
            else ''Tasks will run in '' @ itoa_nat (length partitions) @ '' waves due to file scope conflicts.'' @ nl @ nl) @
           concat (map wave_section partitions))"


section \<open>The choice of a group\<close>

lemma first_free_unused: "first_free used g \<notin> set used"
  by (induction used g rule: first_free.induct) (subst first_free.simps, simp)

lemma first_free_least: "g \<le> h \<Longrightarrow> h < first_free used g \<Longrightarrow> h \<in> set used"
proof (induction used g rule: first_free.induct)
  case (1 used g)
  have "first_free used g = (if g \<in> set used then first_free used (Suc g) else g)"
    by (rule first_free.simps)
  then show ?case using 1 by (cases "h = g") (auto split: if_splits)
qed

text \<open>The loop leaves at most one group unused per conflicting task.\<close>

lemma first_free_bound: "first_free used 0 \<le> length used"
proof -
  have "{..<first_free used 0} \<subseteq> set used"
    using first_free_least [of 0 _ used] by auto
  then have "card {..<first_free used 0} \<le> card (set used)" by (rule card_mono [OF finite_set])
  then show ?thesis using card_length [of used] by simp
qed

lemma set_conflicts_of: "set (conflicts_of edges a) = {b. (a, b) \<in> set edges}"
  by (force simp: conflicts_of_def)

definition proper :: "(string \<times> string) list \<Rightarrow> (string \<rightharpoonup> nat) \<Rightarrow> bool" where
  "proper edges asg = (\<forall>a b g. (a, b) \<in> set edges \<longrightarrow> asg a = Some g \<longrightarrow> asg b = Some g \<longrightarrow> a = b)"

lemma proper_step:
  assumes "proper edges asg" "sym (set edges)" "a \<notin> dom asg"
    "g \<notin> set (List.map_filter asg (conflicts_of edges a))"
  shows "proper edges (asg(a \<mapsto> g))"
proof -
  have new: "(a, b) \<in> set edges \<Longrightarrow> asg b \<noteq> Some g" for b
    using assms(4) by (auto simp: map_filter_set set_conflicts_of)
  then have "(b, a) \<in> set edges \<Longrightarrow> asg b \<noteq> Some g" for b using assms(2) by (metis symD)
  with new show ?thesis using assms(1) by (auto simp: proper_def)
qed

lemma assign_groups_proper:
  "\<lbrakk>proper edges asg; sym (set edges); distinct (map ts_TaskID ss); ts_TaskID ` set ss \<inter> dom asg = {}\<rbrakk>
   \<Longrightarrow> proper edges (fst (assign_groups edges ss (asg, m)))"
proof (induction ss arbitrary: asg m)
  case (Cons s ss)
  let ?g = "first_free (List.map_filter asg (conflicts_of edges (ts_TaskID s))) 0"
  have new: "proper edges (asg(ts_TaskID s \<mapsto> ?g))"
    using Cons.prems by (intro proper_step first_free_unused) auto
  have "distinct (map ts_TaskID ss)" "ts_TaskID ` set ss \<inter> dom (asg(ts_TaskID s \<mapsto> ?g)) = {}"
    using Cons.prems(3,4) by auto
  from Cons.IH [OF new Cons.prems(2) this] show ?case
    unfolding assign_groups.simps Let_def .
qed simp

lemma assign_groups_max:
  "\<lbrakk>assign_groups edges ss (asg, m) = (asg', m'); \<forall>x g. asg x = Some g \<longrightarrow> g \<le> m\<rbrakk>
   \<Longrightarrow> m \<le> m' \<and> (\<forall>x g. asg' x = Some g \<longrightarrow> g \<le> m') \<and> dom asg' = dom asg \<union> ts_TaskID ` set ss"
proof (induction ss arbitrary: asg m)
  case (Cons s ss)
  let ?g = "first_free (List.map_filter asg (conflicts_of edges (ts_TaskID s))) 0"
  have "\<forall>x h. (asg(ts_TaskID s \<mapsto> ?g)) x = Some h \<longrightarrow> h \<le> (if ?g > m then ?g else m)"
    using Cons.prems(2) by simp (meson le_less_trans less_imp_le)
  moreover have "assign_groups edges ss (asg(ts_TaskID s \<mapsto> ?g), if ?g > m then ?g else m) = (asg', m')"
    using Cons.prems(1) by (simp only: assign_groups.simps Let_def)
  ultimately have "(if ?g > m then ?g else m) \<le> m' \<and> (\<forall>x g. asg' x = Some g \<longrightarrow> g \<le> m') \<and>
      dom asg' = dom (asg(ts_TaskID s \<mapsto> ?g)) \<union> ts_TaskID ` set ss"
    by (intro Cons.IH)
  then show ?case by (auto split: if_splits)
qed simp

lemma assign_groups_degree:
  "\<lbrakk>assign_groups edges ss (asg, m) = (asg', m'); m \<le> d;
    \<forall>s \<in> set ss. length (conflicts_of edges (ts_TaskID s)) \<le> d\<rbrakk> \<Longrightarrow> m' \<le> d"
proof (induction ss arbitrary: asg m)
  case (Cons s ss)
  let ?g = "first_free (List.map_filter asg (conflicts_of edges (ts_TaskID s))) 0"
  have "?g \<le> length (conflicts_of edges (ts_TaskID s))"
    using first_free_bound map_filter_length order_trans by blast
  also have "\<dots> \<le> d" using Cons.prems(3) by simp
  finally have "(if ?g > m then ?g else m) \<le> d" using Cons.prems(2) by simp
  from Cons.IH [OF _ this] Cons.prems show ?case by (auto simp: Let_def)
qed simp

section \<open>The conflict graph\<close>

lemma globsOverlap_sym: "globsOverlap a b = globsOverlap b a"
  by (auto simp: globsOverlap_def Let_def)

lemma no_overlap_files_iff:
  "overlap_files a b = [] \<longleftrightarrow>
     set (ts_Files a) \<inter> set (ts_Files b) = {} \<and>
     (\<forall>g \<in> set (ts_Globs a). \<forall>f \<in> set (ts_Files b). \<not> matchGlob g f) \<and>
     (\<forall>g \<in> set (ts_Globs b). \<forall>f \<in> set (ts_Files a). \<not> matchGlob g f)"
  by (auto simp: overlap_files_def filter_empty_conv)

lemma no_overlap_globs_iff:
  "overlap_globs a b = [] \<longleftrightarrow> (\<forall>g \<in> set (ts_Globs a). \<forall>h \<in> set (ts_Globs b). \<not> globsOverlap g h)"
  by (auto simp: overlap_globs_def filter_empty_conv)

lemma no_conflict_iff:
  "checkPairConflict (Some a) (Some b) = None \<longleftrightarrow> overlap_files a b = [] \<and> overlap_globs a b = []"
  by (simp add: checkPairConflict_def)

lemma no_conflict_sym:
  "checkPairConflict (Some a) (Some b) = None \<longleftrightarrow> checkPairConflict (Some b) (Some a) = None"
  unfolding no_conflict_iff no_overlap_files_iff no_overlap_globs_iff
  using globsOverlap_sym by blast

lemma conflict_edges_sym: "sym (set (conflict_edges ss))"
proof (induction ss)
  case (Cons s ss)
  have "set (conflict_edges (s # ss)) =
      (\<Union>t \<in> set ss. case checkPairConflict (Some s) (Some t) of
        Some _ \<Rightarrow> {(ts_TaskID s, ts_TaskID t), (ts_TaskID t, ts_TaskID s)} | None \<Rightarrow> {}) \<union> set (conflict_edges ss)"
    by (auto simp: option.case_distrib [of set] cong: option.case_cong)
  moreover have "sym (case checkPairConflict (Some s) (Some t) of
      Some _ \<Rightarrow> {(ts_TaskID s, ts_TaskID t), (ts_TaskID t, ts_TaskID s)} | None \<Rightarrow> {})" for t
    by (auto simp: sym_def split: option.splits)
  ultimately show ?case using Cons.IH by (simp only:) (intro sym_Un sym_UNION; simp)
qed (simp add: sym_def)

lemma conflict_edgesI:
  "\<lbrakk>s \<in> set ss; t \<in> set ss; s \<noteq> t; checkPairConflict (Some s) (Some t) \<noteq> None\<rbrakk>
   \<Longrightarrow> (ts_TaskID s, ts_TaskID t) \<in> set (conflict_edges ss)"
proof (induction ss)
  case (Cons u ss)
  consider "s = u" "t \<in> set ss" | "t = u" "s \<in> set ss" | "s \<in> set ss" "t \<in> set ss"
    using Cons.prems by auto
  then show ?case
  proof cases
    case 1
    then show ?thesis using Cons.prems(4) by (auto intro!: bexI [of _ t])
  next
    case 2
    then have "checkPairConflict (Some u) (Some s) \<noteq> None" using Cons.prems(4) no_conflict_sym [of s u] by simp
    then show ?thesis using 2 by (auto intro!: bexI [of _ s])
  next
    case 3
    then show ?thesis using Cons by auto
  qed
qed simp

section \<open>Waves\<close>

lemma sorted_scopes_mset [simp]: "mset (sorted_scopes edges ss) = mset ss"
  by (simp add: sorted_scopes_def)

lemma sorted_scopes_set [simp]: "set (sorted_scopes edges ss) = set ss"
  by (simp add: sorted_scopes_def)

lemma sorted_scopes_distinct:
  "distinct (map ts_TaskID ss) \<Longrightarrow> distinct (map ts_TaskID (sorted_scopes edges ss))"
proof -
  have "mset (map ts_TaskID (sorted_scopes edges ss)) = mset (map ts_TaskID ss)" by simp
  then show "distinct (map ts_TaskID ss) \<Longrightarrow> ?thesis" by (metis mset_eq_imp_distinct_iff)
qed

lemma assigned_groups_spec:
  assumes "assigned_groups ss = (asg, m)"
  shows "(\<forall>s \<in> set ss. group_of asg (ts_TaskID s) \<le> m)"
    and "distinct (map ts_TaskID ss) \<Longrightarrow> proper (conflict_edges ss) asg"
    and "dom asg = ts_TaskID ` set ss"
proof -
  let ?e = "conflict_edges ss"
  have run: "assign_groups ?e (sorted_scopes ?e ss) (Map.empty, 0) = (asg, m)"
    using assms by (simp add: assigned_groups_def Let_def)
  from assign_groups_max [OF this] show dom: "dom asg = ts_TaskID ` set ss" by simp
  from assign_groups_max [OF run] show "\<forall>s \<in> set ss. group_of asg (ts_TaskID s) \<le> m"
    by (auto simp: group_of_def split: option.splits)
  assume "distinct (map ts_TaskID ss)"
  then have "proper ?e (fst (assign_groups ?e (sorted_scopes ?e ss) (Map.empty, 0)))"
    by (intro assign_groups_proper sorted_scopes_distinct conflict_edges_sym) (auto simp: proper_def)
  then show "proper ?e asg" using run by simp
qed

lemma scope_by_id_distinct:
  assumes "distinct (map ts_TaskID ss)" "s \<in> set ss"
  shows "scope_by_id ss (ts_TaskID s) = s"
proof -
  have "set (filter (\<lambda>t. ts_TaskID t = ts_TaskID s) ss) = {s}"
    using assms by (auto simp: distinct_map inj_on_def)
  then show ?thesis unfolding scope_by_id_def by (metis last_in_set empty_iff set_empty singletonD insert_not_empty)
qed

text \<open>The waves, with the scopes looked up by task ID replaced by the tasks' own.\<close>

lemma PartitionTasks_waves:
  assumes "fill_ids [] scopes = ss" "ss \<noteq> []"
  obtains asg m where "assigned_groups ss = (asg, m)"
    "length (PartitionTasks scopes) = Suc m"
    "\<And>i. i \<le> m \<Longrightarrow> tp_Group (PartitionTasks scopes ! i) = i \<and>
       tp_TaskIDs (PartitionTasks scopes ! i) = map ts_TaskID (members ss asg i) \<and>
       tp_WaitFor (PartitionTasks scopes ! i) = concat (map (\<lambda>j. map ts_TaskID (members ss asg j)) [0..<i]) \<and>
       (distinct (map ts_TaskID ss) \<longrightarrow> tp_Scopes (PartitionTasks scopes ! i) = members ss asg i)"
proof -
  obtain asg m where am: "assigned_groups ss = (asg, m)" by (cases "assigned_groups ss")
  have mem: "distinct (map ts_TaskID ss) \<Longrightarrow>
      map (\<lambda>s. scope_by_id ss (ts_TaskID s)) (members ss asg i) = members ss asg i" for i
    by (rule map_idI) (auto simp: members_def scope_by_id_distinct)
  show ?thesis
  proof (rule that [OF am])
    show "length (PartitionTasks scopes) = Suc m"
      using assms am by (simp add: PartitionTasks_def Let_def)
    fix i assume "i \<le> m"
    then have "[0..<Suc m] ! i = i" "i < length [0..<Suc m]" by (simp_all del: upt_Suc)
    then show "tp_Group (PartitionTasks scopes ! i) = i \<and>
       tp_TaskIDs (PartitionTasks scopes ! i) = map ts_TaskID (members ss asg i) \<and>
       tp_WaitFor (PartitionTasks scopes ! i) = concat (map (\<lambda>j. map ts_TaskID (members ss asg j)) [0..<i]) \<and>
       (distinct (map ts_TaskID ss) \<longrightarrow> tp_Scopes (PartitionTasks scopes ! i) = members ss asg i)"
      using assms am mem by (simp add: PartitionTasks_def Let_def del: upt_Suc)
  qed
qed


section \<open>What the waves guarantee\<close>

definition unique_ids :: "TaskScope option list \<Rightarrow> bool" where
  "unique_ids scopes = distinct (map ts_TaskID (fill_ids [] scopes))"

lemma members_no_conflict:
  assumes "assigned_groups ss = (asg, m)" "distinct (map ts_TaskID ss)"
    "s \<in> set (members ss asg i)" "t \<in> set (members ss asg i)" "s \<noteq> t"
  shows "checkPairConflict (Some s) (Some t) = None"
proof (rule ccontr)
  assume "checkPairConflict (Some s) (Some t) \<noteq> None"
  then have "(ts_TaskID s, ts_TaskID t) \<in> set (conflict_edges ss)"
    using assms(3-5) by (intro conflict_edgesI) (auto simp: members_def)
  moreover have "asg (ts_TaskID s) = Some i" "asg (ts_TaskID t) = Some i"
    using assms(3,4) assigned_groups_spec(3) [OF assms(1)]
    by (auto simp: members_def group_of_def split: option.splits)
  ultimately have "ts_TaskID s = ts_TaskID t"
    using assigned_groups_spec(2) [OF assms(1,2)] unfolding proper_def by blast
  then show False using assms(2-5) by (auto simp: members_def distinct_map inj_on_def)
qed

lemma PartitionTasks_Nil: "fill_ids [] scopes = [] \<Longrightarrow> PartitionTasks scopes = []"
  by (simp add: PartitionTasks_def)

lemma wave_scopes_conflict_free:
  assumes "unique_ids scopes" "p \<in> set (PartitionTasks scopes)"
    "s \<in> set (tp_Scopes p)" "t \<in> set (tp_Scopes p)" "s \<noteq> t"
  shows "checkPairConflict (Some s) (Some t) = None"
proof -
  have ne: "fill_ids [] scopes \<noteq> []" using assms(2) PartitionTasks_Nil by force
  obtain i where i: "i < length (PartitionTasks scopes)" "p = PartitionTasks scopes ! i"
    using assms(2) by (metis in_set_conv_nth)
  obtain asg m where *: "assigned_groups (fill_ids [] scopes) = (asg, m)"
    "length (PartitionTasks scopes) = Suc m"
    "\<And>j. j \<le> m \<Longrightarrow> unique_ids scopes \<Longrightarrow>
       tp_Scopes (PartitionTasks scopes ! j) = members (fill_ids [] scopes) asg j"
    by (rule PartitionTasks_waves [OF refl ne]) (auto simp: unique_ids_def)
  show ?thesis
    using members_no_conflict [OF *(1)] *(2) *(3) [of i] i assms by (auto simp: unique_ids_def)
qed

text \<open>C13: Tasks that \<open>PartitionTasks\<close> puts into the same wave do not conflict: if the task IDs
  (after the missing ones are filled in) are distinct, any two different scopes of one wave have no common file, no
  file of one that a pattern of the other matches, and no two overlapping patterns.\<close>

theorem wave_no_conflict:
  assumes "unique_ids scopes" "p \<in> set (PartitionTasks scopes)"
    "s \<in> set (tp_Scopes p)" "t \<in> set (tp_Scopes p)" "s \<noteq> t"
  shows "checkPairConflict (Some s) (Some t) = None"
  using assms by (rule wave_scopes_conflict_free)

lemma mset_members:
  assumes "\<forall>s \<in> set ss. f s < n"
  shows "mset (concat (map (\<lambda>i. filter (\<lambda>s. f s = i) ss) [0..<n])) = mset ss"
  using assms
proof (induction n arbitrary: ss)
  case (Suc n)
  have IH: "mset (concat (map (\<lambda>i. filter (\<lambda>s. f s = i) (filter (\<lambda>s. f s < n) ss)) [0..<n])) =
      mset (filter (\<lambda>s. f s < n) ss)"
    by (rule Suc.IH) simp
  have eq: "map (\<lambda>i. filter (\<lambda>s. f s = i) (filter (\<lambda>s. f s < n) ss)) [0..<n] =
      map (\<lambda>i. filter (\<lambda>s. f s = i) ss) [0..<n]"
    by (auto simp: conj_commute intro!: filter_cong)
  have "{#s \<in># mset ss. f s < n#} + {#s \<in># mset ss. f s = n#} = mset ss"
  proof -
    have "{#s \<in># mset ss. f s = n#} = {#s \<in># mset ss. \<not> f s < n#}"
      using Suc.prems by (intro filter_mset_cong) auto
    then show ?thesis by (simp add: multiset_partition [symmetric])
  qed
  then show ?case using IH unfolding eq by simp
qed simp

text \<open>C32: Every task runs exactly once, and in order: with distinct task IDs the scopes of all waves together are
  the non-nil scopes that were given, each as often as it was given; each wave lists the IDs of
  its scopes; and each wave waits for exactly the tasks of all the waves before it.\<close>

theorem waves_partition_tasks:
  assumes "unique_ids scopes"
  shows "mset (concat (map tp_Scopes (PartitionTasks scopes))) = mset (fill_ids [] scopes) \<and>
    map tp_TaskIDs (PartitionTasks scopes) = map (map ts_TaskID \<circ> tp_Scopes) (PartitionTasks scopes) \<and>
    map tp_WaitFor (PartitionTasks scopes) =
      map (\<lambda>i. concat (map tp_TaskIDs (take i (PartitionTasks scopes)))) [0..<length (PartitionTasks scopes)]"
proof (cases "fill_ids [] scopes = []")
  case False
  let ?ss = "fill_ids [] scopes" and ?ps = "PartitionTasks scopes"
  obtain asg m where am: "assigned_groups ?ss = (asg, m)" and len: "length ?ps = Suc m"
    and ps: "\<And>i. i \<le> m \<Longrightarrow> tp_TaskIDs (?ps ! i) = map ts_TaskID (members ?ss asg i) \<and>
       tp_WaitFor (?ps ! i) = concat (map (\<lambda>j. map ts_TaskID (members ?ss asg j)) [0..<i]) \<and>
       tp_Scopes (?ps ! i) = members ?ss asg i"
    by (rule PartitionTasks_waves [OF refl False]) (use assms in \<open>auto simp: unique_ids_def\<close>)
  have sc: "map tp_Scopes ?ps = map (members ?ss asg) [0..<Suc m]"
    using ps len by (auto intro!: nth_equalityI simp del: upt_Suc)
  have "mset (concat (map (members ?ss asg) [0..<Suc m])) = mset ?ss"
    using mset_members [of ?ss "\<lambda>s. group_of asg (ts_TaskID s)" "Suc m"] assigned_groups_spec(1) [OF am]
    unfolding members_def by (simp add: less_Suc_eq_le del: upt_Suc)
  moreover have ids: "map tp_TaskIDs ?ps = map (map ts_TaskID \<circ> members ?ss asg) [0..<Suc m]"
    using ps len by (auto intro!: nth_equalityI simp del: upt_Suc)
  moreover have "map (map ts_TaskID \<circ> tp_Scopes) ?ps = map (map ts_TaskID) (map tp_Scopes ?ps)" by simp
  moreover have "tp_WaitFor (?ps ! i) = concat (map tp_TaskIDs (take i ?ps))" if "i \<le> m" for i
  proof -
    have "map tp_TaskIDs (take i ?ps) = map (map ts_TaskID \<circ> members ?ss asg) (take i [0..<Suc m])"
      unfolding take_map [symmetric] ids ..
    also have "take i [0..<Suc m] = [0..<i]" using that by (simp add: take_upt del: upt_Suc)
    finally show ?thesis using ps [OF that] by (simp add: o_def)
  qed
  ultimately show ?thesis
    using sc len by (auto intro!: nth_equalityI simp del: upt_Suc)
qed (simp add: PartitionTasks_Nil)


text \<open>The files a scope stands for: those it lists and those one of its patterns matches.\<close>

definition in_scope :: "TaskScope \<Rightarrow> string \<Rightarrow> bool" where
  "in_scope s f = (f \<in> set (ts_Files s) \<or> (\<exists>g \<in> set (ts_Globs s). matchGlob g f))"

definition recursive_globs :: "TaskScope \<Rightarrow> bool" where
  "recursive_globs s = (\<forall>g \<in> set (ts_Globs s). has_suffix (clean g) ''...'')"

lemma trim_suffix_prefix: "prefix (trim_suffix s suf) s"
  by (simp add: trim_suffix_def take_is_prefix)

text \<open>A recursive pattern matches only files below its base.\<close>

lemma matchGlob_base:
  assumes "has_suffix (clean g) ''...''" "matchGlob g f"
  shows "prefix (trim_suffix (trim_suffix (clean g) ''/...'') ''...'') (clean f)"
proof (cases "has_suffix (clean g) ''/...''")
  case True
  then have "prefix (trim_suffix (clean g) ''/...'') (clean f)"
    using assms(2) by (auto simp: matchGlob_def Let_def has_prefix_iff prefix_def)
  then show ?thesis using trim_suffix_prefix by (rule prefix_order.trans [rotated])
next
  case False
  then have "trim_suffix (clean g) ''/...'' = clean g" by (simp add: trim_suffix_def)
  then show ?thesis using False assms by (simp add: matchGlob_def Let_def has_prefix_iff)
qed

lemma globsOverlap_common:
  assumes "has_suffix (clean g) ''...''" "has_suffix (clean h) ''...''" "matchGlob g f" "matchGlob h f"
  shows "globsOverlap g h"
  using matchGlob_base [OF assms(1,3)] matchGlob_base [OF assms(2,4)] prefix_same_cases
  unfolding globsOverlap_def Let_def has_prefix_iff by blast

lemma no_conflict_disjoint:
  assumes "checkPairConflict (Some s) (Some t) = None" "recursive_globs s" "recursive_globs t" "in_scope s f"
  shows "\<not> in_scope t f"
  using assms globsOverlap_common [of _ _ f]
  unfolding in_scope_def recursive_globs_def no_conflict_iff no_overlap_files_iff no_overlap_globs_iff by blast

text \<open>C33: If every pattern of the scopes is recursive (\<open>dir/...\<close>), no conflict means that the
  tasks touch different files: no file is in the scope of two tasks of one wave.\<close>

theorem wave_scopes_disjoint:
  assumes "unique_ids scopes" "p \<in> set (PartitionTasks scopes)"
    "s \<in> set (tp_Scopes p)" "t \<in> set (tp_Scopes p)" "s \<noteq> t"
    "recursive_globs s" "recursive_globs t" "in_scope s f"
  shows "\<not> in_scope t f"
  using no_conflict_disjoint [OF wave_scopes_conflict_free [OF assms(1-5)] assms(6-8)] .

section \<open>The number of waves\<close>

lemma conflict_edgesE:
  "\<lbrakk>(a, b) \<in> set (conflict_edges ss); distinct ss\<rbrakk> \<Longrightarrow>
   \<exists>s t. s \<in> set ss \<and> t \<in> set ss \<and> ts_TaskID s = a \<and> ts_TaskID t = b \<and> s \<noteq> t \<and>
     checkPairConflict (Some s) (Some t) \<noteq> None"
proof (induction ss)
  case (Cons u ss)
  consider t where "t \<in> set ss" "t \<noteq> u" "checkPairConflict (Some u) (Some t) \<noteq> None"
      "(a, b) = (ts_TaskID u, ts_TaskID t) \<or> (a, b) = (ts_TaskID t, ts_TaskID u)"
    | "(a, b) \<in> set (conflict_edges ss)"
    using Cons.prems by (auto split: option.splits) (metis option.distinct(1))+
  then show ?case
  proof cases
    case (1 t)
    then show ?thesis using no_conflict_sym [of u t] by (metis list.set_intros Pair_inject)
  next
    case 2
    then show ?thesis using Cons.IH Cons.prems(2) by (metis list.set_intros(2) distinct.simps(2))
  qed
qed simp

definition conflicting :: "TaskScope list \<Rightarrow> TaskScope \<Rightarrow> TaskScope list" where
  "conflicting ss s = filter (\<lambda>t. t \<noteq> s \<and> checkPairConflict (Some s) (Some t) \<noteq> None) ss"

lemma conflicts_of_conflicting:
  assumes "distinct (map ts_TaskID ss)" "s \<in> set ss"
  shows "length (conflicts_of (conflict_edges ss) (ts_TaskID s)) \<le> length (conflicting ss s)"
proof -
  let ?c = "conflicts_of (conflict_edges ss) (ts_TaskID s)"
  have "set ?c \<subseteq> ts_TaskID ` set (conflicting ss s)"
  proof
    fix b assume "b \<in> set ?c"
    then obtain s' t where "s' \<in> set ss" "t \<in> set ss" "ts_TaskID s' = ts_TaskID s" "ts_TaskID t = b"
      "s' \<noteq> t" "checkPairConflict (Some s') (Some t) \<noteq> None"
      using conflict_edgesE [of "ts_TaskID s" b ss] assms(1)
      unfolding distinct_map set_conflicts_of by blast
    moreover from this have "s' = s" using assms by (auto simp: distinct_map inj_on_def)
    ultimately show "b \<in> ts_TaskID ` set (conflicting ss s)" by (auto simp: conflicting_def)
  qed
  then have "card (set ?c) \<le> card (ts_TaskID ` set (conflicting ss s))" by (intro card_mono) auto
  also have "\<dots> \<le> length (conflicting ss s)"
    using card_image_le card_length order_trans by (metis finite_set)
  also have "card (set ?c) = length ?c" by (rule distinct_card) (simp add: conflicts_of_def)
  finally show ?thesis .
qed

text \<open>The loop that looks for a free wave ends with few waves: with distinct task IDs, if no task conflicts with
  more than \<open>d\<close> other tasks, there are at most \<open>d + 1\<close> waves; without conflicts there is
  a single wave.\<close>

theorem wave_count_bound:
  assumes "unique_ids scopes" "\<forall>s \<in> set (fill_ids [] scopes). length (conflicting (fill_ids [] scopes) s) \<le> d"
  shows "length (PartitionTasks scopes) \<le> d + 1"
proof (cases "fill_ids [] scopes = []")
  case False
  let ?ss = "fill_ids [] scopes" and ?e = "conflict_edges (fill_ids [] scopes)"
  obtain asg m where am: "assigned_groups ?ss = (asg, m)" and len: "length (PartitionTasks scopes) = Suc m"
    by (rule PartitionTasks_waves [OF refl False]) auto
  have "\<forall>s \<in> set (sorted_scopes ?e ?ss). length (conflicts_of ?e (ts_TaskID s)) \<le> d"
    using assms(2) conflicts_of_conflicting [OF assms(1) [unfolded unique_ids_def]]
    unfolding sorted_scopes_set by (meson order_trans)
  then have "m \<le> d"
    using am by (intro assign_groups_degree [of ?e "sorted_scopes ?e ?ss" Map.empty 0 asg m d])
      (simp_all add: assigned_groups_def Let_def)
  then show ?thesis using len by simp
qed (simp add: PartitionTasks_Nil)

section \<open>Sample runs\<close>

definition sample_scopes :: "TaskScope option list" where
  "sample_scopes =
     [Some \<lparr>ts_TaskID = ''api'', ts_Files = [''go.mod''], ts_Globs = [''pkg/api/...'']\<rparr>,
      None,
      Some \<lparr>ts_TaskID = ''ui'', ts_Files = [], ts_Globs = [''pkg/ui/...'']\<rparr>,
      Some \<lparr>ts_TaskID = '''', ts_Files = [''go.mod''], ts_Globs = []\<rparr>]"

definition sample_api :: TaskScope where
  "sample_api = \<lparr>ts_TaskID = ''api'', ts_Files = [''go.mod''], ts_Globs = [''pkg/api/...'']\<rparr>"

definition sample_ui :: TaskScope where
  "sample_ui = \<lparr>ts_TaskID = ''ui'', ts_Files = [], ts_Globs = [''pkg/ui/...'']\<rparr>"

definition sample_wave :: TaskPartition where
  "sample_wave = \<lparr>tp_Group = 0, tp_TaskIDs = [''api'', ''ui''], tp_WaitFor = [],
     tp_Scopes = [sample_api, sample_ui]\<rparr>"

lemma sample_filled: "fill_ids [] sample_scopes =
    [sample_api, sample_ui, \<lparr>ts_TaskID = ''task-3'', ts_Files = [''go.mod''], ts_Globs = []\<rparr>]"
  by code_simp

lemma sample_run: "PartitionTasks sample_scopes =
    [sample_wave, \<lparr>tp_Group = 1, tp_TaskIDs = [''task-3''], tp_WaitFor = [''api'', ''ui''],
       tp_Scopes = [\<lparr>ts_TaskID = ''task-3'', ts_Files = [''go.mod''], ts_Globs = []\<rparr>]\<rparr>]"
  by code_simp

lemma sample_facts:
  "unique_ids sample_scopes" "sample_wave \<in> set (PartitionTasks sample_scopes)"
  "sample_api \<in> set (tp_Scopes sample_wave)" "sample_ui \<in> set (tp_Scopes sample_wave)"
  "sample_api \<noteq> sample_ui" "recursive_globs sample_api" "recursive_globs sample_ui"
  "in_scope sample_api ''pkg/api/server.go''"
  by (simp add: unique_ids_def sample_filled sample_api_def sample_ui_def, simp add: sample_run,
      simp add: sample_wave_def, simp add: sample_wave_def, simp add: sample_api_def sample_ui_def,
      code_simp, code_simp, code_simp)

theorem wave_no_conflict_witness: "checkPairConflict (Some sample_api) (Some sample_ui) = None"
  using wave_no_conflict [OF sample_facts(1-5)] .

theorem wave_scopes_disjoint_witness: "\<not> in_scope sample_ui ''pkg/api/server.go''"
  using wave_scopes_disjoint [OF sample_facts] .

theorem waves_partition_tasks_witness:
  "mset (concat (map tp_Scopes (PartitionTasks sample_scopes))) = mset (fill_ids [] sample_scopes)"
  using waves_partition_tasks [OF sample_facts(1)] by (rule conjunct1)

lemma sample_degree: "\<forall>s \<in> set (fill_ids [] sample_scopes). length (conflicting (fill_ids [] sample_scopes) s) \<le> 1"
  by code_simp

theorem wave_count_bound_witness: "length (PartitionTasks sample_scopes) \<le> 2"
  using wave_count_bound [OF sample_facts(1) sample_degree] by simp

section \<open>Where the validator misses a conflict\<close>

text \<open>Patterns that are not recursive are compared as if their text were a directory: \<open>*.go\<close> and
  \<open>main*\<close> both match \<open>main.go\<close>, and \<open>PartitionTasks\<close> runs the two tasks in one wave.\<close>

theorem glob_overlap_missed:
  "let a = \<lparr>ts_TaskID = ''a'', ts_Files = [], ts_Globs = [''*.go'']\<rparr>;
       b = \<lparr>ts_TaskID = ''b'', ts_Files = [], ts_Globs = [''main*'']\<rparr>
   in in_scope a ''main.go'' \<and> in_scope b ''main.go'' \<and> \<not> HasConflicts [Some a, Some b] \<and>
      map tp_TaskIDs (PartitionTasks [Some a, Some b]) = [[''a'', ''b'']]"
  by code_simp

text \<open>The ID given to a task without one can be that of another task.  Here the second task is named
  \<open>task-2\<close> like the first; both want \<open>go.mod\<close>, yet both run in one wave, the other wave is empty and
  the plan has lost the first task's scope.\<close>

theorem filled_id_clash:
  "let a = \<lparr>ts_TaskID = ''task-2'', ts_Files = [''go.mod'', ''main.go''], ts_Globs = []\<rparr>;
       b = \<lparr>ts_TaskID = '''', ts_Files = [''go.mod''], ts_Globs = []\<rparr>
   in HasConflicts [Some a, Some b] \<and>
      map tp_TaskIDs (PartitionTasks [Some a, Some b]) = [[], [''task-2'', ''task-2'']] \<and>
      a \<notin> set (concat (map tp_Scopes (PartitionTasks [Some a, Some b])))"
  by code_simp

end
