(* ===== verification/Ralph_Control.thy ===== *)
theory Ralph_Control
  imports Go_Numbers
begin

text \<open>
  The control configuration of the Ralph loop and its validation (src/pkg/ralph/control.go).  Reading the YAML
  text is the yaml library's work and is not modelled: a configuration is the decoded record.

  A Go map is an association list.  \<open>range\<close> over it visits its keys in an order that Go does not fix: the
  order of the list, so a property proved of every list holds for every order.
\<close>

section \<open>Configuration\<close>

definition ModeSequential :: string where "ModeSequential = ''sequential''"
definition ModeParallel :: string where "ModeParallel = ''parallel''"
definition ModeRoundRobin :: string where "ModeRoundRobin = ''round_robin''"
definition RotationNone :: string where "RotationNone = ''none''"
definition RotationTimeSliced :: string where "RotationTimeSliced = ''time_sliced''"
definition RotationRoundRobin :: string where "RotationRoundRobin = ''round_robin''"
definition BackendTypeInternal :: string where "BackendTypeInternal = ''internal''"

lemmas mode_names = ModeSequential_def ModeParallel_def ModeRoundRobin_def
lemmas rotation_names = RotationNone_def RotationTimeSliced_def RotationRoundRobin_def

record 'f BackendThresholds =
  th_MaxRequestsPerWindow :: int
  th_MaxCostPerHour :: 'f
  th_MaxContextPct :: int
  th_MaxConsecutiveErrors :: int

record ModelRule =
  mr_When :: string
  mr_Model :: string

record BackendModels =
  bm_Default :: string
  bm_Rules :: "ModelRule list"

record 'f BackendConfig =
  bc_Type :: string
  bc_Command :: string
  bc_Args :: "string list"
  bc_PromptTemplate :: string
  bc_Options :: "(string \<times> string) list"
  bc_Enabled :: bool
  bc_Thresholds :: "'f BackendThresholds"
  bc_Models :: BackendModels

record RotationConfig =
  rc_Mode :: string
  rc_Interval :: go_duration
  rc_Order :: "string list"

record MemoryConfig =
  mc_Enabled :: bool
  mc_SummaryInterval :: int
  mc_SummaryModel :: string
  mc_RetentionDays :: int
  mc_MaxRawTurns :: int

record ContextProcessingConfig =
  cp_Enabled :: bool
  cp_Model :: string
  cp_MaxOutputTokens :: int
  cp_BudgetPct :: int

record ScheduleTrigger =
  tr_AtIteration :: int
  tr_EveryIterations :: int
  tr_OnError :: string
  tr_When :: string
  tr_Cron :: string

record ScheduleRule =
  sr_Trigger :: ScheduleTrigger
  sr_Action :: string
  sr_Mode :: string
  sr_Backend :: string
  sr_Reason :: string

record OverrideConfig =
  oc_Paused :: bool
  oc_ActiveBackends :: "string list"
  oc_NextAction :: string
  oc_BackendOptions :: "(string \<times> (string \<times> string) list) list"

record 'f ControlConfig =
  cc_Backends :: "(string \<times> 'f BackendConfig) list"
  cc_Mode :: string
  cc_Rotation :: RotationConfig
  cc_Memory :: MemoryConfig
  cc_ContextProcessing :: ContextProcessingConfig
  cc_Schedule :: "ScheduleRule list"
  cc_Override :: OverrideConfig
  cc_MaxIterations :: int

section \<open>Validation\<close>

datatype validation_error =
    ConfigNil
  | InvalidMode string
  | InvalidRotationMode string
  | MissingRotationInterval
  | NoBackends
  | InternalHasCommand string
  | InternalHasArgs string
  | ExternalWithoutCommand string
  | BadContextPct string
  | RuleWithoutModel string
  | RuleWithoutWhen string

fun validateRules :: "string \<Rightarrow> ModelRule list \<Rightarrow> validation_error option" where
  "validateRules name [] = None"
| "validateRules name (rule # rules) =
     (if trim_space (mr_Model rule) = '''' then Some (RuleWithoutModel name)
      else if trim_space (mr_When rule) = '''' then Some (RuleWithoutWhen name)
      else validateRules name rules)"

definition validateBackend :: "string \<Rightarrow> 'f BackendConfig \<Rightarrow> validation_error option" where
  "validateBackend name backend =
     (if bc_Type backend = BackendTypeInternal \<and> bc_Command backend \<noteq> '''' then Some (InternalHasCommand name)
      else if bc_Type backend = BackendTypeInternal \<and> length (bc_Args backend) > 0 then Some (InternalHasArgs name)
      else if bc_Type backend \<noteq> BackendTypeInternal \<and> bc_Command backend = '''' then Some (ExternalWithoutCommand name)
      else if th_MaxContextPct (bc_Thresholds backend) < 0 \<or> th_MaxContextPct (bc_Thresholds backend) > 100
        then Some (BadContextPct name)
      else validateRules name (bm_Rules (bc_Models backend)))"

fun validateBackends :: "(string \<times> 'f BackendConfig) list \<Rightarrow> validation_error option" where
  "validateBackends [] = None"
| "validateBackends ((name, backend) # bs) =
     (case validateBackend name backend of Some e \<Rightarrow> Some e | None \<Rightarrow> validateBackends bs)"

text \<open>\<open>Validate\<close> fills in the default modes of the configuration it is called on.\<close>

definition Validate :: "'f ControlConfig option \<Rightarrow> validation_error option \<times> 'f ControlConfig option" where
  "Validate c0 =
     (case c0 of
        None \<Rightarrow> (Some ConfigNil, None)
      | Some c \<Rightarrow>
          (let c1 = (if cc_Mode c = '''' then c\<lparr>cc_Mode := ModeSequential\<rparr> else c);
               r = cc_Rotation c1;
               c2 = (if rc_Mode r = '''' then c1\<lparr>cc_Rotation := r\<lparr>rc_Mode := RotationNone\<rparr>\<rparr> else c1)
           in if cc_Mode c1 \<notin> {ModeSequential, ModeParallel, ModeRoundRobin} then (Some (InvalidMode (cc_Mode c1)), Some c1)
              else if rc_Mode (cc_Rotation c2) \<notin> {RotationNone, RotationTimeSliced, RotationRoundRobin}
                then (Some (InvalidRotationMode (rc_Mode (cc_Rotation c2))), Some c2)
              else if rc_Mode (cc_Rotation c2) = RotationTimeSliced \<and> rc_Interval (cc_Rotation c2) \<le> 0
                then (Some MissingRotationInterval, Some c2)
              else if length (cc_Backends c2) = 0 then (Some NoBackends, Some c2)
              else (validateBackends (cc_Backends c2), Some c2)))"

section \<open>What validation guarantees\<close>

definition backend_ok :: "'f BackendConfig \<Rightarrow> bool" where
  "backend_ok b =
     ((if bc_Type b = BackendTypeInternal then bc_Command b = '''' \<and> bc_Args b = [] else bc_Command b \<noteq> '''') \<and>
      0 \<le> th_MaxContextPct (bc_Thresholds b) \<and> th_MaxContextPct (bc_Thresholds b) \<le> 100 \<and>
      list_all (\<lambda>r. trim_space (mr_Model r) \<noteq> '''' \<and> trim_space (mr_When r) \<noteq> '''') (bm_Rules (bc_Models b)))"

definition config_ok :: "'f ControlConfig \<Rightarrow> bool" where
  "config_ok c =
     (cc_Mode c \<in> {ModeSequential, ModeParallel, ModeRoundRobin} \<and>
      rc_Mode (cc_Rotation c) \<in> {RotationNone, RotationTimeSliced, RotationRoundRobin} \<and>
      (rc_Mode (cc_Rotation c) = RotationTimeSliced \<longrightarrow> 0 < rc_Interval (cc_Rotation c)) \<and>
      cc_Backends c \<noteq> [] \<and> list_all (\<lambda>(n, b). backend_ok b) (cc_Backends c))"

lemma validateRules_None:
  "validateRules name rs = None \<longleftrightarrow>
     list_all (\<lambda>r. trim_space (mr_Model r) \<noteq> '''' \<and> trim_space (mr_When r) \<noteq> '''') rs"
  by (induction rs) auto

lemma validateBackend_None: "validateBackend name b = None \<longleftrightarrow> backend_ok b"
  by (auto simp: validateBackend_def backend_ok_def validateRules_None)

lemma validateBackends_None: "validateBackends bs = None \<longleftrightarrow> list_all (\<lambda>(n, b). backend_ok b) bs"
  by (induction bs) (auto simp: validateBackend_None split: option.splits)

text \<open>The two defaults, and what is checked once they are filled in.\<close>

definition fill_mode :: "'f ControlConfig \<Rightarrow> 'f ControlConfig" where
  "fill_mode c = (if cc_Mode c = '''' then c\<lparr>cc_Mode := ModeSequential\<rparr> else c)"

definition fill_rotation :: "'f ControlConfig \<Rightarrow> 'f ControlConfig" where
  "fill_rotation c = (if rc_Mode (cc_Rotation c) = ''''
     then c\<lparr>cc_Rotation := (cc_Rotation c)\<lparr>rc_Mode := RotationNone\<rparr>\<rparr> else c)"

definition check_filled :: "'f ControlConfig \<Rightarrow> validation_error option" where
  "check_filled c =
     (if rc_Mode (cc_Rotation c) \<notin> {RotationNone, RotationTimeSliced, RotationRoundRobin}
        then Some (InvalidRotationMode (rc_Mode (cc_Rotation c)))
      else if rc_Mode (cc_Rotation c) = RotationTimeSliced \<and> rc_Interval (cc_Rotation c) \<le> 0
        then Some MissingRotationInterval
      else if length (cc_Backends c) = 0 then Some NoBackends
      else validateBackends (cc_Backends c))"

lemma Validate_eq:
  "Validate (Some c) =
     (if cc_Mode (fill_mode c) \<notin> {ModeSequential, ModeParallel, ModeRoundRobin}
      then (Some (InvalidMode (cc_Mode (fill_mode c))), Some (fill_mode c))
      else (check_filled (fill_rotation (fill_mode c)), Some (fill_rotation (fill_mode c))))"
  unfolding Validate_def fill_mode_def [symmetric] fill_rotation_def [symmetric] check_filled_def Let_def option.case
  by (simp only: if_distrib [of "\<lambda>e. (e, _)"])

lemma check_filled_None:
  "check_filled c = None \<longleftrightarrow>
     rc_Mode (cc_Rotation c) \<in> {RotationNone, RotationTimeSliced, RotationRoundRobin} \<and>
     (rc_Mode (cc_Rotation c) = RotationTimeSliced \<longrightarrow> 0 < rc_Interval (cc_Rotation c)) \<and>
     cc_Backends c \<noteq> [] \<and> list_all (\<lambda>(n, b). backend_ok b) (cc_Backends c)"
  unfolding check_filled_def validateBackends_None [symmetric] by (auto split: if_splits)

lemma config_ok_iff:
  "config_ok c \<longleftrightarrow> cc_Mode c \<in> {ModeSequential, ModeParallel, ModeRoundRobin} \<and> check_filled c = None"
  unfolding config_ok_def check_filled_None by blast

lemma fill_idem [simp]:
  "fill_mode (fill_mode c) = fill_mode c" "fill_rotation (fill_rotation c) = fill_rotation c"
  "cc_Mode (fill_rotation c) = cc_Mode c"
  "fill_mode (fill_rotation (fill_mode c)) = fill_rotation (fill_mode c)"
  by (auto simp: fill_mode_def fill_rotation_def mode_names rotation_names)

text \<open>Validation succeeds exactly if the configuration it leaves behind is well formed: a known mode, a known
  rotation mode with an interval if it is time-sliced, at least one backend, and every backend either
  internal without a command or external with one, a context limit that is a percentage, and model
  rules that are complete.  Validating a second time gives the same result and changes nothing.\<close>

theorem validate_iff:
  "(fst (Validate (Some c)) = None \<longleftrightarrow> config_ok (the (snd (Validate (Some c))))) \<and>
   Validate (snd (Validate (Some c))) = Validate (Some c)"
proof (cases "cc_Mode (fill_mode c) \<in> {ModeSequential, ModeParallel, ModeRoundRobin}")
  case True
  then have "Validate (Some c) = (check_filled (fill_rotation (fill_mode c)), Some (fill_rotation (fill_mode c)))"
    "Validate (Some (fill_rotation (fill_mode c))) = Validate (Some c)"
    by (simp_all only: Validate_eq fill_idem if_True if_False not_not not_True_eq_False)
  then show ?thesis using True by (simp only: fst_conv snd_conv option.sel config_ok_iff fill_idem) blast
next
  case False
  then have "Validate (Some c) = (Some (InvalidMode (cc_Mode (fill_mode c))), Some (fill_mode c))"
    "Validate (Some (fill_mode c)) = Validate (Some c)"
    by (simp_all only: Validate_eq fill_idem if_True not_False_eq_True)
  then show ?thesis using False by (simp only: fst_conv snd_conv option.sel config_ok_iff fill_idem) blast
qed

end
