(* ===== verification/Ralph_Schedule.thy ===== *)
theory Ralph_Schedule
  imports Go_Numbers
begin

text \<open>
  Schedule expressions of the Ralph loop (src/pkg/ralph/schedule.go): cron expressions, their parser and
  their match against a point in time, and the \<open>when\<close> expressions over the counters of a session.

  A point in time is given by the five calendar fields the code reads from it; how they follow
  from the clock depends on the time zone and is outside the model.  The names of parsing errors
  are the source's reasons.

  Shown here: what the parser returns is well formed, printing a well-formed specification and parsing it
  gives it back, and some accepted intervals match nothing.
\<close>

section \<open>Cron expressions\<close>

record fieldSpec =
  fs_all :: bool
  fs_interval :: int
  fs_values :: "int list"
  fs_ranges :: "(int \<times> int) list"

definition empty_field :: fieldSpec where
  "empty_field = \<lparr>fs_all = False, fs_interval = 0, fs_values = [], fs_ranges = []\<rparr>"

record CronSpec =
  cs_minute :: fieldSpec
  cs_hour :: fieldSpec
  cs_dayOfMonth :: fieldSpec
  cs_month :: fieldSpec
  cs_dayOfWeek :: fieldSpec

record CronParseError =
  cpe_Expr :: string
  cpe_Reason :: string

definition CronParseError_Error :: "CronParseError \<Rightarrow> string" where
  "CronParseError_Error e = ''invalid cron expression: '' @ cpe_Expr e @ '': '' @ cpe_Reason e"

text \<open>The loop over the parts of a list; \<open>s\<close> is the whole field, which errors report.\<close>

fun parse_parts :: "string \<Rightarrow> int \<Rightarrow> int \<Rightarrow> string list \<Rightarrow> fieldSpec \<Rightarrow> CronParseError + fieldSpec" where
  "parse_parts s lo hi [] spec = Inr spec"
| "parse_parts s lo hi (part # parts) spec =
     (if contains part ''-'' then
        (case split_on CHR ''-'' part of
           [a, b] \<Rightarrow>
             (case (atoi a, atoi b) of
                (Some start, Some end) \<Rightarrow>
                  if start > end \<or> start < lo \<or> end > hi
                  then Inl \<lparr>cpe_Expr = s, cpe_Reason = ''invalid range values''\<rparr>
                  else parse_parts s lo hi parts (spec\<lparr>fs_ranges := fs_ranges spec @ [(start, end)]\<rparr>)
              | _ \<Rightarrow> Inl \<lparr>cpe_Expr = s, cpe_Reason = ''invalid range values''\<rparr>)
         | _ \<Rightarrow> Inl \<lparr>cpe_Expr = s, cpe_Reason = ''invalid range''\<rparr>)
      else
        (case atoi part of
           Some v \<Rightarrow>
             if v < lo \<or> v > hi then Inl \<lparr>cpe_Expr = s, cpe_Reason = ''invalid value''\<rparr>
             else parse_parts s lo hi parts (spec\<lparr>fs_values := fs_values spec @ [v]\<rparr>)
         | None \<Rightarrow> Inl \<lparr>cpe_Expr = s, cpe_Reason = ''invalid value''\<rparr>))"

definition parseField :: "string \<Rightarrow> int \<Rightarrow> int \<Rightarrow> CronParseError + fieldSpec" where
  "parseField s lo hi =
     (if s = ''*'' then Inr (empty_field\<lparr>fs_all := True\<rparr>)
      else if has_prefix s ''*/'' then
        (case atoi (drop 2 s) of
           Some n \<Rightarrow> if n \<le> 0 then Inl \<lparr>cpe_Expr = s, cpe_Reason = ''invalid interval''\<rparr>
                     else Inr (empty_field\<lparr>fs_interval := n\<rparr>)
         | None \<Rightarrow> Inl \<lparr>cpe_Expr = s, cpe_Reason = ''invalid interval''\<rparr>)
      else parse_parts s lo hi (split_on CHR '','' s) empty_field)"

definition ParseCron :: "string \<Rightarrow> CronParseError + CronSpec" where
  "ParseCron expr =
     (case Go_Prelude.fields expr of
        [p0, p1, p2, p3, p4] \<Rightarrow>
          (case parseField p0 0 59 of Inl e \<Rightarrow> Inl e | Inr mi \<Rightarrow>
          (case parseField p1 0 23 of Inl e \<Rightarrow> Inl e | Inr hr \<Rightarrow>
          (case parseField p2 1 31 of Inl e \<Rightarrow> Inl e | Inr dm \<Rightarrow>
          (case parseField p3 1 12 of Inl e \<Rightarrow> Inl e | Inr mo \<Rightarrow>
          (case parseField p4 0 6 of Inl e \<Rightarrow> Inl e | Inr dw \<Rightarrow>
             Inr \<lparr>cs_minute = mi, cs_hour = hr, cs_dayOfMonth = dm, cs_month = mo,
                  cs_dayOfWeek = dw\<rparr>)))))
      | _ \<Rightarrow> Inl \<lparr>cpe_Expr = expr, cpe_Reason = ''expected 5 fields''\<rparr>)"

definition field_matches :: "fieldSpec \<Rightarrow> int \<Rightarrow> bool" where
  "field_matches f v =
     (if fs_all f then True
      else if fs_interval f > 0 then go_rem v (fs_interval f) = 0
      else list_ex (\<lambda>w. w = v) (fs_values f) \<or> list_ex (\<lambda>(a, b). v \<ge> a \<and> v \<le> b) (fs_ranges f))"

text \<open>The calendar fields of a \<open>time.Time\<close>.\<close>

record Calendar =
  cal_Minute :: int
  cal_Hour :: int
  cal_Day :: int
  cal_Month :: int
  cal_Weekday :: int

definition Matches :: "CronSpec option \<Rightarrow> Calendar \<Rightarrow> bool" where
  "Matches c0 t =
     (case c0 of
        None \<Rightarrow> False
      | Some c \<Rightarrow>
          field_matches (cs_minute c) (cal_Minute t) \<and> field_matches (cs_hour c) (cal_Hour t) \<and>
          field_matches (cs_dayOfMonth c) (cal_Day t) \<and> field_matches (cs_month c) (cal_Month t) \<and>
          field_matches (cs_dayOfWeek c) (cal_Weekday t))"

section \<open>When expressions\<close>

record 'f WhenContext =
  wc_Iteration :: int
  wc_ErrorCount :: int
  wc_ConsecErrors :: int
  wc_TotalCost :: 'f
  wc_TotalTokens :: int
  wc_ElapsedMinutes :: int
  wc_HasError :: bool

definition whenValue :: "'f float_ops \<Rightarrow> string \<Rightarrow> 'f WhenContext \<Rightarrow> 'f option" where
  "whenValue fo name ctx =
     (if name = ''iteration'' then Some (f_of_int fo (wc_Iteration ctx))
      else if name = ''error_count'' then Some (f_of_int fo (wc_ErrorCount ctx))
      else if name = ''consec_errors'' then Some (f_of_int fo (wc_ConsecErrors ctx))
      else if name = ''cost'' then Some (wc_TotalCost ctx)
      else if name = ''tokens'' then Some (f_of_int fo (wc_TotalTokens ctx))
      else if name = ''elapsed'' then Some (f_of_int fo (wc_ElapsedMinutes ctx))
      else None)"

definition compareValues :: "'f float_ops \<Rightarrow> 'f \<Rightarrow> string \<Rightarrow> 'f \<Rightarrow> bool" where
  "compareValues fo x cmp y =
     (if cmp = ''>'' then f_less fo y x
      else if cmp = ''>='' then f_le fo y x
      else if cmp = ''<'' then f_less fo x y
      else if cmp = ''<='' then f_le fo x y
      else if cmp = ''=='' then f_eq fo x y
      else if cmp = ''!='' then \<not> f_eq fo x y
      else False)"

definition EvalWhen :: "'f float_ops \<Rightarrow> string \<Rightarrow> 'f WhenContext \<Rightarrow> bool" where
  "EvalWhen fo expr0 ctx =
     (let expr = trim_space expr0 in
      if expr = '''' then False
      else if expr = ''has_error'' then wc_HasError ctx
      else (let parts = Go_Prelude.fields expr in
        if length parts = 5 \<and> parts ! 1 = ''%'' then
          (case whenValue fo (parts ! 0) ctx of
             None \<Rightarrow> False
           | Some varValue \<Rightarrow>
               (case atoi (parts ! 2) of
                  None \<Rightarrow> False
                | Some modValue \<Rightarrow>
                    if modValue = 0 then False
                    else (case atoi (parts ! 4) of
                            None \<Rightarrow> False
                          | Some targetValue \<Rightarrow>
                              compareValues fo (f_of_int fo (go_rem (f_to_int fo varValue) modValue))
                                (parts ! 3) (f_of_int fo targetValue))))
        else if length parts \<noteq> 3 then False
        else (case whenValue fo (parts ! 0) ctx of
                None \<Rightarrow> False
              | Some varValue \<Rightarrow>
                  (case f_parse fo (parts ! 2) of
                     None \<Rightarrow> False
                   | Some targetValue \<Rightarrow> compareValues fo varValue (parts ! 1) targetValue))))"


section \<open>Well-formed specifications\<close>

definition valid_field :: "int \<Rightarrow> int \<Rightarrow> fieldSpec \<Rightarrow> bool" where
  "valid_field lo hi f =
     (if fs_all f then f = empty_field\<lparr>fs_all := True\<rparr>
      else if fs_interval f \<noteq> 0 then
        f = empty_field\<lparr>fs_interval := fs_interval f\<rparr> \<and> 0 < fs_interval f \<and> fs_interval f < 2 ^ 63
      else (fs_values f \<noteq> [] \<or> fs_ranges f \<noteq> []) \<and>
        list_all (\<lambda>v. lo \<le> v \<and> v \<le> hi) (fs_values f) \<and>
        list_all (\<lambda>(a, b). lo \<le> a \<and> a \<le> b \<and> b \<le> hi) (fs_ranges f))"

definition valid_cron :: "CronSpec \<Rightarrow> bool" where
  "valid_cron c =
     (valid_field 0 59 (cs_minute c) \<and> valid_field 0 23 (cs_hour c) \<and> valid_field 1 31 (cs_dayOfMonth c) \<and>
      valid_field 1 12 (cs_month c) \<and> valid_field 0 6 (cs_dayOfWeek c))"

definition items_ok :: "int \<Rightarrow> int \<Rightarrow> fieldSpec \<Rightarrow> bool" where
  "items_ok lo hi f =
     (\<not> fs_all f \<and> fs_interval f = 0 \<and> list_all (\<lambda>v. lo \<le> v \<and> v \<le> hi) (fs_values f) \<and>
      list_all (\<lambda>(a, b). lo \<le> a \<and> a \<le> b \<and> b \<le> hi) (fs_ranges f))"

lemma parse_parts_ok:
  "\<lbrakk>parse_parts s lo hi parts spec = Inr f; items_ok lo hi spec\<rbrakk>
   \<Longrightarrow> items_ok lo hi f \<and>
       length (fs_values f) + length (fs_ranges f) =
         length (fs_values spec) + length (fs_ranges spec) + length parts"
proof (induction parts arbitrary: spec)
  case (Cons part parts)
  show ?case
  proof (cases "contains part ''-''")
    case True
    with Cons.prems(1) obtain a b start "end" where *: "split_on CHR ''-'' part = [a, b]"
      "lo \<le> start" "start \<le> end" "end \<le> hi"
      "parse_parts s lo hi parts (spec\<lparr>fs_ranges := fs_ranges spec @ [(start, end)]\<rparr>) = Inr f"
      by (auto simp: not_less split: list.splits option.splits if_splits)
    then show ?thesis using Cons.IH [OF *(5)] Cons.prems(2) by (simp add: items_ok_def)
  next
    case False
    with Cons.prems(1) obtain v where *: "lo \<le> v" "v \<le> hi"
      "parse_parts s lo hi parts (spec\<lparr>fs_values := fs_values spec @ [v]\<rparr>) = Inr f"
      by (auto simp: not_less split: option.splits if_splits)
    then show ?thesis using Cons.IH [OF *(3)] Cons.prems(2) by (simp add: items_ok_def)
  qed
qed simp

lemma atoi_bound: "atoi s = Some v \<Longrightarrow> v < 2 ^ 63"
  by (auto simp: atoi_def Let_def split: list.splits if_splits)

lemma parseField_valid:
  assumes "parseField s lo hi = Inr f" shows "valid_field lo hi f"
proof -
  consider "s = ''*''" | "s \<noteq> ''*''" "has_prefix s ''*/''" | "s \<noteq> ''*''" "\<not> has_prefix s ''*/''" by blast
  then show ?thesis
  proof cases
    case 1
    then show ?thesis using assms by (auto simp: parseField_def valid_field_def)
  next
    case 2
    then show ?thesis
      using assms by (auto simp: parseField_def valid_field_def empty_field_def dest!: atoi_bound
          split: option.splits if_splits)
  next
    case 3
    then have run: "parse_parts s lo hi (split_on CHR '','' s) empty_field = Inr f"
      using assms by (simp add: parseField_def)
    have "items_ok lo hi empty_field" by (simp add: items_ok_def empty_field_def)
    from parse_parts_ok [OF run this] have "items_ok lo hi f"
      "length (fs_values f) + length (fs_ranges f) \<noteq> 0" by (auto simp: empty_field_def)
    then show ?thesis by (auto simp: valid_field_def items_ok_def)
  qed
qed

text \<open>C39: What \<open>ParseCron\<close> accepts is well formed: each field is the wildcard alone, an interval alone - a positive number that
  need not be within the bounds of the field - or a non-empty list of values and ranges that lie within the bounds of the field, each
  range in ascending order.\<close>

theorem parse_cron_valid:
  assumes "ParseCron expr = Inr c" shows "valid_cron c"
  using assms unfolding ParseCron_def valid_cron_def
  by (auto split: list.splits sum.splits dest!: parseField_valid)

section \<open>Printing\<close>

definition print_range :: "int \<times> int \<Rightarrow> string" where
  "print_range r = itoa_nat (nat (fst r)) @ CHR ''-'' # itoa_nat (nat (snd r))"

definition print_field :: "fieldSpec \<Rightarrow> string" where
  "print_field f =
     (if fs_all f then ''*''
      else if fs_interval f > 0 then ''*/'' @ itoa_nat (nat (fs_interval f))
      else join_with CHR '','' (map (\<lambda>v. itoa_nat (nat v)) (fs_values f) @ map print_range (fs_ranges f)))"

definition print_cron :: "CronSpec \<Rightarrow> string" where
  "print_cron c = join_with CHR '' '' (map print_field
     [cs_minute c, cs_hour c, cs_dayOfMonth c, cs_month c, cs_dayOfWeek c])"

lemma itoa_not_contains: "\<not> contains (itoa_nat n) ''-''"
  by (rule contains_fresh [of "CHR ''-''"]) (auto intro!: itoa_no_char simp: is_digit_def)

lemma parse_values:
  "\<lbrakk>list_all (\<lambda>v. 0 \<le> v \<and> lo \<le> v \<and> v \<le> hi) vs; hi < 2 ^ 63\<rbrakk> \<Longrightarrow>
   parse_parts s lo hi (map (\<lambda>v. itoa_nat (nat v)) vs @ ps) spec =
   parse_parts s lo hi ps (spec\<lparr>fs_values := fs_values spec @ vs\<rparr>)"
  by (induction vs arbitrary: spec) (auto simp: itoa_not_contains atoi_itoa_nat)

lemma split_print_range:
  "split_on CHR ''-'' (print_range r) = [itoa_nat (nat (fst r)), itoa_nat (nat (snd r))]"
proof -
  have "CHR ''-'' \<notin> set (itoa_nat n)" for n by (rule itoa_no_char) (simp add: is_digit_def)
  then show ?thesis by (simp add: print_range_def split_on_append split_on_no_sep)
qed

lemma parse_ranges:
  "\<lbrakk>list_all (\<lambda>(a, b). 0 \<le> a \<and> lo \<le> a \<and> a \<le> b \<and> b \<le> hi) rs; hi < 2 ^ 63\<rbrakk> \<Longrightarrow>
   parse_parts s lo hi (map print_range rs) spec = Inr (spec\<lparr>fs_ranges := fs_ranges spec @ rs\<rparr>)"
proof (induction rs arbitrary: spec)
  case (Cons r rs)
  have "contains (print_range r) ''-''" by (auto simp: contains_iff print_range_def)
  then show ?case using Cons by (cases r) (auto simp: split_print_range atoi_itoa_nat)
qed simp

lemma print_items_chars:
  "w \<in> set (map (\<lambda>v. itoa_nat (nat v)) vs @ map print_range rs) \<Longrightarrow>
   w \<noteq> [] \<and> (\<forall>c \<in> set w. is_digit c \<or> c = CHR ''-'')"
  using itoa_nat_digits by (auto simp: print_range_def dest: itoa_nat_chars)

lemma print_field_plain:
  "\<lbrakk>\<not> fs_all f; fs_interval f = 0; fs_values f \<noteq> [] \<or> fs_ranges f \<noteq> []\<rbrakk> \<Longrightarrow>
   print_field f \<noteq> [] \<and> (\<forall>c \<in> set (print_field f). is_digit c \<or> c = CHR ''-'' \<or> c = CHR '','')"
proof -
  assume a: "\<not> fs_all f" "fs_interval f = 0" "fs_values f \<noteq> [] \<or> fs_ranges f \<noteq> []"
  let ?ws = "map (\<lambda>v. itoa_nat (nat v)) (fs_values f) @ map print_range (fs_ranges f)"
  have "print_field f = join_with CHR '','' ?ws" using a by (simp add: print_field_def)
  moreover have "join_with CHR '','' ?ws \<noteq> []"
    using a print_items_chars by (subst join_with_Nil_iff) auto
  moreover have "is_digit c \<or> c = CHR ''-'' \<or> c = CHR '',''" if "c \<in> set (join_with CHR '','' ?ws)" for c
    using that join_with_set [of "CHR '',''" ?ws] print_items_chars [of _ "fs_values f" "fs_ranges f"] by blast
  ultimately show ?thesis by simp
qed

lemma print_field_no_space:
  "valid_field lo hi f \<Longrightarrow> print_field f \<noteq> [] \<and> (\<forall>c \<in> set (print_field f). \<not> is_space c)"
proof (cases "fs_all f \<or> fs_interval f \<noteq> 0")
  case True
  moreover assume "valid_field lo hi f"
  ultimately show ?thesis
    by (auto simp: print_field_def valid_field_def is_space_def dest!: itoa_nat_chars
        simp: is_digit_def Let_def split: if_splits)
next
  case False
  moreover assume "valid_field lo hi f"
  ultimately show ?thesis
    using print_field_plain [of f] by (auto simp: valid_field_def is_space_def is_digit_def Let_def)
qed

lemma parse_print_field:
  assumes "valid_field lo hi f" "0 \<le> lo" "hi < 2 ^ 63"
  shows "parseField (print_field f) lo hi = Inr f"
proof -
  consider "fs_all f" | "\<not> fs_all f" "fs_interval f \<noteq> 0" | "\<not> fs_all f" "fs_interval f = 0" by blast
  then show ?thesis
  proof cases
    case 1
    then show ?thesis using assms(1) by (simp add: valid_field_def print_field_def parseField_def)
  next
    case 2
    then have i: "0 < fs_interval f" "fs_interval f < 2 ^ 63" "f = empty_field\<lparr>fs_interval := fs_interval f\<rparr>"
      using assms(1) by (auto simp: valid_field_def)
    then have "atoi (itoa_nat (nat (fs_interval f))) = Some (fs_interval f)" by (simp add: atoi_itoa_nat)
    then show ?thesis using 2 i by (simp add: print_field_def parseField_def has_prefix_def)
  next
    case 3
    let ?ws = "map (\<lambda>v. itoa_nat (nat v)) (fs_values f) @ map print_range (fs_ranges f)"
    have ok: "fs_values f \<noteq> [] \<or> fs_ranges f \<noteq> []"
      "list_all (\<lambda>v. 0 \<le> v \<and> lo \<le> v \<and> v \<le> hi) (fs_values f)"
      "list_all (\<lambda>(a, b). 0 \<le> a \<and> lo \<le> a \<and> a \<le> b \<and> b \<le> hi) (fs_ranges f)"
      using 3 assms by (auto simp: valid_field_def list_all_iff)
    have eq: "print_field f = join_with CHR '','' ?ws" using 3 by (simp add: print_field_def)
    have "\<not> is_digit CHR ''*''" by (simp add: is_digit_def)
    then have "CHR ''*'' \<notin> set (print_field f)" using print_field_plain [OF 3 ok(1)] by auto
    then have "print_field f \<noteq> ''*''" "\<not> has_prefix (print_field f) ''*/''"
      by (auto simp: has_prefix_iff dest: set_mono_prefix)
    moreover have "split_on CHR '','' (print_field f) = ?ws"
      unfolding eq
    proof (rule split_on_join_with)
      show "?ws \<noteq> []" using ok(1) by simp
      show "\<forall>w \<in> set ?ws. CHR '','' \<notin> set w" using print_items_chars digit_not_sign by blast
    qed
    ultimately have "parseField (print_field f) lo hi = parse_parts (print_field f) lo hi ?ws empty_field"
      by (simp add: parseField_def)
    also have "\<dots> = Inr (empty_field\<lparr>fs_values := fs_values f, fs_ranges := fs_ranges f\<rparr>)"
      using ok assms(3) by (simp add: parse_values parse_ranges empty_field_def)
    finally show ?thesis using 3 by (cases f) (simp add: empty_field_def)
  qed
qed

text \<open>C38: Printing a well-formed cron specification and parsing the text gives the specification back, so the
  parser loses nothing and every well-formed specification can be written.\<close>

theorem cron_roundtrip:
  assumes "valid_cron c" shows "ParseCron (print_cron c) = Inr c"
proof -
  let ?fs = "[cs_minute c, cs_hour c, cs_dayOfMonth c, cs_month c, cs_dayOfWeek c]"
  have "\<forall>w \<in> set (map print_field ?fs). w \<noteq> [] \<and> (\<forall>ch \<in> set w. \<not> is_space ch)"
    using assms print_field_no_space by (auto simp: valid_cron_def)
  then have "Go_Prelude.fields (print_cron c) = map print_field ?fs" unfolding print_cron_def by (rule fields_join)
  then show ?thesis
    using assms by (cases c) (simp add: ParseCron_def valid_cron_def parse_print_field)
qed


section \<open>Intervals that match nothing\<close>

definition valid_calendar :: "Calendar \<Rightarrow> bool" where
  "valid_calendar t =
     (0 \<le> cal_Minute t \<and> cal_Minute t \<le> 59 \<and> 0 \<le> cal_Hour t \<and> cal_Hour t \<le> 23 \<and>
      1 \<le> cal_Day t \<and> cal_Day t \<le> 31 \<and> 1 \<le> cal_Month t \<and> cal_Month t \<le> 12 \<and>
      0 \<le> cal_Weekday t \<and> cal_Weekday t \<le> 6)"

text \<open>The parser accepts intervals that no value of the field satisfies: the expression for every thirteenth
  month is accepted and matches at no time.\<close>

theorem interval_never_matches:
  "(case ParseCron ''0 0 1 */13 *'' of
      Inl _ \<Rightarrow> False
    | Inr c \<Rightarrow> (\<forall>t. \<not> (valid_calendar t \<and> Matches (Some c) t)))"
proof -
  let ?c = "\<lparr>cs_minute = empty_field\<lparr>fs_values := [0]\<rparr>, cs_hour = empty_field\<lparr>fs_values := [0]\<rparr>,
    cs_dayOfMonth = empty_field\<lparr>fs_values := [1]\<rparr>, cs_month = empty_field\<lparr>fs_interval := 13\<rparr>,
    cs_dayOfWeek = empty_field\<lparr>fs_all := True\<rparr>\<rparr>"
  have "ParseCron ''0 0 1 */13 *'' = Inr ?c" by code_simp
  moreover have "\<not> (valid_calendar t \<and> Matches (Some ?c) t)" for t
    by (auto simp: Matches_def valid_calendar_def field_matches_def empty_field_def)
  ultimately show ?thesis by simp
qed

text \<open>A \<open>when\<close> expression of the form \<open>var % mod op value\<close> with a zero modulus, an unknown variable or a
  number that does not parse is false whatever the counters are; no expression divides by zero.\<close>

theorem when_guarded:
  assumes "Go_Prelude.fields (trim_space expr) = [var, ''%'', m, cmp, target]"
    "whenValue fo var ctx = None \<or> atoi m = None \<or> atoi m = Some 0 \<or> atoi target = None"
  shows "\<not> EvalWhen fo expr ctx"
proof -
  have "trim_space expr \<noteq> ''has_error''"
  proof
    assume "trim_space expr = ''has_error''"
    moreover have "Go_Prelude.fields ''has_error'' = [''has_error'']" by code_simp
    ultimately show False using assms(1) by simp
  qed
  then show ?thesis using assms by (auto simp: EvalWhen_def Let_def split: option.splits)
qed

section \<open>Samples\<close>

definition workday_noon :: CronSpec where
  "workday_noon = \<lparr>cs_minute = empty_field\<lparr>fs_values := [0, 30]\<rparr>,
     cs_hour = empty_field\<lparr>fs_ranges := [(9, 17)]\<rparr>, cs_dayOfMonth = empty_field\<lparr>fs_all := True\<rparr>,
     cs_month = empty_field\<lparr>fs_interval := 3\<rparr>, cs_dayOfWeek = empty_field\<lparr>fs_ranges := [(1, 5)]\<rparr>\<rparr>"

lemma workday_valid: "valid_cron workday_noon"
  by code_simp

theorem cron_roundtrip_witness:
  "print_cron workday_noon = ''0,30 9-17 * */3 1-5'' \<and> ParseCron (print_cron workday_noon) = Inr workday_noon"
proof
  show "print_cron workday_noon = ''0,30 9-17 * */3 1-5''" by code_simp
  show "ParseCron (print_cron workday_noon) = Inr workday_noon" by (rule cron_roundtrip [OF workday_valid])
qed

lemma workday_parsed: "ParseCron ''0,30 9-17 * */3 1-5'' = Inr workday_noon"
  by code_simp

theorem parse_cron_valid_witness: "valid_cron workday_noon"
  using parse_cron_valid [OF workday_parsed] .

end
