(* ===== verification/Ralph_Orchestrator.thy ===== *)
theory Ralph_Orchestrator
  imports Ralph_Control Ralph_Schedule "HOL-Library.AList" "HOL-Library.Multiset"
begin

text \<open>
  The orchestrator of the Ralph loop (src/pkg/ralph/orchestrator.go): it decides which backends may run,
  in which order, fails over from a rate-limited backend to the next, keeps the statistics from which
  backends are parked, and evaluates the schedule rules.

  Outside the model and therefore arguments (\<open>orch_env\<close>): the operations of \<open>float64\<close>, the calendar of the local
  time zone, the tokenizer behind \<open>conversation.CountTokens\<close>, and \<open>ParseRateLimitResponse\<close>
  (src/pkg/ralph/rate_limit.go: regular expressions and time layouts).  A backend is its name, whether it is
  available and the function its \<open>Execute\<close> computes in the run at hand.

  Each critical section under \<open>o.mu\<close> is one function on the state; a reading of the clock is an argument, one for
  each critical section.  \<open>executeParallel\<close> takes the order in which its goroutines record their results.
  The backend states are shared by pointer with the candidates, which never read them again; the model keeps them in
  the state only.  A nil orchestrator returns at once and is not modelled.
\<close>

section \<open>Data\<close>

datatype BackendStatus = BackendActive | BackendParked | BackendDisabled

record 'f backendState =
  bs_status :: BackendStatus
  bs_parkedUntil :: go_time
  bs_lastError :: string
  bs_errorCount :: int
  bs_consecErrors :: int
  bs_totalCost :: 'f
  bs_totalTokens :: int
  bs_windowStart :: go_time
  bs_requestsCount :: int
  bs_costInWindow :: 'f
  bs_windowReset :: go_time
  bs_lastModel :: string
  bs_lastUsed :: go_time

text \<open>A value of Go's type \<open>any\<close>, as far as \<open>promptTokenCount\<close> tells them apart.\<close>

datatype 'f any_value = AnyInt int | AnyInt64 int | AnyFloat 'f | AnyString string | AnyOther

record 'f BackendRequest =
  br_Prompt :: string
  br_Model :: string
  br_SandboxPath :: string
  br_Iteration :: int
  br_SessionID :: string
  br_SessionFiles :: "string list"
  br_Context :: "(string \<times> 'f any_value) list"

record 'f BackendResult =
  re_Backend :: string
  re_Model :: string
  re_Duration :: go_duration
  re_TokensIn :: int
  re_TokensOut :: int
  re_Cost :: 'f
  re_CostEstimate :: 'f
  re_FilesChanged :: "string list"
  re_TestsPassed :: int
  re_TestsFailed :: int
  re_Output :: string
  re_Error :: "string option"

record 'f Backend =
  be_Name :: string
  be_Available :: bool
  be_Execute :: "'f BackendRequest \<Rightarrow> 'f BackendResult option \<times> string option"

record RateLimitInfo =
  rl_RetryAfter :: go_duration
  rl_WindowResets :: go_time
  rl_ErrorPattern :: string

record 'f backendCandidate =
  cd_name :: string
  cd_backend :: "'f Backend"
  cd_config :: "'f BackendConfig"
  cd_model :: string

record ScheduleAction =
  sa_Action :: string
  sa_Mode :: string
  sa_Backend :: string
  sa_Reason :: string

datatype log_event =
    LogModelSwitch string string string string
  | LogBackendSwitch string string string

datatype exec_error =
    ErrAllBackendsParked go_time
  | NoAvailableBackends
  | UnknownMode string
  | ExecError string
  | AllBackendsFailed

record 'f orch_env =
  oe_floats :: "'f float_ops"
  oe_calendar :: "go_time \<Rightarrow> Calendar"
  oe_count_tokens :: "string \<Rightarrow> int"
  oe_rate_limit :: "string \<Rightarrow> RateLimitInfo option"

record 'f Orchestrator =
  or_registry :: "(string \<times> 'f Backend) list"
  or_config :: "'f ControlConfig option"
  or_currentBackend :: nat
  or_lastRotation :: go_time
  or_iteration :: int
  or_backendStates :: "(string \<times> 'f backendState) list"
  or_logger :: "log_event list option"
  or_contextProvider :: "(string \<Rightarrow> int) option"
  or_lastBackend :: string
  or_startTime :: go_time
  or_errorCount :: int
  or_consecErrors :: int
  or_totalCost :: 'f
  or_totalTokens :: int
  or_lastCronCheck :: go_time

definition defaultWindowDuration :: go_duration where "defaultWindowDuration = 60 * minute"
definition defaultErrorCooldown :: go_duration where "defaultErrorCooldown = 2 * minute"
definition defaultContextCooldown :: go_duration where "defaultContextCooldown = 2 * minute"
definition defaultRateLimitBackoff :: go_duration where "defaultRateLimitBackoff = minute"

definition NewOrchestrator ::
    "'f float_ops \<Rightarrow> go_time \<Rightarrow> (string \<times> 'f Backend) list \<Rightarrow> 'f ControlConfig option \<Rightarrow> 'f Orchestrator" where
  "NewOrchestrator fo now registry config =
     \<lparr>or_registry = registry, or_config = config, or_currentBackend = 0, or_lastRotation = 0, or_iteration = 0,
      or_backendStates = [], or_logger = None, or_contextProvider = None, or_lastBackend = '''',
      or_startTime = now, or_errorCount = 0, or_consecErrors = 0, or_totalCost = f_zero fo, or_totalTokens = 0,
      or_lastCronCheck = 0\<rparr>"

section \<open>The backend registry\<close>

text \<open>src/pkg/ralph/backend_registry.go.\<close>

definition Register :: "'f Backend \<Rightarrow> (string \<times> 'f Backend) list \<Rightarrow> (string \<times> 'f Backend) list" where
  "Register b r = AList.update (be_Name b) b r"

definition registry_Get :: "(string \<times> 'f Backend) list \<Rightarrow> string \<Rightarrow> 'f Backend option" where
  "registry_Get r name = map_of r name"

definition registry_List :: "(string \<times> 'f Backend) list \<Rightarrow> 'f Backend list" where
  "registry_List r = map snd r"

definition registry_Available :: "(string \<times> 'f Backend) list \<Rightarrow> 'f Backend list" where
  "registry_Available r = filter be_Available (map snd r)"

section \<open>Backend states\<close>

definition fresh_state :: "'f float_ops \<Rightarrow> 'f backendState" where
  "fresh_state fo =
     \<lparr>bs_status = BackendActive, bs_parkedUntil = 0, bs_lastError = '''', bs_errorCount = 0, bs_consecErrors = 0,
      bs_totalCost = f_zero fo, bs_totalTokens = 0, bs_windowStart = 0, bs_requestsCount = 0,
      bs_costInWindow = f_zero fo, bs_windowReset = 0, bs_lastModel = '''', bs_lastUsed = 0\<rparr>"

definition ensureBackendStateLocked :: "'f float_ops \<Rightarrow> string \<Rightarrow> (string \<times> 'f backendState) list \<Rightarrow> 'f backendState" where
  "ensureBackendStateLocked fo name sts = (case map_of sts name of Some st \<Rightarrow> st | None \<Rightarrow> fresh_state fo)"

text \<open>\<open>put_state\<close> is the write through the pointer that \<open>ensureBackendStateLocked\<close> returned.\<close>

definition put_state :: "string \<Rightarrow> 'f backendState \<Rightarrow> (string \<times> 'f backendState) list \<Rightarrow> (string \<times> 'f backendState) list" where
  "put_state name st sts = AList.update name st sts"

definition earliestTime :: "go_time \<Rightarrow> go_time \<Rightarrow> go_time" where
  "earliestTime current candidate =
     (if candidate = 0 then current
      else if current = 0 \<or> candidate < current then candidate
      else current)"

definition nextAvailableTime :: "(string \<times> 'f backendState) list \<Rightarrow> go_time" where
  "nextAvailableTime sts =
     foldl (\<lambda>next st. if bs_status st = BackendParked then earliestTime next (bs_parkedUntil st) else next) 0 (map snd sts)"

text \<open>The window of the request and cost counters starts anew when it is an hour old or its reset
  time has passed.\<close>

definition roll_window :: "'f float_ops \<Rightarrow> go_time \<Rightarrow> 'f backendState \<Rightarrow> 'f backendState" where
  "roll_window fo now st =
     (if bs_windowStart st = 0 \<or> now - bs_windowStart st \<ge> defaultWindowDuration \<or>
         (bs_windowReset st \<noteq> 0 \<and> now > bs_windowReset st)
      then st\<lparr>bs_windowStart := now, bs_requestsCount := 0, bs_costInWindow := f_zero fo, bs_windowReset := 0\<rparr>
      else st)"

definition park :: "go_time \<Rightarrow> 'f backendState \<Rightarrow> 'f backendState" where
  "park until st = st\<lparr>bs_status := BackendParked, bs_parkedUntil := until\<rparr>"

definition applyThresholdsLocked :: "'f orch_env \<Rightarrow> (string \<Rightarrow> int) option \<Rightarrow> go_time \<Rightarrow> 'f BackendConfig \<Rightarrow> int \<Rightarrow> string
    \<Rightarrow> 'f backendState \<Rightarrow> bool \<times> 'f backendState" where
  "applyThresholdsLocked env provider now cfg promptTokens model st0 =
     (let th = bc_Thresholds cfg; fo = oe_floats env; st = roll_window fo now st0
      in if th_MaxRequestsPerWindow th > 0 \<and> bs_requestsCount st \<ge> th_MaxRequestsPerWindow th
           then (True, park (bs_windowStart st + defaultWindowDuration) st)
         else if f_less fo (f_zero fo) (th_MaxCostPerHour th) \<and> f_le fo (th_MaxCostPerHour th) (bs_costInWindow st)
           then (True, park (bs_windowStart st + defaultWindowDuration) st)
         else if th_MaxConsecutiveErrors th > 0 \<and> bs_consecErrors st \<ge> th_MaxConsecutiveErrors th
           then (True, park (now + defaultErrorCooldown) st)
         else if th_MaxContextPct th > 0 \<and> promptTokens > 0 \<and> model \<noteq> '''' then
           (case provider of
              None \<Rightarrow> (False, st)
            | Some contextLength \<Rightarrow>
                if contextLength model > 0 \<and>
                   promptTokens * 100 div contextLength model \<ge> th_MaxContextPct th
                then (True, park (now + defaultContextCooldown) st)
                else (False, st))
         else (False, st))"

definition elapsed_minutes :: "go_time \<Rightarrow> go_time \<Rightarrow> int" where
  "elapsed_minutes now start = (now - start) div minute"

fun first_rule :: "'f float_ops \<Rightarrow> 'f WhenContext \<Rightarrow> ModelRule list \<Rightarrow> string \<Rightarrow> string" where
  "first_rule fo ctx [] model = model"
| "first_rule fo ctx (rule # rules) model =
     (if EvalWhen fo (mr_When rule) ctx then mr_Model rule else first_rule fo ctx rules model)"

definition resolveModel :: "'f float_ops \<Rightarrow> string \<Rightarrow> 'f BackendConfig \<Rightarrow> 'f backendState \<Rightarrow> int \<Rightarrow> int
    \<Rightarrow> (string \<times> (string \<times> string) list) list \<Rightarrow> string" where
  "resolveModel fo name cfg st iteration elapsedMinutes backendOptions =
     (let model0 = trim_space (bm_Default (bc_Models cfg));
          model1 = (if model0 = '''' then
                      (case map_of (bc_Options cfg) ''model'' of Some v \<Rightarrow> trim_space v | None \<Rightarrow> model0)
                    else model0);
          ctx = \<lparr>wc_Iteration = iteration, wc_ErrorCount = bs_errorCount st, wc_ConsecErrors = bs_consecErrors st,
                 wc_TotalCost = bs_totalCost st, wc_TotalTokens = bs_totalTokens st,
                 wc_ElapsedMinutes = elapsedMinutes, wc_HasError = (bs_lastError st \<noteq> '''')\<rparr>;
          model2 = first_rule fo ctx (bm_Rules (bc_Models cfg)) model1
      in case map_of backendOptions name of
           None \<Rightarrow> model2
         | Some opts \<Rightarrow>
             (let override = trim_space (case map_of opts ''model'' of Some v \<Rightarrow> v | None \<Rightarrow> '''')
              in if override \<noteq> '''' then override else model2))"

definition promptTokenCount :: "'f orch_env \<Rightarrow> 'f BackendRequest \<Rightarrow> int" where
  "promptTokenCount env req =
     (let rest = (if br_Prompt req = '''' then 0 else oe_count_tokens env (br_Prompt req))
      in case map_of (br_Context req) ''prompt_tokens'' of
           Some (AnyInt v) \<Rightarrow> v
         | Some (AnyInt64 v) \<Rightarrow> v
         | Some (AnyFloat v) \<Rightarrow> f_to_int (oe_floats env) v
         | Some (AnyString s) \<Rightarrow> (case atoi s of Some v \<Rightarrow> v | None \<Rightarrow> rest)
         | _ \<Rightarrow> rest)"

section \<open>Candidates\<close>

fun ordered_names :: "string list \<Rightarrow> string list \<Rightarrow> string list \<Rightarrow> string list" where
  "ordered_names names acc [] = acc @ filter (\<lambda>n. n \<notin> set acc) names"
| "ordered_names names acc (name0 # order) =
     (let name = trim_space name0
      in if name = '''' \<or> name \<notin> set names \<or> name \<in> set acc then ordered_names names acc order
         else ordered_names names (acc @ [name]) order)"

definition backendNamesInOrder :: "'f ControlConfig \<Rightarrow> string list" where
  "backendNamesInOrder config =
     (let names = sort (remdups (map fst (cc_Backends config)))
      in if rc_Order (cc_Rotation config) = [] then names
         else ordered_names names [] (rc_Order (cc_Rotation config)))"

definition activeOverrides :: "'f ControlConfig \<Rightarrow> string list" where
  "activeOverrides config = filter (\<lambda>n. n \<noteq> '''') (map trim_space (oc_ActiveBackends (cc_Override config)))"

text \<open>One round of the loop in \<open>availableCandidates\<close>: the state the backend is left in, the time it is parked
  until if that is why it is left out, and the candidate.\<close>

definition consider_backend :: "'f orch_env \<Rightarrow> 'f Orchestrator \<Rightarrow> 'f ControlConfig \<Rightarrow> go_time \<Rightarrow> int \<Rightarrow> string \<Rightarrow> 'f BackendConfig
    \<Rightarrow> 'f backendState \<Rightarrow> 'f backendState \<times> go_time option \<times> 'f backendCandidate option" where
  "consider_backend env orc config now promptTokens name cfg st0 =
     (if \<not> bc_Enabled cfg then (st0\<lparr>bs_status := BackendDisabled\<rparr>, None, None)
      else if bs_status st0 = BackendParked \<and> \<not> now > bs_parkedUntil st0 then (st0, Some (bs_parkedUntil st0), None)
      else (let st1 = (if bs_status st0 = BackendParked
                       then st0\<lparr>bs_status := BackendActive, bs_parkedUntil := 0\<rparr> else st0)
            in if bs_status st1 = BackendDisabled then (st1, None, None)
               else (let model = resolveModel (oe_floats env) name cfg st1 (or_iteration orc)
                           (elapsed_minutes now (or_startTime orc)) (oc_BackendOptions (cc_Override config));
                         (parked, st2) = applyThresholdsLocked env (or_contextProvider orc) now cfg promptTokens model st1
                     in if parked then (st2, Some (bs_parkedUntil st2), None)
                        else (case registry_Get (or_registry orc) name of
                                None \<Rightarrow> (st2, None, None)
                              | Some backend \<Rightarrow>
                                  if \<not> be_Available backend then (st2, None, None)
                                  else (st2, None, Some \<lparr>cd_name = name, cd_backend = backend, cd_config = cfg,
                                                         cd_model = model\<rparr>)))))"

fun candidate_loop :: "'f orch_env \<Rightarrow> 'f Orchestrator \<Rightarrow> 'f ControlConfig \<Rightarrow> go_time \<Rightarrow> int \<Rightarrow> string list
    \<Rightarrow> (string \<times> 'f backendState) list \<Rightarrow> 'f backendCandidate list \<Rightarrow> go_time
    \<Rightarrow> 'f backendCandidate list \<times> go_time \<times> (string \<times> 'f backendState) list" where
  "candidate_loop env orc config now promptTokens [] sts cands nextAvailable = (cands, nextAvailable, sts)"
| "candidate_loop env orc config now promptTokens (name # names) sts cands nextAvailable =
     (case map_of (cc_Backends config) name of
        None \<Rightarrow> candidate_loop env orc config now promptTokens names sts cands nextAvailable
      | Some cfg \<Rightarrow>
          if activeOverrides config \<noteq> [] \<and> name \<notin> set (activeOverrides config)
          then candidate_loop env orc config now promptTokens names sts cands nextAvailable
          else (case consider_backend env orc config now promptTokens name cfg
                       (ensureBackendStateLocked (oe_floats env) name sts) of
                  (st, parked, cand) \<Rightarrow>
                    candidate_loop env orc config now promptTokens names (put_state name st sts)
                      (case cand of Some c \<Rightarrow> cands @ [c] | None \<Rightarrow> cands)
                      (case parked of Some t \<Rightarrow> earliestTime nextAvailable t | None \<Rightarrow> nextAvailable)))"

definition availableCandidates :: "'f orch_env \<Rightarrow> go_time \<Rightarrow> 'f BackendRequest \<Rightarrow> 'f Orchestrator
    \<Rightarrow> ('f backendCandidate list \<times> go_time) \<times> 'f Orchestrator" where
  "availableCandidates env now req orc =
     (case or_config orc of
        None \<Rightarrow> (([], 0), orc)
      | Some config \<Rightarrow>
          (case candidate_loop env orc config now (promptTokenCount env req) (backendNamesInOrder config)
                  (or_backendStates orc) [] 0 of
             (cands, nextAvailable, sts) \<Rightarrow> ((cands, nextAvailable), orc\<lparr>or_backendStates := sts\<rparr>)))"


section \<open>Order and rotation\<close>

definition effectiveRotationMode :: "RotationConfig \<Rightarrow> string \<Rightarrow> string" where
  "effectiveRotationMode rotation mode =
     (if rc_Mode rotation \<noteq> '''' \<and> rc_Mode rotation \<noteq> RotationNone then rc_Mode rotation
      else if mode = ModeRoundRobin then RotationRoundRobin
      else RotationNone)"

text \<open>The map \<open>order\<close>: the last index at which a name occurs in the rotation order.\<close>

definition order_index :: "string list \<Rightarrow> string \<Rightarrow> nat option" where
  "order_index order name =
     (if name = '''' then None
      else map_of (rev (zip (map trim_space order) [0..<length order])) name)"

text \<open>The slice \<open>ordered\<close>, with \<^const>\<open>None\<close> for the empty slots that pad it.\<close>

definition place :: "'a option list \<Rightarrow> nat \<Rightarrow> 'a \<Rightarrow> 'a option list" where
  "place slots i c = (slots @ replicate (Suc i - length slots) None)[i := Some c]"

fun place_loop :: "string list \<Rightarrow> 'f backendCandidate list \<Rightarrow> 'f backendCandidate option list \<Rightarrow> 'f backendCandidate list
    \<Rightarrow> 'f backendCandidate option list \<times> 'f backendCandidate list" where
  "place_loop order [] slots remaining = (slots, remaining)"
| "place_loop order (c # cs) slots remaining =
     (case order_index order (cd_name c) of
        Some i \<Rightarrow> place_loop order cs (place slots i c) remaining
      | None \<Rightarrow> place_loop order cs slots (remaining @ [c]))"

definition applyRotationOrder :: "'f backendCandidate list \<Rightarrow> RotationConfig \<Rightarrow> 'f backendCandidate list" where
  "applyRotationOrder cands rotation =
     (if cands = [] then []
      else if rc_Order rotation = [] then cands
      else (case place_loop (rc_Order rotation) (sort_key cd_name cands) [] [] of
              (slots, remaining) \<Rightarrow>
                filter (\<lambda>c. cd_name c \<noteq> '''') (List.map_filter id slots) @ remaining))"

definition rotateCandidates :: "'a list \<Rightarrow> nat \<Rightarrow> 'a list" where
  "rotateCandidates cands start =
     (if cands = [] then []
      else drop (start mod length cands) cands @ take (start mod length cands) cands)"

definition rotationReason :: "string \<Rightarrow> nat \<Rightarrow> string" where
  "rotationReason mode attempt =
     (if attempt > 0 then ''rate_limit''
      else if mode = RotationRoundRobin \<or> mode = RotationTimeSliced then ''rotation''
      else ''selection'')"

definition choose_start :: "go_time \<Rightarrow> RotationConfig \<Rightarrow> string \<Rightarrow> nat \<Rightarrow> 'f Orchestrator \<Rightarrow> nat \<times> 'f Orchestrator" where
  "choose_start now rotation rotationMode n orc =
     (if rotationMode = RotationRoundRobin then
        (or_currentBackend orc mod n, orc\<lparr>or_currentBackend := or_currentBackend orc + 1\<rparr>)
      else if rotationMode = RotationTimeSliced then
        (let o1 = (if or_lastRotation orc = 0 then orc\<lparr>or_lastRotation := now\<rparr> else orc);
             o2 = (if rc_Interval rotation > 0 \<and> now - or_lastRotation o1 \<ge> rc_Interval rotation
                   then o1\<lparr>or_currentBackend := (or_currentBackend o1 + 1) mod n, or_lastRotation := now\<rparr>
                   else o1)
         in (or_currentBackend o2 mod n, o2))
      else (0, orc))"

section \<open>Running backends\<close>

definition log_to :: "log_event \<Rightarrow> log_event list option \<Rightarrow> log_event list option" where
  "log_to e logger = map_option (\<lambda>es. es @ [e]) logger"

definition markBackendUse :: "string \<Rightarrow> string \<Rightarrow> string \<Rightarrow> 'f Orchestrator \<Rightarrow> 'f Orchestrator" where
  "markBackendUse name model reason orc =
     (if name = '''' then orc
      else (let previous = or_lastBackend orc; o1 = orc\<lparr>or_lastBackend := name\<rparr>
            in if previous \<noteq> '''' \<and> previous \<noteq> name
               then o1\<lparr>or_logger := log_to (LogBackendSwitch previous name reason) (or_logger o1)\<rparr>
               else o1))"

definition executeCandidate :: "'f float_ops \<Rightarrow> 'f BackendRequest \<Rightarrow> 'f backendCandidate
    \<Rightarrow> 'f BackendResult option \<times> string option" where
  "executeCandidate fo req cand =
     (let backendReq = req\<lparr>br_Model := cd_model cand\<rparr>;
          (result0, err) = be_Execute (cd_backend cand) backendReq;
          result1 = (case (err, result0) of
                       (Some e, None) \<Rightarrow>
                         Some \<lparr>re_Backend = cd_name cand, re_Model = br_Model backendReq, re_Duration = 0,
                               re_TokensIn = 0, re_TokensOut = 0, re_Cost = f_zero fo, re_CostEstimate = f_zero fo,
                               re_FilesChanged = [], re_TestsPassed = 0, re_TestsFailed = 0, re_Output = '''',
                               re_Error = Some e\<rparr>
                     | (Some e, Some r) \<Rightarrow> if re_Error r = None then Some (r\<lparr>re_Error := Some e\<rparr>) else Some r
                     | (None, _) \<Rightarrow> result0);
          result = (case result1 of
                      Some r \<Rightarrow> if re_Model r = '''' then Some (r\<lparr>re_Model := br_Model backendReq\<rparr>) else Some r
                    | None \<Rightarrow> None)
      in (result, err))"

definition parkBackend :: "'f float_ops \<Rightarrow> go_time \<Rightarrow> string \<Rightarrow> RateLimitInfo \<Rightarrow> 'f Orchestrator \<Rightarrow> 'f Orchestrator" where
  "parkBackend fo now name info orc =
     (let until0 = (if rl_WindowResets info \<noteq> 0 then rl_WindowResets info
                    else if rl_RetryAfter info > 0 then now + rl_RetryAfter info else 0);
          until = (if until0 = 0 then now + defaultRateLimitBackoff else until0);
          st = ensureBackendStateLocked fo name (or_backendStates orc)
      in orc\<lparr>or_backendStates := put_state name
           (st\<lparr>bs_status := BackendParked, bs_parkedUntil := until, bs_windowReset := until\<rparr>) (or_backendStates orc)\<rparr>)"

definition result_rate_info :: "'f orch_env \<Rightarrow> 'f BackendResult \<Rightarrow> RateLimitInfo option" where
  "result_rate_info env r =
     (case re_Error r of
        None \<Rightarrow> oe_rate_limit env (re_Output r)
      | Some e \<Rightarrow> (case oe_rate_limit env e of
                     Some info \<Rightarrow> Some info
                   | None \<Rightarrow> oe_rate_limit env (re_Output r)))"

definition result_cost :: "'f float_ops \<Rightarrow> 'f BackendResult \<Rightarrow> 'f" where
  "result_cost fo r = (if f_eq fo (re_Cost r) (f_zero fo) then re_CostEstimate r else re_Cost r)"

text \<open>The statistics of one result, for the backend and for the orchestrator.\<close>

definition count_result :: "'f float_ops \<Rightarrow> go_time \<Rightarrow> 'f BackendResult \<Rightarrow> 'f backendState \<Rightarrow> 'f backendState" where
  "count_result fo now r st0 =
     (let st1 = roll_window fo now st0;
          st2 = st1\<lparr>bs_lastUsed := now, bs_lastModel := re_Model r,
                    bs_totalCost := f_add fo (bs_totalCost st1) (result_cost fo r),
                    bs_totalTokens := bs_totalTokens st1 + (re_TokensIn r + re_TokensOut r),
                    bs_requestsCount := bs_requestsCount st1 + 1,
                    bs_costInWindow := f_add fo (bs_costInWindow st1) (result_cost fo r)\<rparr>
      in case re_Error r of
           Some e \<Rightarrow> st2\<lparr>bs_errorCount := bs_errorCount st2 + 1, bs_consecErrors := bs_consecErrors st2 + 1,
                         bs_lastError := e\<rparr>
         | None \<Rightarrow> st2\<lparr>bs_consecErrors := 0, bs_lastError := ''''\<rparr>)"

definition count_total :: "'f float_ops \<Rightarrow> 'f BackendResult \<Rightarrow> 'f Orchestrator \<Rightarrow> 'f Orchestrator" where
  "count_total fo r orc =
     (let o1 = (case re_Error r of
                  Some _ \<Rightarrow> orc\<lparr>or_errorCount := or_errorCount orc + 1, or_consecErrors := or_consecErrors orc + 1\<rparr>
                | None \<Rightarrow> orc\<lparr>or_consecErrors := 0\<rparr>)
      in o1\<lparr>or_totalCost := f_add fo (or_totalCost o1) (result_cost fo r),
            or_totalTokens := or_totalTokens o1 + (re_TokensIn r + re_TokensOut r)\<rparr>)"

definition recordBackendResult :: "'f orch_env \<Rightarrow> go_time \<Rightarrow> go_time \<Rightarrow> 'f backendCandidate \<Rightarrow> 'f BackendResult option
    \<Rightarrow> 'f Orchestrator \<Rightarrow> bool \<times> 'f Orchestrator" where
  "recordBackendResult env now now2 cand result orc =
     (case result of
        None \<Rightarrow> (False, orc)
      | Some r \<Rightarrow>
          (let fo = oe_floats env;
               rateInfo = result_rate_info env r;
               st0 = ensureBackendStateLocked fo (cd_name cand) (or_backendStates orc);
               previousModel = bs_lastModel st0;
               o1 = count_total fo r
                      (orc\<lparr>or_backendStates := put_state (cd_name cand) (count_result fo now r st0) (or_backendStates orc)\<rparr>);
               o2 = (if previousModel \<noteq> '''' \<and> re_Model r \<noteq> '''' \<and> previousModel \<noteq> re_Model r
                     then o1\<lparr>or_logger := log_to (LogModelSwitch (cd_name cand) previousModel (re_Model r) ''rule'') (or_logger o1)\<rparr>
                     else o1)
           in case rateInfo of
                Some info \<Rightarrow> (True, parkBackend fo now2 (cd_name cand) info o2)
              | None \<Rightarrow> (False, o2)))"

text \<open>The failover loop of \<open>executeSingle\<close>; \<open>tm i\<close> are the two clock readings of attempt \<open>i\<close>.\<close>

fun attempt_loop :: "'f orch_env \<Rightarrow> (nat \<Rightarrow> go_time \<times> go_time) \<Rightarrow> 'f BackendRequest \<Rightarrow> string \<Rightarrow> nat \<Rightarrow> 'f backendCandidate list
    \<Rightarrow> 'f BackendResult option list \<Rightarrow> 'f Orchestrator \<Rightarrow> ('f BackendResult option list \<times> exec_error option) \<times> 'f Orchestrator" where
  "attempt_loop env tm req rotationMode i [] results orc =
     (let next = nextAvailableTime (or_backendStates orc)
      in ((results, Some (if next \<noteq> 0 then ErrAllBackendsParked next else NoAvailableBackends)), orc))"
| "attempt_loop env tm req rotationMode i (cand # cands) results orc =
     (let o1 = markBackendUse (cd_name cand) (cd_model cand) (rotationReason rotationMode i) orc;
          (result, execErr) = executeCandidate (oe_floats env) req cand;
          (rateLimited, o2) = recordBackendResult env (fst (tm i)) (snd (tm i)) cand result o1;
          results1 = results @ [result]
      in case execErr of
           Some e \<Rightarrow> ((results1, Some (ExecError e)), o2)
         | None \<Rightarrow>
             if rateLimited then attempt_loop env tm req rotationMode (Suc i) cands results1 o2
             else ((results1, None), o2))"

definition executeSingle :: "'f orch_env \<Rightarrow> go_time \<Rightarrow> (nat \<Rightarrow> go_time \<times> go_time) \<Rightarrow> 'f BackendRequest \<Rightarrow> 'f backendCandidate list
    \<Rightarrow> RotationConfig \<Rightarrow> string \<Rightarrow> 'f Orchestrator \<Rightarrow> ('f BackendResult option list \<times> exec_error option) \<times> 'f Orchestrator" where
  "executeSingle env now tm req cands rotation mode orc =
     (let ordered = applyRotationOrder cands rotation
      in if ordered = [] then (([], Some NoAvailableBackends), orc)
         else (let rotationMode = effectiveRotationMode rotation mode;
                   (startIdx, o1) = choose_start now rotation rotationMode (length ordered) orc
               in attempt_loop env tm req rotationMode 0 (rotateCandidates ordered startIdx) [] o1))"

text \<open>\<open>executeParallel\<close> runs every candidate; \<open>finish\<close> is the order in which the results are recorded.\<close>

fun record_all :: "'f orch_env \<Rightarrow> (nat \<Rightarrow> go_time \<times> go_time) \<Rightarrow> 'f BackendRequest \<Rightarrow> nat \<Rightarrow> 'f backendCandidate list
    \<Rightarrow> 'f Orchestrator \<Rightarrow> 'f BackendResult option list \<times> 'f Orchestrator" where
  "record_all env tm req i [] orc = ([], orc)"
| "record_all env tm req i (cand # cands) orc =
     (let (result, _) = executeCandidate (oe_floats env) req cand;
          (_, o1) = recordBackendResult env (fst (tm i)) (snd (tm i)) cand result orc;
          (results, o2) = record_all env tm req (Suc i) cands o1
      in (result # results, o2))"

definition executeParallel :: "'f orch_env \<Rightarrow> (nat \<Rightarrow> go_time \<times> go_time) \<Rightarrow> 'f BackendRequest \<Rightarrow> 'f backendCandidate list
    \<Rightarrow> 'f Orchestrator \<Rightarrow> ('f BackendResult option list \<times> exec_error option) \<times> 'f Orchestrator" where
  "executeParallel env tm req finish orc =
     (if finish = [] then (([], Some NoAvailableBackends), orc)
      else (let (results, o1) = record_all env tm req 0 finish orc;
                allFailed = \<not> list_ex (\<lambda>r. case r of Some r1 \<Rightarrow> re_Error r1 = None | None \<Rightarrow> False) results
            in if allFailed \<and> length results > 0 then ((results, Some AllBackendsFailed), o1)
               else ((results, None), o1)))"

text \<open>\<open>sched\<close> permutes the candidates into the order in which the goroutines finish.\<close>

definition Execute :: "'f orch_env \<Rightarrow> go_time \<Rightarrow> (nat \<Rightarrow> go_time \<times> go_time) \<Rightarrow> ('f backendCandidate list \<Rightarrow> 'f backendCandidate list)
    \<Rightarrow> 'f BackendRequest \<Rightarrow> 'f Orchestrator \<Rightarrow> ('f BackendResult option list \<times> exec_error option) \<times> 'f Orchestrator" where
  "Execute env now tm sched req orc =
     (let mode = (case or_config orc of Some c \<Rightarrow> cc_Mode c | None \<Rightarrow> '''');
          rotation = (case or_config orc of Some c \<Rightarrow> cc_Rotation c
                      | None \<Rightarrow> \<lparr>rc_Mode = '''', rc_Interval = 0, rc_Order = []\<rparr>);
          ((cands, nextAvailable), o1) = availableCandidates env now req orc
      in if cands = [] then
           (([], Some (if nextAvailable \<noteq> 0 then ErrAllBackendsParked nextAvailable else NoAvailableBackends)), o1)
         else if mode = ModeParallel then executeParallel env tm req (sched cands) o1
         else if mode = ModeSequential \<or> mode = ModeRoundRobin \<or> mode = ''''
           then executeSingle env now tm req cands rotation mode o1
         else (([], Some (UnknownMode mode)), o1))"

section \<open>Schedule and setters\<close>

definition SetLogger :: "log_event list option \<Rightarrow> 'f Orchestrator \<Rightarrow> 'f Orchestrator" where
  "SetLogger logger orc = orc\<lparr>or_logger := logger\<rparr>"

definition SetContextProvider :: "(string \<Rightarrow> int) option \<Rightarrow> 'f Orchestrator \<Rightarrow> 'f Orchestrator" where
  "SetContextProvider provider orc = orc\<lparr>or_contextProvider := provider\<rparr>"

definition UpdateConfig :: "'f ControlConfig option \<Rightarrow> 'f Orchestrator \<Rightarrow> 'f Orchestrator" where
  "UpdateConfig config orc = orc\<lparr>or_config := config\<rparr>"

definition ConsumeNextAction :: "'f Orchestrator \<Rightarrow> ScheduleAction option \<times> 'f Orchestrator" where
  "ConsumeNextAction orc =
     (case or_config orc of
        None \<Rightarrow> (None, orc)
      | Some c \<Rightarrow>
          (let next = trim_space (oc_NextAction (cc_Override c))
           in if next = '''' then (None, orc)
              else (Some \<lparr>sa_Action = ''set_backend'', sa_Mode = '''', sa_Backend = next, sa_Reason = ''''\<rparr>,
                    orc\<lparr>or_config := Some (c\<lparr>cc_Override := (cc_Override c)\<lparr>oc_NextAction := ''''\<rparr>\<rparr>)\<rparr>)))"

definition same_minute :: "Calendar \<Rightarrow> Calendar \<Rightarrow> bool" where
  "same_minute a b = (cal_Minute a = cal_Minute b \<and> cal_Hour a = cal_Hour b \<and> cal_Day a = cal_Day b)"

definition check_cron :: "'f orch_env \<Rightarrow> go_time \<Rightarrow> string \<Rightarrow> 'f Orchestrator \<Rightarrow> bool \<times> 'f Orchestrator" where
  "check_cron env now cron orc =
     (if cron = '''' then (False, orc)
      else (case ParseCron cron of
              Inl _ \<Rightarrow> (False, orc)
            | Inr spec \<Rightarrow>
                (let shouldCheck = (\<not> same_minute (oe_calendar env (or_lastCronCheck orc)) (oe_calendar env now))
                 in if shouldCheck
                    then (Matches (Some spec) (oe_calendar env now), orc\<lparr>or_lastCronCheck := now\<rparr>)
                    else (False, orc))))"

definition triggerMatches :: "'f orch_env \<Rightarrow> go_time \<Rightarrow> ScheduleTrigger \<Rightarrow> int \<Rightarrow> string option \<Rightarrow> 'f Orchestrator
    \<Rightarrow> bool \<times> 'f Orchestrator" where
  "triggerMatches env now trigger iteration lastError orc =
     (if tr_AtIteration trigger > 0 \<and> iteration = tr_AtIteration trigger then (True, orc)
      else if tr_EveryIterations trigger > 0 \<and> iteration > 0 \<and> go_rem iteration (tr_EveryIterations trigger) = 0
        then (True, orc)
      else if tr_OnError trigger \<noteq> '''' \<and>
              (case lastError of None \<Rightarrow> False | Some e \<Rightarrow> contains (to_lower e) (to_lower (tr_OnError trigger)))
        then (True, orc)
      else if tr_When trigger \<noteq> '''' \<and>
              EvalWhen (oe_floats env) (tr_When trigger)
                \<lparr>wc_Iteration = or_iteration orc, wc_ErrorCount = or_errorCount orc, wc_ConsecErrors = or_consecErrors orc,
                 wc_TotalCost = or_totalCost orc, wc_TotalTokens = or_totalTokens orc,
                 wc_ElapsedMinutes = elapsed_minutes now (or_startTime orc), wc_HasError = (lastError \<noteq> None)\<rparr>
        then (True, orc)
      else check_cron env now (tr_Cron trigger) orc)"

fun schedule_loop :: "'f orch_env \<Rightarrow> (nat \<Rightarrow> go_time) \<Rightarrow> nat \<Rightarrow> int \<Rightarrow> string option \<Rightarrow> ScheduleRule list \<Rightarrow> 'f Orchestrator
    \<Rightarrow> ScheduleAction option \<times> 'f Orchestrator" where
  "schedule_loop env nows i iteration lastError [] orc = (None, orc)"
| "schedule_loop env nows i iteration lastError (rule # rules) orc =
     (case triggerMatches env (nows i) (sr_Trigger rule) iteration lastError orc of
        (True, o1) \<Rightarrow>
          (Some \<lparr>sa_Action = sr_Action rule, sa_Mode = sr_Mode rule, sa_Backend = sr_Backend rule,
                 sa_Reason = sr_Reason rule\<rparr>, o1)
      | (False, o1) \<Rightarrow> schedule_loop env nows (Suc i) iteration lastError rules o1)"

definition EvaluateSchedule :: "'f orch_env \<Rightarrow> (nat \<Rightarrow> go_time) \<Rightarrow> string option \<Rightarrow> 'f Orchestrator
    \<Rightarrow> ScheduleAction option \<times> 'f Orchestrator" where
  "EvaluateSchedule env nows lastError orc =
     (case or_config orc of
        None \<Rightarrow> (None, orc)
      | Some c \<Rightarrow> schedule_loop env nows 0 (or_iteration orc) lastError (cc_Schedule c) orc)"

definition RecordError :: "string option \<Rightarrow> 'f Orchestrator \<Rightarrow> 'f Orchestrator" where
  "RecordError err orc =
     (case err of
        Some _ \<Rightarrow> orc\<lparr>or_errorCount := or_errorCount orc + 1, or_consecErrors := or_consecErrors orc + 1\<rparr>
      | None \<Rightarrow> orc\<lparr>or_consecErrors := 0\<rparr>)"

definition RecordCost :: "'f float_ops \<Rightarrow> 'f \<Rightarrow> int \<Rightarrow> 'f Orchestrator \<Rightarrow> 'f Orchestrator" where
  "RecordCost fo cost tokens orc =
     orc\<lparr>or_totalCost := f_add fo (or_totalCost orc) cost, or_totalTokens := or_totalTokens orc + tokens\<rparr>"

definition NextIteration :: "'f Orchestrator \<Rightarrow> 'f Orchestrator" where
  "NextIteration orc = orc\<lparr>or_iteration := or_iteration orc + 1\<rparr>"

section \<open>Applying schedule actions\<close>

text \<open>The part of src/pkg/ralph/executor.go that carries an action out on the orchestrator's configuration.\<close>

fun indexOfBackend :: "string list \<Rightarrow> string \<Rightarrow> nat option" where
  "indexOfBackend [] name = None"
| "indexOfBackend (v # order) name = (if v = name then Some 0 else map_option Suc (indexOfBackend order name))"

definition nextBackendAfter :: "string list \<Rightarrow> string \<Rightarrow> string" where
  "nextBackendAfter order current =
     (if order = [] then ''''
      else (case indexOfBackend order current of
              None \<Rightarrow> order ! 0
            | Some idx \<Rightarrow> order ! ((idx + 1) mod length order)))"

definition rotateBackendOrder :: "string list \<Rightarrow> string \<Rightarrow> string list option" where
  "rotateBackendOrder order target =
     (case indexOfBackend order target of
        None \<Rightarrow> None
      | Some idx \<Rightarrow> Some (drop idx order @ take idx order))"

definition moveBackendFirst :: "string list \<Rightarrow> string \<Rightarrow> string list option" where
  "moveBackendFirst order target =
     (case indexOfBackend order target of
        None \<Rightarrow> None
      | Some idx \<Rightarrow> Some (order ! idx # take idx order @ drop (Suc idx) order))"

definition activeBackendOrder :: "'f ControlConfig \<Rightarrow> string list \<Rightarrow> string list" where
  "activeBackendOrder cfg fullOrder =
     (if activeOverrides cfg = [] then fullOrder
      else filter (\<lambda>n. n \<in> set (activeOverrides cfg)) fullOrder)"

definition applyBackendSelection :: "go_time \<Rightarrow> (string list \<Rightarrow> string \<Rightarrow> string) \<Rightarrow> (string list \<Rightarrow> string \<Rightarrow> string list option)
    \<Rightarrow> 'f Orchestrator \<Rightarrow> string \<times> 'f Orchestrator" where
  "applyBackendSelection now selectTarget reorder orc =
     (case or_config orc of
        None \<Rightarrow> ('''', orc)
      | Some cfg \<Rightarrow>
          (let fullOrder = backendNamesInOrder cfg; activeOrder = activeBackendOrder cfg fullOrder
           in if fullOrder = [] \<or> activeOrder = [] then ('''', orc)
              else (let target = trim_space (selectTarget activeOrder (or_lastBackend orc))
                    in if target = '''' \<or> indexOfBackend activeOrder target = None then ('''', orc)
                       else (case reorder fullOrder target of
                               None \<Rightarrow> ('''', orc)
                             | Some newOrder \<Rightarrow>
                                 (target, orc\<lparr>or_config := Some (cfg\<lparr>cc_Rotation := (cc_Rotation cfg)\<lparr>rc_Order := newOrder\<rparr>\<rparr>),
                                              or_currentBackend := 0, or_lastRotation := now\<rparr>)))))"

definition set_backend_action :: "go_time \<Rightarrow> string \<Rightarrow> 'f Orchestrator \<Rightarrow> string \<times> 'f Orchestrator" where
  "set_backend_action now name orc =
     (let backend = trim_space name
      in if backend = '''' then ('''', orc)
         else applyBackendSelection now
                (\<lambda>active _. if indexOfBackend active backend = None then '''' else backend) moveBackendFirst orc)"

definition rotate_backend_action :: "go_time \<Rightarrow> 'f Orchestrator \<Rightarrow> string \<times> 'f Orchestrator" where
  "rotate_backend_action now orc =
     applyBackendSelection now
       (\<lambda>active _. if active = [] then '''' else nextBackendAfter active (active ! 0)) rotateBackendOrder orc"

definition next_backend_action :: "go_time \<Rightarrow> string \<Rightarrow> 'f Orchestrator \<Rightarrow> string \<times> 'f Orchestrator" where
  "next_backend_action now lastBackend orc =
     (let current = trim_space lastBackend
      in applyBackendSelection now
           (\<lambda>active last. if active = [] then ''''
              else nextBackendAfter active (if current = '''' then trim_space last else current))
           rotateBackendOrder orc)"

definition set_mode_action :: "string \<Rightarrow> 'f Orchestrator \<Rightarrow> 'f Orchestrator" where
  "set_mode_action name orc =
     (let mode = trim_space name
      in if mode = '''' then orc
         else (case or_config orc of
                 None \<Rightarrow> orc
               | Some cfg \<Rightarrow> orc\<lparr>or_config := Some (cfg\<lparr>cc_Mode := mode\<rparr>)\<rparr>))"


section \<open>The candidate loop\<close>

lemma map_of_put_state: "map_of (put_state n st sts) m = (if m = n then Some st else map_of sts m)"
  by (simp add: put_state_def update_conv')

lemma ensure_put_state:
  "ensureBackendStateLocked fo m (put_state n st sts) = (if m = n then st else ensureBackendStateLocked fo m sts)"
  by (simp add: ensureBackendStateLocked_def map_of_put_state)

text \<open>What the loop does with one name; \<^const>\<open>None\<close> if it skips it.\<close>

definition visit :: "'f orch_env \<Rightarrow> 'f Orchestrator \<Rightarrow> 'f ControlConfig \<Rightarrow> go_time \<Rightarrow> int \<Rightarrow> (string \<times> 'f backendState) list \<Rightarrow> string
    \<Rightarrow> ('f backendState \<times> go_time option \<times> 'f backendCandidate option) option" where
  "visit env orc config now pt sts name =
     (case map_of (cc_Backends config) name of
        None \<Rightarrow> None
      | Some cfg \<Rightarrow>
          if activeOverrides config \<noteq> [] \<and> name \<notin> set (activeOverrides config) then None
          else Some (consider_backend env orc config now pt name cfg (ensureBackendStateLocked (oe_floats env) name sts)))"

lemma visit_put_state:
  "n \<noteq> m \<Longrightarrow> visit env orc config now pt (put_state m st sts) n = visit env orc config now pt sts n"
  by (simp add: visit_def ensure_put_state cong: option.case_cong if_cong)

lemma candidate_loop_visit:
  "candidate_loop env orc config now pt (name # names) sts cands next =
     (case visit env orc config now pt sts name of
        None \<Rightarrow> candidate_loop env orc config now pt names sts cands next
      | Some (st, parked, cand) \<Rightarrow>
          candidate_loop env orc config now pt names (put_state name st sts)
            (case cand of Some c \<Rightarrow> cands @ [c] | None \<Rightarrow> cands)
            (case parked of Some t \<Rightarrow> earliestTime next t | None \<Rightarrow> next))"
  by (auto simp: visit_def split: option.splits prod.splits)

definition visit_cand :: "('f backendState \<times> go_time option \<times> 'f backendCandidate option) option \<Rightarrow> 'f backendCandidate option" where
  "visit_cand v = (case v of Some (_, _, c) \<Rightarrow> c | None \<Rightarrow> None)"

lemma visit_cand_simps [simp]: "visit_cand None = None" "visit_cand (Some (st, parked, c)) = c"
  by (simp_all add: visit_cand_def)

lemma candidate_loop_spec:
  "distinct names \<Longrightarrow>
   fst (candidate_loop env orc config now pt names sts cands next) =
     cands @ List.map_filter (\<lambda>n. visit_cand (visit env orc config now pt sts n)) names \<and>
   map_of (snd (snd (candidate_loop env orc config now pt names sts cands next))) m =
     (case visit env orc config now pt sts m of
        Some (st, _, _) \<Rightarrow> if m \<in> set names then Some st else map_of sts m
      | None \<Rightarrow> map_of sts m)"
proof (induction names arbitrary: sts cands "next")
  case (Cons name names)
  show ?case
  proof (cases "visit env orc config now pt sts name")
    case None
    then show ?thesis
      using Cons by (auto simp: candidate_loop_visit simp del: candidate_loop.simps split: option.splits)
  next
    case (Some v)
    obtain st parked cand where v: "v = (st, parked, cand)" by (cases v)
    have eq: "List.map_filter (\<lambda>n. visit_cand (visit env orc config now pt (put_state name st sts) n)) names =
        List.map_filter (\<lambda>n. visit_cand (visit env orc config now pt sts n)) names"
      using Cons.prems by (intro map_filter_cong arg_cong [of _ _ visit_cand] visit_put_state) auto
    show ?thesis
      using Cons.prems Cons.IH [of "put_state name st sts"] Some v
      by (auto simp: candidate_loop_visit eq map_of_put_state visit_put_state
          simp del: candidate_loop.simps split: option.splits)
  qed
qed (simp_all add: map_filter_simps split: option.splits)


lemma ordered_names_spec:
  "\<lbrakk>distinct names; distinct acc; set acc \<subseteq> set names\<rbrakk> \<Longrightarrow>
   distinct (ordered_names names acc order) \<and> set (ordered_names names acc order) = set names"
  by (induction order arbitrary: acc) (auto simp: Let_def)

lemma backendNamesInOrder_spec:
  "distinct (backendNamesInOrder config)" "set (backendNamesInOrder config) = fst ` set (cc_Backends config)"
  using ordered_names_spec [of "sort (remdups (map fst (cc_Backends config)))" "[]"]
  by (auto simp: backendNamesInOrder_def Let_def)

lemma availableCandidates_spec:
  assumes "availableCandidates env now req orc = ((cands, nxt), orc')" "or_config orc = Some config"
  shows "cands = List.map_filter
      (\<lambda>n. visit_cand (visit env orc config now (promptTokenCount env req) (or_backendStates orc) n)) (backendNamesInOrder config)"
    and "orc' = orc\<lparr>or_backendStates := or_backendStates orc'\<rparr>"
    and "map_of (or_backendStates orc') m =
      (case visit env orc config now (promptTokenCount env req) (or_backendStates orc) m of
         Some (st, _, _) \<Rightarrow> Some st | None \<Rightarrow> map_of (or_backendStates orc) m)"
proof -
  let ?r = "candidate_loop env orc config now (promptTokenCount env req) (backendNamesInOrder config)
    (or_backendStates orc) [] 0"
  have r: "cands = fst ?r" "orc' = orc\<lparr>or_backendStates := snd (snd ?r)\<rparr>"
    using assms by (auto simp: availableCandidates_def split: prod.splits)
  note spec = candidate_loop_spec [OF backendNamesInOrder_spec(1), of env orc config now "promptTokenCount env req" config
      "or_backendStates orc" "[]" 0 m]
  show "cands = List.map_filter
      (\<lambda>n. visit_cand (visit env orc config now (promptTokenCount env req) (or_backendStates orc) n)) (backendNamesInOrder config)"
    using r(1) spec by simp
  show "orc' = orc\<lparr>or_backendStates := or_backendStates orc'\<rparr>" using r(2) by simp
  have "visit env orc config now (promptTokenCount env req) (or_backendStates orc) m \<noteq> None \<Longrightarrow>
      m \<in> set (backendNamesInOrder config)"
    by (force simp: visit_def backendNamesInOrder_spec(2) split: option.splits dest: map_of_SomeD)
  then show "map_of (or_backendStates orc') m =
      (case visit env orc config now (promptTokenCount env req) (or_backendStates orc) m of
         Some (st, _, _) \<Rightarrow> Some st | None \<Rightarrow> map_of (or_backendStates orc) m)"
    using r(2) spec by (auto split: option.splits)
qed

section \<open>Who may run\<close>

text \<open>The limits that a backend must not have reached, on its state after the call: the requests and the cost of the window, the
  run of errors, and the share of the model's context that the prompt takes, where the length of the context is known.\<close>

definition within_limits :: "'f float_ops \<Rightarrow> (string \<Rightarrow> int) option \<Rightarrow> int \<Rightarrow> string \<Rightarrow> 'f BackendConfig \<Rightarrow> 'f backendState \<Rightarrow> bool" where
  "within_limits fo provider promptTokens model cfg st =
     (bs_status st = BackendActive \<and>
      \<not> (th_MaxRequestsPerWindow (bc_Thresholds cfg) > 0 \<and>
         bs_requestsCount st \<ge> th_MaxRequestsPerWindow (bc_Thresholds cfg)) \<and>
      \<not> (f_less fo (f_zero fo) (th_MaxCostPerHour (bc_Thresholds cfg)) \<and>
         f_le fo (th_MaxCostPerHour (bc_Thresholds cfg)) (bs_costInWindow st)) \<and>
      \<not> (th_MaxConsecutiveErrors (bc_Thresholds cfg) > 0 \<and>
         bs_consecErrors st \<ge> th_MaxConsecutiveErrors (bc_Thresholds cfg)) \<and>
      \<not> (th_MaxContextPct (bc_Thresholds cfg) > 0 \<and> promptTokens > 0 \<and> model \<noteq> [] \<and>
         (\<exists>contextLength. provider = Some contextLength \<and> contextLength model > 0 \<and>
            promptTokens * 100 div contextLength model \<ge> th_MaxContextPct (bc_Thresholds cfg))))"

lemma roll_window_status [simp]:
  "bs_status (roll_window fo now st) = bs_status st" "bs_consecErrors (roll_window fo now st) = bs_consecErrors st"
  by (simp_all add: roll_window_def)

lemma applyThresholds_False:
  assumes "applyThresholdsLocked env provider now cfg pt model st = (False, st')" "bs_status st = BackendActive"
  shows "within_limits (oe_floats env) provider pt model cfg st'"
  using assms unfolding applyThresholdsLocked_def within_limits_def Let_def
  by (auto split: if_splits option.splits)

lemma pick_candidate:
  "(if p then (st2, t, None)
    else (case r of
            None \<Rightarrow> (st2, None, None)
          | Some b \<Rightarrow> if \<not> be_Available b then (st2, None, None)
              else (st2, None, Some \<lparr>cd_name = name, cd_backend = b, cd_config = cfg, cd_model = m\<rparr>))) =
   (st, parked, Some c) \<Longrightarrow>
   \<not> p \<and> st = st2 \<and> cd_name c = name \<and> cd_config c = cfg \<and> r = Some (cd_backend c) \<and> be_Available (cd_backend c) \<and> cd_model c = m"
  by (auto split: if_splits option.splits)

lemma consider_candidate:
  assumes "consider_backend env orc config now pt name cfg st0 = (st, parked, Some c)"
  shows "bc_Enabled cfg \<and> bs_status st0 \<noteq> BackendDisabled \<and>
    \<not> (bs_status st0 = BackendParked \<and> now \<le> bs_parkedUntil st0) \<and>
    cd_name c = name \<and> cd_config c = cfg \<and> registry_Get (or_registry orc) name = Some (cd_backend c) \<and>
    be_Available (cd_backend c) \<and> within_limits (oe_floats env) (or_contextProvider orc) pt (cd_model c) cfg st"
proof -
  let ?st1 = "if bs_status st0 = BackendParked then st0\<lparr>bs_status := BackendActive, bs_parkedUntil := 0\<rparr> else st0"
  let ?m = "resolveModel (oe_floats env) name cfg ?st1 (or_iteration orc) (elapsed_minutes now (or_startTime orc))
    (oc_BackendOptions (cc_Override config))"
  obtain p st2 where th: "applyThresholdsLocked env (or_contextProvider orc) now cfg pt ?m ?st1 = (p, st2)"
    by (cases "applyThresholdsLocked env (or_contextProvider orc) now cfg pt ?m ?st1") auto
  have en: "bc_Enabled cfg" by (rule ccontr) (use assms in \<open>simp add: consider_backend_def\<close>)
  have np: "\<not> (bs_status st0 = BackendParked \<and> now \<le> bs_parkedUntil st0)"
    by (rule notI) (use assms en in \<open>simp add: consider_backend_def\<close>)
  have nd: "bs_status st0 \<noteq> BackendDisabled"
    by (rule notI) (use assms en in \<open>simp add: consider_backend_def\<close>)
  have nd1: "bs_status ?st1 \<noteq> BackendDisabled" using nd by simp
  have np1: "\<not> (bs_status st0 = BackendParked \<and> \<not> now > bs_parkedUntil st0)" using np by auto
  have "(if p then (st2, Some (bs_parkedUntil st2), None)
      else (case registry_Get (or_registry orc) name of
              None \<Rightarrow> (st2, None, None)
            | Some backend \<Rightarrow> if \<not> be_Available backend then (st2, None, None)
                else (st2, None, Some \<lparr>cd_name = name, cd_backend = backend, cd_config = cfg, cd_model = ?m\<rparr>))) =
      (st, parked, Some c)"
    using assms unfolding consider_backend_def Let_def th
    by (simp only: en np1 nd1 not_True_eq_False if_False if_True prod.case)
  from pick_candidate [OF this] have main: "\<not> p" "st = st2" "cd_name c = name" "cd_config c = cfg"
    "registry_Get (or_registry orc) name = Some (cd_backend c)" "be_Available (cd_backend c)" "cd_model c = ?m"
    by blast+
  have "bs_status ?st1 = BackendActive" using nd by (cases "bs_status st0") auto
  then have "within_limits (oe_floats env) (or_contextProvider orc) pt (cd_model c) cfg st"
    using applyThresholds_False [of env _ now cfg pt ?m ?st1 st2] th main by simp
  with main en np nd show ?thesis by blast
qed

text \<open>C14: A backend becomes a candidate only if the configuration enables it, the active-backends override (if any) names
  it, it is registered and available, it was not disabled and not parked until a later time, and its
  request count, its cost, its run of consecutive errors and - where the length of the context of its model is known - the share of
  that context that the prompt takes are below their limits.\<close>

theorem candidates_eligible:
  assumes "availableCandidates env now req orc = ((cands, nxt), orc')" "c \<in> set cands"
  shows "\<exists>config st. or_config orc = Some config \<and>
    map_of (cc_Backends config) (cd_name c) = Some (cd_config c) \<and> bc_Enabled (cd_config c) \<and>
    \<not> (activeOverrides config \<noteq> [] \<and> cd_name c \<notin> set (activeOverrides config)) \<and>
    registry_Get (or_registry orc) (cd_name c) = Some (cd_backend c) \<and> be_Available (cd_backend c) \<and>
    \<not> (bs_status (ensureBackendStateLocked (oe_floats env) (cd_name c) (or_backendStates orc)) = BackendDisabled) \<and>
    \<not> (bs_status (ensureBackendStateLocked (oe_floats env) (cd_name c) (or_backendStates orc)) = BackendParked \<and>
       now \<le> bs_parkedUntil (ensureBackendStateLocked (oe_floats env) (cd_name c) (or_backendStates orc))) \<and>
    map_of (or_backendStates orc') (cd_name c) = Some st \<and> 
    within_limits (oe_floats env) (or_contextProvider orc) (promptTokenCount env req) (cd_model c) (cd_config c) st"
proof -
  obtain config where config: "or_config orc = Some config"
    using assms by (cases "or_config orc") (auto simp: availableCandidates_def)
  note spec = availableCandidates_spec [OF assms(1) config]
  let ?visit = "visit env orc config now (promptTokenCount env req) (or_backendStates orc)"
  obtain n where "n \<in> set (backendNamesInOrder config)" "visit_cand (?visit n) = Some c"
    using assms(2) unfolding spec(1) map_filter_set by blast
  then obtain st parked where v: "?visit n = Some (st, parked, Some c)"
    by (auto simp: visit_cand_def split: option.splits)
  then obtain cfg where cfg: "map_of (cc_Backends config) n = Some cfg"
    "\<not> (activeOverrides config \<noteq> [] \<and> n \<notin> set (activeOverrides config))"
    "consider_backend env orc config now (promptTokenCount env req) n cfg
       (ensureBackendStateLocked (oe_floats env) n (or_backendStates orc)) = (st, parked, Some c)"
    by (auto simp: visit_def split: option.splits if_splits)
  have "map_of (or_backendStates orc') n = Some st" using spec(3) [of n] v by simp
  then show ?thesis using config cfg(1,2) consider_candidate [OF cfg(3)] by auto
qed


section \<open>Order of the candidates\<close>

lemma order_index_name:
  assumes "order_index order name = Some i"
  shows "i < length order \<and> trim_space (order ! i) = name"
proof -
  have "(name, i) \<in> set (zip (map trim_space order) [0..<length order])"
    using assms by (auto simp: order_index_def split: if_splits dest: map_of_SomeD)
  then show ?thesis by (auto simp: in_set_zip)
qed

lemma map_filter_id_append [simp]: "List.map_filter id (xs @ ys) = List.map_filter id xs @ List.map_filter id ys"
  by (induction xs) (auto split: option.splits)

lemma map_filter_id_replicate [simp]: "List.map_filter id (replicate n None) = []"
  by (induction n) auto

text \<open>Filling an empty slot adds the candidate and keeps the others.\<close>

lemma place_mset:
  assumes "i < length slots \<Longrightarrow> slots ! i = None"
  shows "mset (List.map_filter id (place slots i c)) = add_mset c (mset (List.map_filter id slots))"
proof -
  let ?s = "slots @ replicate (Suc i - length slots) None"
  have i: "i < length ?s" "?s ! i = None" using assms by (auto simp: nth_append)
  have "List.map_filter id (?s[i := Some c]) =
      List.map_filter id (take i ?s) @ c # List.map_filter id (drop (Suc i) ?s)"
    unfolding upd_conv_take_nth_drop [OF i(1)] by simp
  moreover have "List.map_filter id ?s = List.map_filter id (take i ?s) @ List.map_filter id (drop (Suc i) ?s)"
    by (subst id_take_nth_drop [OF i(1)]) (simp only: map_filter_id_append map_filter_simps i(2) id_apply option.case)
  ultimately show ?thesis by (simp add: place_def)
qed

lemma place_nth: "j < length (place slots i c) \<Longrightarrow>
    place slots i c ! j = (if j = i then Some c else if j < length slots then slots ! j else None)"
  by (auto simp: place_def nth_append nth_list_update)

definition slots_ok :: "string list \<Rightarrow> 'f backendCandidate option list \<Rightarrow> bool" where
  "slots_ok order slots = (\<forall>j c. j < length slots \<longrightarrow> slots ! j = Some c \<longrightarrow> order_index order (cd_name c) = Some j)"

lemma place_loop_mset:
  "\<lbrakk>slots_ok order slots; distinct (map cd_name cs);
    \<forall>c \<in> set cs. \<forall>d. Some d \<in> set slots \<longrightarrow> cd_name d \<noteq> cd_name c;
    place_loop order cs slots remaining = (slots', remaining')\<rbrakk> \<Longrightarrow>
   slots_ok order slots' \<and>
   mset (List.map_filter id slots') + mset remaining' = mset (List.map_filter id slots) + mset remaining + mset cs"
proof (induction cs arbitrary: slots remaining)
  case (Cons c cs)
  show ?case
  proof (cases "order_index order (cd_name c)")
    case None
    have "\<forall>d \<in> set cs. \<forall>e. Some e \<in> set slots \<longrightarrow> cd_name e \<noteq> cd_name d" using Cons.prems(3) by simp
    with Cons.IH [of slots "remaining @ [c]"] Cons.prems None show ?thesis by simp
  next
    case (Some i)
    have empty: "slots ! i = None" if "i < length slots"
    proof (rule ccontr)
      assume "slots ! i \<noteq> None"
      then obtain d where d: "slots ! i = Some d" by auto
      then have "order_index order (cd_name d) = Some i" using Cons.prems(1) that by (auto simp: slots_ok_def)
      then have "cd_name d = cd_name c" using Some order_index_name by metis
      moreover have "Some d \<in> set slots" using d that by (metis nth_mem)
      ultimately show False using Cons.prems(3) by simp
    qed
    have ok: "slots_ok order (place slots i c)"
      using Cons.prems(1) Some by (auto simp: slots_ok_def place_nth split: if_splits)
    have new: "\<forall>d \<in> set cs. \<forall>e. Some e \<in> set (place slots i c) \<longrightarrow> cd_name e \<noteq> cd_name d"
    proof (intro ballI allI impI)
      fix d e assume d: "d \<in> set cs" and e: "Some e \<in> set (place slots i c)"
      then obtain j where "j < length (place slots i c)" "place slots i c ! j = Some e"
        by (auto simp: in_set_conv_nth)
      then have "e = c \<or> Some e \<in> set slots" by (auto simp: place_nth split: if_splits dest: nth_mem)
      then show "cd_name e \<noteq> cd_name d" using Cons.prems(2,3) d by (metis distinct.simps(2) imageI list.set_intros(2) list.set_map list.simps(9))
    qed
    have "place_loop order cs (place slots i c) remaining = (slots', remaining')" using Cons.prems(4) Some by simp
    from Cons.IH [OF ok _ new this] Cons.prems(2) place_mset [OF empty, of c] show ?thesis by (simp add: id_def)
  qed
qed simp

lemma applyRotationOrder_mset:
  assumes "distinct (map cd_name cands)"
  shows "mset (applyRotationOrder cands rotation) = mset cands"
proof -
  let ?cs = "sort_key cd_name cands"
  obtain slots rest where run: "place_loop (rc_Order rotation) ?cs [] [] = (slots, rest)"
    by (cases "place_loop (rc_Order rotation) ?cs [] []")
  have d: "distinct (map cd_name ?cs)"
    using assms by (metis mset_map mset_sort mset_eq_imp_distinct_iff)
  have ok: "slots_ok (rc_Order rotation) slots" and
    m: "mset (List.map_filter id slots) + mset rest = mset cands"
    using place_loop_mset [OF _ d _ run] by (auto simp: slots_ok_def)
  have "cd_name c \<noteq> ''''" if "c \<in> set (List.map_filter id slots)" for c
  proof -
    obtain j where "j < length slots" "slots ! j = Some c"
      using \<open>c \<in> set (List.map_filter id slots)\<close> by (auto simp: map_filter_set in_set_conv_nth)
    then have "order_index (rc_Order rotation) (cd_name c) = Some j" using ok by (simp add: slots_ok_def)
    then show ?thesis by (auto simp: order_index_def split: if_splits)
  qed
  then have "filter (\<lambda>c. cd_name c \<noteq> '''') (List.map_filter id slots) = List.map_filter id slots"
    by (simp add: filter_id_conv)
  then show ?thesis using m run by (simp add: applyRotationOrder_def)
qed

lemma rotateCandidates_mset [simp]: "mset (rotateCandidates cs i) = mset cs"
proof -
  have "mset (drop k cs @ take k cs) = mset cs" for k :: nat
    by (metis append_take_drop_id mset_append union_commute)
  then show ?thesis by (simp add: rotateCandidates_def)
qed

section \<open>Failover\<close>

text \<open>An attempt is passed over if the backend returned without an error of its own but was rate limited.\<close>

definition passed_over :: "'f orch_env \<Rightarrow> 'f BackendRequest \<Rightarrow> 'f backendCandidate \<Rightarrow> bool" where
  "passed_over env req c =
     (case executeCandidate (oe_floats env) req c of
        (Some r, None) \<Rightarrow> result_rate_info env r \<noteq> None
      | _ \<Rightarrow> False)"

text \<open>The candidates that are tried: up to and including the first that is not passed over.\<close>

fun tried :: "('a \<Rightarrow> bool) \<Rightarrow> 'a list \<Rightarrow> 'a list" where
  "tried P [] = []"
| "tried P (x # xs) = x # (if P x then tried P xs else [])"

lemma record_limited:
  "fst (recordBackendResult env now now2 cand result orc) =
     (case result of Some r \<Rightarrow> result_rate_info env r \<noteq> None | None \<Rightarrow> False)"
  by (simp add: recordBackendResult_def Let_def split: option.splits)

lemma attempt_loop_results:
  "fst (fst (attempt_loop env tm req mode i cs results orc)) =
     results @ map (\<lambda>c. fst (executeCandidate (oe_floats env) req c)) (tried (passed_over env req) cs) \<and>
   (snd (fst (attempt_loop env tm req mode i cs results orc)) = None \<longleftrightarrow>
      (\<exists>c \<in> set cs. \<not> passed_over env req c) \<and>
      snd (executeCandidate (oe_floats env) req (last (tried (passed_over env req) cs))) = None)"
proof (induction cs arbitrary: i results orc)
  case (Cons c cs)
  obtain result err where ex: "executeCandidate (oe_floats env) req c = (result, err)" by fastforce
  let ?o1 = "markBackendUse (cd_name c) (cd_model c) (rotationReason mode i) orc"
  obtain lim o2 where rec: "recordBackendResult env (fst (tm i)) (snd (tm i)) c result ?o1 = (lim, o2)" by fastforce
  have lim: "lim = (case result of Some r \<Rightarrow> result_rate_info env r \<noteq> None | None \<Rightarrow> False)"
    using record_limited [of env "fst (tm i)" "snd (tm i)" c result ?o1] rec by simp
  have p: "passed_over env req c \<longleftrightarrow> err = None \<and> lim"
    unfolding passed_over_def ex lim by (auto split: option.splits)
  have step: "attempt_loop env tm req mode i (c # cs) results orc =
      (case err of Some e \<Rightarrow> ((results @ [result], Some (ExecError e)), o2)
       | None \<Rightarrow> if lim then attempt_loop env tm req mode (Suc i) cs (results @ [result]) o2
                 else ((results @ [result], None), o2))"
    by (simp add: Let_def ex rec)
  show ?case
  proof (cases "err = None \<and> lim")
    case True
    then have pc: "passed_over env req c" using p by simp
    have "attempt_loop env tm req mode i (c # cs) results orc =
        attempt_loop env tm req mode (Suc i) cs (results @ [result]) o2" using step True by simp
    then show ?thesis
      using Cons.IH [of "Suc i" "results @ [result]" o2] pc ex by (cases cs) (auto simp del: attempt_loop.simps)
  next
    case False
    then have "\<not> passed_over env req c" using p by simp
    then show ?thesis unfolding step using ex False by (cases err) auto
  qed
qed (simp add: Let_def)


lemma visit_name:
  assumes "visit_cand (visit env orc config now pt sts n) = Some c" shows "cd_name c = n"
proof -
  obtain st parked where "visit env orc config now pt sts n = Some (st, parked, Some c)"
    using assms by (auto simp: visit_cand_def split: option.splits)
  then obtain cfg st0 where "consider_backend env orc config now pt n cfg st0 = (st, parked, Some c)"
    by (auto simp: visit_def split: option.splits if_splits)
  then show ?thesis by (rule consider_candidate [THEN conjunct2, THEN conjunct2, THEN conjunct2, THEN conjunct1])
qed

lemma map_filter_keys_distinct:
  "\<lbrakk>distinct names; \<And>n c. f n = Some c \<Longrightarrow> key c = n\<rbrakk> \<Longrightarrow>
   distinct (map key (List.map_filter f names)) \<and> key ` set (List.map_filter f names) \<subseteq> set names"
  by (induction names) (auto split: option.splits)

lemma candidates_distinct:
  assumes "availableCandidates env now req orc = ((cands, nxt), orc')"
  shows "distinct (map cd_name cands)"
proof (cases "or_config orc")
  case (Some config)
  have "distinct (map cd_name (List.map_filter
      (\<lambda>n. visit_cand (visit env orc config now (promptTokenCount env req) (or_backendStates orc) n)) (backendNamesInOrder config)))"
    by (rule map_filter_keys_distinct [THEN conjunct1, OF backendNamesInOrder_spec(1)]) (rule visit_name)
  then show ?thesis unfolding availableCandidates_spec(1) [OF assms Some, symmetric] .
qed (use assms in \<open>simp add: availableCandidates_def\<close>)

lemma applyRotationOrder_Nil: "distinct (map cd_name cands) \<Longrightarrow> applyRotationOrder cands rotation = [] \<longleftrightarrow> cands = []"
  using applyRotationOrder_mset [of cands rotation] by (metis mset_zero_iff)

text \<open>C15: In the sequential and round-robin modes \<open>Execute\<close> tries the candidates one after the other, each at most once
  and in some order of all of them: it passes on to the next only when a backend returned without an
  error and was rate limited, the results are those of the attempts made, and it succeeds exactly if the
  last attempt was not rate limited and returned without an error.\<close>

theorem failover_order:
  assumes "or_config orc = Some config" "cc_Mode config \<in> {ModeSequential, ModeRoundRobin, ''''}"
    "availableCandidates env now req orc = ((cands, nxt), o1)" "cands \<noteq> []"
  shows "\<exists>ordered. mset ordered = mset cands \<and>
    fst (fst (Execute env now tm sched req orc)) =
      map (\<lambda>c. fst (executeCandidate (oe_floats env) req c)) (tried (passed_over env req) ordered) \<and>
    (snd (fst (Execute env now tm sched req orc)) = None \<longleftrightarrow>
      (\<exists>c \<in> set ordered. \<not> passed_over env req c) \<and>
      snd (executeCandidate (oe_floats env) req (last (tried (passed_over env req) ordered))) = None)"
proof -
  let ?rot = "cc_Rotation config" and ?mode = "cc_Mode config"
  let ?ord = "applyRotationOrder cands ?rot"
  let ?rm = "effectiveRotationMode ?rot ?mode"
  obtain start o2 where st: "choose_start now ?rot ?rm (length ?ord) o1 = (start, o2)" by fastforce
  have perm: "mset ?ord = mset cands" using candidates_distinct [OF assms(3)] by (rule applyRotationOrder_mset)
  then have ne: "?ord \<noteq> []" using assms(4) by auto
  have mode: "?mode \<noteq> ModeParallel" "?mode = ModeSequential \<or> ?mode = ModeRoundRobin \<or> ?mode = ''''"
    using assms(2) by (auto simp: mode_names)
  have "Execute env now tm sched req orc = executeSingle env now tm req cands ?rot ?mode o1"
    unfolding Execute_def Let_def assms(1,3) option.case prod.case
    by (simp only: assms(4) mode if_False if_True)
  also have "\<dots> = attempt_loop env tm req ?rm 0 (rotateCandidates ?ord start) [] o2"
    unfolding executeSingle_def Let_def st prod.case by (simp only: ne if_False)
  finally have run: "Execute env now tm sched req orc = attempt_loop env tm req ?rm 0 (rotateCandidates ?ord start) [] o2" .
  show ?thesis
    unfolding run
    using attempt_loop_results [of env tm req ?rm 0 "rotateCandidates ?ord start" "[]" o2] perm
    by (intro exI [of _ "rotateCandidates ?ord start"]) simp
qed

section \<open>Round robin\<close>

lemma rotateCandidates_rotate: "rotateCandidates cs s = rotate s cs"
  by (simp add: rotateCandidates_def rotate_drop_take)

definition next_round :: "go_time \<Rightarrow> RotationConfig \<Rightarrow> nat \<Rightarrow> 'f Orchestrator \<Rightarrow> 'f Orchestrator" where
  "next_round now rotation n orc = snd (choose_start now rotation RotationRoundRobin n orc)"

lemma next_round_current: "or_currentBackend ((next_round now rotation n ^^ i) orc) = or_currentBackend orc + i"
  by (induction i) (simp_all add: next_round_def choose_start_def)

text \<open>Round robin is fair: over as many rounds as there are candidates, wherever the counter stands, each candidate
  is the first to be tried in exactly one of them.\<close>

theorem round_robin_fair:
  assumes "cs \<noteq> []"
  shows "mset (map (\<lambda>i. hd (rotateCandidates cs
      (fst (choose_start now rotation RotationRoundRobin (length cs) ((next_round now rotation (length cs) ^^ i) orc)))))
    [0..<length cs]) = mset cs"
proof -
  let ?k = "or_currentBackend orc"
  have "hd (rotateCandidates cs (fst (choose_start now rotation RotationRoundRobin (length cs)
      ((next_round now rotation (length cs) ^^ i) orc)))) = rotate ?k cs ! i" if "i < length cs" for i
  proof -
    have "fst (choose_start now rotation RotationRoundRobin (length cs) ((next_round now rotation (length cs) ^^ i) orc)) =
        (?k + i) mod length cs"
      by (simp add: choose_start_def next_round_current)
    then show ?thesis using assms that by (simp add: rotateCandidates_rotate hd_rotate_conv_nth nth_rotate)
  qed
  then have "map (\<lambda>i. hd (rotateCandidates cs (fst (choose_start now rotation RotationRoundRobin (length cs)
      ((next_round now rotation (length cs) ^^ i) orc))))) [0..<length cs] = rotate ?k cs"
    by (auto intro: nth_equalityI)
  then show ?thesis using rotateCandidates_mset [of cs ?k] by (simp add: rotateCandidates_rotate)
qed

end
