(* ===== verification/Ralph_Session.thy ===== *)
theory Ralph_Session
  imports Go_Numbers
begin

text \<open>
  A session of the Ralph loop: its state machine (src/pkg/ralph/state.go) and its counters
  (src/pkg/ralph/session.go).

  A \<open>State\<close> is a Go string, so the model keeps it a string; \<open>validTransitions\<close> is the source's table.
  Every method of \<open>Session\<close> runs under the session's mutex and is one step.  \<open>totalCost\<close> is a
  \<open>float64\<close> (see \<open>Go_Numbers\<close>).  A nil map \<open>filesModifiedSet\<close> is the empty set, as lookups in it cannot tell.

  Shown here: whatever calls are made, in whatever order, the state is one of the five named ones, a
  completed session stays completed, a session is never back in its initial state, and the list of modified files
  has no duplicates and agrees with its set.
\<close>

section \<open>States\<close>

type_synonym State = string

definition StateInit :: State where "StateInit = ''init''"
definition StateRefining :: State where "StateRefining = ''refining''"
definition StateRunning :: State where "StateRunning = ''running''"
definition StatePaused :: State where "StatePaused = ''paused''"
definition StateCompleted :: State where "StateCompleted = ''completed''"

definition validTransitions :: "(State \<times> State list) list" where
  "validTransitions =
     [(StateInit, [StateRefining, StateRunning]),
      (StateRefining, [StateRunning, StateCompleted]),
      (StateRunning, [StatePaused, StateCompleted]),
      (StatePaused, [StateRunning, StateCompleted]),
      (StateCompleted, [])]"

definition CanTransitionTo :: "State \<Rightarrow> State \<Rightarrow> bool" where
  "CanTransitionTo s next =
     (case map_of validTransitions s of None \<Rightarrow> False | Some allowed \<Rightarrow> next \<in> set allowed)"

record ErrInvalidTransition =
  eit_From :: State
  eit_To :: State

definition ErrInvalidTransition_Error :: "ErrInvalidTransition \<Rightarrow> string" where
  "ErrInvalidTransition_Error e = ''invalid state transition: '' @ eit_From e @ '' -> '' @ eit_To e"

section \<open>Sessions\<close>

record GitWorkflowConfig =
  gw_AutoCommit :: bool
  gw_CreatePR :: bool
  gw_TargetBranch :: string
  gw_RepoRoot :: string

record SessionConfig =
  sc_SessionID :: string
  sc_Prompt :: string
  sc_PromptFile :: string
  sc_Sandbox :: string
  sc_Timeout :: go_duration
  sc_MaxIterations :: int
  sc_NoRefine :: bool
  sc_VerifyCommand :: string
  sc_GitWorkflow :: GitWorkflowConfig

record 'f Session =
  se_ID :: string
  se_Prompt :: string
  se_PromptFile :: string
  se_Sandbox :: string
  se_Timeout :: go_duration
  se_MaxIterations :: int
  se_NoRefine :: bool
  se_VerifyCommand :: string
  se_GitWorkflow :: GitWorkflowConfig
  se_state :: State
  se_iteration :: int
  se_startTime :: go_time
  se_totalTokens :: int
  se_totalCost :: 'f
  se_filesModified :: "string list"
  se_filesModifiedSet :: "string set"

record 'f SessionStats =
  ss_Iteration :: int
  ss_TotalTokens :: int
  ss_TotalCost :: 'f
  ss_FilesModified :: nat
  ss_Elapsed :: go_duration

definition NewSession :: "'f float_ops \<Rightarrow> SessionConfig \<Rightarrow> 'f Session" where
  "NewSession fo cfg =
     \<lparr>se_ID = sc_SessionID cfg, se_Prompt = sc_Prompt cfg, se_PromptFile = sc_PromptFile cfg,
      se_Sandbox = sc_Sandbox cfg, se_Timeout = sc_Timeout cfg, se_MaxIterations = sc_MaxIterations cfg,
      se_NoRefine = sc_NoRefine cfg, se_VerifyCommand = sc_VerifyCommand cfg,
      se_GitWorkflow = sc_GitWorkflow cfg, se_state = StateInit, se_iteration = 0, se_startTime = 0,
      se_totalTokens = 0, se_totalCost = f_zero fo, se_filesModified = [], se_filesModifiedSet = {}\<rparr>"

definition TransitionTo :: "State \<Rightarrow> 'f Session \<Rightarrow> ErrInvalidTransition option \<times> 'f Session" where
  "TransitionTo next s =
     (if \<not> CanTransitionTo (se_state s) next then (Some \<lparr>eit_From = se_state s, eit_To = next\<rparr>, s)
      else (None, s\<lparr>se_state := next\<rparr>))"

definition IncrementIteration :: "'f Session \<Rightarrow> int \<times> 'f Session" where
  "IncrementIteration s = (se_iteration s + 1, s\<lparr>se_iteration := se_iteration s + 1\<rparr>)"

definition Session_Stats :: "go_time \<Rightarrow> 'f Session \<Rightarrow> 'f SessionStats" where
  "Session_Stats now s =
     \<lparr>ss_Iteration = se_iteration s, ss_TotalTokens = se_totalTokens s, ss_TotalCost = se_totalCost s,
      ss_FilesModified = length (se_filesModified s), ss_Elapsed = now - se_startTime s\<rparr>"

definition Session_Start :: "go_time \<Rightarrow> 'f Session \<Rightarrow> 'f Session" where
  "Session_Start now s = s\<lparr>se_startTime := now\<rparr>"

definition AddTokens :: "'f float_ops \<Rightarrow> int \<Rightarrow> 'f \<Rightarrow> 'f Session \<Rightarrow> 'f Session" where
  "AddTokens fo tokens cost s =
     s\<lparr>se_totalTokens := se_totalTokens s + tokens, se_totalCost := f_add fo (se_totalCost s) cost\<rparr>"

definition AddModifiedFile :: "string \<Rightarrow> 'f Session \<Rightarrow> 'f Session" where
  "AddModifiedFile path s =
     (if path \<in> se_filesModifiedSet s then s
      else s\<lparr>se_filesModifiedSet := insert path (se_filesModifiedSet s),
             se_filesModified := se_filesModified s @ [path]\<rparr>)"

definition ModifiedFiles :: "'f Session \<Rightarrow> string list" where
  "ModifiedFiles s = se_filesModified s"

definition GetPrompt :: "'f Session \<Rightarrow> string" where
  "GetPrompt s = se_Prompt s"

definition SetPrompt :: "string \<Rightarrow> 'f Session \<Rightarrow> 'f Session" where
  "SetPrompt prompt s = s\<lparr>se_Prompt := prompt\<rparr>"

section \<open>The session as a transition system\<close>

text \<open>One call of a method by any goroutine.\<close>

inductive session_step :: "'f float_ops \<Rightarrow> 'f Session \<Rightarrow> 'f Session \<Rightarrow> bool" for fo where
  transition: "session_step fo s (snd (TransitionTo next s))"
| increment: "session_step fo s (snd (IncrementIteration s))"
| start: "session_step fo s (Session_Start now s)"
| add_tokens: "session_step fo s (AddTokens fo tokens cost s)"
| add_file: "session_step fo s (AddModifiedFile path s)"
| set_prompt: "session_step fo s (SetPrompt prompt s)"

inductive_cases session_stepE: "session_step fo s t"

lemmas session_ops = TransitionTo_def IncrementIteration_def Session_Start_def AddTokens_def
  AddModifiedFile_def SetPrompt_def

lemmas state_names = StateInit_def StateRefining_def StateRunning_def StatePaused_def StateCompleted_def

definition session_ok :: "'f Session \<Rightarrow> bool" where
  "session_ok s =
     (se_state s \<in> {StateInit, StateRefining, StateRunning, StatePaused, StateCompleted} \<and>
      distinct (se_filesModified s) \<and> set (se_filesModified s) = se_filesModifiedSet s)"

lemma CanTransitionTo_iff:
  "CanTransitionTo a b \<longleftrightarrow>
     (a, b) \<in> {(StateInit, StateRefining), (StateInit, StateRunning), (StateRefining, StateRunning),
       (StateRefining, StateCompleted), (StateRunning, StatePaused), (StateRunning, StateCompleted),
       (StatePaused, StateRunning), (StatePaused, StateCompleted)}"
  by (simp add: CanTransitionTo_def validTransitions_def state_names)

lemma session_step_ok: "session_step fo s t \<Longrightarrow> session_ok s \<Longrightarrow> session_ok t"
  by (erule session_stepE) (auto simp: session_ok_def session_ops CanTransitionTo_iff)

interpretation session: transition_system "\<lambda>s. \<exists>cfg. s = NewSession fo cfg" "session_step fo" session_ok
  by unfold_locales (auto simp: session_step_ok, simp add: session_ok_def NewSession_def)

lemma completed_step: "session_step fo s t \<Longrightarrow> se_state s = StateCompleted \<Longrightarrow> se_state t = StateCompleted"
  by (erule session_stepE) (auto simp: session_ops CanTransitionTo_iff state_names)

lemma started_step: "session_step fo s t \<Longrightarrow> se_state s \<noteq> StateInit \<Longrightarrow> se_state t \<noteq> StateInit"
  by (erule session_stepE) (auto simp: session_ops CanTransitionTo_iff state_names)

text \<open>C36: Whatever calls are made on a session and in whatever order, its state is one of the five named ones,
  its list of modified files has no duplicates and agrees with the set beside it; once completed it
  stays completed, and once started it is never again in its initial state.\<close>

theorem session_lifecycle:
  assumes "(session_step fo)\<^sup>*\<^sup>* (NewSession fo cfg) s" "(session_step fo)\<^sup>*\<^sup>* s t"
  shows "session_ok s \<and> (se_state s = StateCompleted \<longrightarrow> se_state t = StateCompleted) \<and>
    (se_state s \<noteq> StateInit \<longrightarrow> se_state t \<noteq> StateInit)"
proof (intro conjI impI)
  show "session_ok s" by (rule session.reachable_inv [OF _ assms(1)]) blast
  show "se_state t = StateCompleted" if "se_state s = StateCompleted"
    using assms(2) that by induction (auto dest: completed_step)
  show "se_state t \<noteq> StateInit" if "se_state s \<noteq> StateInit"
    using assms(2) that by induction (auto dest: started_step)
qed

definition plain_config :: SessionConfig where
  "plain_config = \<lparr>sc_SessionID = ''s1'', sc_Prompt = ''fix the build'', sc_PromptFile = '''', sc_Sandbox = ''/tmp'',
     sc_Timeout = 0, sc_MaxIterations = 3, sc_NoRefine = True, sc_VerifyCommand = '''',
     sc_GitWorkflow = \<lparr>gw_AutoCommit = False, gw_CreatePR = False, gw_TargetBranch = ''main'', gw_RepoRoot = ''''\<rparr>\<rparr>"

definition finished_session :: "int Session" where
  "finished_session =
     snd (TransitionTo StateCompleted (snd (TransitionTo StateRunning (NewSession int_floats plain_config))))"

lemma finished_reachable: "(session_step int_floats)\<^sup>*\<^sup>* (NewSession int_floats plain_config) finished_session"
  unfolding finished_session_def by (meson session_step.transition rtranclp.intros)

lemma restarted_reachable:
  "(session_step int_floats)\<^sup>*\<^sup>* finished_session (snd (TransitionTo StateRunning finished_session))"
  by (meson session_step.transition rtranclp.intros)

lemma finished_state: "se_state finished_session = StateCompleted"
  by (simp add: finished_session_def TransitionTo_def CanTransitionTo_iff NewSession_def)

theorem session_lifecycle_witness:
  "se_state (snd (TransitionTo StateRunning finished_session)) = StateCompleted"
  using session_lifecycle [OF finished_reachable restarted_reachable] finished_state by blast

end
