(* ===== verification/Ralph_Loop.thy ===== *)
theory Ralph_Loop
  imports Ralph_Orchestrator Ralph_Session
begin

text \<open>
  The orchestrator over time: its operations as a transition system, the schedule actions as the
  executor applies them (src/pkg/ralph/executor.go, \<open>handleScheduleAction\<close>), and what follows for a backend in the
  long run.

  Shown here: a rate-limited backend is kept away until its time and comes back after it; a backend that
  was once disabled, or that reached its limit of consecutive errors, never runs again; of several
  cron rules only the first to be looked at in a minute can fire; and setting a backend puts it first.
\<close>

section \<open>Schedule actions\<close>

definition handleScheduleAction :: "go_time \<Rightarrow> string \<Rightarrow> ScheduleAction \<Rightarrow> 'f Session \<times> 'f Orchestrator \<Rightarrow> 'f Session \<times> 'f Orchestrator" where
  "handleScheduleAction now lastBackend action st =
     (case st of (s, orc) \<Rightarrow>
        if sa_Action action = ''pause'' then (snd (TransitionTo StatePaused s), orc)
        else if sa_Action action = ''resume'' then (snd (TransitionTo StateRunning s), orc)
        else if sa_Action action = ''set_mode'' then (s, set_mode_action (sa_Mode action) orc)
        else if sa_Action action = ''set_backend'' then (s, snd (set_backend_action now (sa_Backend action) orc))
        else if sa_Action action = ''rotate_backend'' then (s, snd (rotate_backend_action now orc))
        else if sa_Action action = ''next_backend'' then (s, snd (next_backend_action now lastBackend orc))
        else (s, orc))"

section \<open>The transition system\<close>

inductive orch_step :: "'f orch_env \<Rightarrow> 'f Orchestrator \<Rightarrow> 'f Orchestrator \<Rightarrow> bool" for env where
  execute: "mset (sched (fst (fst (availableCandidates env now req orc)))) = mset (fst (fst (availableCandidates env now req orc)))
    \<Longrightarrow> orch_step env orc (snd (Execute env now tm sched req orc))"
| schedule: "orch_step env orc (snd (EvaluateSchedule env nows lastError orc))"
| action: "orch_step env orc (snd (handleScheduleAction now lastBackend action (s, orc)))"
| consume: "orch_step env orc (snd (ConsumeNextAction orc))"
| update: "orch_step env orc (UpdateConfig config orc)"
| record_error: "orch_step env orc (RecordError err orc)"
| record_cost: "orch_step env orc (RecordCost (oe_floats env) cost tokens orc)"
| next_iteration: "orch_step env orc (NextIteration orc)"
| set_logger: "orch_step env orc (SetLogger logger orc)"
| set_provider: "orch_step env orc (SetContextProvider provider orc)"
| reg: "orch_step env orc (orc\<lparr>or_registry := Register b (or_registry orc)\<rparr>)"

inductive_cases orch_stepE: "orch_step env orc orc'"

definition state_of :: "'f orch_env \<Rightarrow> string \<Rightarrow> 'f Orchestrator \<Rightarrow> 'f backendState" where
  "state_of env name orc = ensureBackendStateLocked (oe_floats env) name (or_backendStates orc)"

text \<open>Only a candidate's own state changes when results are recorded.\<close>

lemma record_other:
  "cd_name cand \<noteq> name \<Longrightarrow> state_of env name (snd (recordBackendResult env now now2 cand result orc)) = state_of env name orc"
  by (simp add: state_of_def recordBackendResult_def parkBackend_def count_total_def Let_def ensure_put_state
      split: option.split)

lemma mark_states [simp]: "or_backendStates (markBackendUse n m r orc) = or_backendStates orc"
  by (simp add: markBackendUse_def Let_def)

lemma state_of_mark [simp]: "state_of env name (markBackendUse n m r orc) = state_of env name orc"
  by (simp add: state_of_def)

lemma attempt_loop_other:
  "\<forall>c \<in> set cs. cd_name c \<noteq> name \<Longrightarrow>
   state_of env name (snd (attempt_loop env tm req mode i cs results orc)) = state_of env name orc"
proof (induction cs arbitrary: i results orc)
  case (Cons c cs)
  let ?o1 = "markBackendUse (cd_name c) (cd_model c) (rotationReason mode i) orc"
  obtain result err where ex: "executeCandidate (oe_floats env) req c = (result, err)" by fastforce
  obtain lim o2 where rec: "recordBackendResult env (fst (tm i)) (snd (tm i)) c result ?o1 = (lim, o2)" by fastforce
  have "state_of env name o2 = state_of env name orc"
    using record_other [of c name env "fst (tm i)" "snd (tm i)" result ?o1] rec Cons.prems by simp
  then show ?case using Cons.IH [of "Suc i" "results @ [result]" o2] Cons.prems by (simp add: Let_def ex rec split: option.split)
qed (simp add: Let_def)

lemma record_all_other:
  "\<forall>c \<in> set cs. cd_name c \<noteq> name \<Longrightarrow> state_of env name (snd (record_all env tm req i cs orc)) = state_of env name orc"
proof (induction cs arbitrary: i orc)
  case (Cons c cs)
  obtain result err where ex: "executeCandidate (oe_floats env) req c = (result, err)" by fastforce
  obtain lim o1 where rec: "recordBackendResult env (fst (tm i)) (snd (tm i)) c result orc = (lim, o1)" by fastforce
  have "state_of env name o1 = state_of env name orc"
    using record_other [of c name env "fst (tm i)" "snd (tm i)" result orc] rec Cons.prems by simp
  then show ?case using Cons.IH [of "Suc i" o1] Cons.prems by (auto simp: Let_def ex rec split: prod.split)
qed simp

lemma choose_start_states [simp]: "or_backendStates (snd (choose_start now rotation mode n orc)) = or_backendStates orc"
  by (simp add: choose_start_def Let_def)

lemma executeSingle_other:
  assumes "distinct (map cd_name cands)" "\<forall>c \<in> set cands. cd_name c \<noteq> name"
  shows "state_of env name (snd (executeSingle env now tm req cands rotation mode orc)) = state_of env name orc"
proof -
  let ?ord = "applyRotationOrder cands rotation" and ?rm = "effectiveRotationMode rotation mode"
  obtain start o2 where st: "choose_start now rotation ?rm (length ?ord) orc = (start, o2)" by fastforce
  have o2: "state_of env name o2 = state_of env name orc"
    using choose_start_states [of now rotation ?rm "length ?ord" orc] st by (simp add: state_of_def)
  have "mset (rotateCandidates ?ord start) = mset cands"
    using applyRotationOrder_mset [OF assms(1)] by simp
  then have "\<forall>c \<in> set (rotateCandidates ?ord start). cd_name c \<noteq> name" using assms(2) by (metis set_mset_mset)
  from attempt_loop_other [OF this] o2 show ?thesis by (simp add: executeSingle_def Let_def st)
qed

text \<open>A backend that is not a candidate keeps the state that \<open>availableCandidates\<close> left it in.\<close>

lemma Execute_other:
  assumes "availableCandidates env now req orc = ((cands, nxt), o1)" "\<forall>c \<in> set cands. cd_name c \<noteq> name"
    "mset (sched cands) = mset cands"
  shows "state_of env name (snd (Execute env now tm sched req orc)) = state_of env name o1"
proof -
  have "\<forall>c \<in> set (sched cands). cd_name c \<noteq> name" using assms(2,3) by (metis set_mset_mset)
  then have par: "state_of env name (snd (executeParallel env tm req (sched cands) o1)) = state_of env name o1"
    using record_all_other [of "sched cands" name env tm req 0 o1]
    by (auto simp: executeParallel_def Let_def split: prod.split)
  show ?thesis
    unfolding Execute_def Let_def assms(1) prod.case
    using par executeSingle_other [OF candidates_distinct [OF assms(1)] assms(2)] by simp
qed

section \<open>Operations that leave the backend states alone\<close>

lemma check_cron_states [simp]: "or_backendStates (snd (check_cron env now cron orc)) = or_backendStates orc"
  "or_config (snd (check_cron env now cron orc)) = or_config orc"
  by (auto simp: check_cron_def Let_def split: sum.split)

lemma triggerMatches_states [simp]:
  "or_backendStates (snd (triggerMatches env now trigger it err orc)) = or_backendStates orc"
  "or_config (snd (triggerMatches env now trigger it err orc)) = or_config orc"
  by (simp_all add: triggerMatches_def)

lemma schedule_loop_states [simp]:
  "or_backendStates (snd (schedule_loop env nows i it err rules orc)) = or_backendStates orc \<and>
   or_config (snd (schedule_loop env nows i it err rules orc)) = or_config orc"
proof (induction rules arbitrary: i orc)
  case (Cons rule rules)
  obtain m o1 where t: "triggerMatches env (nows i) (sr_Trigger rule) it err orc = (m, o1)" by fastforce
  have "or_backendStates o1 = or_backendStates orc" "or_config o1 = or_config orc"
    using triggerMatches_states [of env "nows i" "sr_Trigger rule" it err orc] t by simp_all
  then show ?case using Cons.IH [of "Suc i" o1] t by (cases m) simp_all
qed simp

lemma EvaluateSchedule_states [simp]:
  "or_backendStates (snd (EvaluateSchedule env nows err orc)) = or_backendStates orc"
  "or_config (snd (EvaluateSchedule env nows err orc)) = or_config orc"
  by (simp_all add: EvaluateSchedule_def split: option.split)

text \<open>Applying an action changes the mode or the order, never the states or the backends' configuration.\<close>

definition same_backends :: "'f Orchestrator \<Rightarrow> 'f Orchestrator \<Rightarrow> bool" where
  "same_backends a b =
     (or_backendStates a = or_backendStates b \<and>
      map_option cc_Backends (or_config a) = map_option cc_Backends (or_config b))"

lemma applyBackendSelection_same: "same_backends orc (snd (applyBackendSelection now sel reorder orc))"
  by (auto simp: same_backends_def applyBackendSelection_def Let_def split: option.split)

lemma same_backends_refl [simp]: "same_backends orc orc"
  by (simp add: same_backends_def)

lemma set_mode_same: "same_backends orc (set_mode_action name orc)"
  by (simp add: same_backends_def set_mode_action_def Let_def split: option.split)

lemma handleScheduleAction_same: "same_backends orc (snd (handleScheduleAction now lb action (s, orc)))"
  by (simp add: handleScheduleAction_def set_backend_action_def rotate_backend_action_def next_backend_action_def
      Let_def applyBackendSelection_same set_mode_same)

lemma ConsumeNextAction_same: "same_backends orc (snd (ConsumeNextAction orc))"
  by (simp add: same_backends_def ConsumeNextAction_def Let_def split: option.split)

lemmas setter_defs = UpdateConfig_def RecordError_def RecordCost_def NextIteration_def SetLogger_def SetContextProvider_def

section \<open>Backends that never come back\<close>

lemma disabled_visit:
  assumes "bs_status (ensureBackendStateLocked (oe_floats env) name sts) = BackendDisabled"
  shows "case visit env orc config now pt sts name of
      Some (st, _, c) \<Rightarrow> bs_status st = BackendDisabled \<and> c = None | None \<Rightarrow> True"
  using assms by (auto simp: visit_def consider_backend_def split: option.split)

lemma availableCandidates_None: "or_config orc = None \<Longrightarrow> availableCandidates env now req orc = (([], 0), orc)"
  by (simp add: availableCandidates_def)

lemma candidate_visit:
  assumes "availableCandidates env now req orc = ((cands, nxt), o1)" "or_config orc = Some config" "c \<in> set cands"
  shows "visit_cand (visit env orc config now (promptTokenCount env req) (or_backendStates orc) (cd_name c)) = Some c"
proof -
  let ?v = "visit env orc config now (promptTokenCount env req) (or_backendStates orc)"
  obtain n where n: "visit_cand (?v n) = Some c"
    using assms(3) unfolding availableCandidates_spec(1) [OF assms(1,2)] map_filter_set by blast
  then have "cd_name c = n" by (rule visit_name)
  with n show ?thesis by simp
qed

lemma state_after_visit:
  assumes "availableCandidates env now req orc = ((cands, nxt), o1)" "or_config orc = Some config"
  shows "state_of env name o1 =
    (case visit env orc config now (promptTokenCount env req) (or_backendStates orc) name of
       Some (st, _, _) \<Rightarrow> st | None \<Rightarrow> state_of env name orc)"
  using availableCandidates_spec(3) [OF assms, of name]
  by (auto simp: state_of_def ensureBackendStateLocked_def split: option.splits)

lemma disabled_available:
  assumes "availableCandidates env now req orc = ((cands, nxt), o1)" "bs_status (state_of env name orc) = BackendDisabled"
  shows "bs_status (state_of env name o1) = BackendDisabled \<and> (\<forall>c \<in> set cands. cd_name c \<noteq> name)"
proof (cases "or_config orc")
  case None
  then show ?thesis using assms by (simp add: availableCandidates_None)
next
  case (Some config)
  let ?v = "visit env orc config now (promptTokenCount env req) (or_backendStates orc) name"
  have v: "case ?v of Some (st, _, c) \<Rightarrow> bs_status st = BackendDisabled \<and> c = None | None \<Rightarrow> True"
    using assms(2) unfolding state_of_def by (rule disabled_visit)
  have "visit_cand ?v = None" using v by (auto simp: visit_cand_def split: option.splits)
  moreover have "bs_status (state_of env name o1) = BackendDisabled"
    using v assms(2) unfolding state_after_visit [OF assms(1) Some] by (auto split: option.splits)
  ultimately show ?thesis using candidate_visit [OF assms(1) Some] by (metis option.distinct(1))
qed

lemma disabled_step:
  assumes "orch_step env orc orc'" "bs_status (state_of env name orc) = BackendDisabled"
  shows "bs_status (state_of env name orc') = BackendDisabled"
  using assms(1)
proof cases
  case (execute sched now req tm)
  obtain cands nxt o1 where av: "availableCandidates env now req orc = ((cands, nxt), o1)" by (metis prod.collapse)
  have d: "bs_status (state_of env name o1) = BackendDisabled" "\<forall>c \<in> set cands. cd_name c \<noteq> name"
    using disabled_available [OF av assms(2)] by auto
  show ?thesis using Execute_other [OF av d(2)] d(1) execute av by simp
next
  case (action now lb a s)
  then show ?thesis using assms(2) handleScheduleAction_same [of orc now lb a s]
    by (simp add: state_of_def same_backends_def)
next
  case consume
  then show ?thesis using assms(2) ConsumeNextAction_same [of orc] by (simp add: state_of_def same_backends_def)
qed (use assms(2) in \<open>simp_all add: state_of_def setter_defs split: option.split\<close>)

text \<open>C16: A backend that was once seen disabled never runs again: whatever is done to the orchestrator
  afterwards, including a hot reload of the configuration that enables the backend, it is in no list of candidates.
  \<open>availableCandidates\<close> stores the status \<open>disabled\<close> and nothing ever clears it.\<close>

theorem disabled_backend_never_returns:
  assumes "bs_status (state_of env name orc) = BackendDisabled" "(orch_step env)\<^sup>*\<^sup>* orc orc'"
    "availableCandidates env now req orc' = ((cands, nxt), o1)"
  shows "name \<notin> set (map cd_name cands)"
proof -
  have "bs_status (state_of env name orc') = BackendDisabled"
    using assms(2,1) by induction (auto dest: disabled_step)
  then show ?thesis using disabled_available [OF assms(3)] by auto
qed


lemma applyThresholds_consec:
  "bs_consecErrors (snd (applyThresholdsLocked env provider now cfg pt model st)) = bs_consecErrors st"
  by (simp add: applyThresholdsLocked_def Let_def park_def split: option.split)

lemma consider_consec:
  "bs_consecErrors (fst (consider_backend env orc config now pt name cfg st0)) = bs_consecErrors st0"
proof -
  have pick: "fst (if p then (st2, t, None) else (case r of None \<Rightarrow> (st2, None, None)
      | Some b \<Rightarrow> if \<not> be_Available b then (st2, None, None) else (st2, None, Some (k b)))) = st2" for p st2 t r k
    by (simp split: option.split)
  let ?st1 = "if bs_status st0 = BackendParked then st0\<lparr>bs_status := BackendActive, bs_parkedUntil := 0\<rparr> else st0"
  have "bs_consecErrors ?st1 = bs_consecErrors st0" by simp
  then show ?thesis
    unfolding consider_backend_def Let_def
    by (simp add: pick case_prod_beta applyThresholds_consec)
qed

definition has_error_limit :: "string \<Rightarrow> int \<Rightarrow> 'f Orchestrator \<Rightarrow> bool" where
  "has_error_limit name k orc =
     (0 < k \<and> (case or_config orc of
        None \<Rightarrow> False
      | Some config \<Rightarrow>
          (case map_of (cc_Backends config) name of
             None \<Rightarrow> False | Some cfg \<Rightarrow> th_MaxConsecutiveErrors (bc_Thresholds cfg) = k)))"

lemma over_limit_available:
  assumes "availableCandidates env now req orc = ((cands, nxt), o1)" "has_error_limit name k orc"
    "k \<le> bs_consecErrors (state_of env name orc)"
  shows "k \<le> bs_consecErrors (state_of env name o1) \<and> (\<forall>c \<in> set cands. cd_name c \<noteq> name)"
proof -
  obtain config cfg where cfg: "or_config orc = Some config" "map_of (cc_Backends config) name = Some cfg"
    "th_MaxConsecutiveErrors (bc_Thresholds cfg) = k" "0 < k"
    using assms(2) by (auto simp: has_error_limit_def split: option.splits)
  let ?v = "visit env orc config now (promptTokenCount env req) (or_backendStates orc) name"
  have none: "visit_cand ?v = None"
  proof (rule ccontr)
    assume "visit_cand ?v \<noteq> None"
    then obtain st parked c where "?v = Some (st, parked, Some c)"
      by (auto simp: visit_cand_def split: option.splits)
    then have co: "consider_backend env orc config now (promptTokenCount env req) name cfg (state_of env name orc) = (st, parked, Some c)"
      using cfg by (auto simp: visit_def state_of_def split: if_splits)
    then have "within_limits (oe_floats env) (or_contextProvider orc) (promptTokenCount env req) (cd_model c) cfg st"
      using consider_candidate by blast
    moreover have "bs_consecErrors st = bs_consecErrors (state_of env name orc)"
      using consider_consec [of env orc config now "promptTokenCount env req" name cfg "state_of env name orc"] co by simp
    ultimately show False using cfg(3,4) assms(3) by (simp add: within_limits_def)
  qed
  have "bs_consecErrors (state_of env name o1) = bs_consecErrors (state_of env name orc)"
    unfolding state_after_visit [OF assms(1) cfg(1)]
    using cfg(2) by (simp add: visit_def state_of_def case_prod_beta consider_consec)
  then show ?thesis using assms(3) none candidate_visit [OF assms(1) cfg(1)] by (metis option.distinct(1))
qed

lemma over_limit_step:
  assumes "orch_step env orc orc'" "has_error_limit name k orc" "k \<le> bs_consecErrors (state_of env name orc)"
  shows "k \<le> bs_consecErrors (state_of env name orc')"
  using assms(1)
proof cases
  case (execute sched now req tm)
  obtain cands nxt o1 where av: "availableCandidates env now req orc = ((cands, nxt), o1)" by (metis prod.collapse)
  have d: "k \<le> bs_consecErrors (state_of env name o1)" "\<forall>c \<in> set cands. cd_name c \<noteq> name"
    using over_limit_available [OF av assms(2,3)] by auto
  show ?thesis using Execute_other [OF av d(2)] d(1) execute av by simp
next
  case (action now lb a s)
  then show ?thesis using assms(3) handleScheduleAction_same [of orc now lb a s]
    by (simp add: state_of_def same_backends_def)
next
  case consume
  then show ?thesis using assms(3) ConsumeNextAction_same [of orc] by (simp add: state_of_def same_backends_def)
qed (use assms(3) in \<open>simp_all add: state_of_def setter_defs split: option.split\<close>)

text \<open>C17: A backend whose consecutive errors reach its limit never runs again as long as its limit stays in force, although the
  code parks it for two minutes only: the count is reset by a success, and there is none without a run.\<close>

theorem error_limit_parks_forever:
  assumes "has_error_limit name k orc" "k \<le> bs_consecErrors (state_of env name orc)"
    "(\<lambda>a b. orch_step env a b \<and> has_error_limit name k b)\<^sup>*\<^sup>* orc orc'"
    "availableCandidates env now req orc' = ((cands, nxt), o1)"
  shows "name \<notin> set (map cd_name cands)"
proof -
  have "has_error_limit name k orc' \<and> k \<le> bs_consecErrors (state_of env name orc')"
    using assms(3,1,2) by induction (auto dest: over_limit_step)
  then show ?thesis using over_limit_available [OF assms(4)] by auto
qed

section \<open>Backends that do come back\<close>

lemma roll_window_reset:
  "bs_windowReset st \<noteq> 0 \<Longrightarrow> bs_windowReset st < now \<Longrightarrow>
   roll_window fo now st = st\<lparr>bs_windowStart := now, bs_requestsCount := 0, bs_costInWindow := f_zero fo, bs_windowReset := 0\<rparr>"
  by (simp add: roll_window_def)

definition errors_below :: "'f BackendConfig \<Rightarrow> 'f backendState \<Rightarrow> bool" where
  "errors_below cfg st = (th_MaxConsecutiveErrors (bc_Thresholds cfg) \<le> 0 \<or>
     bs_consecErrors st < th_MaxConsecutiveErrors (bc_Thresholds cfg))"

lemma applyThresholds_after_reset:
  assumes "bs_windowReset st \<noteq> 0" "bs_windowReset st < now" "errors_below cfg st"
    "th_MaxContextPct (bc_Thresholds cfg) \<le> 0 \<or> provider = None"
    "f_less (oe_floats env) (f_zero (oe_floats env)) (th_MaxCostPerHour (bc_Thresholds cfg)) \<Longrightarrow>
     \<not> f_le (oe_floats env) (th_MaxCostPerHour (bc_Thresholds cfg)) (f_zero (oe_floats env))"
  shows "fst (applyThresholdsLocked env provider now cfg pt model st) = False"
  unfolding applyThresholdsLocked_def Let_def roll_window_reset [OF assms(1,2)]
  using assms(3-5) by (auto simp: errors_below_def)

lemma parkBackend_state:
  assumes "0 < t"
  shows "bs_status (state_of env name (parkBackend (oe_floats env) t name info orc)) = BackendParked"
    "bs_windowReset (state_of env name (parkBackend (oe_floats env) t name info orc)) =
     bs_parkedUntil (state_of env name (parkBackend (oe_floats env) t name info orc))"
    "bs_parkedUntil (state_of env name (parkBackend (oe_floats env) t name info orc)) \<noteq> 0"
    "bs_consecErrors (state_of env name (parkBackend (oe_floats env) t name info orc)) = bs_consecErrors (state_of env name orc)"
  using assms by (auto simp: state_of_def parkBackend_def Let_def ensure_put_state defaultRateLimitBackoff_def)

lemma parkBackend_rest [simp]:
  "or_config (parkBackend fo t name info orc) = or_config orc" "or_registry (parkBackend fo t name info orc) = or_registry orc"
  "or_contextProvider (parkBackend fo t name info orc) = or_contextProvider orc"
  by (simp_all add: parkBackend_def Let_def)

lemma consider_returns:
  assumes "bc_Enabled cfg" "bs_status st = BackendParked" "bs_parkedUntil st < now" "bs_windowReset st = bs_parkedUntil st"
    "bs_parkedUntil st \<noteq> 0" "errors_below cfg st" "th_MaxContextPct (bc_Thresholds cfg) \<le> 0 \<or> or_contextProvider orc = None"
    "f_less (oe_floats env) (f_zero (oe_floats env)) (th_MaxCostPerHour (bc_Thresholds cfg)) \<Longrightarrow>
     \<not> f_le (oe_floats env) (th_MaxCostPerHour (bc_Thresholds cfg)) (f_zero (oe_floats env))"
    "registry_Get (or_registry orc) name = Some b" "be_Available b"
  shows "snd (snd (consider_backend env orc config now pt name cfg st)) \<noteq> None"
proof -
  let ?st1 = "st\<lparr>bs_status := BackendActive, bs_parkedUntil := 0\<rparr>"
  have "fst (applyThresholdsLocked env (or_contextProvider orc) now cfg pt model ?st1) = False" for model
    using assms(3-6) by (intro applyThresholds_after_reset assms(7,8)) (auto simp: errors_below_def)
  then show ?thesis
    using assms(1-3,9,10) by (simp add: consider_backend_def Let_def case_prod_beta)
qed

text \<open>C18: A rate-limited backend comes back: once the time until which \<open>parkBackend\<close> parked it has passed, it is a
  candidate again with its request and cost windows reset, if it is still configured, enabled, selected, registered and
  available and its error and context limits do not apply.  (A positive cost limit must not be below the
  float zero.)\<close>

theorem rate_limited_backend_returns:
  assumes "or_config orc = Some config" "map_of (cc_Backends config) name = Some cfg" "bc_Enabled cfg"
    "activeOverrides config = [] \<or> name \<in> set (activeOverrides config)"
    "registry_Get (or_registry orc) name = Some b" "be_Available b"
    "errors_below cfg (state_of env name orc)"
    "th_MaxContextPct (bc_Thresholds cfg) \<le> 0 \<or> or_contextProvider orc = None"
    "f_less (oe_floats env) (f_zero (oe_floats env)) (th_MaxCostPerHour (bc_Thresholds cfg)) \<Longrightarrow>
     \<not> f_le (oe_floats env) (th_MaxCostPerHour (bc_Thresholds cfg)) (f_zero (oe_floats env))"
    "0 < t" "bs_parkedUntil (state_of env name (parkBackend (oe_floats env) t name info orc)) < now"
  shows "name \<in> set (map cd_name (fst (fst (availableCandidates env now req (parkBackend (oe_floats env) t name info orc)))))"
proof -
  let ?o = "parkBackend (oe_floats env) t name info orc"
  obtain cands nxt o1 where av: "availableCandidates env now req ?o = ((cands, nxt), o1)" by (metis prod.collapse)
  have config: "or_config ?o = Some config" using assms(1) by simp
  let ?v = "visit env ?o config now (promptTokenCount env req) (or_backendStates ?o)"
  have eb: "errors_below cfg (state_of env name ?o)"
    using assms(7) by (simp add: errors_below_def parkBackend_state(4) [OF assms(10)])
  have "snd (snd (consider_backend env ?o config now (promptTokenCount env req) name cfg (state_of env name ?o))) \<noteq> None"
    using assms(3-9,11) eb
    by (intro consider_returns [where b = b]) (simp_all add: parkBackend_state [OF assms(10)])
  then have "visit_cand (?v name) \<noteq> None"
    using assms(2,4) by (auto simp: visit_def visit_cand_def state_of_def case_prod_beta)
  then obtain c where c: "visit_cand (?v name) = Some c" by auto
  have "name \<in> set (backendNamesInOrder config)"
    using assms(2) by (force simp: backendNamesInOrder_spec(2) dest: map_of_SomeD)
  then have "c \<in> set cands"
    unfolding availableCandidates_spec(1) [OF av config] map_filter_set using c by blast
  then show ?thesis using visit_name [OF c] av by force
qed


section \<open>Cron rules\<close>

definition cron_only :: "ScheduleRule \<Rightarrow> bool" where
  "cron_only r = (tr_AtIteration (sr_Trigger r) = 0 \<and> tr_EveryIterations (sr_Trigger r) = 0 \<and>
     tr_OnError (sr_Trigger r) = '''' \<and> tr_When (sr_Trigger r) = '''')"

definition action_of :: "ScheduleRule \<Rightarrow> ScheduleAction" where
  "action_of r = \<lparr>sa_Action = sr_Action r, sa_Mode = sr_Mode r, sa_Backend = sr_Backend r, sa_Reason = sr_Reason r\<rparr>"

lemma cron_only_trigger:
  "cron_only r \<Longrightarrow> triggerMatches env now (sr_Trigger r) it err orc = check_cron env now (tr_Cron (sr_Trigger r)) orc"
  by (simp add: cron_only_def triggerMatches_def)

lemma same_minute_trans: "same_minute a b \<Longrightarrow> same_minute c b \<Longrightarrow> same_minute a c"
  by (simp add: same_minute_def)

lemma check_cron_same_minute:
  "same_minute (oe_calendar env (or_lastCronCheck orc)) (oe_calendar env now) \<Longrightarrow> check_cron env now cron orc = (False, orc)"
  by (simp add: check_cron_def split: sum.split)

lemma schedule_loop_starved:
  "\<lbrakk>list_all cron_only rules; \<And>j. same_minute (oe_calendar env (or_lastCronCheck orc)) (oe_calendar env (nows j))\<rbrakk>
   \<Longrightarrow> schedule_loop env nows i it err rules orc = (None, orc)"
  by (induction rules arbitrary: i) (simp_all add: cron_only_trigger check_cron_same_minute)

text \<open>In one evaluation of a schedule of cron rules only the first rule can fire.  The time of the last check is kept per
  orchestrator and not per rule: the first rule with a valid expression marks the minute as checked, whether it
  matches or not, and every later rule is skipped.\<close>

theorem only_first_cron_rule_fires:
  assumes "or_config orc = Some config" "cc_Schedule config = rule # rules" "list_all cron_only (rule # rules)"
    "tr_Cron (sr_Trigger rule) \<noteq> ''''" "ParseCron (tr_Cron (sr_Trigger rule)) = Inr spec"
    "\<And>j. same_minute (oe_calendar env (nows 0)) (oe_calendar env (nows j))"
  shows "fst (EvaluateSchedule env nows err orc) \<in> {None, Some (action_of rule)}"
proof -
  let ?o1 = "if same_minute (oe_calendar env (or_lastCronCheck orc)) (oe_calendar env (nows 0)) then orc
    else orc\<lparr>or_lastCronCheck := nows 0\<rparr>"
  obtain m where cc: "check_cron env (nows 0) (tr_Cron (sr_Trigger rule)) orc = (m, ?o1)"
    using assms(4,5) by (cases "check_cron env (nows 0) (tr_Cron (sr_Trigger rule)) orc") (auto simp: check_cron_def Let_def split: if_splits)
  have "same_minute (oe_calendar env (or_lastCronCheck ?o1)) (oe_calendar env (nows j))" for j
    using assms(6) [of j] by (auto simp: same_minute_def)
  then have rest: "schedule_loop env nows 1 (or_iteration orc) err rules ?o1 = (None, ?o1)"
    using assms(3) by (intro schedule_loop_starved) auto
  have "triggerMatches env (nows 0) (sr_Trigger rule) (or_iteration orc) err orc = (m, ?o1)"
    using assms(3) cc by (simp add: cron_only_trigger del: split_paired_All)
  then have "EvaluateSchedule env nows err orc =
      (if m then (Some (action_of rule), ?o1) else schedule_loop env nows 1 (or_iteration orc) err rules ?o1)"
    unfolding EvaluateSchedule_def assms(1,2) option.case schedule_loop.simps action_of_def
    by (cases m) (simp_all only: prod.case bool.case if_True if_False One_nat_def)
  then show ?thesis unfolding rest by (cases m) simp_all
qed

section \<open>Selecting a backend\<close>

lemma ordered_names_full:
  "\<lbrakk>\<forall>n \<in> set order. trim_space n = n \<and> n \<noteq> '''' \<and> n \<in> set names; distinct (acc @ order)\<rbrakk>
   \<Longrightarrow> ordered_names names acc order = acc @ order @ filter (\<lambda>n. n \<notin> set (acc @ order)) names"
  by (induction order arbitrary: acc) (auto simp: Let_def)

lemma indexOfBackend_Some:
  "indexOfBackend order name = Some i \<Longrightarrow> i < length order \<and> order ! i = name"
proof (induction order arbitrary: i)
  case (Cons v order)
  then show ?case by (cases "v = name") (auto split: option.splits)
qed simp

lemma indexOfBackend_None: "indexOfBackend order name = None \<longleftrightarrow> name \<notin> set order"
  by (induction order) auto

lemma moveBackendFirst_spec:
  assumes "distinct order" "target \<in> set order"
  shows "moveBackendFirst order target = Some (target # filter (\<lambda>n. n \<noteq> target) order)"
proof -
  obtain i where i: "indexOfBackend order target = Some i" using assms(2) indexOfBackend_None [of order target] by auto
  then have at: "i < length order" "order ! i = target" using indexOfBackend_Some by auto
  have split: "order = take i order @ target # drop (Suc i) order" using id_take_nth_drop [OF at(1)] at(2) by simp
  have "target \<notin> set (take i order) \<union> set (drop (Suc i) order)"
    using assms(1) by (subst (asm) split) auto
  then have "filter (\<lambda>n. n \<noteq> target) (take i order @ target # drop (Suc i) order) = take i order @ drop (Suc i) order"
    by (simp add: filter_id_conv [THEN iffD2] ball_conj_distrib) (metis (mono_tags, lifting) filter_True)
  then have "filter (\<lambda>n. n \<noteq> target) order = take i order @ drop (Suc i) order" using split by simp
  then show ?thesis using i at by (simp add: moveBackendFirst_def)
qed

lemma backendNamesInOrder_set_order:
  assumes "\<forall>n \<in> fst ` set (cc_Backends cfg). trim_space n = n \<and> n \<noteq> ''''" "distinct order"
    "set order = fst ` set (cc_Backends cfg)"
  shows "backendNamesInOrder (cfg\<lparr>cc_Rotation := (cc_Rotation cfg)\<lparr>rc_Order := order\<rparr>\<rparr>) = order"
proof -
  let ?names = "sort (remdups (map fst (cc_Backends cfg)))"
  have "ordered_names ?names [] order = order @ filter (\<lambda>n. n \<notin> set order) ?names"
    using assms by (subst ordered_names_full) auto
  also have "filter (\<lambda>n. n \<notin> set order) ?names = []" using assms(3) by (auto simp: filter_empty_conv)
  finally show ?thesis using assms(3) by (cases order) (auto simp: backendNamesInOrder_def Let_def)
qed

text \<open>The action \<open>set_backend\<close> puts the named backend first: if it is one of the active backends and no
  backend name has surrounding blanks, the order in which candidates are considered afterwards starts
  with it and keeps the others as they were, and the rotation counter starts again at zero.\<close>

theorem set_backend_goes_first:
  assumes "or_config orc = Some cfg" "trim_space b \<in> set (activeBackendOrder cfg (backendNamesInOrder cfg))"
    "\<forall>n \<in> fst ` set (cc_Backends cfg). trim_space n = n \<and> n \<noteq> ''''"
  shows "\<exists>cfg'. or_config (snd (set_backend_action now b orc)) = Some cfg' \<and>
    backendNamesInOrder cfg' = trim_space b # filter (\<lambda>n. n \<noteq> trim_space b) (backendNamesInOrder cfg) \<and>
    or_currentBackend (snd (set_backend_action now b orc)) = 0"
proof -
  let ?t = "trim_space b" and ?full = "backendNamesInOrder cfg"
  let ?new = "?t # filter (\<lambda>n. n \<noteq> ?t) ?full"
  have full: "distinct ?full" "set ?full = fst ` set (cc_Backends cfg)" by (rule backendNamesInOrder_spec)+
  have mem: "?t \<in> set ?full" using assms(2) by (auto simp: activeBackendOrder_def split: if_splits)
  then have ne: "?t \<noteq> ''''" "?full \<noteq> []" "activeBackendOrder cfg ?full \<noteq> []"
    using assms(2,3) full(2) by auto
  have idx: "(indexOfBackend (activeBackendOrder cfg ?full) ?t = None) = False" using assms(2) unfolding indexOfBackend_None by blast
  have act: "snd (set_backend_action now b orc) =
      orc\<lparr>or_config := Some (cfg\<lparr>cc_Rotation := (cc_Rotation cfg)\<lparr>rc_Order := ?new\<rparr>\<rparr>), or_currentBackend := 0, or_lastRotation := now\<rparr>"
    by (simp add: set_backend_action_def applyBackendSelection_def Let_def ne idx assms(1)
        moveBackendFirst_spec [OF full(1) mem] del: not_None_eq)
  have "backendNamesInOrder (cfg\<lparr>cc_Rotation := (cc_Rotation cfg)\<lparr>rc_Order := ?new\<rparr>\<rparr>) = ?new"
    using assms(3) full mem by (intro backendNamesInOrder_set_order) auto
  then show ?thesis unfolding act by simp
qed


section \<open>Samples\<close>

text \<open>Three backends: one answers, one reports a rate limit, one is over its error limit.  Whole numbers stand for floats, and a
  text is a rate limit if it says so.\<close>

definition sample_env :: "int orch_env" where
  "sample_env = \<lparr>oe_floats = int_floats,
     oe_calendar = (\<lambda>t. \<lparr>cal_Minute = t div minute mod 60, cal_Hour = t div (60 * minute) mod 24, cal_Day = 1, cal_Month = 1,
       cal_Weekday = 1\<rparr>),
     oe_count_tokens = (\<lambda>s. int (length s)),
     oe_rate_limit = (\<lambda>s. if contains s ''rate limit''
       then Some \<lparr>rl_RetryAfter = 5 * minute, rl_WindowResets = 0, rl_ErrorPattern = ''rate limit''\<rparr> else None)\<rparr>"

definition sample_result :: "string \<Rightarrow> string \<Rightarrow> int BackendResult" where
  "sample_result name out = \<lparr>re_Backend = name, re_Model = ''m'', re_Duration = 0, re_TokensIn = 1, re_TokensOut = 1, re_Cost = 0,
     re_CostEstimate = 0, re_FilesChanged = [], re_TestsPassed = 0, re_TestsFailed = 0, re_Output = out, re_Error = None\<rparr>"

definition sample_backend :: "string \<Rightarrow> string \<Rightarrow> int Backend" where
  "sample_backend name out = \<lparr>be_Name = name, be_Available = True, be_Execute = (\<lambda>_. (Some (sample_result name out), None))\<rparr>"

definition sample_cfg :: "bool \<Rightarrow> int BackendConfig" where
  "sample_cfg enabled = \<lparr>bc_Type = '''', bc_Command = ''run'', bc_Args = [], bc_PromptTemplate = '''', bc_Options = [],
     bc_Enabled = enabled,
     bc_Thresholds = \<lparr>th_MaxRequestsPerWindow = 10, th_MaxCostPerHour = 5, th_MaxContextPct = 0, th_MaxConsecutiveErrors = 3\<rparr>,
     bc_Models = \<lparr>bm_Default = ''m'', bm_Rules = []\<rparr>\<rparr>"

definition sample_config :: "ScheduleRule list \<Rightarrow> bool \<Rightarrow> int ControlConfig" where
  "sample_config rules enabled = \<lparr>cc_Backends = [(''codex'', sample_cfg True), (''claude'', sample_cfg enabled), (''broken'', sample_cfg True)],
     cc_Mode = ''sequential'', cc_Rotation = \<lparr>rc_Mode = ''none'', rc_Interval = 0, rc_Order = []\<rparr>,
     cc_Memory = \<lparr>mc_Enabled = False, mc_SummaryInterval = 0, mc_SummaryModel = '''', mc_RetentionDays = 0, mc_MaxRawTurns = 0\<rparr>,
     cc_ContextProcessing = \<lparr>cp_Enabled = False, cp_Model = '''', cp_MaxOutputTokens = 0, cp_BudgetPct = 0\<rparr>,
     cc_Schedule = rules,
     cc_Override = \<lparr>oc_Paused = False, oc_ActiveBackends = [], oc_NextAction = '''', oc_BackendOptions = []\<rparr>,
     cc_MaxIterations = 0\<rparr>"

definition sample_registry :: "(string \<times> int Backend) list" where
  "sample_registry = [(''codex'', sample_backend ''codex'' ''done''), (''claude'', sample_backend ''claude'' ''rate limit''),
     (''broken'', sample_backend ''broken'' ''done'')]"

definition sample_orc :: "ScheduleRule list \<Rightarrow> bool \<Rightarrow> int Orchestrator" where
  "sample_orc rules enabled = (NewOrchestrator int_floats minute sample_registry (Some (sample_config rules enabled)))
     \<lparr>or_backendStates := [(''broken'', (fresh_state int_floats)\<lparr>bs_consecErrors := 3\<rparr>)]\<rparr>"

definition sample_req :: "int BackendRequest" where
  "sample_req = \<lparr>br_Prompt = ''go'', br_Model = '''', br_SandboxPath = '''', br_Iteration = 1, br_SessionID = ''s'',
     br_SessionFiles = [], br_Context = []\<rparr>"

definition sample_cand :: "string \<Rightarrow> string \<Rightarrow> int backendCandidate" where
  "sample_cand name out = \<lparr>cd_name = name, cd_backend = sample_backend name out, cd_config = sample_cfg True, cd_model = ''m''\<rparr>"

lemmas sample_defs = sample_env_def sample_result_def sample_backend_def sample_cfg_def sample_config_def
  sample_registry_def sample_orc_def sample_req_def sample_cand_def NewOrchestrator_def fresh_state_def int_floats_def

text \<open>The candidates, the errors and the next times of the three parts of a call, by name.\<close>

lemma avail_split:
  "availableCandidates env now req orc =
     ((fst (fst (availableCandidates env now req orc)), snd (fst (availableCandidates env now req orc))),
      snd (availableCandidates env now req orc))"
  by simp

definition sample_cands :: "int backendCandidate list" where
  "sample_cands = fst (fst (availableCandidates sample_env (2 * minute) sample_req (sample_orc [] True)))"

lemma sample_cand_names: "map cd_name sample_cands = [''claude'', ''codex'']"
  by code_simp

lemma sample_over: "has_error_limit ''broken'' 3 (sample_orc [] True)"
  "3 \<le> bs_consecErrors (state_of sample_env ''broken'' (sample_orc [] True))"
  by code_simp+


lemma sample_first: "hd sample_cands \<in> set sample_cands"
  using sample_cand_names by (metis list.map_disc_iff list.set_sel(1) not_Cons_self2 list.distinct(1))

lemma sample_avail:
  "availableCandidates sample_env (2 * minute) sample_req (sample_orc [] True) =
     ((sample_cands, snd (fst (availableCandidates sample_env (2 * minute) sample_req (sample_orc [] True)))),
      snd (availableCandidates sample_env (2 * minute) sample_req (sample_orc [] True)))"
  by (simp add: sample_cands_def)

theorem candidates_eligible_witness:
  "bc_Enabled (cd_config (hd sample_cands)) \<and> be_Available (cd_backend (hd sample_cands))"
  using candidates_eligible [OF sample_avail sample_first] by blast

lemma sample_orc_config: "or_config (sample_orc rules enabled) = Some (sample_config rules enabled)"
  by (simp add: sample_orc_def NewOrchestrator_def)

lemma sample_mode: "cc_Mode (sample_config [] True) \<in> {ModeSequential, ModeRoundRobin, ''''}"
  by (simp add: sample_config_def mode_names)

lemma sample_cands_ne: "sample_cands \<noteq> []"
  using sample_cand_names by auto

theorem failover_order_witness:
  "\<exists>ordered. mset ordered = mset sample_cands \<and>
     fst (fst (Execute sample_env (2 * minute) (\<lambda>_. (3 * minute, 3 * minute)) id sample_req (sample_orc [] True))) =
       map (\<lambda>c. fst (executeCandidate (oe_floats sample_env) sample_req c)) (tried (passed_over sample_env sample_req) ordered)"
  using failover_order [OF sample_orc_config sample_mode sample_avail sample_cands_ne] by blast

theorem round_robin_fair_witness:
  "mset (map (\<lambda>i. hd (rotateCandidates sample_cands (fst (choose_start minute (cc_Rotation (sample_config [] True)) RotationRoundRobin
      (length sample_cands) ((next_round minute (cc_Rotation (sample_config [] True)) (length sample_cands) ^^ i) (sample_orc [] True))))))
    [0..<length sample_cands]) = mset sample_cands"
  using round_robin_fair [OF sample_cands_ne] .

definition sample_disabled :: "int Orchestrator" where
  "sample_disabled = snd (availableCandidates sample_env (2 * minute) sample_req (sample_orc [] False))"

lemma sample_disabled_status: "bs_status (state_of sample_env ''claude'' sample_disabled) = BackendDisabled"
  by code_simp

lemma sample_enabled_step:
  "(orch_step sample_env)\<^sup>*\<^sup>* sample_disabled (UpdateConfig (Some (sample_config [] True)) sample_disabled)"
  by (meson orch_step.update r_into_rtranclp)

theorem disabled_backend_never_returns_witness:
  "''claude'' \<notin> set (map cd_name (fst (fst (availableCandidates sample_env (3 * minute) sample_req
     (UpdateConfig (Some (sample_config [] True)) sample_disabled)))))"
  using disabled_backend_never_returns [OF sample_disabled_status sample_enabled_step avail_split] .

theorem error_limit_parks_forever_witness:
  "''broken'' \<notin> set (map cd_name (fst (fst (availableCandidates sample_env (600 * minute) sample_req (sample_orc [] True)))))"
  using error_limit_parks_forever [OF sample_over rtranclp.rtrancl_refl avail_split] .

definition sample_info :: RateLimitInfo where
  "sample_info = \<lparr>rl_RetryAfter = 5 * minute, rl_WindowResets = 0, rl_ErrorPattern = ''rate limit''\<rparr>"

lemma sample_return_facts:
  "map_of (cc_Backends (sample_config [] True)) ''codex'' = Some (sample_cfg True)" "bc_Enabled (sample_cfg True)"
  "activeOverrides (sample_config [] True) = [] \<or> ''codex'' \<in> set (activeOverrides (sample_config [] True))"
  "registry_Get (or_registry (sample_orc [] True)) ''codex'' = Some (sample_backend ''codex'' ''done'')"
  "be_Available (sample_backend ''codex'' ''done'')"
  "errors_below (sample_cfg True) (state_of sample_env ''codex'' (sample_orc [] True))"
  "th_MaxContextPct (bc_Thresholds (sample_cfg True)) \<le> 0 \<or> or_contextProvider (sample_orc [] True) = None"
  "\<not> f_le (oe_floats sample_env) (th_MaxCostPerHour (bc_Thresholds (sample_cfg True))) (f_zero (oe_floats sample_env))"
  "(0::int) < 2 * minute"
  "bs_parkedUntil (state_of sample_env ''codex'' (parkBackend (oe_floats sample_env) (2 * minute) ''codex'' sample_info (sample_orc [] True)))
     < 8 * minute"
  by (simp add: sample_config_def, simp add: sample_cfg_def, simp add: activeOverrides_def sample_config_def,
      simp add: registry_Get_def sample_orc_def NewOrchestrator_def sample_registry_def, simp add: sample_backend_def,
      code_simp, simp add: sample_cfg_def, code_simp, simp, code_simp)

theorem rate_limited_backend_returns_witness:
  "''codex'' \<in> set (map cd_name (fst (fst (availableCandidates sample_env (8 * minute) sample_req
     (parkBackend (oe_floats sample_env) (2 * minute) ''codex'' sample_info (sample_orc [] True))))))"
  using rate_limited_backend_returns [OF sample_orc_config sample_return_facts] .

definition cron_rule :: "string \<Rightarrow> string \<Rightarrow> ScheduleRule" where
  "cron_rule cron act = \<lparr>sr_Trigger = \<lparr>tr_AtIteration = 0, tr_EveryIterations = 0, tr_OnError = '''', tr_When = '''', tr_Cron = cron\<rparr>,
     sr_Action = act, sr_Mode = '''', sr_Backend = '''', sr_Reason = ''''\<rparr>"

definition half_past :: CronSpec where
  "half_past = \<lparr>cs_minute = empty_field\<lparr>fs_values := [30]\<rparr>, cs_hour = empty_field\<lparr>fs_all := True\<rparr>,
     cs_dayOfMonth = empty_field\<lparr>fs_all := True\<rparr>, cs_month = empty_field\<lparr>fs_all := True\<rparr>,
     cs_dayOfWeek = empty_field\<lparr>fs_all := True\<rparr>\<rparr>"

definition sample_rules :: "ScheduleRule list" where
  "sample_rules = [cron_rule ''30 * * * *'' ''pause'', cron_rule ''* * * * *'' ''rotate_backend'']"

lemma sample_rule_facts:
  "cc_Schedule (sample_config sample_rules True) = cron_rule ''30 * * * *'' ''pause'' # [cron_rule ''* * * * *'' ''rotate_backend'']"
  "list_all cron_only (cron_rule ''30 * * * *'' ''pause'' # [cron_rule ''* * * * *'' ''rotate_backend''])"
  "tr_Cron (sr_Trigger (cron_rule ''30 * * * *'' ''pause'')) \<noteq> ''''"
  "ParseCron (tr_Cron (sr_Trigger (cron_rule ''30 * * * *'' ''pause''))) = Inr half_past"
  "same_minute a a"
  by (simp add: sample_config_def sample_rules_def, simp add: cron_only_def cron_rule_def, simp add: cron_rule_def,
      code_simp, simp add: same_minute_def)

theorem only_first_cron_rule_fires_witness:
  "fst (EvaluateSchedule sample_env (\<lambda>_. 10 * minute) None (sample_orc sample_rules True)) \<in>
     {None, Some (action_of (cron_rule ''30 * * * *'' ''pause''))}"
  using only_first_cron_rule_fires [OF sample_orc_config sample_rule_facts] .

lemma sample_select_facts:
  "trim_space '' codex'' \<in> set (activeBackendOrder (sample_config [] True) (backendNamesInOrder (sample_config [] True)))"
  "\<forall>n \<in> fst ` set (cc_Backends (sample_config [] True)). trim_space n = n \<and> n \<noteq> ''''"
  by code_simp+

theorem set_backend_goes_first_witness:
  "\<exists>cfg. or_config (snd (set_backend_action minute '' codex'' (sample_orc [] True))) = Some cfg \<and>
     hd (backendNamesInOrder cfg) = trim_space '' codex''"
  using set_backend_goes_first [OF sample_orc_config sample_select_facts] by (metis list.sel(1))


end
