(* ===== verification/Ralph_Executor.thy ===== *)
theory Ralph_Executor
  imports Ralph_Loop
begin

text \<open>
  The iteration loop of Ralph (src/pkg/ralph/executor.go): it composes the session, the orchestrator and the
  schedule.

  What happens outside is the input of each turn of the loop: whether the context has ended, the configuration a hot
  reload has installed, the configurations seen while the loop is paused, a reloaded prompt file, the
  clock, the outcome of the verify command, the direct runner's error.  The memory store, the loggers, the
  progress output, the stopwatch and the automatic commit act outside the modelled state and are left out; the
  prompt that the context processor builds, with its token count, is an input too.

  The wait for parked backends may go on for ever; its attempts are a list, and a run whose list is too short is
  \<open>Stuck\<close>, as one with too few turns is \<open>OutOfTurns\<close>.

  Shown here: with a limit on iterations the loop ends within that many turns and one more and never
  runs more iterations; when it returns the session is completed; the token total grows by exactly the tokens of the
  results; and a scheduled pause does not pause it.
\<close>

section \<open>State and inputs\<close>

record 'f Executor =
  ex_session :: "'f Session"
  ex_orchestrator :: "'f Orchestrator option"
  ex_lastBackend :: string
  ex_lastModel :: string
  ex_lastError :: "string option"

text \<open>One call of \<open>Orchestrator.Execute\<close>, and whether the context ends the wait if all backends are parked.\<close>

record 'f exec_try =
  et_now :: go_time
  et_times :: "nat \<Rightarrow> go_time \<times> go_time"
  et_order :: "'f backendCandidate list \<Rightarrow> 'f backendCandidate list"
  et_cancelled :: bool

record 'f turn =
  tu_ctx_done :: bool
  tu_reload :: "'f ControlConfig option option"
  tu_ticks :: "'f ControlConfig option list"
  tu_prompt_file :: "string option"
  tu_now :: go_time
  tu_rule_times :: "nat \<Rightarrow> go_time"
  tu_context :: "string \<Rightarrow> string \<times> int"
  tu_tries :: "'f exec_try list"
  tu_runner :: "string option"
  tu_verify :: "string option \<times> string"
  tu_ctx_err :: bool

datatype iter_error = OrchestratorError exec_error | RunnerError string

datatype run_result = TransitionFailed ErrInvalidTransition | Returned "iter_error option" | Stuck | OutOfTurns

section \<open>Results\<close>

definition normalizeResultTokens :: "(string \<Rightarrow> int) \<Rightarrow> int \<Rightarrow> 'f BackendResult \<Rightarrow> 'f BackendResult" where
  "normalizeResultTokens countTokens promptTokens r0 =
     (let r1 = (if re_TokensIn r0 = 0 \<and> promptTokens > 0 then r0\<lparr>re_TokensIn := promptTokens\<rparr> else r0)
      in if re_TokensOut r1 = 0 \<and> trim_space (re_Output r1) \<noteq> '''' then r1\<lparr>re_TokensOut := countTokens (re_Output r1)\<rparr> else r1)"

definition handle_result :: "'f orch_env \<Rightarrow> int \<Rightarrow> 'f BackendResult \<Rightarrow> 'f Executor \<Rightarrow> 'f Executor" where
  "handle_result env promptTokens r0 e =
     (let r = normalizeResultTokens (oe_count_tokens env) promptTokens r0;
          e1 = (if trim_space (re_Backend r) \<noteq> '''' then e\<lparr>ex_lastBackend := re_Backend r\<rparr> else e);
          e2 = (if trim_space (re_Model r) \<noteq> '''' then e1\<lparr>ex_lastModel := re_Model r\<rparr> else e1);
          s1 = AddTokens (oe_floats env) (re_TokensIn r + re_TokensOut r) (result_cost (oe_floats env) r) (ex_session e2)
      in e2\<lparr>ex_session := foldl (\<lambda>s f. AddModifiedFile f s) s1 (re_FilesChanged r)\<rparr>)"

fun results_error :: "'f BackendResult option list \<Rightarrow> string option \<Rightarrow> string option" where
  "results_error [] err = err"
| "results_error (None # rs) err = results_error rs err"
| "results_error (Some r # rs) err = results_error rs (case re_Error r of Some e \<Rightarrow> Some e | None \<Rightarrow> err)"

fun handle_results :: "'f orch_env \<Rightarrow> int \<Rightarrow> 'f BackendResult option list \<Rightarrow> 'f Executor \<Rightarrow> 'f Executor" where
  "handle_results env pt [] e = e"
| "handle_results env pt (None # rs) e = handle_results env pt rs e"
| "handle_results env pt (Some r # rs) e = handle_results env pt rs (handle_result env pt r e)"

definition handleBackendResults :: "'f orch_env \<Rightarrow> int \<Rightarrow> 'f BackendResult option list \<Rightarrow> 'f Executor \<Rightarrow> 'f Executor" where
  "handleBackendResults env promptTokens results e =
     (handle_results env promptTokens results e)\<lparr>ex_lastError := results_error results None\<rparr>"

definition truncateForDisplay :: "string \<Rightarrow> nat \<Rightarrow> string" where
  "truncateForDisplay s0 n =
     (let s = map (\<lambda>c. if c = CHR 0x0A then CHR '' '' else c) s0
      in if length s \<le> n then s else take n s @ ''...'')"

definition runVerification :: "string option \<times> string \<Rightarrow> 'f Executor \<Rightarrow> 'f Executor" where
  "runVerification outcome e =
     (if se_VerifyCommand (ex_session e) = '''' then e
      else (case outcome of
              (Some err, out) \<Rightarrow>
                e\<lparr>ex_lastError := Some (''verification failed: '' @ err @ ''; output: '' @ truncateForDisplay out 500)\<rparr>
            | (None, out) \<Rightarrow> e\<lparr>ex_lastError := None\<rparr>))"

definition currentControlConfig :: "'f Executor \<Rightarrow> 'f ControlConfig option" where
  "currentControlConfig e = (case ex_orchestrator e of None \<Rightarrow> None | Some orc \<Rightarrow> or_config orc)"

definition contextBudgetTokens :: "'f Executor \<Rightarrow> 'f ControlConfig option \<Rightarrow> int" where
  "contextBudgetTokens e cfg0 =
     (case cfg0 of
        None \<Rightarrow> 0
      | Some cfg \<Rightarrow>
          (let cp = cc_ContextProcessing cfg;
               b0 = cp_MaxOutputTokens cp;
               b1 = (if cp_BudgetPct cp > 0 \<and> trim_space (ex_lastModel e) \<noteq> '''' then
                       (case ex_orchestrator e of
                          None \<Rightarrow> b0
                        | Some orc \<Rightarrow>
                            (case or_contextProvider orc of
                               None \<Rightarrow> b0
                             | Some contextLength \<Rightarrow>
                                 if contextLength (ex_lastModel e) > 0
                                 then contextLength (ex_lastModel e) * cp_BudgetPct cp div 100 else b0))
                     else b0);
               b2 = (if cp_MaxOutputTokens cp > 0 \<and> (b1 = 0 \<or> b1 > cp_MaxOutputTokens cp) then cp_MaxOutputTokens cp else b1)
           in if b2 \<le> 0 then 500 else b2))"

definition buildIterationPrompt :: "int \<Rightarrow> 'f Executor \<Rightarrow> string" where
  "buildIterationPrompt iteration e =
     (let base = GetPrompt (ex_session e)
      in if iteration > 1
         then ''[Iteration '' @ itoa_nat (nat iteration) @ ''] Continue working on the task.'' @ [CHR 0x0A, CHR 0x0A] @
              ''Original task:'' @ [CHR 0x0A] @ base
         else base)"

fun predict_from :: "'f ControlConfig \<Rightarrow> string list \<Rightarrow> string \<times> string" where
  "predict_from cfg [] = ('''', '''')"
| "predict_from cfg (name # names) =
     (if oc_ActiveBackends (cc_Override cfg) \<noteq> [] \<and> name \<notin> set (oc_ActiveBackends (cc_Override cfg)) then predict_from cfg names
      else (case map_of (cc_Backends cfg) name of
              None \<Rightarrow> predict_from cfg names
            | Some bcfg \<Rightarrow>
                if \<not> bc_Enabled bcfg then predict_from cfg names
                else (let model = bm_Default (bc_Models bcfg)
                      in (name, if model = '''' then (case map_of (bc_Options bcfg) ''model'' of Some v \<Rightarrow> v | None \<Rightarrow> model)
                                else model))))"

definition predictNextBackend :: "'f Executor \<Rightarrow> string \<times> string" where
  "predictNextBackend e =
     (case currentControlConfig e of
        None \<Rightarrow> ('''', '''')
      | Some cfg \<Rightarrow>
          predict_from cfg (if rc_Order (cc_Rotation cfg) = [] then sort (remdups (map fst (cc_Backends cfg)))
                            else rc_Order (cc_Rotation cfg)))"

section \<open>One iteration\<close>

text \<open>The loop around \<open>Execute\<close> while every backend is parked.  The result is \<^const>\<open>None\<close> when the tries run out, and
  \<open>Some (None, \<dots>)\<close> when the context ends a wait.\<close>

fun execute_loop :: "'f orch_env \<Rightarrow> 'f BackendRequest \<Rightarrow> 'f exec_try list \<Rightarrow> 'f Orchestrator
    \<Rightarrow> (('f BackendResult option list \<times> exec_error option) option \<times> 'f Orchestrator) option" where
  "execute_loop env req [] orc = None"
| "execute_loop env req (t # ts) orc =
     (case Execute env (et_now t) (et_times t) (et_order t) req orc of
        ((results, Some (ErrAllBackendsParked until)), o1) \<Rightarrow>
          if et_cancelled t then Some (None, o1) else execute_loop env req ts o1
      | ((results, err), o1) \<Rightarrow> Some (Some (results, err), o1))"

definition schedule_phase :: "'f orch_env \<Rightarrow> 'f turn \<Rightarrow> 'f Executor \<Rightarrow> 'f Orchestrator \<Rightarrow> 'f Session \<times> 'f Orchestrator" where
  "schedule_phase env t e orc0 =
     (let orc1 = NextIteration orc0;
          (next, orc2) = ConsumeNextAction orc1;
          (s1, orc3) = (case next of
                          Some a \<Rightarrow> handleScheduleAction (tu_now t) (ex_lastBackend e) a (ex_session e, orc2)
                        | None \<Rightarrow> (ex_session e, orc2));
          (action, orc4) = EvaluateSchedule env (tu_rule_times t) (ex_lastError e) orc3
      in case action of
           Some a \<Rightarrow> handleScheduleAction (tu_now t) (ex_lastBackend e) a (s1, orc4)
         | None \<Rightarrow> (s1, orc4))"

definition orchestrated :: "'f orch_env \<Rightarrow> 'f turn \<Rightarrow> int \<Rightarrow> string \<times> int \<Rightarrow> 'f Session \<times> 'f Orchestrator \<Rightarrow> 'f Executor
    \<Rightarrow> (iter_error option \<times> 'f Executor) option" where
  "orchestrated env t iteration pr so e =
     (let (prompt, promptTokens) = pr; (s1, orc) = so;
          req = \<lparr>br_Prompt = prompt, br_Model = '''', br_SandboxPath = se_Sandbox s1, br_Iteration = iteration,
                 br_SessionID = se_ID s1, br_SessionFiles = ModifiedFiles s1,
                 br_Context = [(''prompt_tokens'', AnyInt promptTokens)]\<rparr>
      in case execute_loop env req (tu_tries t) orc of
           None \<Rightarrow> None
         | Some (None, orc1) \<Rightarrow> Some (None, e\<lparr>ex_session := s1, ex_orchestrator := Some orc1\<rparr>)
         | Some (Some (results, err), orc1) \<Rightarrow>
             Some (map_option OrchestratorError err,
                   runVerification (tu_verify t)
                     (handleBackendResults env promptTokens results
                       (e\<lparr>ex_session := s1, ex_orchestrator := Some orc1\<rparr>))))"

definition runIteration :: "'f orch_env \<Rightarrow> 'f turn \<Rightarrow> 'f Executor \<Rightarrow> (iter_error option \<times> 'f Executor) option" where
  "runIteration env t e0 =
     (let (iteration, s0) = IncrementIteration (ex_session e0);
          e = e0\<lparr>ex_session := s0\<rparr>;
          pr = tu_context t (buildIterationPrompt iteration e)
      in case ex_orchestrator e of
           None \<Rightarrow>
             (let e1 = (case tu_runner t of Some err \<Rightarrow> e\<lparr>ex_lastError := Some err\<rparr> | None \<Rightarrow> e)
              in Some (map_option RunnerError (tu_runner t), runVerification (tu_verify t) e1))
         | Some orc0 \<Rightarrow> orchestrated env t iteration pr (schedule_phase env t e orc0) e)"

section \<open>The loop\<close>

text \<open>The ticks of a paused loop: the configuration seen at each; the context ends the wait after the last one.\<close>

definition install :: "'f ControlConfig option \<Rightarrow> 'f Executor \<Rightarrow> 'f Executor" where
  "install cfg e = e\<lparr>ex_orchestrator := map_option (UpdateConfig cfg) (ex_orchestrator e)\<rparr>"

definition is_paused :: "'f ControlConfig option \<Rightarrow> bool" where
  "is_paused cfg = (case cfg of None \<Rightarrow> False | Some c \<Rightarrow> oc_Paused (cc_Override c))"

fun pause_loop :: "'f ControlConfig option list \<Rightarrow> 'f Executor \<Rightarrow> bool \<times> 'f Executor" where
  "pause_loop [] e = (True, e)"
| "pause_loop (cfg # cfgs) e =
     (let e1 = install cfg e
      in if \<not> is_paused (currentControlConfig e1)
         then (False, e1\<lparr>ex_session := snd (TransitionTo StateRunning (ex_session e1))\<rparr>)
         else pause_loop cfgs e1)"

definition waitWhilePaused :: "'f ControlConfig option list \<Rightarrow> 'f Executor \<Rightarrow> bool \<times> 'f Executor" where
  "waitWhilePaused ticks e =
     (if \<not> is_paused (currentControlConfig e) then (False, e)
      else pause_loop ticks (e\<lparr>ex_session := snd (TransitionTo StatePaused (ex_session e))\<rparr>))"

definition checkPromptReload :: "string option \<Rightarrow> 'f Executor \<Rightarrow> 'f Executor" where
  "checkPromptReload content e =
     (if se_PromptFile (ex_session e) = '''' then e
      else (case content of None \<Rightarrow> e | Some c \<Rightarrow> e\<lparr>ex_session := SetPrompt c (ex_session e)\<rparr>))"

definition at_limit :: "'f Executor \<Rightarrow> bool" where
  "at_limit e = (se_MaxIterations (ex_session e) > 0 \<and> se_iteration (ex_session e) \<ge> se_MaxIterations (ex_session e))"

fun run_loop :: "'f orch_env \<Rightarrow> 'f turn list \<Rightarrow> 'f Executor \<Rightarrow> run_result \<times> 'f Executor" where
  "run_loop env [] e = (OutOfTurns, e)"
| "run_loop env (t # ts) e0 =
     (let e1 = (case tu_reload t of Some cfg \<Rightarrow> install cfg e0 | None \<Rightarrow> e0)
      in if tu_ctx_done t then (Returned None, e1)
         else (case waitWhilePaused (tu_ticks t) e1 of
                 (True, e2) \<Rightarrow> (Returned None, e2)
               | (False, e2) \<Rightarrow>
                   if at_limit e2 then (Returned None, e2)
                   else (case runIteration env t (checkPromptReload (tu_prompt_file t) e2) of
                           None \<Rightarrow> (Stuck, e2)
                         | Some (Some err, e3) \<Rightarrow> (Returned (if tu_ctx_err t then None else Some err), e3)
                         | Some (None, e3) \<Rightarrow> run_loop env ts e3)))"

text \<open>\<open>Run\<close>, with the deferred transition to the completed state.\<close>

definition Run :: "'f orch_env \<Rightarrow> go_time \<Rightarrow> 'f turn list \<Rightarrow> 'f Executor \<Rightarrow> run_result \<times> 'f Executor" where
  "Run env now turns e0 =
     (let (err, s1) = TransitionTo StateRunning (Session_Start now (ex_session e0))
      in case err of
           Some e \<Rightarrow> (TransitionFailed e, e0\<lparr>ex_session := s1\<rparr>)
         | None \<Rightarrow>
             (case run_loop env turns (e0\<lparr>ex_session := s1\<rparr>) of
                (Returned r, e) \<Rightarrow> (Returned r, e\<lparr>ex_session := snd (TransitionTo StateCompleted (ex_session e))\<rparr>)
              | (r, e) \<Rightarrow> (r, e)))"

definition Pause :: "'f Executor \<Rightarrow> ErrInvalidTransition option \<times> 'f Executor" where
  "Pause e = (case TransitionTo StatePaused (ex_session e) of (err, s) \<Rightarrow> (err, e\<lparr>ex_session := s\<rparr>))"

definition Resume :: "'f Executor \<Rightarrow> ErrInvalidTransition option \<times> 'f Executor" where
  "Resume e = (case TransitionTo StateRunning (ex_session e) of (err, s) \<Rightarrow> (err, e\<lparr>ex_session := s\<rparr>))"


section \<open>What the loop keeps of the session\<close>

definition active :: "'f Session \<Rightarrow> bool" where
  "active s = (se_state s \<in> {StateRunning, StatePaused})"

text \<open>Same iteration and limit, and a session that runs or is paused still does.\<close>

definition kept :: "'f Session \<Rightarrow> 'f Session \<Rightarrow> bool" where
  "kept s t = (se_iteration t = se_iteration s \<and> se_MaxIterations t = se_MaxIterations s \<and> (active s \<longrightarrow> active t))"

lemma kept_refl [simp]: "kept s s"
  by (simp add: kept_def)

lemma kept_trans [trans]: "kept s t \<Longrightarrow> kept t u \<Longrightarrow> kept s u"
  by (simp add: kept_def)

lemma kept_pause [simp]: "kept s (snd (TransitionTo StatePaused s))" "kept s (snd (TransitionTo StateRunning s))"
  by (simp_all add: kept_def active_def TransitionTo_def)

lemma kept_setters [simp]:
  "kept s (SetPrompt p s)" "kept s (AddTokens fo n c s)" "kept s (AddModifiedFile f s)"
  by (simp_all add: kept_def active_def SetPrompt_def AddTokens_def AddModifiedFile_def)

lemma kept_files: "kept s (foldl (\<lambda>s f. AddModifiedFile f s) s fs)"
  by (induction fs arbitrary: s) (auto intro: kept_trans [OF kept_setters(3)])

lemma kept_action: "kept s (fst (handleScheduleAction now lb a (s, orc)))"
  by (simp add: handleScheduleAction_def)

lemma kept_handle_result: "kept (ex_session e) (ex_session (handle_result env pt r e))"
  by (auto simp: handle_result_def Let_def intro: kept_trans [OF kept_setters(2) kept_files])

lemma kept_handle_results: "kept (ex_session e) (ex_session (handle_results env pt rs e))"
  by (induction env pt rs e rule: handle_results.induct) (auto intro: kept_trans [OF kept_handle_result])

lemma verification_session [simp]: "ex_session (runVerification v e) = ex_session e"
  by (simp add: runVerification_def split: prod.split option.split)

lemma install_session [simp]: "ex_session (install cfg e) = ex_session e"
  by (simp add: install_def)

lemma kept_schedule: "kept (ex_session e) (fst (schedule_phase env t e orc))"
proof -
  obtain nx o2 where c: "ConsumeNextAction (NextIteration orc) = (nx, o2)" by fastforce
  let ?h = "case nx of Some a \<Rightarrow> handleScheduleAction (tu_now t) (ex_lastBackend e) a (ex_session e, o2) | None \<Rightarrow> (ex_session e, o2)"
  obtain s1 o3 where h: "?h = (s1, o3)" by fastforce
  have k1: "kept (ex_session e) s1"
    using h kept_action [of "ex_session e" "tu_now t" "ex_lastBackend e" _ o2] by (cases nx) (auto, metis fst_conv)
  obtain act o4 where ev: "EvaluateSchedule env (tu_rule_times t) (ex_lastError e) o3 = (act, o4)" by fastforce
  have "schedule_phase env t e orc =
      (case act of Some a \<Rightarrow> handleScheduleAction (tu_now t) (ex_lastBackend e) a (s1, o4) | None \<Rightarrow> (s1, o4))"
    by (simp add: schedule_phase_def c h ev)
  then show ?thesis using k1 kept_action [of s1 "tu_now t" "ex_lastBackend e" _ o4]
    by (cases act) (auto intro: kept_trans)
qed

lemma orchestrated_kept:
  assumes "orchestrated env t iteration pr so e = Some (err, e')"
  shows "kept (fst so) (ex_session e')"
proof -
  obtain prompt pt where pr: "pr = (prompt, pt)" by (cases pr)
  obtain s1 orc where so: "so = (s1, orc)" by (cases so)
  have "ex_session e' = s1 \<or> (\<exists>rs o1. ex_session e' =
      ex_session (handle_results env pt rs (e\<lparr>ex_session := s1, ex_orchestrator := Some o1\<rparr>)))"
    using assms unfolding orchestrated_def pr so Let_def prod.case
    by (auto simp: handleBackendResults_def split: option.splits) blast
  then show ?thesis
    using kept_handle_results [of "e\<lparr>ex_session := s1, ex_orchestrator := Some _\<rparr>" env pt] so by auto
qed

text \<open>An iteration counts one and keeps the rest.\<close>

lemma runIteration_kept:
  assumes "runIteration env t e = Some (err, e')"
  shows "kept (snd (IncrementIteration (ex_session e))) (ex_session e')"
proof -
  obtain it s0 where inc: "IncrementIteration (ex_session e) = (it, s0)" by fastforce
  let ?e = "e\<lparr>ex_session := s0\<rparr>"
  show ?thesis
  proof (cases "ex_orchestrator e")
    case None
    then show ?thesis using assms inc by (auto simp: runIteration_def Let_def split: option.splits)
  next
    case (Some orc0)
    then have "orchestrated env t it (tu_context t (buildIterationPrompt it ?e)) (schedule_phase env t ?e orc0) ?e = Some (err, e')"
      using assms inc by (simp add: runIteration_def Let_def)
    from orchestrated_kept [OF this] kept_schedule [of ?e env t orc0] inc
    show ?thesis by (auto intro: kept_trans)
  qed
qed


lemma kept_pause_loop: "kept (ex_session e) (ex_session (snd (pause_loop cfgs e)))"
  by (induction cfgs e rule: pause_loop.induct) (auto simp: Let_def)

lemma kept_wait: "kept (ex_session e) (ex_session (snd (waitWhilePaused ticks e)))"
  using kept_pause_loop [of "e\<lparr>ex_session := snd (TransitionTo StatePaused (ex_session e))\<rparr>" ticks]
  by (auto simp: waitWhilePaused_def intro: kept_trans [OF kept_pause(1)])

lemma kept_prompt: "kept (ex_session e) (ex_session (checkPromptReload c e))"
  by (simp add: checkPromptReload_def split: option.split)

text \<open>One turn of the loop: it ends the run, or it has counted an iteration below the limit.\<close>

lemma run_loop_turn:
  obtains r e1 where "run_loop env (t # ts) e = (r, e1)" "r = Stuck \<or> (\<exists>x. r = Returned x)"
      "kept (ex_session e) (ex_session e1) \<or>
       (kept (snd (IncrementIteration (ex_session e))) (ex_session e1) \<and> \<not> at_limit e)"
    | e1 where "run_loop env (t # ts) e = run_loop env ts e1" "\<not> at_limit e"
      "kept (snd (IncrementIteration (ex_session e))) (ex_session e1)"
proof -
  let ?e1 = "case tu_reload t of Some cfg \<Rightarrow> install cfg e | None \<Rightarrow> e"
  have s1: "ex_session ?e1 = ex_session e" by (simp split: option.split)
  obtain w e2 where w: "waitWhilePaused (tu_ticks t) ?e1 = (w, e2)" by fastforce
  have k2: "kept (ex_session e) (ex_session e2)" using kept_wait [of ?e1 "tu_ticks t"] w s1 by simp
  have lim: "at_limit e2 \<longleftrightarrow> at_limit e" using k2 by (simp add: kept_def at_limit_def)
  let ?e3 = "checkPromptReload (tu_prompt_file t) e2"
  have "kept (ex_session e) (ex_session ?e3)" using k2 kept_prompt kept_trans by blast
  then have inc: "kept (snd (IncrementIteration (ex_session e))) (snd (IncrementIteration (ex_session ?e3)))"
    by (auto simp: kept_def IncrementIteration_def active_def)
  consider "tu_ctx_done t" | "\<not> tu_ctx_done t" "w" | "\<not> tu_ctx_done t" "\<not> w" "at_limit e"
    | "\<not> tu_ctx_done t" "\<not> w" "\<not> at_limit e" by blast
  then show ?thesis
  proof cases
    case 1
    then show ?thesis using that(1) [of "Returned None" ?e1] s1 by (simp add: Let_def)
  next
    case 2
    then show ?thesis using that(1) [of "Returned None" e2] w k2 by (simp add: Let_def)
  next
    case 3
    then show ?thesis using that(1) [of "Returned None" e2] w k2 lim by (simp add: Let_def)
  next
    case 4
    have run: "run_loop env (t # ts) e = (case runIteration env t ?e3 of
         None \<Rightarrow> (Stuck, e2)
       | Some (Some err, e3) \<Rightarrow> (Returned (if tu_ctx_err t then None else Some err), e3)
       | Some (None, e3) \<Rightarrow> run_loop env ts e3)"
      using 4 w lim by (simp add: Let_def)
    show ?thesis
    proof (cases "runIteration env t ?e3")
      case None
      then show ?thesis using that(1) [of Stuck e2] run k2 by simp
    next
      case (Some r)
      obtain err e4 where r: "r = (err, e4)" by (cases r)
      have k4: "kept (snd (IncrementIteration (ex_session e))) (ex_session e4)"
        using runIteration_kept [of env t ?e3 err e4] Some r inc kept_trans by blast
      show ?thesis
      proof (cases err)
        case None
        then show ?thesis using that(2) [of e4] run Some r k4 4 by simp
      next
        case (Some x)
        then show ?thesis
          using that(1) [of "Returned (if tu_ctx_err t then None else Some x)" e4] run \<open>runIteration env t ?e3 = Some r\<close> r k4 4 by simp
      qed
    qed
  qed
qed

lemma inc_session [simp]:
  "se_iteration (snd (IncrementIteration s)) = se_iteration s + 1"
  "se_MaxIterations (snd (IncrementIteration s)) = se_MaxIterations s" "active (snd (IncrementIteration s)) = active s"
  by (simp_all add: IncrementIteration_def active_def)

lemma run_loop_bound:
  assumes "0 < se_MaxIterations (ex_session e)" "se_iteration (ex_session e) \<le> se_MaxIterations (ex_session e)" "active (ex_session e)"
    "run_loop env ts e = (r, e')"
  shows "se_iteration (ex_session e') \<le> se_MaxIterations (ex_session e) \<and> active (ex_session e') \<and>
    (int (length ts) > se_MaxIterations (ex_session e) - se_iteration (ex_session e) \<longrightarrow> r \<noteq> OutOfTurns) \<and>
    (\<forall>x. r \<noteq> TransitionFailed x)"
  using assms
proof (induction ts arbitrary: e)
  case (Cons t ts)
  show ?case
  proof (rule run_loop_turn [of env t ts e])
    fix r1 e1 assume "run_loop env (t # ts) e = (r1, e1)" "r1 = Stuck \<or> (\<exists>x. r1 = Returned x)"
      "kept (ex_session e) (ex_session e1) \<or>
       (kept (snd (IncrementIteration (ex_session e))) (ex_session e1) \<and> \<not> at_limit e)"
    then show ?thesis using Cons.prems by (auto simp: kept_def at_limit_def)
  next
    fix e1 assume e1: "run_loop env (t # ts) e = run_loop env ts e1" "\<not> at_limit e"
      "kept (snd (IncrementIteration (ex_session e))) (ex_session e1)"
    then have i: "se_iteration (ex_session e1) = se_iteration (ex_session e) + 1"
      "se_MaxIterations (ex_session e1) = se_MaxIterations (ex_session e)" "active (ex_session e1)"
      "se_iteration (ex_session e) < se_MaxIterations (ex_session e)"
      using Cons.prems(1,3) by (auto simp: kept_def at_limit_def)
    then show ?thesis using Cons.IH [of e1] Cons.prems e1(1) by simp
  qed
qed simp

text \<open>No wait for parked backends goes on for ever: of the tries of a turn there is one on which the context ends the wait, if the
  wait has not ended before because a backend ran.\<close>

definition wait_ends :: "'f turn \<Rightarrow> bool" where
  "wait_ends t = list_ex et_cancelled (tu_tries t)"

lemma execute_loop_ends: "list_ex et_cancelled ts \<Longrightarrow> execute_loop env req ts orc \<noteq> None"
  by (induction env req ts orc rule: execute_loop.induct) (auto split: prod.splits option.splits exec_error.splits)

lemma runIteration_ends: "wait_ends t \<Longrightarrow> runIteration env t e \<noteq> None"
proof -
  assume "wait_ends t"
  then have "orchestrated env t i pr so e' \<noteq> None" for i pr so e'
    using execute_loop_ends [of "tu_tries t" env] unfolding wait_ends_def orchestrated_def Let_def
    by (simp split: prod.split option.split) (metis option.distinct(1))
  then show ?thesis by (cases "ex_orchestrator e") (simp_all add: runIteration_def Let_def split: prod.split)
qed

lemma run_loop_not_stuck: "\<forall>t \<in> set ts. wait_ends t \<Longrightarrow> fst (run_loop env ts e) \<noteq> Stuck"
proof (induction ts arbitrary: e)
  case (Cons t ts)
  have "runIteration env t e' \<noteq> None" for e' using Cons.prems by (intro runIteration_ends) simp
  moreover have "fst (run_loop env ts e') \<noteq> Stuck" for e' using Cons by simp
  ultimately show ?case by (simp add: Let_def split: prod.split option.split bool.split) (metis option.distinct(1))
qed simp

text \<open>C19: With a limit on iterations \<open>Run\<close> ends, provided that no single wait for parked backends goes on for ever: from a new
  session it never counts more than \<open>MaxIterations\<close> iterations whatever happens around it; within \<open>MaxIterations + 1\<close> turns it
  has returned or waits for parked backends, and it has returned if each turn has a try on which the context would end such a wait; and
  whenever it returns, the session is completed.\<close>

theorem run_ends:
  assumes "0 < sc_MaxIterations cfg" "ex_session e = NewSession fo cfg" "Run env now ts e = (r, e')"
  shows "se_iteration (ex_session e') \<le> sc_MaxIterations cfg \<and>
    (int (length ts) > sc_MaxIterations cfg \<longrightarrow> r = Stuck \<or> (\<exists>x. r = Returned x)) \<and>
    (int (length ts) > sc_MaxIterations cfg \<and> (\<forall>t \<in> set ts. wait_ends t) \<longrightarrow> (\<exists>x. r = Returned x)) \<and>
    (\<forall>x. r = Returned x \<longrightarrow> se_state (ex_session e') = StateCompleted)"
proof -
  let ?s = "(Session_Start now (NewSession fo cfg))\<lparr>se_state := StateRunning\<rparr>" and ?e = "e\<lparr>ex_session := (Session_Start now (NewSession fo cfg))\<lparr>se_state := StateRunning\<rparr>\<rparr>"
  have start: "TransitionTo StateRunning (Session_Start now (NewSession fo cfg)) = (None, ?s)"
    by (simp add: TransitionTo_def CanTransitionTo_iff Session_Start_def NewSession_def)
  obtain r1 e1 where loop: "run_loop env ts ?e = (r1, e1)" by fastforce
  have s: "se_MaxIterations ?s = sc_MaxIterations cfg" "se_iteration ?s = 0" "active ?s"
    by (simp_all add: Session_Start_def NewSession_def active_def)
  have b: "se_iteration (ex_session e1) \<le> sc_MaxIterations cfg" "active (ex_session e1)"
    "int (length ts) > sc_MaxIterations cfg \<Longrightarrow> r1 \<noteq> OutOfTurns" "\<And>x. r1 \<noteq> TransitionFailed x"
    using run_loop_bound [of ?e env ts r1 e1] assms(1) s loop by auto
  have run: "Run env now ts e = (case (r1, e1) of
      (Returned r, e) \<Rightarrow> (Returned r, e\<lparr>ex_session := snd (TransitionTo StateCompleted (ex_session e))\<rparr>) | (r, e) \<Rightarrow> (r, e))"
    unfolding Run_def assms(2) start Let_def by (simp add: loop)
  have "se_state (snd (TransitionTo StateCompleted (ex_session e1))) = StateCompleted"
    "se_iteration (snd (TransitionTo StateCompleted (ex_session e1))) = se_iteration (ex_session e1)"
    using b(2) by (auto simp: TransitionTo_def CanTransitionTo_iff active_def)
  moreover have "r1 \<noteq> Stuck" if "\<forall>t \<in> set ts. wait_ends t" using run_loop_not_stuck [OF that, of env ?e] loop by simp
  ultimately show ?thesis using run b assms(3) by (cases r1) auto
qed


section \<open>Accounting\<close>

definition result_tokens :: "'f orch_env \<Rightarrow> int \<Rightarrow> 'f BackendResult option \<Rightarrow> int" where
  "result_tokens env pt r0 =
     (case r0 of None \<Rightarrow> 0
      | Some r \<Rightarrow> re_TokensIn (normalizeResultTokens (oe_count_tokens env) pt r) + re_TokensOut (normalizeResultTokens (oe_count_tokens env) pt r))"

definition result_files :: "'f BackendResult option \<Rightarrow> string list" where
  "result_files r0 = (case r0 of None \<Rightarrow> [] | Some r \<Rightarrow> re_FilesChanged r)"

lemma files_added:
  "se_filesModifiedSet (foldl (\<lambda>s f. AddModifiedFile f s) s fs) = se_filesModifiedSet s \<union> set fs"
  "se_totalTokens (foldl (\<lambda>s f. AddModifiedFile f s) s fs) = se_totalTokens s"
  by (induction fs arbitrary: s) (auto simp: AddModifiedFile_def)

lemma handle_result_counts:
  "se_totalTokens (ex_session (handle_result env pt r e)) = se_totalTokens (ex_session e) + result_tokens env pt (Some r)"
  "se_filesModifiedSet (ex_session (handle_result env pt r e)) = se_filesModifiedSet (ex_session e) \<union> set (re_FilesChanged r)"
  by (simp_all add: handle_result_def Let_def files_added AddTokens_def result_tokens_def normalizeResultTokens_def)

lemma handle_results_counts:
  "se_totalTokens (ex_session (handle_results env pt rs e)) =
     se_totalTokens (ex_session e) + sum_list (map (result_tokens env pt) rs) \<and>
   se_filesModifiedSet (ex_session (handle_results env pt rs e)) =
     se_filesModifiedSet (ex_session e) \<union> set (concat (map result_files rs))"
  by (induction env pt rs e rule: handle_results.induct)
    (auto simp: handle_result_counts result_files_def result_tokens_def [of _ _ None])

lemma results_error_last:
  "results_error rs err = (case filter (\<lambda>r. r \<noteq> None) (map (\<lambda>r. case r of None \<Rightarrow> None | Some x \<Rightarrow> re_Error x) rs) of
     [] \<Rightarrow> err | e # es \<Rightarrow> last (e # es))"
  by (induction rs err rule: results_error.induct) (auto split: list.split option.split)

text \<open>The results of an iteration are accounted for in full: the session's token total grows by the tokens of
  all results (with missing counts filled in), its modified files are joined with theirs, and the last error of the
  executor is that of the last failed result, or none.\<close>

theorem results_accounted:
  "se_totalTokens (ex_session (handleBackendResults env pt rs e)) =
     se_totalTokens (ex_session e) + sum_list (map (result_tokens env pt) rs) \<and>
   se_filesModifiedSet (ex_session (handleBackendResults env pt rs e)) =
     se_filesModifiedSet (ex_session e) \<union> set (concat (map result_files rs)) \<and>
   ex_lastError (handleBackendResults env pt rs e) =
     (case filter (\<lambda>r. r \<noteq> None) (map (\<lambda>r. case r of None \<Rightarrow> None | Some x \<Rightarrow> re_Error x) rs) of
        [] \<Rightarrow> None | err # es \<Rightarrow> last (err # es))"
  using handle_results_counts [of env pt rs e] results_error_last [of rs None]
  by (simp add: handleBackendResults_def)

section \<open>A pause that does not pause\<close>

text \<open>The schedule action \<open>pause\<close> does not pause the loop: it leaves a running session in the paused state, but
  the loop looks only at the override in the configuration, so the next turn runs another iteration.\<close>

theorem scheduled_pause_ignored:
  assumes "sa_Action a = ''pause''" "se_state (ex_session e0) = StateRunning" "ex_orchestrator e0 = Some orc"
    "\<not> is_paused (or_config orc)" "\<not> at_limit e0" "\<not> tu_ctx_done t" "tu_reload t = None"
    "runIteration env t (checkPromptReload (tu_prompt_file t)
       (e0\<lparr>ex_session := fst (handleScheduleAction now lb a (ex_session e0, orc))\<rparr>)) = Some (None, e')"
  shows "se_state (fst (handleScheduleAction now lb a (ex_session e0, orc))) = StatePaused \<and>
    run_loop env (t # ts) (e0\<lparr>ex_session := fst (handleScheduleAction now lb a (ex_session e0, orc))\<rparr>) = run_loop env ts e' \<and>
    se_iteration (ex_session e') = se_iteration (ex_session e0) + 1"
proof -
  let ?s = "fst (handleScheduleAction now lb a (ex_session e0, orc))"
  let ?e = "e0\<lparr>ex_session := fst (handleScheduleAction now lb a (ex_session e0, orc))\<rparr>"
  have paused: "se_state ?s = StatePaused"
    using assms(1,2) by (simp add: handleScheduleAction_def TransitionTo_def CanTransitionTo_iff)
  have k: "kept (ex_session e0) ?s" by (rule kept_action)
  then have lim: "\<not> at_limit ?e" using assms(5) by (simp add: at_limit_def kept_def)
  have "waitWhilePaused (tu_ticks t) ?e = (False, ?e)"
    using assms(3,4) by (simp add: waitWhilePaused_def currentControlConfig_def)
  then have "run_loop env (t # ts) ?e = run_loop env ts e'"
    using assms(6-8) lim by (simp add: Let_def)
  moreover have "se_iteration (ex_session e') = se_iteration (ex_session e0) + 1"
    using runIteration_kept [OF assms(8)] kept_prompt [of ?e "tu_prompt_file t"] k by (simp add: kept_def)
  ultimately show ?thesis using paused by blast
qed

section \<open>Samples\<close>

text \<open>One backend, parked for a long time; the context ends the wait for it.\<close>

definition lone_config :: "int ControlConfig" where
  "lone_config = (sample_config [] True)\<lparr>cc_Backends := [(''codex'', sample_cfg True)]\<rparr>"

definition lone_orc :: "int Orchestrator" where
  "lone_orc = (NewOrchestrator int_floats minute sample_registry (Some lone_config))
     \<lparr>or_backendStates := [(''codex'', (fresh_state int_floats)\<lparr>bs_status := BackendParked, bs_parkedUntil := 100 * minute\<rparr>)]\<rparr>"

definition sample_turn :: "int turn" where
  "sample_turn = \<lparr>tu_ctx_done = False, tu_reload = None, tu_ticks = [], tu_prompt_file = None, tu_now = 2 * minute,
     tu_rule_times = (\<lambda>_. 2 * minute), tu_context = (\<lambda>s. (s, 10)),
     tu_tries = [\<lparr>et_now = 2 * minute, et_times = (\<lambda>_. (2 * minute, 2 * minute)), et_order = id, et_cancelled = True\<rparr>],
     tu_runner = None, tu_verify = (None, ''''), tu_ctx_err = False\<rparr>"

definition sample_executor :: "int Executor" where
  "sample_executor = \<lparr>ex_session = snd (TransitionTo StateRunning (NewSession int_floats plain_config)),
     ex_orchestrator = Some lone_orc, ex_lastBackend = '''', ex_lastModel = '''', ex_lastError = None\<rparr>"

definition pause_action :: ScheduleAction where
  "pause_action = \<lparr>sa_Action = ''pause'', sa_Mode = '''', sa_Backend = '''', sa_Reason = ''review''\<rparr>"

definition paused_executor :: "int Executor" where
  "paused_executor = checkPromptReload (tu_prompt_file sample_turn)
     (sample_executor\<lparr>ex_session := fst (handleScheduleAction minute '''' pause_action (ex_session sample_executor, lone_orc))\<rparr>)"

lemma paused_turn: "(case runIteration sample_env sample_turn paused_executor of Some (None, _) \<Rightarrow> True | _ \<Rightarrow> False)"
  by code_simp

lemma paused_facts:
  "sa_Action pause_action = ''pause''" "se_state (ex_session sample_executor) = StateRunning"
  "ex_orchestrator sample_executor = Some lone_orc" "\<not> is_paused (or_config lone_orc)" "\<not> at_limit sample_executor"
  "\<not> tu_ctx_done sample_turn" "tu_reload sample_turn = None"
  by (simp add: pause_action_def, code_simp, simp add: sample_executor_def, code_simp, code_simp, code_simp,
      simp add: sample_turn_def)

theorem scheduled_pause_ignored_witness:
  "\<exists>e. run_loop sample_env [sample_turn]
      (sample_executor\<lparr>ex_session := fst (handleScheduleAction minute '''' pause_action (ex_session sample_executor, lone_orc))\<rparr>) =
      run_loop sample_env [] e \<and> se_iteration (ex_session e) = se_iteration (ex_session sample_executor) + 1"
proof -
  obtain e where "runIteration sample_env sample_turn paused_executor = Some (None, e)"
    using paused_turn by (auto split: option.splits)
  then show ?thesis
    using scheduled_pause_ignored [OF paused_facts, of sample_env minute "''''" e "[]"] unfolding paused_executor_def by blast
qed

definition new_executor :: "int Executor" where
  "new_executor = sample_executor\<lparr>ex_session := NewSession int_floats plain_config\<rparr>"

lemma sample_limit: "0 < sc_MaxIterations plain_config" "ex_session new_executor = NewSession int_floats plain_config"
  by (simp_all add: plain_config_def new_executor_def)

theorem run_ends_witness:
  "\<exists>x. fst (Run sample_env minute (replicate 30 sample_turn) new_executor) = Returned x"
  using run_ends [OF sample_limit surjective_pairing, of sample_env minute "replicate 30 sample_turn"]
  by (simp add: wait_ends_def sample_turn_def plain_config_def)

end
