(* ===== verification/Retry.thy ===== *)
theory Retry
  imports Go_Prelude
begin

text \<open>
  The retry strategy of the coordination layer (src/pkg/coordination/reliability/retry.go).

  An error is known by what the code asks of it: whether it is \<open>context.DeadlineExceeded\<close> or
  \<open>context.Canceled\<close> (\<open>errors.Is\<close>), and the gRPC status code that \<open>status.FromError\<close> finds, if any.
  The function to run is its result at each call.  The product with the float multiplier, the jitter of each
  attempt and the outcome of each wait (whether the context ends first) are arguments.

  Shown here: \<open>Execute\<close> calls the function until it succeeds, fails for good or the attempts are used up, at
  most \<open>MaxRetries + 1\<close> times; after the first retry the delays stay below \<open>MaxDelay\<close>, and the first one need not.
\<close>

datatype codes =
    OK | Canceled | Unknown | InvalidArgument | DeadlineExceeded | NotFound | AlreadyExists | PermissionDenied
  | ResourceExhausted | FailedPrecondition | Aborted | OutOfRange | Unimplemented | Internal | Unavailable
  | DataLoss | Unauthenticated

record err =
  er_text :: string
  er_is_deadline :: bool
  er_is_canceled :: bool
  er_status :: "codes option"

record RetryStrategy =
  rs_MaxRetries :: int
  rs_BaseDelay :: go_duration
  rs_MaxDelay :: go_duration

record retry_env =
  rt_scale :: "go_duration \<Rightarrow> go_duration"
  rt_jitter :: "nat \<Rightarrow> go_duration \<Rightarrow> go_duration"
  rt_ctx_done :: "nat \<Rightarrow> err option"

datatype retry_result = Success | Failed err | CtxErr err | Exhausted int "err option"

definition isRetriable :: "err \<Rightarrow> bool" where
  "isRetriable e =
     (if er_is_deadline e then True
      else if er_is_canceled e then False
      else (case er_status e of
              None \<Rightarrow> False
            | Some c \<Rightarrow> (case c of
                Unavailable \<Rightarrow> True
              | DeadlineExceeded \<Rightarrow> True
              | ResourceExhausted \<Rightarrow> True
              | Aborted \<Rightarrow> True
              | Internal \<Rightarrow> True
              | Unknown \<Rightarrow> True
              | _ \<Rightarrow> False)))"

definition next_delay :: "retry_env \<Rightarrow> RetryStrategy \<Rightarrow> go_duration \<Rightarrow> go_duration" where
  "next_delay env s delay = (let d = rt_scale env delay in if d > rs_MaxDelay s then rs_MaxDelay s else d)"

text \<open>The loop from an attempt on: the result, the un-jittered delays that were waited for, and the number of
  calls of \<open>fn\<close>.\<close>

function retry_loop :: "retry_env \<Rightarrow> RetryStrategy \<Rightarrow> (nat \<Rightarrow> err option) \<Rightarrow> nat \<Rightarrow> go_duration \<Rightarrow> err option
    \<Rightarrow> retry_result \<times> go_duration list \<times> nat" where
  "retry_loop env s fn attempt delay lastErr =
     (if \<not> int attempt \<le> rs_MaxRetries s then (Exhausted (rs_MaxRetries s) lastErr, [], 0)
      else case (if attempt > 0 then rt_ctx_done env attempt else None) of
             Some e \<Rightarrow> (CtxErr e, [rt_jitter env attempt delay], 0)
           | None \<Rightarrow>
               (let waited = (if attempt > 0 then [rt_jitter env attempt delay] else []);
                    delay1 = (if attempt > 0 then next_delay env s delay else delay)
                in case fn attempt of
                     None \<Rightarrow> (Success, waited, 1)
                   | Some e \<Rightarrow>
                       if \<not> isRetriable e then (Failed e, waited, 1)
                       else (case retry_loop env s fn (Suc attempt) delay1 (Some e) of
                               (r, ws, n) \<Rightarrow> (r, waited @ ws, Suc n))))"
  by auto
termination
  by (relation "measure (\<lambda>(env, s, fn, attempt, delay, lastErr). nat (rs_MaxRetries s + 1 - int attempt))") auto

declare retry_loop.simps [simp del]

definition Retry_Execute :: "retry_env \<Rightarrow> RetryStrategy \<Rightarrow> (nat \<Rightarrow> err option) \<Rightarrow> retry_result \<times> go_duration list \<times> nat" where
  "Retry_Execute env s fn = retry_loop env s fn 0 (rs_BaseDelay s) None"

section \<open>Results\<close>

text \<open>The attempt that decides: the first that does not fail with a retriable error or whose wait the context ends.\<close>

definition stops_at :: "retry_env \<Rightarrow> (nat \<Rightarrow> err option) \<Rightarrow> nat \<Rightarrow> bool" where
  "stops_at env fn i =
     ((i > 0 \<and> rt_ctx_done env i \<noteq> None) \<or> (case fn i of None \<Rightarrow> True | Some e \<Rightarrow> \<not> isRetriable e))"

definition stop_result :: "retry_env \<Rightarrow> (nat \<Rightarrow> err option) \<Rightarrow> nat \<Rightarrow> retry_result" where
  "stop_result env fn i =
     (case (if i > 0 then rt_ctx_done env i else None) of
        Some e \<Rightarrow> CtxErr e
      | None \<Rightarrow> (case fn i of None \<Rightarrow> Success | Some e \<Rightarrow> Failed e))"

definition stop_calls :: "retry_env \<Rightarrow> nat \<Rightarrow> nat" where
  "stop_calls env i = (if i > 0 \<and> rt_ctx_done env i \<noteq> None then i else Suc i)"

lemma retry_loop_step:
  assumes "int i \<le> rs_MaxRetries s" "\<not> stops_at env fn i"
  shows "\<exists>w d. retry_loop env s fn i delay le =
    (case retry_loop env s fn (Suc i) d (fn i) of (r, ws, n) \<Rightarrow> (r, w @ ws, Suc n))"
proof -
  obtain e where e: "fn i = Some e" "isRetriable e" and c: "(if i > 0 then rt_ctx_done env i else None) = None"
    using assms(2) by (auto simp: stops_at_def split: option.splits)
  show ?thesis
    by (intro exI [of _ "if i > 0 then [rt_jitter env i delay] else []"] exI [of _ "if i > 0 then next_delay env s delay else delay"],
        subst retry_loop.simps) (use assms(1) e c in \<open>auto simp: Let_def\<close>)
qed

lemma retry_loop_stop:
  assumes "int i \<le> rs_MaxRetries s" "stops_at env fn i"
  shows "fst (retry_loop env s fn i delay le) = stop_result env fn i \<and>
    snd (snd (retry_loop env s fn i delay le)) = (if i > 0 \<and> rt_ctx_done env i \<noteq> None then 0 else 1)"
  by (subst (1 2) retry_loop.simps) (use assms in \<open>auto simp: Let_def stops_at_def stop_result_def split: option.splits\<close>)

lemma retry_loop_until:
  assumes "\<forall>j. i \<le> j \<and> j < k \<longrightarrow> \<not> stops_at env fn j" "i \<le> k" "int k \<le> rs_MaxRetries s" "stops_at env fn k"
  shows "fst (retry_loop env s fn i delay le) = stop_result env fn k \<and>
    snd (snd (retry_loop env s fn i delay le)) + i = stop_calls env k"
  using assms(1,2)
proof (induction "k - i" arbitrary: i delay le)
  case 0
  then have "i = k" by simp
  then show ?case using retry_loop_stop [of k s env fn delay le] assms(3,4) by (auto simp: stop_calls_def)
next
  case (Suc d)
  then have "i < k" by simp
  then obtain w d' where "retry_loop env s fn i delay le =
      (case retry_loop env s fn (Suc i) d' (fn i) of (r, ws, n) \<Rightarrow> (r, w @ ws, Suc n))"
    using retry_loop_step [of i s env fn delay le] Suc.prems(1) assms(3) by auto
  moreover have "fst (retry_loop env s fn (Suc i) d' (fn i)) = stop_result env fn k \<and>
      snd (snd (retry_loop env s fn (Suc i) d' (fn i))) + Suc i = stop_calls env k"
    using Suc \<open>i < k\<close> by (intro Suc.hyps(1)) auto
  ultimately show ?case by (auto split: prod.splits)
qed

lemma retry_loop_exhausted:
  assumes "\<forall>j. i \<le> j \<and> int j \<le> rs_MaxRetries s \<longrightarrow> \<not> stops_at env fn j" "int i \<le> rs_MaxRetries s + 1"
  shows "snd (snd (retry_loop env s fn i delay le)) + i = nat (rs_MaxRetries s + 1) \<and>
    fst (retry_loop env s fn i delay le) =
      Exhausted (rs_MaxRetries s) (if int i \<le> rs_MaxRetries s then fn (nat (rs_MaxRetries s)) else le)"
  using assms
proof (induction "nat (rs_MaxRetries s + 1) - i" arbitrary: i delay le)
  case 0
  then have i: "int i = rs_MaxRetries s + 1" by simp
  then show ?case by (subst (1 2) retry_loop.simps) auto
next
  case (Suc d)
  then have i: "int i \<le> rs_MaxRetries s" by simp
  then obtain w d' where eq: "retry_loop env s fn i delay le =
      (case retry_loop env s fn (Suc i) d' (fn i) of (r, ws, n) \<Rightarrow> (r, w @ ws, Suc n))"
    using retry_loop_step [of i s env fn delay le] Suc.prems(1) by auto
  have "snd (snd (retry_loop env s fn (Suc i) d' (fn i))) + Suc i = nat (rs_MaxRetries s + 1) \<and>
      fst (retry_loop env s fn (Suc i) d' (fn i)) =
        Exhausted (rs_MaxRetries s) (if int (Suc i) \<le> rs_MaxRetries s then fn (nat (rs_MaxRetries s)) else fn i)"
    using Suc i by (intro Suc.hyps(1)) auto
  moreover have "\<not> int (Suc i) \<le> rs_MaxRetries s \<Longrightarrow> nat (rs_MaxRetries s) = i" using i by simp
  ultimately show ?case unfolding eq using i by (auto split: prod.splits)
qed

text \<open>\<open>Execute\<close> stops at the first attempt that succeeds, fails with an error that is not retriable, or whose
  wait the context ends, and returns that outcome; if there is none among the \<open>MaxRetries + 1\<close>
  attempts, the function has been called that often and the last error is reported.\<close>

theorem retry_outcome:
  assumes "0 \<le> rs_MaxRetries s"
  shows "(case Retry_Execute env s fn of (r, _, n) \<Rightarrow>
    (\<exists>k. int k \<le> rs_MaxRetries s \<and> stops_at env fn k \<and> (\<forall>j < k. \<not> stops_at env fn j) \<and>
       r = stop_result env fn k \<and> n = stop_calls env k) \<or>
    ((\<forall>j. int j \<le> rs_MaxRetries s \<longrightarrow> \<not> stops_at env fn j) \<and>
       r = Exhausted (rs_MaxRetries s) (fn (nat (rs_MaxRetries s))) \<and> n = nat (rs_MaxRetries s + 1)))"
proof -
  let ?run = "retry_loop env s fn 0 (rs_BaseDelay s) None"
  show ?thesis
  proof (cases "\<exists>k. int k \<le> rs_MaxRetries s \<and> stops_at env fn k")
    case True
    define k where "k = (LEAST k. int k \<le> rs_MaxRetries s \<and> stops_at env fn k)"
    have k: "int k \<le> rs_MaxRetries s" "stops_at env fn k" using LeastI_ex [OF True] by (simp_all add: k_def)
    have least: "\<not> stops_at env fn j" if "j < k" for j
      using not_less_Least [of j "\<lambda>k. int k \<le> rs_MaxRetries s \<and> stops_at env fn k"] that k(1) by (auto simp: k_def)
    have "fst ?run = stop_result env fn k \<and> snd (snd ?run) + 0 = stop_calls env k"
      using least k by (intro retry_loop_until) auto
    then show ?thesis unfolding Retry_Execute_def using k least by (auto split: prod.splits)
  next
    case False
    then have "snd (snd ?run) + 0 = nat (rs_MaxRetries s + 1) \<and>
        fst ?run = Exhausted (rs_MaxRetries s) (if int 0 \<le> rs_MaxRetries s then fn (nat (rs_MaxRetries s)) else None)"
      using assms by (intro retry_loop_exhausted) auto
    then show ?thesis unfolding Retry_Execute_def using assms False by (auto split: prod.splits)
  qed
qed

section \<open>Delays\<close>

text \<open>The delays before jitter: the base delay, then the scaled and capped ones.\<close>

primrec delay_at :: "retry_env \<Rightarrow> RetryStrategy \<Rightarrow> nat \<Rightarrow> go_duration" where
  "delay_at env s 0 = rs_BaseDelay s"
| "delay_at env s (Suc i) = next_delay env s (delay_at env s i)"

lemma delay_at_cap: "0 < i \<Longrightarrow> delay_at env s i \<le> rs_MaxDelay s"
  by (cases i) (simp_all add: next_delay_def Let_def)

lemma retry_loop_waits:
  "delay = delay_at env s (i - 1) \<Longrightarrow>
   \<exists>m. fst (snd (retry_loop env s fn i delay le)) = map (\<lambda>j. rt_jitter env j (delay_at env s (j - 1))) [max i 1..<m]"
proof (induction env s fn i delay le rule: retry_loop.induct)
  case (1 env s fn i delay le)
  let ?goal = "\<exists>m. fst (snd (retry_loop env s fn i delay le)) = map (\<lambda>j. rt_jitter env j (delay_at env s (j - 1))) [max i 1..<m]"
  have none: "\<exists>m. [] = map (\<lambda>j. rt_jitter env j (delay_at env s (j - 1))) [k..<m]" for k
    by (rule exI [of _ k]) simp
  have one: "\<exists>m. [rt_jitter env i delay] = map (\<lambda>j. rt_jitter env j (delay_at env s (j - 1))) [max i 1..<m]" if "i > 0"
    using that 1(2) by (intro exI [of _ "Suc i"]) (simp add: max_def)
  show ?goal
  proof (cases "int i \<le> rs_MaxRetries s \<and> \<not> stops_at env fn i")
    case False
    then show ?thesis
      using none one by (subst retry_loop.simps) (auto simp: Let_def stops_at_def split: option.splits)
  next
    case True
    then obtain e where e: "fn i = Some e" "isRetriable e" and c: "(if i > 0 then rt_ctx_done env i else None) = None"
      by (auto simp: stops_at_def split: option.splits)
    let ?d = "if i > 0 then next_delay env s delay else delay"
    have d: "?d = delay_at env s (Suc i - 1)" using 1(2) by (cases i) simp_all
    obtain m where m: "fst (snd (retry_loop env s fn (Suc i) ?d (Some e))) =
        map (\<lambda>j. rt_jitter env j (delay_at env s (j - 1))) [Suc i..<m]"
      using 1(1) [OF _ c refl refl e(1) _ d] True e(2) by auto
    have run: "fst (snd (retry_loop env s fn i delay le)) =
        (if i > 0 then [rt_jitter env i delay] else []) @ fst (snd (retry_loop env s fn (Suc i) ?d (Some e)))"
      by (subst retry_loop.simps) (use True e c in \<open>auto simp: Let_def split: prod.splits\<close>)
    show ?thesis
    proof (cases "i = 0")
      case True
      then show ?thesis using run m by (intro exI [of _ m]) simp
    next
      case False
      have "[rt_jitter env i delay] @ map (\<lambda>j. rt_jitter env j (delay_at env s (j - 1))) [Suc i..<m] =
          map (\<lambda>j. rt_jitter env j (delay_at env s (j - 1))) [i..<max m (Suc i)]"
        using 1(2) False by (cases "Suc i < m") (simp_all add: upt_conv_Cons max_def)
      moreover have "max i 1 = i" using False by simp
      ultimately show ?thesis using run m False by (intro exI [of _ "max m (Suc i)"]) simp
    qed
  qed
qed

text \<open>The waits of \<open>Execute\<close> are the jittered delays of the attempts made: the base delay before the first retry and
  the scaled delay capped by \<open>MaxDelay\<close> before every later one.\<close>

theorem retry_waits:
  "\<exists>m. fst (snd (Retry_Execute env s fn)) = map (\<lambda>j. rt_jitter env j (delay_at env s (j - 1))) [1..<m]"
  using retry_loop_waits [of "rs_BaseDelay s" env s 0 fn None] by (simp add: Retry_Execute_def)

text \<open>Two ways in which the strategy does not do what its comments promise.  The delay before the first retry is the
  base delay even if that exceeds \<open>MaxDelay\<close>, and with a negative \<open>MaxRetries\<close> the function is not called at all, not
  even the initial attempt, and the error wraps no error.\<close>

theorem retry_promises_broken:
  "let env = \<lparr>rt_scale = (\<lambda>d. 2 * d), rt_jitter = (\<lambda>_ d. d), rt_ctx_done = (\<lambda>_. None)\<rparr>;
       e = \<lparr>er_text = ''down'', er_is_deadline = False, er_is_canceled = False, er_status = Some Unavailable\<rparr>
   in Retry_Execute env \<lparr>rs_MaxRetries = 2, rs_BaseDelay = 60 * second, rs_MaxDelay = 10 * second\<rparr> (\<lambda>_. Some e) =
        (Exhausted 2 (Some e), [60 * second, 10 * second], 3) \<and>
      Retry_Execute env \<lparr>rs_MaxRetries = - 1, rs_BaseDelay = second, rs_MaxDelay = second\<rparr> (\<lambda>_. None) =
        (Exhausted (- 1) None, [], 0)"
  by code_simp

definition flaky :: "nat \<Rightarrow> err option" where
  "flaky i = (if i < 2 then Some \<lparr>er_text = ''down'', er_is_deadline = False, er_is_canceled = False, er_status = Some Unavailable\<rparr>
     else None)"

definition plain_env :: retry_env where
  "plain_env = \<lparr>rt_scale = (\<lambda>d. 2 * d), rt_jitter = (\<lambda>_ d. d), rt_ctx_done = (\<lambda>_. None)\<rparr>"

definition plain_strategy :: RetryStrategy where
  "plain_strategy = \<lparr>rs_MaxRetries = 3, rs_BaseDelay = second, rs_MaxDelay = 10 * second\<rparr>"

lemma plain_retries: "0 \<le> rs_MaxRetries plain_strategy"
  by (simp add: plain_strategy_def)

lemma flaky_run: "Retry_Execute plain_env plain_strategy flaky = (Success, [second, 2 * second], 3)"
  by code_simp

theorem retry_outcome_witness:
  "\<exists>k. int k \<le> rs_MaxRetries plain_strategy \<and> stops_at plain_env flaky k \<and> Success = stop_result plain_env flaky k \<and>
     3 = stop_calls plain_env k"
  using retry_outcome [OF plain_retries, of plain_env flaky] unfolding flaky_run prod.case by blast

end
