(* ===== verification/Tool_Values.thy ===== *)
theory Tool_Values
  imports Go_Numbers
begin

text \<open>
  The values that travel in \<open>map[string]any\<close>: the parameters of a tool call and the data of its result, as
  JSON decodes them and as the tools build them.  A map is an association list, \<open>None\<close> is the nil map.
  JSON numbers decode to \<open>float64\<close>, whose type is an argument; \<open>json.Number\<close> appears only with a decoder set
  up for it, which no caller does.

  Also what a read of the file system answers: the code tells a missing file from other errors.
\<close>

datatype 'f any =
  VNil | VString string | VBool bool | VInt int | VFloat 'f | VStrings "string list" | VList "'f any list"
| VMap "(string \<times> 'f any) list"

type_synonym 'f params = "(string \<times> 'f any) list option"

definition param :: "'f params \<Rightarrow> string \<Rightarrow> 'f any option" where
  "param ps key = (case ps of None \<Rightarrow> None | Some m \<Rightarrow> map_of m key)"

definition param_string :: "'f params \<Rightarrow> string \<Rightarrow> string option" where
  "param_string ps key = (case param ps key of Some (VString s) \<Rightarrow> Some s | _ \<Rightarrow> None)"

definition put :: "string \<Rightarrow> 'f any \<Rightarrow> 'f params \<Rightarrow> 'f params" where
  "put key v ps = Some (AList.update key v (case ps of None \<Rightarrow> [] | Some m \<Rightarrow> m))"

datatype 'a file_result = Found 'a | Missing | Unreadable

text \<open>\<open>strings.TrimPrefix\<close>, \<open>strings.Trim\<close> with one character, and \<open>strings.Count\<close> and \<open>strings.Replace\<close> for a pattern
  that is not empty.\<close>

definition trim_prefix :: "string \<Rightarrow> string \<Rightarrow> string" where
  "trim_prefix s p = (if has_prefix s p then drop (length p) s else s)"

definition trim_char :: "char \<Rightarrow> string \<Rightarrow> string" where
  "trim_char c s = rev (dropWhile (\<lambda>x. x = c) (rev (dropWhile (\<lambda>x. x = c) s)))"

lemma after_index_shorter:
  assumes "str_index s sub = Some i" "sub \<noteq> []"
  shows "length s - (i + length sub) < length s"
  using str_index_Some [OF assms(1)] assms(2) by (cases sub) auto

function str_count :: "string \<Rightarrow> string \<Rightarrow> nat" where
  "str_count s sub =
     (if sub = [] then length s + 1
      else case str_index s sub of
        None \<Rightarrow> 0
      | Some i \<Rightarrow> Suc (str_count (drop (i + length sub) s) sub))"
  by auto
termination
  by (relation "measure (\<lambda>(s, _). length s)") (simp_all add: after_index_shorter)

function str_replace_all :: "string \<Rightarrow> string \<Rightarrow> string \<Rightarrow> string" where
  "str_replace_all s old new =
     (if old = [] then s
      else case str_index s old of
        None \<Rightarrow> s
      | Some i \<Rightarrow> take i s @ new @ str_replace_all (drop (i + length old) s) old new)"
  by auto
termination
  by (relation "measure (\<lambda>(s, _, _). length s)") (simp_all add: after_index_shorter)

declare str_count.simps [simp del] str_replace_all.simps [simp del]

definition str_replace_first :: "string \<Rightarrow> string \<Rightarrow> string \<Rightarrow> string" where
  "str_replace_first s old new = (case str_index s old of
     None \<Rightarrow> s
   | Some i \<Rightarrow> take i s @ new @ drop (i + length old) s)"

lemma str_count_0: "sub \<noteq> [] \<Longrightarrow> str_count s sub = 0 \<longleftrightarrow> str_index s sub = None"
  by (subst str_count.simps) (simp split: option.split)

lemma str_replace_first_all:
  assumes "str_count s old = 1" "old \<noteq> []"
  shows "str_replace_all s old new = str_replace_first s old new"
proof -
  obtain i where i: "str_index s old = Some i" "str_count (drop (i + length old) s) old = 0"
    using assms by (subst (asm) str_count.simps) (auto split: option.splits)
  then have "str_replace_all (drop (i + length old) s) old new = drop (i + length old) s"
    using assms(2) by (subst str_replace_all.simps) (simp add: str_count_0)
  then show ?thesis using i assms(2) by (subst str_replace_all.simps) (simp add: str_replace_first_def)
qed

end
