(* ===== verification/Touch.thy ===== *)
theory Touch
  imports Tool_Values Approval "HOL-Library.Word"
begin

text \<open>
  What a tool call touches (src/pkg/touch/extract.go): the kind of operation, the file, the command, and a preview of
  the change with the numbers of added and removed lines and the ranges of lines.  The telemetry of
  the tools, the file watcher and the approval requests of the ipc server show it.

  The file system and difflib are arguments.  The counters are \<open>int32\<close> in the code and 32 bit words here;
  the last line of a range is computed in 64 bits.
\<close>

section \<open>Data\<close>

record DiffLine =
  dl_Type :: string
  dl_Content :: string

record LineRange =
  lr_Start :: int
  lr_End :: int

record RichFields =
  rf_OperationType :: string
  rf_Description :: string
  rf_Command :: string
  rf_FilePath :: string
  rf_DiffLines :: "DiffLine list"
  rf_AddedLines :: "32 word"
  rf_RemovedLines :: "32 word"
  rf_Ranges :: "LineRange list"

type_synonym diff_summary = "DiffLine list \<times> 32 word \<times> 32 word \<times> LineRange list"

abbreviation no_diff :: diff_summary where "no_diff \<equiv> ([], 0, 0, [])"

text \<open>\<open>os.ReadFile\<close>, whether \<open>os.Stat\<close> says that a file does not exist, and the unified diff.\<close>

record files_view =
  fv_read :: "string \<Rightarrow> string file_result"
  fv_missing :: "string \<Rightarrow> bool"
  fv_diff :: "string \<Rightarrow> string \<Rightarrow> string \<Rightarrow> string + string"

text \<open>The names of the operations that occur here; none of them is out of range.\<close>

definition op_name :: "Operation \<Rightarrow> string" where
  "op_name opn = the (Operation_String opn)"

section \<open>Parameters\<close>

fun stringParam :: "'f params \<Rightarrow> string list \<Rightarrow> string" where
  "stringParam args [] = []"
| "stringParam args (key # keys) = (case param_string args key of
     Some v \<Rightarrow> trim_space v
   | None \<Rightarrow> stringParam args keys)"

definition boolParam :: "'f float_ops \<Rightarrow> 'f params \<Rightarrow> string \<Rightarrow> bool" where
  "boolParam fo args key = (case param args key of
     Some (VBool b) \<Rightarrow> b
   | Some (VString v) \<Rightarrow> List.member [''true'', ''1'', ''yes''] (trim_space (to_lower v))
   | Some (VFloat x) \<Rightarrow> \<not> f_eq fo x (f_zero fo)
   | _ \<Rightarrow> False)"

definition pathParam :: "'f params \<Rightarrow> string" where
  "pathParam args = (let path = stringParam args [''path'', ''file_path''] in if path = [] then [] else clean path)"

definition inferOperationType :: "string \<Rightarrow> string \<Rightarrow> string" where
  "inferOperationType toolName command =
     (if toolName = [] then []
      else if toolName = ''run_shell'' then
        op_name (if trim_space command \<noteq> [] then ClassifyCommand command else OpShellWrite)
      else if has_prefix toolName ''git_'' \<or> contains toolName ''git'' then op_name OpGitRead
      else if contains toolName ''http'' \<or> contains toolName ''fetch'' \<or> contains toolName ''request'' then op_name OpNetwork
      else if contains_any toolName
        [''write'', ''edit'', ''apply'', ''patch'', ''create'', ''rename'', ''extract'', ''delete'', ''remove'', ''merge'']
      then op_name OpWrite
      else if contains_any toolName [''read'', ''list'', ''search'', ''find'', ''view'', ''status'', ''diff'', ''log'', ''show'']
      then op_name OpRead
      else [])"

definition TTLForOperation :: "string \<Rightarrow> go_duration" where
  "TTLForOperation operationType =
     (if List.member (map op_name [OpRead, OpShellRead, OpGitRead]) operationType then 2 * minute
      else if List.member (map op_name [OpWrite, OpDelete, OpShellWrite, OpGitWrite]) operationType then 10 * minute
      else if List.member (map op_name [OpShellNetwork, OpNetwork]) operationType then 5 * minute
      else 3 * minute)"

section \<open>Unified diffs\<close>

text \<open>The type, the shown content, and whether the line counts as added or as removed.\<close>

definition classifyDiffLine :: "string \<Rightarrow> string \<times> string \<times> bool \<times> bool" where
  "classifyDiffLine line =
     (if has_any_prefix line [''+++ '', ''--- '', ''diff '', ''index ''] then (''context'', line, False, False)
      else if has_prefix line ''@@'' then (''context'', line, False, False)
      else if has_prefix line ''+'' then
        if has_prefix line ''+++'' then (''context'', line, False, False)
        else (''add'', trim_prefix line ''+'', True, False)
      else if has_prefix line ''-'' then
        if has_prefix line ''---'' then (''context'', line, False, False)
        else (''remove'', trim_prefix line ''-'', False, True)
      else if has_prefix line '' '' then (''context'', trim_prefix line '' '', False, False)
      else (''context'', line, False, False))"

definition parseRangePart :: "string \<Rightarrow> (int \<times> int) option" where
  "parseRangePart raw =
     (case trim_space raw of
        [] \<Rightarrow> None
      | sign # rest \<Rightarrow>
          if sign \<noteq> CHR ''-'' \<and> sign \<noteq> CHR ''+'' then None
          else if rest = [] then None
          else (let parts = split_on (CHR '','') rest
                in case atoi (parts ! 0) of
                     None \<Rightarrow> None
                   | Some start \<Rightarrow>
                       Some (start, if 1 < length parts then (case atoi (parts ! 1) of Some n \<Rightarrow> n | None \<Rightarrow> 1) else 1)))"

text \<open>Addition of \<open>int\<close>, in 64 bits.\<close>

definition wrap64 :: "int \<Rightarrow> int" where
  "wrap64 n = signed_take_bit 63 n"

definition parseHunkHeader :: "string \<Rightarrow> LineRange option" where
  "parseHunkHeader line =
     (let header = trim_space (trim_suffix (trim_space (trim_prefix line ''@@'')) ''@@'');
          parts = Go_Prelude.fields header
      in if header = [] \<or> length parts < 2 then None
         else case parseRangePart (parts ! 0) of
             None \<Rightarrow> None
           | Some (oldStart, oldCount) \<Rightarrow>
               (case parseRangePart (parts ! 1) of
                  None \<Rightarrow> None
                | Some (newStart, newCount) \<Rightarrow>
                    let (start, count) = (if newCount = 0 then (oldStart, oldCount) else (newStart, newCount))
                    in if count \<le> 0 then None else Some \<lparr>lr_Start = start, lr_End = wrap64 (start + count - 1)\<rparr>))"

abbreviation diffLineLimit :: nat where "diffLineLimit \<equiv> 200"

fun diff_line :: "diff_summary \<Rightarrow> string \<Rightarrow> diff_summary" where
  "diff_line (preview, added, removed, ranges) line =
     (if line = [] then (preview, added, removed, ranges)
      else
        let ranges' = (if has_prefix line ''@@'' then
              (case parseHunkHeader line of Some r \<Rightarrow> ranges @ [r] | None \<Rightarrow> ranges) else ranges);
            (lineType, content, add, remove) = classifyDiffLine line;
            added' = (if add then added + 1 else added);
            removed' = (if remove then removed + 1 else removed);
            preview' = (if lineType \<noteq> [] \<and> length preview < diffLineLimit
                        then preview @ [\<lparr>dl_Type = lineType, dl_Content = content\<rparr>] else preview)
        in (preview', added', removed', ranges'))"

definition parseUnifiedDiff :: "string \<Rightarrow> diff_summary" where
  "parseUnifiedDiff diff =
     (if trim_space diff = [] then no_diff else foldl diff_line no_diff (split_on (CHR 10) diff))"

section \<open>Previews\<close>

definition readFileAllowMissing :: "files_view \<Rightarrow> string \<Rightarrow> string option" where
  "readFileAllowMissing fv path = (case fv_read fv path of
     Found content \<Rightarrow> Some content
   | Missing \<Rightarrow> Some []
   | Unreadable \<Rightarrow> None)"

definition isNewFile :: "files_view \<Rightarrow> string \<Rightarrow> bool" where
  "isNewFile fv path = (trim_space path \<noteq> [] \<and> fv_missing fv path)"

definition diff_of :: "files_view \<Rightarrow> string \<Rightarrow> string \<Rightarrow> string \<Rightarrow> diff_summary" where
  "diff_of fv path old new = (case fv_diff fv path old new of
     Inl _ \<Rightarrow> no_diff
   | Inr diffText \<Rightarrow> parseUnifiedDiff diffText)"

definition diffPreviewForWrite :: "files_view \<Rightarrow> string \<Rightarrow> string \<Rightarrow> diff_summary" where
  "diffPreviewForWrite fv path newContent =
     (if trim_space path = [] then no_diff
      else case readFileAllowMissing fv path of
        None \<Rightarrow> no_diff
      | Some oldContent \<Rightarrow> diff_of fv path oldContent newContent)"

definition diffPreviewForEdit :: "files_view \<Rightarrow> string \<Rightarrow> string \<Rightarrow> string \<Rightarrow> bool \<Rightarrow> diff_summary" where
  "diffPreviewForEdit fv path oldString newString replaceAll =
     (if trim_space path = [] \<or> oldString = [] then no_diff
      else case fv_read fv path of
        Found oldContent \<Rightarrow>
          if \<not> contains oldContent oldString then no_diff
          else if \<not> replaceAll \<and> 1 < str_count oldContent oldString then no_diff
          else diff_of fv path oldContent
                 (if replaceAll then str_replace_all oldContent oldString newString
                  else str_replace_first oldContent oldString newString)
      | _ \<Rightarrow> no_diff)"

definition diffFromPatch :: "string \<Rightarrow> diff_summary" where
  "diffFromPatch patch = (if trim_space patch = [] then no_diff else parseUnifiedDiff patch)"

definition cleanPatchPath :: "string \<Rightarrow> string" where
  "cleanPatchPath path = trim_prefix (trim_prefix (trim_char (CHR 0x22) (trim_space path)) ''a/'') ''b/''"

fun first_patch_line :: "string list \<Rightarrow> string" where
  "first_patch_line [] = []"
| "first_patch_line (line # lines) =
     (if has_prefix line ''+++ '' \<or> has_prefix line ''--- '' then
        let path = trim_space (drop 4 line)
        in if path = ''/dev/null'' then first_patch_line lines else cleanPatchPath path
      else if has_prefix line ''diff --git '' \<and> 4 \<le> length (Go_Prelude.fields line) then cleanPatchPath (Go_Prelude.fields line ! 3)
      else first_patch_line lines)"

definition firstPatchFilePath :: "string \<Rightarrow> string" where
  "firstPatchFilePath patch = (if trim_space patch = [] then [] else first_patch_line (split_on (CHR 10) patch))"

section \<open>The rich fields of a call\<close>

definition with_diff :: "diff_summary \<Rightarrow> RichFields \<Rightarrow> RichFields" where
  "with_diff d rich = (case d of (preview, added, removed, ranges) \<Rightarrow>
     rich\<lparr>rf_DiffLines := preview, rf_AddedLines := added, rf_RemovedLines := removed, rf_Ranges := ranges\<rparr>)"

definition plain_fields :: "string \<Rightarrow> string \<Rightarrow> string \<Rightarrow> string \<Rightarrow> RichFields" where
  "plain_fields opn description command path =
     \<lparr>rf_OperationType = opn, rf_Description = description, rf_Command = command, rf_FilePath = path,
      rf_DiffLines = [], rf_AddedLines = 0, rf_RemovedLines = 0, rf_Ranges = []\<rparr>"

definition ExtractFromArgs :: "'f float_ops \<Rightarrow> files_view \<Rightarrow> string \<Rightarrow> 'f params \<Rightarrow> RichFields" where
  "ExtractFromArgs fo fv toolName args =
     (let name = to_lower (trim_space toolName);
          path = pathParam args
      in if name = ''run_shell'' then
           let cmd = stringParam args [''command'', ''cmd'']
           in plain_fields (if cmd \<noteq> [] then op_name (ClassifyCommand cmd) else inferOperationType name [])
                ''Run shell command'' cmd []
         else if name = ''write_file'' then
           with_diff (diffPreviewForWrite fv path (stringParam args [''content'']))
             (plain_fields (op_name OpWrite) (if path \<noteq> [] \<and> isNewFile fv path then ''Create file'' else ''Write file'') [] path)
         else if name = ''edit_file'' then
           with_diff (diffPreviewForEdit fv path (stringParam args [''old_string'']) (stringParam args [''new_string''])
                       (boolParam fo args ''replace_all''))
             (plain_fields (op_name OpWrite) ''Edit file'' [] path)
         else if name = ''apply_patch'' then
           let patch = stringParam args [''patch'']
           in with_diff (diffFromPatch patch) (plain_fields (op_name OpWrite) ''Apply patch'' [] (firstPatchFilePath patch))
         else if name = ''read_file'' then plain_fields (op_name OpRead) ''Read file'' [] path
         else if name = ''list_directory'' then plain_fields (op_name OpRead) ''List directory'' [] path
         else plain_fields (inferOperationType name [])
                (if trim_space toolName \<noteq> [] then map (\<lambda>c. if c = CHR ''_'' then CHR '' '' else c) toolName else [])
                (stringParam args [''command'']) path)"

text \<open>\<open>json.Unmarshal\<close> into \<open>map[string]any\<close> is an argument.\<close>

definition parseArgs :: "(string \<Rightarrow> string + 'f params) \<Rightarrow> string \<Rightarrow> 'f params" where
  "parseArgs unmarshal raw =
     (if trim_space raw = [] then None else case unmarshal raw of Inl _ \<Rightarrow> None | Inr args \<Rightarrow> args)"

definition ExtractFromJSON ::
  "'f float_ops \<Rightarrow> files_view \<Rightarrow> (string \<Rightarrow> string + 'f params) \<Rightarrow> string \<Rightarrow> string \<Rightarrow> RichFields" where
  "ExtractFromJSON fo fv unmarshal toolName raw = ExtractFromArgs fo fv toolName (parseArgs unmarshal raw)"

section \<open>What a preview counts\<close>

text \<open>A patch as tools print it: hunks, each with its header and its body.\<close>

datatype body_line = Kept string | Added string | Removed string

record hunk =
  hk_oldStart :: nat
  hk_oldCount :: nat
  hk_newStart :: nat
  hk_newCount :: nat
  hk_body :: "body_line list"

fun print_body :: "body_line \<Rightarrow> string" where
  "print_body (Kept s) = CHR '' '' # s"
| "print_body (Added s) = CHR ''+'' # s"
| "print_body (Removed s) = CHR ''-'' # s"

definition print_header :: "hunk \<Rightarrow> string" where
  "print_header h = join_with (CHR '' '') [''@@'', CHR ''-'' # itoa_nat (hk_oldStart h) @ CHR '','' # itoa_nat (hk_oldCount h),
     CHR ''+'' # itoa_nat (hk_newStart h) @ CHR '','' # itoa_nat (hk_newCount h), ''@@'']"

definition print_hunk :: "hunk \<Rightarrow> string list" where
  "print_hunk h = print_header h # map print_body (hk_body h)"

text \<open>The text of a line has no line break, and an added or removed line does not look like the header of a file.\<close>

fun plain_line :: "body_line \<Rightarrow> bool" where
  "plain_line (Kept s) = (CHR 10 \<notin> set s)"
| "plain_line (Added s) = (CHR 10 \<notin> set s \<and> \<not> has_prefix s ''++'')"
| "plain_line (Removed s) = (CHR 10 \<notin> set s \<and> \<not> has_prefix s ''--'')"

definition hunk_ok :: "hunk \<Rightarrow> bool" where
  "hunk_ok h = (list_all plain_line (hk_body h) \<and>
     list_all (\<lambda>n. n < 2 ^ 62) [hk_oldStart h, hk_oldCount h, hk_newStart h, hk_newCount h])"

fun shown_line :: "body_line \<Rightarrow> DiffLine" where
  "shown_line (Kept s) = \<lparr>dl_Type = ''context'', dl_Content = s\<rparr>"
| "shown_line (Added s) = \<lparr>dl_Type = ''add'', dl_Content = s\<rparr>"
| "shown_line (Removed s) = \<lparr>dl_Type = ''remove'', dl_Content = s\<rparr>"

definition shown_hunk :: "hunk \<Rightarrow> DiffLine list" where
  "shown_hunk h = \<lparr>dl_Type = ''context'', dl_Content = print_header h\<rparr> # map shown_line (hk_body h)"

fun is_added :: "body_line \<Rightarrow> bool" where
  "is_added (Added _) = True"
| "is_added _ = False"

fun is_removed :: "body_line \<Rightarrow> bool" where
  "is_removed (Removed _) = True"
| "is_removed _ = False"

definition adds :: "hunk list \<Rightarrow> nat" where
  "adds hs = length (filter is_added (concat (map hk_body hs)))"

definition removes :: "hunk list \<Rightarrow> nat" where
  "removes hs = length (filter is_removed (concat (map hk_body hs)))"

definition hunk_range :: "hunk \<Rightarrow> LineRange option" where
  "hunk_range h =
     (if hk_newCount h \<noteq> 0 then Some \<lparr>lr_Start = int (hk_newStart h), lr_End = int (hk_newStart h) + int (hk_newCount h) - 1\<rparr>
      else if hk_oldCount h \<noteq> 0 then Some \<lparr>lr_Start = int (hk_oldStart h), lr_End = int (hk_oldStart h) + int (hk_oldCount h) - 1\<rparr>
      else None)"

lemma wrap64_id: "- (2 ^ 63) \<le> n \<Longrightarrow> n < 2 ^ 63 \<Longrightarrow> wrap64 n = n"
  by (simp add: wrap64_def signed_take_bit_int_eq_self)

lemma range_part:
  assumes "sign = CHR ''-'' \<or> sign = CHR ''+''" "int a < 2 ^ 63" "int b < 2 ^ 63"
  shows "parseRangePart (sign # itoa_nat a @ CHR '','' # itoa_nat b) = Some (int a, int b)"
proof -
  let ?s = "sign # itoa_nat a @ CHR '','' # itoa_nat b"
  have "CHR '','' \<notin> set (itoa_nat n)" for n by (rule itoa_no_char) (simp add: is_digit_def)
  then have "split_on (CHR '','') (itoa_nat a @ CHR '','' # itoa_nat b) = [itoa_nat a, itoa_nat b]"
    by (simp add: split_on_append split_on_no_sep)
  moreover have "trim_space ?s = ?s"
    using assms(1) itoa_nat_chars digit_not_sign by (intro trim_space_id) (auto simp: is_space_def)
  ultimately show ?thesis using assms by (auto simp: parseRangePart_def atoi_itoa_nat)
qed


lemma header_range:
  assumes "hunk_ok h"
  shows "parseHunkHeader (print_header h) = hunk_range h"
proof -
  let ?old = "CHR ''-'' # itoa_nat (hk_oldStart h) @ CHR '','' # itoa_nat (hk_oldCount h)"
  let ?new = "CHR ''+'' # itoa_nat (hk_newStart h) @ CHR '','' # itoa_nat (hk_newCount h)"
  let ?inner = "?old @ CHR '' '' # ?new"
  have at: "trim_prefix (print_header h) ''@@'' = CHR '' '' # ?inner @ '' @@''"
    by (simp add: print_header_def trim_prefix_def has_prefix_def)
  have nums: "\<forall>w \<in> {?old, ?new}. \<forall>c \<in> set w. \<not> is_space c"
    using itoa_nat_chars digit_not_sign by (auto simp: is_space_def)
  have trim1: "trim_space (CHR '' '' # ?inner @ '' @@'') = ?inner @ '' @@''"
    by (simp add: trim_space_def is_space_def)
  have trim2: "trim_space (trim_suffix (?inner @ '' @@'') ''@@'') = ?inner"
  proof -
    have "trim_suffix (?inner @ '' @@'') ''@@'' = ?inner @ '' ''"
      using trim_suffix_append [of "?inner @ '' ''" "''@@''"] by simp
    moreover obtain d ds where "rev (itoa_nat (hk_newCount h)) = d # ds" "\<not> is_space d"
      using itoa_nat_digits [of "hk_newCount h"] itoa_nat_chars [of _ "hk_newCount h"] digit_not_sign
      by (metis list.set_intros(1) neq_Nil_conv rev_is_Nil_conv set_rev)
    ultimately show ?thesis by (simp add: trim_space_def is_space_def)
  qed
  have words: "Go_Prelude.fields ?inner = [?old, ?new]"
    using fields_join [of "[?old, ?new]"] nums by simp
  have small: "int n < 2 ^ 62" if "n \<in> {hk_oldStart h, hk_oldCount h, hk_newStart h, hk_newCount h}" for n
    using assms that by (auto simp: hunk_ok_def)
  then have "parseRangePart ?old = Some (int (hk_oldStart h), int (hk_oldCount h))"
    "parseRangePart ?new = Some (int (hk_newStart h), int (hk_newCount h))"
    by (intro range_part; force)+
  moreover have "wrap64 (int a + int b - 1) = int a + int b - 1" if "int a < 2 ^ 62" "int b < 2 ^ 62" for a b
    using that by (intro wrap64_id) auto
  ultimately show ?thesis
    using small unfolding parseHunkHeader_def at trim1 trim2 Let_def words by (simp add: hunk_range_def)
qed

lemma header_shape:
  "has_prefix (print_header h) ''@@''" "print_header h \<noteq> []"
  "classifyDiffLine (print_header h) = (''context'', print_header h, False, False)"
  by (simp_all add: print_header_def classifyDiffLine_def has_any_prefix_def has_prefix_def)

lemma header_line: "hunk_ok h \<Longrightarrow>
  diff_line (take 200 q, a, r, g) (print_header h) =
    (take 200 (q @ [\<lparr>dl_Type = ''context'', dl_Content = print_header h\<rparr>]), a, r,
     g @ (case hunk_range h of Some x \<Rightarrow> [x] | None \<Rightarrow> []))"
  by (cases "length q < 200") (simp_all add: header_range header_shape split: option.split)

lemma body_shape: "plain_line b \<Longrightarrow>
  classifyDiffLine (print_body b) = (dl_Type (shown_line b), dl_Content (shown_line b), is_added b, is_removed b) \<and>
  print_body b \<noteq> [] \<and> \<not> has_prefix (print_body b) ''@@'' \<and> dl_Type (shown_line b) \<noteq> []"
  by (cases b) (auto simp: classifyDiffLine_def has_any_prefix_def has_prefix_iff trim_prefix_def prefix_def)

lemma body_line: "plain_line b \<Longrightarrow>
  diff_line (take 200 q, a, r, g) (print_body b) =
    (take 200 (q @ [shown_line b]), a + of_bool (is_added b), r + of_bool (is_removed b), g)"
  using body_shape [of b] by (cases "length q < 200") simp_all

lemma body_lines: "list_all plain_line bs \<Longrightarrow>
  foldl diff_line (take 200 q, a, r, g) (map print_body bs) =
    (take 200 (q @ map shown_line bs), a + of_nat (length (filter is_added bs)), r + of_nat (length (filter is_removed bs)), g)"
  by (induction bs arbitrary: q a r) (simp_all add: body_line del: diff_line.simps take_append)

lemma hunk_lines: "list_all hunk_ok hs \<Longrightarrow>
  foldl diff_line (take 200 q, a, r, g) (concat (map print_hunk hs)) =
    (take 200 (q @ concat (map shown_hunk hs)), a + of_nat (adds hs), r + of_nat (removes hs), g @ List.map_filter hunk_range hs)"
proof (induction hs arbitrary: q a r g)
  case Nil
  then show ?case by (simp add: adds_def removes_def)
next
  case (Cons h hs)
  then have "hunk_ok h" "list_all plain_line (hk_body h)" by (simp_all add: hunk_ok_def)
  then show ?case
    using Cons
    by (simp add: print_hunk_def header_line body_lines shown_hunk_def adds_def removes_def List.map_filter_simps del: diff_line.simps take_append split: option.split)
qed

definition print_patch :: "hunk list \<Rightarrow> string" where
  "print_patch hs = join_with (CHR 10) (concat (map print_hunk hs))"

lemma trim_space_nonempty: "c \<in> set s \<Longrightarrow> \<not> is_space c \<Longrightarrow> trim_space s \<noteq> []"
  by (auto simp: trim_space_def dropWhile_eq_Nil_conv) (metis set_dropWhileD dropWhile_eq_Nil_conv set_takeWhileD takeWhile_dropWhile_id Un_iff set_append)

lemma body_no_break: "plain_line b \<Longrightarrow> CHR 10 \<notin> set (print_body b)"
  by (cases b) simp_all

lemma header_no_break: "CHR 10 \<notin> set (print_header h)"
proof -
  have "CHR 10 \<notin> set (itoa_nat n)" for n by (rule itoa_no_char) (simp add: is_digit_def)
  then show ?thesis by (simp add: print_header_def)
qed

text \<open>C29: The preview of a printed patch of at least one hunk, in which no added line begins with two plus signs, no removed line with two
  dashes and all numbers are below 2 to the 62: its first 200 lines, the numbers of lines it adds and removes (in 32 bits), and for every hunk
  the lines it has in the new file, or in the old one if it leaves none.\<close>

theorem patch_preview:
  assumes "hs \<noteq> []" "list_all hunk_ok hs"
  shows "diffFromPatch (print_patch hs) =
    (take 200 (concat (map shown_hunk hs)), of_nat (adds hs), of_nat (removes hs), List.map_filter hunk_range hs)"
proof -
  let ?ls = "concat (map print_hunk hs)"
  obtain h hs' where hs: "hs = h # hs'" using assms(1) by (cases hs) auto
  have "CHR ''@'' \<in> set (print_patch hs)"
    by (cases "concat (map print_hunk hs')"; cases "hk_body h")
      (simp_all add: hs print_patch_def print_hunk_def print_header_def)
  then have "trim_space (print_patch hs) \<noteq> []" by (rule trim_space_nonempty) (simp add: is_space_def)
  moreover have "\<forall>l \<in> set ?ls. CHR 10 \<notin> set l"
    using assms(2) by (auto simp: print_hunk_def header_no_break list_all_iff hunk_ok_def dest: body_no_break)
  then have "split_on (CHR 10) (print_patch hs) = ?ls"
    unfolding print_patch_def by (intro split_on_join_with) (simp_all add: hs print_hunk_def)
  ultimately show ?thesis
    using hunk_lines [OF assms(2), of "[]" 0 0 "[]"] by (simp add: diffFromPatch_def parseUnifiedDiff_def)
qed

text \<open>A removed line whose text begins with two dashes, such as a comment of SQL or Lua, is taken for the header of a file
  and not counted; neither is an added line whose text begins with two plus signs.\<close>

theorem dashes_not_counted:
  assumes "b = Removed (''--'' @ s) \<or> b = Added (''++'' @ s)"
  shows "fst (snd (diff_line d (print_body b))) = fst (snd d) \<and> fst (snd (snd (diff_line d (print_body b)))) = fst (snd (snd d))"
  using assms by (cases d) (auto simp: classifyDiffLine_def has_any_prefix_def has_prefix_def)

definition two_hunks :: "hunk list" where
  "two_hunks = [\<lparr>hk_oldStart = 1, hk_oldCount = 2, hk_newStart = 1, hk_newCount = 2, hk_body = [Kept ''a'', Removed ''b'', Added ''c'']\<rparr>,
     \<lparr>hk_oldStart = 9, hk_oldCount = 1, hk_newStart = 8, hk_newCount = 0, hk_body = [Removed ''d'']\<rparr>]"

theorem patch_preview_witness:
  "diffFromPatch (print_patch two_hunks) =
    (take 200 (concat (map shown_hunk two_hunks)), 1, 2, [\<lparr>lr_Start = 1, lr_End = 2\<rparr>, \<lparr>lr_Start = 9, lr_End = 9\<rparr>])"
  using patch_preview [of two_hunks]
  by (simp add: two_hunks_def hunk_ok_def has_prefix_def adds_def removes_def List.map_filter_simps hunk_range_def)

theorem dashes_not_counted_witness: "fst (snd (snd (diff_line no_diff (print_body (Removed ''-- drop''))))) = 0"
  using dashes_not_counted [of "Removed ''-- drop''" "'' drop''" no_diff] by simp

text \<open>The preview is made from trimmed parameters: a write or an edit shows the same whatever space and line breaks surround
  the text it really writes.\<close>

theorem preview_ignores_outer_space:
  assumes "trim_space content = trim_space other"
  shows "ExtractFromArgs fo fv ''write_file'' (Some [(''path'', VString path), (''content'', VString content)]) =
    ExtractFromArgs fo fv ''write_file'' (Some [(''path'', VString path), (''content'', VString other)])"
proof -
  have "to_lower (trim_space ''write_file'') = ''write_file''" by code_simp
  then show ?thesis using assms unfolding ExtractFromArgs_def by (simp add: pathParam_def param_string_def param_def)
qed

definition no_files :: files_view where
  "no_files = \<lparr>fv_read = (\<lambda>_. Missing), fv_missing = (\<lambda>_. True), fv_diff = (\<lambda>_ _ new. Inr (CHR ''+'' # new))\<rparr>"

theorem preview_ignores_outer_space_witness:
  "ExtractFromArgs int_floats no_files ''write_file'' (Some [(''path'', VString ''a''), (''content'', VString [CHR ''x'', CHR 10])]) =
    ExtractFromArgs int_floats no_files ''write_file'' (Some [(''path'', VString ''a''), (''content'', VString ''x'')])"
  by (rule preview_ignores_outer_space) (simp add: trim_space_def is_space_def)

end
