(* ===== verification/Tool_Pipeline.thy ===== *)
theory Tool_Pipeline
  imports Touch
begin

text \<open>
  The execution pipeline of the tools (src/pkg/tool): the execution context that every call carries,
  the executors, and the middleware that wraps them (middleware.go and middleware_*.go, hooks.go).

  An executor is a function that receives the execution context and the world and returns an outcome, the
  context as it left it and the next world.  The code passes a pointer to the context along the chain and
  every layer may write through it, so the model threads the context; \<open>None\<close> is the nil pointer.  A panic
  is an outcome of its own: deferred calls run and the panic travels on.

  The world has the clock, the contexts, the rows of the store of pending changes, the supply of fresh
  identifiers, a trace of the visible effects, and \<open>w_outside\<close>, everything else a tool may act on, of a
  type of its own.  A \<open>context.Context\<close> is the list of the cancellation points it hangs from, its own
  first; a point holds the moment and the error with which it is done, in the future or in the past, and
  \<open>context.Background\<close> hangs from none.

  Outside the model and therefore arguments: what tools, hooks and validators do, the arithmetic of
  \<open>float64\<close>, random numbers, \<open>fmt.Sprint\<close>, the size of a marshalled result, the file system.
\<close>

section \<open>Errors and results\<close>

datatype ctx_error = Canceled | DeadlineExceeded

text \<open>What the code asks of an error: its text, whether it is or wraps an error of a context, and the answer
  of its method \<open>Temporary\<close>, if it has one.\<close>

record go_error =
  ge_text :: string
  ge_ctx :: "ctx_error option"
  ge_temporary :: "bool option"

definition errorf :: "string \<Rightarrow> go_error" where
  "errorf s = \<lparr>ge_text = s, ge_ctx = None, ge_temporary = None\<rparr>"

fun context_error :: "ctx_error \<Rightarrow> go_error" where
  "context_error Canceled = \<lparr>ge_text = ''context canceled'', ge_ctx = Some Canceled, ge_temporary = None\<rparr>"
| "context_error DeadlineExceeded =
     \<lparr>ge_text = ''context deadline exceeded'', ge_ctx = Some DeadlineExceeded, ge_temporary = Some True\<rparr>"

record DiffInfo =
  di_FilePath :: string
  di_IsNew :: bool
  di_IsDelete :: bool
  di_LinesAdded :: int
  di_LinesRemoved :: int
  di_OldContent :: string
  di_NewContent :: string
  di_UnifiedDiff :: string
  di_Preview :: string

record 'f Result =
  rs_Success :: bool
  rs_Data :: "'f params"
  rs_Error :: string
  rs_DisplayData :: "'f params"
  rs_ShouldAbridge :: bool
  rs_NeedsApproval :: bool
  rs_DiffPreview :: "DiffInfo option"

definition failure :: "string \<Rightarrow> 'f Result" where
  "failure msg = \<lparr>rs_Success = False, rs_Data = None, rs_Error = msg, rs_DisplayData = None,
     rs_ShouldAbridge = False, rs_NeedsApproval = False, rs_DiffPreview = None\<rparr>"

datatype 'f outcome = Returned "'f Result option" "go_error option" | Panicked string

abbreviation refused :: "string \<Rightarrow> 'f outcome" where
  "refused msg \<equiv> Returned (Some (failure msg)) None"

section \<open>The world and its contexts\<close>

datatype EventType = ToolStarted | ToolCompleted | ToolFailed

record PendingChange =
  pc_ID :: string
  pc_AgentID :: string
  pc_SessionID :: string
  pc_FilePath :: string
  pc_Diff :: string
  pc_Reason :: string
  pc_Status :: string
  pc_CreatedAt :: go_time
  pc_ReviewedBy :: string

record FileChange =
  fc_Path :: string
  fc_Type :: string
  fc_Size :: int
  fc_ModTime :: go_time
  fc_ToolName :: string
  fc_CallID :: string

record SandboxRequest =
  sq_Command :: string
  sq_WorkDir :: string
  sq_Timeout :: go_duration
  sq_ToolName :: string

datatype 'f effect =
  Ran string "'f params"
| RanInContainer string "'f params"
| RanInSandbox SandboxRequest
| Toast string string
| ProgressStart string string
| ProgressDone string
| Published EventType string string go_time "'f params"
| ShellPublished string string "'f params"
| FileNotified FileChange
| ValidationReported string string string

type_synonym go_context = "nat list"

record ('f, 'o) world =
  w_now :: go_time
  w_points :: "(go_time \<times> ctx_error) option list"
  w_changes :: "PendingChange list"
  w_fresh :: nat
  w_trace :: "'f effect list"
  w_outside :: 'o

definition emit :: "'f effect \<Rightarrow> ('f, 'o) world \<Rightarrow> ('f, 'o) world" where
  "emit e w = w\<lparr>w_trace := w_trace w @ [e]\<rparr>"

definition advance :: "go_duration \<Rightarrow> ('f, 'o) world \<Rightarrow> ('f, 'o) world" where
  "advance d w = w\<lparr>w_now := w_now w + max 0 d\<rparr>"

fun earliest :: "(go_time \<times> ctx_error) option list \<Rightarrow> (go_time \<times> ctx_error) option" where
  "earliest [] = None"
| "earliest (None # ps) = earliest ps"
| "earliest (Some (t, e) # ps) =
     (case earliest ps of
        Some (t', e') \<Rightarrow> if t' < t then Some (t', e') else Some (t, e)
      | None \<Rightarrow> Some (t, e))"

abbreviation Background :: go_context where "Background \<equiv> []"

definition ctx_done :: "go_context \<Rightarrow> ('f, 'o) world \<Rightarrow> (go_time \<times> ctx_error) option" where
  "ctx_done c w = earliest (map (\<lambda>i. if i < length (w_points w) then w_points w ! i else None) c)"

definition ctx_Err :: "go_context \<Rightarrow> ('f, 'o) world \<Rightarrow> ctx_error option" where
  "ctx_Err c w = (case ctx_done c w of
     Some (t, e) \<Rightarrow> if t \<le> w_now w then Some e else None
   | None \<Rightarrow> None)"

definition WithTimeout :: "go_context \<Rightarrow> go_duration \<Rightarrow> ('f, 'o) world \<Rightarrow> go_context \<times> ('f, 'o) world" where
  "WithTimeout parent d w =
     (length (w_points w) # parent, w\<lparr>w_points := w_points w @ [Some (w_now w + d, DeadlineExceeded)]\<rparr>)"

text \<open>\<open>cancel\<close> of the context that \<^const>\<open>WithTimeout\<close> returned: nothing if its own point is done already.\<close>

definition cancel :: "go_context \<Rightarrow> ('f, 'o) world \<Rightarrow> ('f, 'o) world" where
  "cancel c w = (case c of
     [] \<Rightarrow> w
   | i # _ \<Rightarrow>
       (case w_points w ! i of
          Some (t, e) \<Rightarrow> if t \<le> w_now w then w else w\<lparr>w_points := (w_points w)[i := Some (w_now w, Canceled)]\<rparr>
        | None \<Rightarrow> w\<lparr>w_points := (w_points w)[i := Some (w_now w, Canceled)]\<rparr>))"

section \<open>Tools, executors, environment\<close>

datatype Impact = ImpactReadOnly | ImpactModifying | ImpactDestructive

datatype Category = CategoryCodebase | CategoryGit | CategoryTesting | CategoryFilesystem | CategoryRefactoring
  | CategoryDocumentation | CategoryAnalysis | CategoryDelegation | CategoryBrowser | CategoryShell | CategoryPlanning

datatype Cost = CostFree | CostCheap | CostExpensive

record ToolMetadata =
  md_Category :: Category
  md_Intent :: string
  md_Summary :: string
  md_Impact :: Impact
  md_Cost :: Cost

text \<open>A tool: its name and description, its metadata if it is a \<open>RichTool\<close>, and its \<open>Execute\<close> or
  \<open>ExecuteWithContext\<close>, which sees when its context will be done, the parameters, the clock and the outside,
  and tells the outcome, how long it took and the outside it leaves.\<close>

record ('f, 'o) Tool =
  tl_Name :: string
  tl_Description :: string
  tl_Metadata :: "ToolMetadata option"
  tl_ContextTool :: bool
  tl_run :: "(go_time \<times> ctx_error) option \<Rightarrow> 'f params \<Rightarrow> go_time \<Rightarrow> 'o \<Rightarrow> 'f outcome \<times> go_duration \<times> 'o"

record ('f, 'o) ExecutionContext =
  ec_Context :: "go_context option"
  ec_ToolName :: string
  ec_Tool :: "('f, 'o) Tool option"
  ec_SessionID :: string
  ec_CallID :: string
  ec_Params :: "'f params"
  ec_StartTime :: go_time
  ec_Attempt :: int
  ec_Metadata :: "'f params"

type_synonym ('f, 'o) Executor =
  "('f, 'o) ExecutionContext option \<Rightarrow> ('f, 'o) world \<Rightarrow>
   'f outcome \<times> ('f, 'o) ExecutionContext option \<times> ('f, 'o) world"

type_synonym ('f, 'o) Middleware = "('f, 'o) Executor \<Rightarrow> ('f, 'o) Executor"

text \<open>Libraries and the system: the operations on \<open>float64\<close>, \<open>time.Duration(float64(d) * f)\<close>, the delay that
  \<open>applyJitter\<close> draws, \<open>fmt.Sprint\<close>, \<open>debug.Stack\<close>, \<open>ulid.Make\<close>, the length of the marshalled result or
  \<open>None\<close> for an error, \<open>os.Getwd\<close>, \<open>os.ReadFile\<close> and \<open>os.Stat\<close>, the unified diff of difflib; the error
  of the database on an insertion and, at a point in time, on a selection; the status and the reviewer that
  had been written to a change by a point in time, if any had; the container runner, from the compose file,
  the service, the work directory and the tool's name.\<close>

record ('f, 'o) tool_env =
  te_floats :: "'f float_ops"
  te_scale :: "go_duration \<Rightarrow> 'f \<Rightarrow> go_duration"
  te_jitter :: "go_duration \<Rightarrow> 'f \<Rightarrow> nat \<Rightarrow> go_duration"
  te_sprint :: "'f any \<Rightarrow> string"
  te_stack :: string
  te_ulid :: "nat \<Rightarrow> string"
  te_json :: "'f Result \<Rightarrow> nat option"
  te_cwd :: "string option"
  te_readFile :: "'o \<Rightarrow> string \<Rightarrow> string file_result"
  te_stat :: "'o \<Rightarrow> string \<Rightarrow> (int \<times> go_time) file_result"
  te_diff :: "string \<Rightarrow> string \<Rightarrow> string \<Rightarrow> string + string"
  te_insert :: "PendingChange \<Rightarrow> string option"
  te_select :: "go_time \<Rightarrow> string \<Rightarrow> string option"
  te_review :: "go_time \<Rightarrow> string \<Rightarrow> (string \<times> string) option"
  te_container :: "string \<Rightarrow> string \<Rightarrow> string \<Rightarrow> string \<Rightarrow> (go_time \<times> ctx_error) option \<Rightarrow> 'f params \<Rightarrow>
     go_time \<Rightarrow> 'o \<Rightarrow> 'f outcome \<times> go_duration \<times> 'o"

text \<open>What a call touches, in the files as they are.\<close>

definition touched :: "('f, 'o) tool_env \<Rightarrow> string \<Rightarrow> 'f params \<Rightarrow> ('f, 'o) world \<Rightarrow> RichFields" where
  "touched env toolName params w = ExtractFromArgs (te_floats env)
     \<lparr>fv_read = te_readFile env (w_outside w), fv_missing = (\<lambda>p. te_stat env (w_outside w) p = Missing), fv_diff = te_diff env\<rparr>
     toolName params"

definition ulid_make :: "('f, 'o) tool_env \<Rightarrow> ('f, 'o) world \<Rightarrow> string \<times> ('f, 'o) world" where
  "ulid_make env w = (te_ulid env (w_fresh w), w\<lparr>w_fresh := w_fresh w + 1\<rparr>)"

text \<open>\<open>Chain\<close>: the first middleware is the outermost.\<close>

definition Chain :: "('f, 'o) Middleware list \<Rightarrow> ('f, 'o) Middleware" where
  "Chain middlewares final = foldr (\<lambda>m f. m f) middlewares final"

section \<open>Panics, retries, timeouts\<close>

definition tool_label :: "('f, 'o) ExecutionContext option \<Rightarrow> string" where
  "tool_label ctx = (case ctx of
     Some c \<Rightarrow> if ec_ToolName c \<noteq> [] then ''tool '' @ ec_ToolName c else ''tool''
   | None \<Rightarrow> ''tool'')"

definition PanicRecovery :: "('f, 'o) tool_env \<Rightarrow> ('f, 'o) Middleware" where
  "PanicRecovery env next ctx w =
     (case next ctx w of
        (Panicked v, ctx', w') \<Rightarrow>
          (let marked = map_option (\<lambda>c. c\<lparr>ec_Metadata := put ''panic_value'' (VString v)
                  (put ''panic_stack'' (VString (te_stack env)) (ec_Metadata c))\<rparr>) ctx';
               err = tool_label ctx' @ '' panicked''
           in (Returned (Some (failure err)) (Some (errorf err)), marked, w'))
      | (Returned res err, ctx', w') \<Rightarrow> (Returned res err, ctx', w'))"

definition mutatingTools :: "string list" where
  "mutatingTools = [''write_file'', ''edit_file'', ''apply_patch'', ''insert_text'', ''delete_lines'',
     ''search_replace'', ''patch_file'', ''rename_symbol'', ''extract_function'', ''run_shell'', ''delete_file'']"

definition isMutatingTool :: "string \<Rightarrow> bool" where
  "isMutatingTool name = List.member mutatingTools (trim_space name)"

record 'f RetryConfig =
  rc_MaxAttempts :: int
  rc_InitialDelay :: go_duration
  rc_MaxDelay :: go_duration
  rc_Multiplier :: 'f
  rc_Jitter :: 'f
  rc_RetryableFunc :: "(go_error \<Rightarrow> bool) option"

definition DefaultRetryable :: "go_error option \<Rightarrow> bool" where
  "DefaultRetryable err = (case err of
     None \<Rightarrow> False
   | Some e \<Rightarrow>
       if ge_ctx e = Some Canceled \<or> ge_ctx e = Some DeadlineExceeded then False
       else if ge_temporary e = Some True then True
       else let msg = to_lower (ge_text e) in
         contains msg ''timeout'' \<or> contains msg ''connection refused'' \<or> contains msg ''temporary failure'')"

definition applyJitter :: "('f, 'o) tool_env \<Rightarrow> go_duration \<Rightarrow> 'f \<Rightarrow> nat \<Rightarrow> go_duration" where
  "applyJitter env delay jitter seed =
     (if delay \<le> 0 \<or> f_le (te_floats env) jitter (f_zero (te_floats env)) then delay
      else let j = (if f_less (te_floats env) (f_of_int (te_floats env) 1) jitter
                    then f_of_int (te_floats env) 1 else jitter)
           in te_jitter env delay j seed)"

definition minDuration :: "go_duration \<Rightarrow> go_duration \<Rightarrow> go_duration" where
  "minDuration a b = (if b \<le> 0 \<or> a < b then a else b)"

definition ctxContext :: "('f, 'o) ExecutionContext option \<Rightarrow> go_context" where
  "ctxContext ctx = (case ctx of
     None \<Rightarrow> Background
   | Some c \<Rightarrow> (case ec_Context c of None \<Rightarrow> Background | Some g \<Rightarrow> g))"

text \<open>The wait ends when the timer fires or the context is done, whichever comes first; when both happen at the
  same moment Go chooses one, and here it is the context.\<close>

definition sleepWithContext ::
  "go_context \<Rightarrow> go_duration \<Rightarrow> ('f, 'o) world \<Rightarrow> go_error option \<times> ('f, 'o) world" where
  "sleepWithContext c delay w =
     (if delay \<le> 0 then (None, w)
      else case ctx_done c w of
        Some (t, e) \<Rightarrow> if t \<le> w_now w + delay then (Some (context_error e), advance (t - w_now w) w)
                       else (None, advance delay w)
      | None \<Rightarrow> (None, advance delay w))"

text \<open>The attempts of \<open>Retry\<close>: \<open>left\<close> of them are left, \<open>attempt\<close> is the number of the next.\<close>

fun retry_attempts ::
  "('f, 'o) tool_env \<Rightarrow> 'f RetryConfig \<Rightarrow> (go_error \<Rightarrow> bool) \<Rightarrow> int \<Rightarrow> ('f, 'o) Executor \<Rightarrow>
   nat \<Rightarrow> int \<Rightarrow> go_duration \<Rightarrow> go_error option \<Rightarrow> ('f, 'o) Executor" where
  "retry_attempts env cfg retryable attempts next 0 attempt delay lastErr ctx w =
     (let e = (case lastErr of None \<Rightarrow> errorf ''unknown error'' | Some e \<Rightarrow> e);
          name = (case ctx of None \<Rightarrow> [] | Some c \<Rightarrow> ec_ToolName c)
      in (Returned None (Some (e\<lparr>ge_text := ''tool '' @ name @ '' failed after '' @ itoa_nat (nat attempts) @
            '' attempts: '' @ ge_text e\<rparr>)), ctx, w))"
| "retry_attempts env cfg retryable attempts next (Suc left) attempt delay lastErr ctx w =
     (let loopCtx = ctxContext ctx in
      case ctx_Err loopCtx w of
        Some e \<Rightarrow> (Returned None (Some (context_error e)), ctx, w)
      | None \<Rightarrow>
          (case next (map_option (\<lambda>c. c\<lparr>ec_Attempt := attempt\<rparr>) ctx) w of
             (Panicked v, ctx1, w1) \<Rightarrow> (Panicked v, ctx1, w1)
           | (Returned res None, ctx1, w1) \<Rightarrow> (Returned res None, ctx1, w1)
           | (Returned res (Some err), ctx1, w1) \<Rightarrow>
               if \<not> retryable err \<or> attempt = attempts then (Returned res (Some err), ctx1, w1)
               else
                 (case sleepWithContext loopCtx (applyJitter env delay (rc_Jitter cfg) (w_fresh w1))
                         (w1\<lparr>w_fresh := w_fresh w1 + 1\<rparr>) of
                    (Some e, w2) \<Rightarrow> (Returned None (Some e), ctx1, w2)
                  | (None, w2) \<Rightarrow>
                      retry_attempts env cfg retryable attempts next left (attempt + 1)
                        (minDuration (te_scale env delay (rc_Multiplier cfg)) (rc_MaxDelay cfg)) (Some err) ctx1 w2)))"

definition Retry :: "('f, 'o) tool_env \<Rightarrow> 'f RetryConfig \<Rightarrow> ('f, 'o) Middleware" where
  "Retry env cfg next ctx w =
     (if (case ctx of None \<Rightarrow> False | Some c \<Rightarrow> isMutatingTool (ec_ToolName c)) then next ctx w
      else
        let attempts = (if rc_MaxAttempts cfg \<le> 0 then 1 else rc_MaxAttempts cfg);
            retryable = (case rc_RetryableFunc cfg of None \<Rightarrow> (\<lambda>e. DefaultRetryable (Some e)) | Some f \<Rightarrow> f)
        in retry_attempts env cfg retryable attempts next (nat attempts) 1 (rc_InitialDelay cfg) None ctx w)"

definition Timeout :: "go_duration \<Rightarrow> (string \<times> go_duration) list option \<Rightarrow> ('f, 'o) Middleware" where
  "Timeout defaultTimeout perTool next ctx w =
     (case ctx of
        None \<Rightarrow> next ctx w
      | Some c \<Rightarrow>
          let timeout = (case perTool of
                None \<Rightarrow> defaultTimeout
              | Some m \<Rightarrow> (case map_of m (ec_ToolName c) of Some t \<Rightarrow> t | None \<Rightarrow> defaultTimeout))
          in if timeout \<le> 0 then next ctx w
             else
               (let base = (case ec_Context c of None \<Rightarrow> Background | Some g \<Rightarrow> g);
                    (timeoutCtx, w1) = WithTimeout base timeout w;
                    (out, ctx', w2) = next (Some (c\<lparr>ec_Context := Some timeoutCtx\<rparr>)) w1
                in (out, ctx', cancel timeoutCtx w2)))"

section \<open>Hooks\<close>

record 'f HookResult =
  hr_Abort :: bool
  hr_ModifiedParams :: "'f params"
  hr_AbortReason :: string
  hr_AbortResult :: "'f Result option"

text \<open>A hook is a function value: the code it points to, which is all \<open>sameHook\<close> compares, and what it does.
  A pre-hook that panics returns no result.\<close>

record ('f, 'o) PreHook =
  ph_code :: nat
  ph_run :: "('f, 'o) ExecutionContext \<Rightarrow> ('f, 'o) world \<Rightarrow>
     (string + 'f HookResult) \<times> ('f, 'o) ExecutionContext \<times> ('f, 'o) world"

record ('f, 'o) PostHook =
  qh_code :: nat
  qh_run :: "('f, 'o) ExecutionContext \<Rightarrow> 'f Result option \<Rightarrow> go_error option \<Rightarrow> ('f, 'o) world \<Rightarrow>
     'f outcome \<times> ('f, 'o) ExecutionContext \<times> ('f, 'o) world"

record ('f, 'o) HookRegistry =
  hk_preHooks :: "(string \<times> ('f, 'o) PreHook list) list"
  hk_postHooks :: "(string \<times> ('f, 'o) PostHook list) list"

definition normalizeHookName :: "string \<Rightarrow> string" where
  "normalizeHookName toolName = (let name = trim_space toolName in if name = [] then ''*'' else name)"

definition hooks_at :: "(string \<times> 'h list) list \<Rightarrow> string \<Rightarrow> 'h list" where
  "hooks_at m name = (case map_of m name of None \<Rightarrow> [] | Some hs \<Rightarrow> hs)"

definition RegisterPreHook ::
  "string \<Rightarrow> ('f, 'o) PreHook \<Rightarrow> ('f, 'o) HookRegistry \<Rightarrow> ('f, 'o) HookRegistry" where
  "RegisterPreHook toolName hook h =
     (let name = normalizeHookName toolName
      in h\<lparr>hk_preHooks := AList.update name (hooks_at (hk_preHooks h) name @ [hook]) (hk_preHooks h)\<rparr>)"

definition RegisterPostHook ::
  "string \<Rightarrow> ('f, 'o) PostHook \<Rightarrow> ('f, 'o) HookRegistry \<Rightarrow> ('f, 'o) HookRegistry" where
  "RegisterPostHook toolName hook h =
     (let name = normalizeHookName toolName
      in h\<lparr>hk_postHooks := AList.update name (hooks_at (hk_postHooks h) name @ [hook]) (hk_postHooks h)\<rparr>)"

text \<open>The hooks of \<open>*\<close> come before those of the tool; for the name \<open>*\<close> itself they come twice.\<close>

definition PreHooks :: "string \<Rightarrow> ('f, 'o) HookRegistry \<Rightarrow> ('f, 'o) PreHook list" where
  "PreHooks toolName h =
     (let name = trim_space toolName
      in hooks_at (hk_preHooks h) ''*'' @ (if name \<noteq> [] then hooks_at (hk_preHooks h) name else []))"

definition PostHooks :: "string \<Rightarrow> ('f, 'o) HookRegistry \<Rightarrow> ('f, 'o) PostHook list" where
  "PostHooks toolName h =
     (let name = trim_space toolName
      in hooks_at (hk_postHooks h) ''*'' @ (if name \<noteq> [] then hooks_at (hk_postHooks h) name else []))"

definition removePreHook :: "('f, 'o) PreHook list \<Rightarrow> ('f, 'o) PreHook \<Rightarrow> ('f, 'o) PreHook list" where
  "removePreHook hooks target = filter (\<lambda>h. ph_code h \<noteq> ph_code target) hooks"

definition removePostHook :: "('f, 'o) PostHook list \<Rightarrow> ('f, 'o) PostHook \<Rightarrow> ('f, 'o) PostHook list" where
  "removePostHook hooks target = filter (\<lambda>h. qh_code h \<noteq> qh_code target) hooks"

text \<open>\<open>UnregisterHook\<close>, once for each type of hook it distinguishes; a name without hooks is deleted.\<close>

definition UnregisterPreHook ::
  "string \<Rightarrow> ('f, 'o) PreHook \<Rightarrow> ('f, 'o) HookRegistry \<Rightarrow> ('f, 'o) HookRegistry" where
  "UnregisterPreHook toolName hook h =
     (if hk_preHooks h = [] then h
      else let name = normalizeHookName toolName; rest = removePreHook (hooks_at (hk_preHooks h) name) hook
           in h\<lparr>hk_preHooks := (if rest = [] then AList.delete name (hk_preHooks h)
                                else AList.update name rest (hk_preHooks h))\<rparr>)"

definition UnregisterPostHook ::
  "string \<Rightarrow> ('f, 'o) PostHook \<Rightarrow> ('f, 'o) HookRegistry \<Rightarrow> ('f, 'o) HookRegistry" where
  "UnregisterPostHook toolName hook h =
     (if hk_postHooks h = [] then h
      else let name = normalizeHookName toolName; rest = removePostHook (hooks_at (hk_postHooks h) name) hook
           in h\<lparr>hk_postHooks := (if rest = [] then AList.delete name (hk_postHooks h)
                                 else AList.update name rest (hk_postHooks h))\<rparr>)"

text \<open>The pre-hooks in turn: on the left the outcome with which a hook ends the call.\<close>

fun run_pre_hooks ::
  "('f, 'o) PreHook list \<Rightarrow> ('f, 'o) ExecutionContext \<Rightarrow> ('f, 'o) world \<Rightarrow>
   'f outcome option \<times> ('f, 'o) ExecutionContext \<times> ('f, 'o) world" where
  "run_pre_hooks [] c w = (None, c, w)"
| "run_pre_hooks (hook # hooks) c w =
     (case ph_run hook c w of
        (Inl v, c1, w1) \<Rightarrow> (Some (Panicked v), c1, w1)
      | (Inr answer, c1, w1) \<Rightarrow>
          let c2 = (if hr_ModifiedParams answer \<noteq> None then c1\<lparr>ec_Params := hr_ModifiedParams answer\<rparr> else c1)
          in if hr_Abort answer then
               let trimmed = trim_space (hr_AbortReason answer);
                   reason = (if trimmed = [] then ''aborted by hook'' else trimmed);
                   err = errorf (''aborted by hook: '' @ reason)
               in (Some (Returned (Some (case hr_AbortResult answer of Some r \<Rightarrow> r | None \<Rightarrow> failure reason)) (Some err)),
                   c2, w1)
             else run_pre_hooks hooks c2 w1)"

fun run_post_hooks ::
  "('f, 'o) PostHook list \<Rightarrow> 'f Result option \<Rightarrow> go_error option \<Rightarrow> ('f, 'o) ExecutionContext \<Rightarrow> ('f, 'o) world \<Rightarrow>
   'f outcome \<times> ('f, 'o) ExecutionContext \<times> ('f, 'o) world" where
  "run_post_hooks [] res err c w = (Returned res err, c, w)"
| "run_post_hooks (hook # hooks) res err c w =
     (case qh_run hook c res err w of
        (Panicked v, c1, w1) \<Rightarrow> (Panicked v, c1, w1)
      | (Returned res1 err1, c1, w1) \<Rightarrow> run_post_hooks hooks res1 err1 c1 w1)"

definition Hooks :: "('f, 'o) HookRegistry option \<Rightarrow> ('f, 'o) Middleware" where
  "Hooks registry next ctx w =
     (case (registry, ctx) of
        (Some h, Some c) \<Rightarrow>
          (case run_pre_hooks (PreHooks (ec_ToolName c) h) c w of
             (Some out, c1, w1) \<Rightarrow> (out, Some c1, w1)
           | (None, c1, w1) \<Rightarrow>
               (case next (Some c1) w1 of
                  (Returned res err, Some c2, w2) \<Rightarrow>
                    (case run_post_hooks (rev (PostHooks (ec_ToolName c2) h)) res err c2 w2 of
                       (out, c3, w3) \<Rightarrow> (out, Some c3, w3))
                | r \<Rightarrow> r))
      | _ \<Rightarrow> next ctx w)"


section \<open>Toasts and progress\<close>

definition ToastNotifications :: "bool \<Rightarrow> ('f, 'o) Middleware" where
  "ToastNotifications manager next ctx w =
     (case next ctx w of
        (Panicked v, ctx1, w1) \<Rightarrow> (Panicked v, ctx1, w1)
      | (Returned res err, ctx1, w1) \<Rightarrow>
          if \<not> manager \<or> (err = None \<and> (case res of None \<Rightarrow> True | Some r \<Rightarrow> rs_Success r))
          then (Returned res err, ctx1, w1)
          else
            let name = (case ctx1 of
                  Some c \<Rightarrow> if trim_space (ec_ToolName c) \<noteq> [] then trim_space (ec_ToolName c) else ''Tool''
                | None \<Rightarrow> ''Tool'');
                from_err = (case err of Some e \<Rightarrow> ge_text e | None \<Rightarrow> []);
                message = (if from_err = [] then (case res of Some r \<Rightarrow> rs_Error r | None \<Rightarrow> []) else from_err);
                shown = (if trim_space message = [] then ''tool execution failed'' else message)
            in (Returned res err, ctx1, emit (Toast (name @ '' failed'') shown) w1))"

definition DefaultLongRunningTools :: "(string \<times> string) list" where
  "DefaultLongRunningTools =
     [(''run_shell'', ''Shell command''), (''search_text'', ''Searching''), (''search_replace'', ''Replacing''),
      (''find_files'', ''Scanning files''), (''git_diff'', ''Diff''), (''git_log'', ''Git log''),
      (''analyze_complexity'', ''Analyzing complexity''), (''find_duplicates'', ''Finding duplicates''),
      (''generate_test'', ''Generating tests'')]"

definition Progress :: "('f, 'o) tool_env \<Rightarrow> bool \<Rightarrow> (string \<times> string) list option \<Rightarrow> ('f, 'o) Middleware" where
  "Progress env manager longRunning next ctx w =
     (case ctx of
        None \<Rightarrow> next ctx w
      | Some c \<Rightarrow>
          if \<not> manager then next ctx w
          else
            let tools = (case longRunning of None \<Rightarrow> DefaultLongRunningTools | Some m \<Rightarrow> m);
                name = trim_space (ec_ToolName c)
            in case map_of tools name of
                 None \<Rightarrow> next ctx w
               | Some label \<Rightarrow>
                   let shown = (if trim_space label = [] then name else label);
                       (c1, w1) = (if trim_space (ec_CallID c) = []
                         then (let (callID, wf) = ulid_make env w in (c\<lparr>ec_CallID := callID\<rparr>, wf)) else (c, w));
                       w2 = emit (ProgressStart (ec_CallID c1) shown) w1;
                       (out, ctx', w3) = next (Some c1) w2
                   in (out, ctx', emit (ProgressDone (ec_CallID c1)) w3))"

section \<open>The size of results\<close>

definition truncateString :: "string \<Rightarrow> int \<Rightarrow> string \<Rightarrow> string" where
  "truncateString value limit sfx =
     (if limit \<le> 0 \<or> int (length value) \<le> limit then value
      else if limit \<le> int (length sfx) then take (nat limit) value
      else take (nat (limit - int (length sfx))) value @ sfx)"

definition truncateMapStrings :: "'f params \<Rightarrow> int \<Rightarrow> string \<Rightarrow> 'f params" where
  "truncateMapStrings data limit sfx =
     map_option (map (\<lambda>(key, val). (key, case val of VString v \<Rightarrow> VString (truncateString v limit sfx) | _ \<Rightarrow> val))) data"

definition truncation_target :: "int \<Rightarrow> int" where
  "truncation_target maxBytes = (let target = maxBytes div 2 in if target \<le> 0 then maxBytes else target)"

definition truncateResultStrings :: "int \<Rightarrow> string \<Rightarrow> 'f Result \<Rightarrow> 'f Result" where
  "truncateResultStrings maxBytes sfx res =
     (let target = truncation_target maxBytes
      in res\<lparr>rs_Data := truncateMapStrings (rs_Data res) target sfx,
             rs_DisplayData := truncateMapStrings (rs_DisplayData res) target sfx,
             rs_Error := (if rs_Error res \<noteq> [] \<and> target < int (length (rs_Error res))
                          then truncateString (rs_Error res) target sfx else rs_Error res)\<rparr>)"

definition hasTruncationFlag :: "'f params \<Rightarrow> bool" where
  "hasTruncationFlag data = (case data of
     None \<Rightarrow> False
   | Some m \<Rightarrow> list_ex (\<lambda>(key, val). contains (to_lower key) ''truncated'' \<and> (case val of VBool b \<Rightarrow> b | _ \<Rightarrow> False)) m)"

definition hasNativeTruncation :: "'f Result \<Rightarrow> bool" where
  "hasNativeTruncation res =
     (rs_ShouldAbridge res \<or> hasTruncationFlag (rs_Data res) \<or> hasTruncationFlag (rs_DisplayData res))"

definition sizeFits :: "('f, 'o) tool_env \<Rightarrow> 'f Result \<Rightarrow> int \<Rightarrow> bool" where
  "sizeFits env res maxBytes = (case te_json env res of None \<Rightarrow> False | Some n \<Rightarrow> int n \<le> maxBytes)"

definition setTruncationMetadata :: "('f, 'o) ExecutionContext option \<Rightarrow> ('f, 'o) ExecutionContext option" where
  "setTruncationMetadata = map_option (\<lambda>c. c\<lparr>ec_Metadata := put ''result_truncated'' (VBool True) (ec_Metadata c)\<rparr>)"

definition ResultSizeLimit :: "('f, 'o) tool_env \<Rightarrow> int \<Rightarrow> string \<Rightarrow> ('f, 'o) Middleware" where
  "ResultSizeLimit env maxBytes sfx next ctx w =
     (case next ctx w of
        (Returned (Some res) err, ctx1, w1) \<Rightarrow>
          if maxBytes \<le> 0 \<or> hasNativeTruncation res \<or> sizeFits env res maxBytes
          then (Returned (Some res) err, ctx1, w1)
          else
            let ctx2 = setTruncationMetadata ctx1; cut = truncateResultStrings maxBytes sfx res
            in if sizeFits env cut maxBytes then (Returned (Some cut) err, ctx2, w1)
               else (Returned (Some (cut\<lparr>
                         rs_DisplayData := Some [(''message'', VString (trim_space (''output truncated'' @ sfx)))],
                         rs_Data := Some [(''truncated'', VBool True)]\<rparr>)) err, setTruncationMetadata ctx2, w1)
      | r \<Rightarrow> r)"

section \<open>Validation\<close>

text \<open>A validator returns the text of its error; \<open>cfg.Rules\<close> holds the tool, the parameter and the validator,
  which may be nil.\<close>

record 'f ValidationRule =
  vr_Tool :: string
  vr_Param :: string
  vr_Validate :: "('f any \<Rightarrow> string option) option"

definition validationRuleApplies :: "string \<Rightarrow> string \<Rightarrow> bool" where
  "validationRuleApplies ruleTool toolName =
     (let rule = trim_space ruleTool
      in rule = [] \<or> rule = ''*'' \<or> to_lower rule = to_lower toolName)"

definition rule_violation :: "string \<Rightarrow> 'f params \<Rightarrow> 'f ValidationRule \<Rightarrow> (string \<times> string) option" where
  "rule_violation toolName params rule =
     (case vr_Validate rule of
        None \<Rightarrow> None
      | Some validate \<Rightarrow>
          if \<not> validationRuleApplies (vr_Tool rule) toolName then None
          else
            let name = trim_space (vr_Param rule)
            in if name = [] then None
               else case param params name of
                 None \<Rightarrow> None
               | Some value \<Rightarrow>
                   (case validate value of
                      None \<Rightarrow> None
                    | Some text \<Rightarrow> let msg = trim_space text in Some (name, if msg = [] then ''validation failed'' else msg)))"

fun first_violation :: "string \<Rightarrow> 'f params \<Rightarrow> 'f ValidationRule list \<Rightarrow> (string \<times> string) option" where
  "first_violation toolName params [] = None"
| "first_violation toolName params (rule # rules) =
     (case rule_violation toolName params rule of
        None \<Rightarrow> first_violation toolName params rules
      | v \<Rightarrow> v)"

definition Validation :: "'f ValidationRule list \<Rightarrow> bool \<Rightarrow> ('f, 'o) Middleware" where
  "Validation rules onError next ctx w =
     (case ctx of
        None \<Rightarrow> next ctx w
      | Some c \<Rightarrow>
          let toolName = trim_space (ec_ToolName c)
          in case first_violation toolName (ec_Params c) rules of
               None \<Rightarrow> next ctx w
             | Some (name, msg) \<Rightarrow>
                 let w1 = (if onError then emit (ValidationReported toolName name msg) w else w);
                     info = VMap [(''tool'', VString toolName), (''param'', VString name), (''message'', VString msg)]
                 in (Returned (Some (failure msg)) (Some (errorf (''validation failed: '' @ msg))),
                     Some (c\<lparr>ec_Metadata := put ''validation_error'' info (ec_Metadata c)\<rparr>), w1))"

definition ValidateNonEmpty :: "'f any \<Rightarrow> string option" where
  "ValidateNonEmpty value = (case value of
     VNil \<Rightarrow> Some ''value required''
   | VString v \<Rightarrow> if trim_space v = [] then Some ''value required'' else None
   | VStrings v \<Rightarrow> if v = [] then Some ''value required'' else None
   | VList v \<Rightarrow> if v = [] then Some ''value required'' else None
   | _ \<Rightarrow> None)"


section \<open>The sandbox\<close>

record SandboxResult =
  sx_ExitCode :: int
  sx_Stdout :: string
  sx_Stderr :: string
  sx_Killed :: bool

text \<open>\<open>SandboxExecutor.Execute\<close>: an error's text or the result pointer, the time it took, the outside it leaves.\<close>

type_synonym 'o SandboxExecutor =
  "(go_time \<times> ctx_error) option \<Rightarrow> SandboxRequest \<Rightarrow> go_time \<Rightarrow> 'o \<Rightarrow>
   (string + SandboxResult option) \<times> go_duration \<times> 'o"

definition sandboxedTools :: "string list" where
  "sandboxedTools = [''run_shell'', ''run_tests'']"

definition extractCommand :: "string \<Rightarrow> 'f params \<Rightarrow> string" where
  "extractCommand toolName params =
     (if toolName = ''run_shell'' \<or> toolName = ''run_tests''
      then (case param_string params ''command'' of Some cmd \<Rightarrow> trim_space cmd | None \<Rightarrow> [])
      else [])"

fun itoa :: "int \<Rightarrow> string" where
  "itoa n = (if n < 0 then CHR ''-'' # itoa_nat (nat (- n)) else itoa_nat (nat n))"

definition sandboxResultToBuiltin :: "SandboxResult option \<Rightarrow> 'f Result" where
  "sandboxResultToBuiltin r = (case r of
     None \<Rightarrow> failure ''nil sandbox result''
   | Some s \<Rightarrow>
       let data = [(''exit_code'', VInt (sx_ExitCode s)), (''stdout'', VString (sx_Stdout s)),
                   (''stderr'', VString (sx_Stderr s))] @ (if sx_Killed s then [(''killed'', VBool True)] else []);
           success = (sx_ExitCode s = 0)
       in (failure (if success then [] else ''command exited with code '' @ itoa (sx_ExitCode s)))
            \<lparr>rs_Success := success, rs_Data := Some data\<rparr>)"

definition sandbox_request :: "('f, 'o) tool_env \<Rightarrow> string \<Rightarrow> string \<Rightarrow> 'f params \<Rightarrow> SandboxRequest" where
  "sandbox_request env toolName command params =
     \<lparr>sq_Command = command,
      sq_WorkDir = (case param_string params ''working_directory'' of Some d \<Rightarrow> d | None \<Rightarrow> []),
      sq_Timeout = (case param params ''timeout'' of
         Some (VFloat t) \<Rightarrow> if f_less (te_floats env) (f_zero (te_floats env)) t
                            then f_to_int (te_floats env) t * second else 0
       | _ \<Rightarrow> 0),
      sq_ToolName = toolName\<rparr>"

definition DockerSandboxMiddleware :: "('f, 'o) tool_env \<Rightarrow> 'o SandboxExecutor option \<Rightarrow> ('f, 'o) Middleware" where
  "DockerSandboxMiddleware env sandbox next ctx w =
     (case (sandbox, ctx) of
        (Some execute, Some c) \<Rightarrow>
          let toolName = trim_space (ec_ToolName c)
          in if \<not> List.member sandboxedTools toolName then next ctx w
             else
               let command = extractCommand toolName (ec_Params c)
               in if command = [] then next ctx w
                  else
                    let execCtx = (case ec_Context c of None \<Rightarrow> Background | Some g \<Rightarrow> g);
                        req = sandbox_request env toolName command (ec_Params c);
                        (reply, d, out) = execute (ctx_done execCtx w) req (w_now w) (w_outside w);
                        w1 = advance d (emit (RanInSandbox req) w)\<lparr>w_outside := out\<rparr>
                    in case reply of
                         Inl err \<Rightarrow> (refused (''docker sandbox: '' @ err), ctx, w1)
                       | Inr answer \<Rightarrow> (Returned (Some (sandboxResultToBuiltin answer)) None, ctx, w1)
      | _ \<Rightarrow> next ctx w)"

section \<open>File change notifications\<close>

definition stringFromMap :: "('f, 'o) tool_env \<Rightarrow> 'f params \<Rightarrow> string \<Rightarrow> string" where
  "stringFromMap env data key = (case param data key of
     None \<Rightarrow> []
   | Some (VString v) \<Rightarrow> trim_space v
   | Some v \<Rightarrow> trim_space (te_sprint env v))"

definition boolFromMap :: "'f params \<Rightarrow> string \<Rightarrow> bool option" where
  "boolFromMap data key = (case param data key of
     Some (VBool b) \<Rightarrow> Some b
   | Some (VString v) \<Rightarrow>
       let trimmed = trim_space (to_lower v)
       in if List.member [''true'', ''1'', ''yes''] trimmed then Some True
          else if List.member [''false'', ''0'', ''no''] trimmed then Some False else None
   | _ \<Rightarrow> None)"

definition filePathFromResult :: "('f, 'o) tool_env \<Rightarrow> 'f Result \<Rightarrow> string" where
  "filePathFromResult env res =
     (let preview = (case rs_DiffPreview res of Some d \<Rightarrow> trim_space (di_FilePath d) | None \<Rightarrow> [])
      in if preview \<noteq> [] then preview
         else let data = stringFromMap env (rs_Data res) ''path''
              in if data \<noteq> [] then data else stringFromMap env (rs_DisplayData res) ''path'')"

definition buildChange ::
  "('f, 'o) tool_env \<Rightarrow> ('f, 'o) ExecutionContext \<Rightarrow> string \<Rightarrow> string \<Rightarrow> ('f, 'o) world \<Rightarrow> FileChange" where
  "buildChange env c path changeType w =
     (let trimmed = trim_space path;
          (size, modTime) = (case te_stat env (w_outside w) trimmed of Found st \<Rightarrow> st | _ \<Rightarrow> (0, 0))
      in \<lparr>fc_Path = clean trimmed, fc_Type = changeType, fc_Size = size, fc_ModTime = modTime,
          fc_ToolName = trim_space (ec_ToolName c), fc_CallID = trim_space (ec_CallID c)\<rparr>)"

definition extractFileChanges ::
  "('f, 'o) tool_env \<Rightarrow> ('f, 'o) ExecutionContext \<Rightarrow> 'f Result \<Rightarrow> ('f, 'o) world \<Rightarrow> FileChange list" where
  "extractFileChanges env c res w =
     (let toolName = trim_space (ec_ToolName c);
          from_result = filePathFromResult env res;
          path = (if from_result = [] then stringFromMap env (ec_Params c) ''path'' else from_result)
      in if toolName = ''write_file'' then
           (if path = [] then []
            else [buildChange env c path
                    (if boolFromMap (rs_DisplayData res) ''is_new'' = Some True then ''created'' else ''modified'') w])
         else if toolName = ''edit_file'' then (if path = [] then [] else [buildChange env c path ''modified'' w])
         else if toolName = ''delete_file'' then (if path = [] then [] else [buildChange env c path ''deleted'' w])
         else if toolName = ''apply_patch'' then
           (let file = trim_space (rf_FilePath (touched env toolName (ec_Params c) w))
            in if file = [] then [] else [buildChange env c file ''modified'' w])
         else [])"

definition FileChangeTracking :: "('f, 'o) tool_env \<Rightarrow> bool \<Rightarrow> ('f, 'o) Middleware" where
  "FileChangeTracking env watcher next ctx w =
     (case next ctx w of
        (Returned (Some res) None, Some c, w1) \<Rightarrow>
          if \<not> watcher \<or> \<not> rs_Success res \<or> rs_NeedsApproval res then (Returned (Some res) None, Some c, w1)
          else (Returned (Some res) None, Some c,
                foldl (\<lambda>v change. emit (FileNotified change) v) w1 (extractFileChanges env c res w1))
      | r \<Rightarrow> r)"

section \<open>Facts about contexts\<close>

lemma ctx_done_points: "w_points w' = w_points w \<Longrightarrow> ctx_done c w' = ctx_done c w"
  by (simp add: ctx_done_def cong: if_cong)

lemma ctx_done_later [simp]: "ctx_done c (w\<lparr>w_now := t\<rparr>) = ctx_done c w"
  by (simp add: ctx_done_def cong: if_cong)

lemma advance_forward: "0 \<le> d \<Longrightarrow> advance d w = w\<lparr>w_now := w_now w + d\<rparr>"
  by (simp add: advance_def)

section \<open>Registering and unregistering hooks\<close>

lemma hooks_at_update: "hooks_at (AList.update n hs m) k = (if k = n then hs else hooks_at m k)"
  by (simp add: hooks_at_def update_conv')

lemma hooks_at_delete: "hooks_at (AList.delete n m) k = (if k = n then [] else hooks_at m k)"
  by (simp add: hooks_at_def delete_conv' map_of_delete)

text \<open>Unregistering a hook right after it was registered restores the hooks of every tool, provided no hook of the
  same name has the same code.\<close>

theorem hook_roundtrip:
  assumes "ph_code hook \<notin> ph_code ` set (hooks_at (hk_preHooks h) (normalizeHookName name))"
  shows "PreHooks tool (UnregisterPreHook name hook (RegisterPreHook name hook h)) = PreHooks tool h"
proof -
  define n where "n = normalizeHookName name"
  have "filter (\<lambda>x. ph_code x \<noteq> ph_code hook) (hooks_at (hk_preHooks h) n) = hooks_at (hk_preHooks h) n"
    using assms unfolding n_def [symmetric] by (intro filter_True) (metis imageI)
  then have "hooks_at (hk_preHooks (UnregisterPreHook name hook (RegisterPreHook name hook h))) k = hooks_at (hk_preHooks h) k" for k
    by (auto simp: UnregisterPreHook_def RegisterPreHook_def removePreHook_def n_def [symmetric] hooks_at_update hooks_at_delete Let_def)
  then show ?thesis unfolding PreHooks_def by presburger
qed

text \<open>Hooks are compared by their code alone, so two closures made by the same function literal count as one:
  unregistering either removes both.\<close>

theorem unregister_removes_siblings:
  assumes "ph_code other = ph_code hook"
  shows "other \<notin> set (hooks_at (hk_preHooks (UnregisterPreHook name hook (RegisterPreHook name other h))) (normalizeHookName name))"
  using assms
  by (auto simp: UnregisterPreHook_def RegisterPreHook_def removePreHook_def hooks_at_update hooks_at_delete Let_def)

definition idle_hook :: "nat \<Rightarrow> (int, unit) PreHook" where
  "idle_hook code = \<lparr>ph_code = code,
     ph_run = (\<lambda>c w. (Inr \<lparr>hr_Abort = False, hr_ModifiedParams = None, hr_AbortReason = [], hr_AbortResult = None\<rparr>, c, w))\<rparr>"

definition abort_hook :: "nat \<Rightarrow> (int, unit) PreHook" where
  "abort_hook code = \<lparr>ph_code = code,
     ph_run = (\<lambda>c w. (Inr \<lparr>hr_Abort = True, hr_ModifiedParams = None, hr_AbortReason = ''no'', hr_AbortResult = None\<rparr>, c, w))\<rparr>"

definition no_hook_registry :: "(int, unit) HookRegistry" where
  "no_hook_registry = \<lparr>hk_preHooks = [], hk_postHooks = []\<rparr>"

theorem hook_roundtrip_witness:
  "PreHooks ''run_shell'' (UnregisterPreHook ''*'' (idle_hook 1) (RegisterPreHook ''*'' (idle_hook 1) no_hook_registry)) =
     PreHooks ''run_shell'' no_hook_registry"
  by (rule hook_roundtrip) (simp add: no_hook_registry_def hooks_at_def)

theorem unregister_removes_siblings_witness:
  "abort_hook 1 \<notin> set (hooks_at (hk_preHooks (UnregisterPreHook ''*'' (idle_hook 1) (RegisterPreHook ''*'' (abort_hook 1) no_hook_registry)))
     (normalizeHookName ''*''))"
  by (rule unregister_removes_siblings) (simp add: abort_hook_def idle_hook_def)

end
