(* ===== verification/Tool_Registry.thy ===== *)
theory Tool_Registry
  imports Tool_Pipeline
begin

text \<open>
  The tool registry (src/pkg/tool/registry*.go, middleware_approval.go, middleware_telemetry.go,
  defaults.go): the tools by name, the fixed layers around every call - panic recovery, telemetry, hooks,
  approval -, the configured middleware inside them, and the gate that lets a changing tool run only after
  a reviewer has approved the change in the store of mission control (src/pkg/mission/store.go).

  The code rebuilds \<open>r.executor\<close> whenever the middleware changes and the layers read the registry through its
  pointer when they run; in the model the executor is a function of the registry.  The mutex of the
  registry only guards its fields.  The store is a database: its rows are in the world, the reviewer's
  updates are read through \<open>te_review\<close>.
\<close>

section \<open>The registry\<close>

record ('f, 'o) Registry =
  rg_tools :: "(string \<times> ('f, 'o) Tool) list"
  rg_toolKinds :: "(string \<times> string) list"
  rg_middlewares :: "('f, 'o) Middleware list"
  rg_hooks :: "('f, 'o) HookRegistry option"
  rg_containerCompose :: string
  rg_containerWorkDir :: string
  rg_containerExecute :: bool
  rg_telemetryHub :: bool
  rg_telemetrySession :: string
  rg_missionStore :: bool
  rg_missionSession :: string
  rg_missionAgent :: string
  rg_missionTimeout :: go_duration
  rg_requireMissionApproval :: bool
  rg_discoveryEnabled :: bool
  rg_discoveryCore :: "string list"
  rg_discoveryExposed :: "string list"

definition NewEmptyRegistry :: "('f, 'o) Registry" where
  "NewEmptyRegistry = \<lparr>rg_tools = [], rg_toolKinds = [], rg_middlewares = [],
     rg_hooks = Some \<lparr>hk_preHooks = [], hk_postHooks = []\<rparr>,
     rg_containerCompose = [], rg_containerWorkDir = [], rg_containerExecute = False,
     rg_telemetryHub = False, rg_telemetrySession = [], rg_missionStore = False, rg_missionSession = [],
     rg_missionAgent = [], rg_missionTimeout = 0, rg_requireMissionApproval = False,
     rg_discoveryEnabled = False, rg_discoveryCore = [], rg_discoveryExposed = []\<rparr>"

definition Register :: "('f, 'o) Tool \<Rightarrow> ('f, 'o) Registry \<Rightarrow> ('f, 'o) Registry" where
  "Register t r = r\<lparr>rg_tools := AList.update (tl_Name t) t (rg_tools r)\<rparr>"

definition Remove :: "string \<Rightarrow> ('f, 'o) Registry \<Rightarrow> ('f, 'o) Registry" where
  "Remove name r = r\<lparr>rg_tools := AList.delete name (rg_tools r), rg_toolKinds := AList.delete name (rg_toolKinds r)\<rparr>"

definition SetToolKind :: "string \<Rightarrow> string \<Rightarrow> ('f, 'o) Registry \<Rightarrow> ('f, 'o) Registry" where
  "SetToolKind toolName kind r = r\<lparr>rg_toolKinds := AList.update toolName kind (rg_toolKinds r)\<rparr>"

definition ToolKind :: "string \<Rightarrow> ('f, 'o) Registry \<Rightarrow> string" where
  "ToolKind toolName r = (case map_of (rg_toolKinds r) toolName of None \<Rightarrow> [] | Some k \<Rightarrow> k)"

definition Filter :: "(('f, 'o) Tool \<Rightarrow> bool) \<Rightarrow> ('f, 'o) Registry \<Rightarrow> ('f, 'o) Registry" where
  "Filter keep r = r\<lparr>rg_tools := filter (\<lambda>(_, t). keep t) (rg_tools r)\<rparr>"

definition Get :: "string \<Rightarrow> ('f, 'o) Registry \<Rightarrow> ('f, 'o) Tool option" where
  "Get name r = map_of (rg_tools r) name"

definition Count :: "('f, 'o) Registry \<Rightarrow> nat" where
  "Count r = length (rg_tools r)"

definition snapshotTools :: "('f, 'o) Registry \<Rightarrow> ('f, 'o) Tool list" where
  "snapshotTools r = sort_key tl_Name (map snd (rg_tools r))"

definition Use :: "('f, 'o) Middleware \<Rightarrow> ('f, 'o) Registry \<Rightarrow> ('f, 'o) Registry" where
  "Use mw r = r\<lparr>rg_middlewares := rg_middlewares r @ [mw]\<rparr>"

definition SetContainerContext :: "string \<Rightarrow> string \<Rightarrow> ('f, 'o) Registry \<Rightarrow> ('f, 'o) Registry" where
  "SetContainerContext composePath workDir r = r\<lparr>rg_containerCompose := composePath, rg_containerWorkDir := workDir\<rparr>"

definition EnableContainers :: "string \<Rightarrow> string \<Rightarrow> ('f, 'o) Registry \<Rightarrow> ('f, 'o) Registry" where
  "EnableContainers composePath workDir r = (SetContainerContext composePath workDir r)\<lparr>rg_containerExecute := True\<rparr>"

definition DisableContainers :: "('f, 'o) Registry \<Rightarrow> ('f, 'o) Registry" where
  "DisableContainers r = r\<lparr>rg_containerExecute := False, rg_containerCompose := [], rg_containerWorkDir := []\<rparr>"

definition ContainerInfo :: "('f, 'o) Registry \<Rightarrow> bool \<times> string \<times> string" where
  "ContainerInfo r = (trim_space (rg_containerCompose r) \<noteq> [], rg_containerCompose r, rg_containerWorkDir r)"

definition EnableTelemetry :: "bool \<Rightarrow> string \<Rightarrow> ('f, 'o) Registry \<Rightarrow> ('f, 'o) Registry" where
  "EnableTelemetry hub sessionID r = r\<lparr>rg_telemetryHub := hub, rg_telemetrySession := sessionID\<rparr>"

definition EnableMissionControl ::
  "bool \<Rightarrow> string \<Rightarrow> bool \<Rightarrow> go_duration \<Rightarrow> ('f, 'o) Registry \<Rightarrow> ('f, 'o) Registry" where
  "EnableMissionControl store agentID requireApproval timeout r =
     (if \<not> store then r
      else r\<lparr>rg_missionStore := True, rg_missionAgent := agentID,
             rg_missionTimeout := (if timeout \<le> 0 then 10 * minute else timeout),
             rg_requireMissionApproval := requireApproval\<rparr>)"

definition UpdateMissionSession :: "string \<Rightarrow> ('f, 'o) Registry \<Rightarrow> ('f, 'o) Registry" where
  "UpdateMissionSession sessionID r = r\<lparr>rg_missionSession := trim_space sessionID\<rparr>"

definition UpdateMissionAgent :: "string \<Rightarrow> ('f, 'o) Registry \<Rightarrow> ('f, 'o) Registry" where
  "UpdateMissionAgent agentID r = r\<lparr>rg_missionAgent := trim_space agentID\<rparr>"

definition UpdateTelemetrySession :: "string \<Rightarrow> ('f, 'o) Registry \<Rightarrow> ('f, 'o) Registry" where
  "UpdateTelemetrySession sessionID r = r\<lparr>rg_telemetrySession := sessionID\<rparr>"

section \<open>Pending changes and their approval\<close>

text \<open>The insertion of a row; \<open>id\<close> is the primary key of the table.\<close>

definition CreatePendingChange ::
  "('f, 'o) tool_env \<Rightarrow> PendingChange \<Rightarrow> ('f, 'o) world \<Rightarrow> string option \<times> ('f, 'o) world" where
  "CreatePendingChange env change w =
     (case te_insert env change of
        Some err \<Rightarrow> (Some err, w)
      | None \<Rightarrow>
          if list_ex (\<lambda>ch. pc_ID ch = pc_ID change) (w_changes w)
          then (Some ''UNIQUE constraint failed: pending_changes.id'', w)
          else (None, w\<lparr>w_changes := w_changes w @ [change]\<rparr>))"

text \<open>The row of a change, with what a reviewer has written to it so far.\<close>

definition reviewed :: "('f, 'o) tool_env \<Rightarrow> go_time \<Rightarrow> PendingChange \<Rightarrow> PendingChange" where
  "reviewed env t change = (case te_review env t (pc_ID change) of
     None \<Rightarrow> change
   | Some (status, by) \<Rightarrow> change\<lparr>pc_Status := status, pc_ReviewedBy := by\<rparr>)"

definition GetPendingChange :: "('f, 'o) tool_env \<Rightarrow> string \<Rightarrow> ('f, 'o) world \<Rightarrow> go_error + PendingChange" where
  "GetPendingChange env changeID w =
     (case te_select env (w_now w) changeID of
        Some err \<Rightarrow> Inl (errorf err)
      | None \<Rightarrow>
          (case find (\<lambda>ch. pc_ID ch = changeID) (w_changes w) of
             None \<Rightarrow> Inl (errorf (''pending change not found: '' @ changeID))
           | Some change \<Rightarrow> Inr (reviewed env (w_now w) change)))"

text \<open>The loop of \<open>WaitForDecision\<close>, which asks once per tick of its ticker; \<open>None\<close> is a wait without end.  When the
  context is done at the moment of a tick, the loop ends with the context's error whichever the
  \<open>select\<close> takes.\<close>

partial_function (option) decision_loop ::
  "('f, 'o) tool_env \<Rightarrow> go_context \<Rightarrow> string \<Rightarrow> go_duration \<Rightarrow> ('f, 'o) world \<Rightarrow>
   ((go_error + PendingChange) \<times> ('f, 'o) world) option" where
  "decision_loop env c changeID poll w =
     (case ctx_Err c w of
        Some e \<Rightarrow> Some (Inl (context_error e), w)
      | None \<Rightarrow>
          (case GetPendingChange env changeID w of
             Inl err \<Rightarrow> Some (Inl err, w)
           | Inr change \<Rightarrow>
               if pc_Status change \<noteq> ''pending'' then Some (Inr change, w)
               else (case ctx_done c w of
                  Some (t, e) \<Rightarrow>
                    if t \<le> w_now w + poll then Some (Inl (context_error e), advance (t - w_now w) w)
                    else decision_loop env c changeID poll (advance poll w)
                | None \<Rightarrow> decision_loop env c changeID poll (advance poll w))))"

declare decision_loop.simps [code]

definition WaitForDecision ::
  "('f, 'o) tool_env \<Rightarrow> go_context \<Rightarrow> string \<Rightarrow> go_duration \<Rightarrow> ('f, 'o) world \<Rightarrow>
   ((go_error + PendingChange) \<times> ('f, 'o) world) option" where
  "WaitForDecision env c changeID pollInterval w =
     decision_loop env c changeID (if pollInterval \<le> 0 then second div 2 else pollInterval) w"

definition shouldGateChanges :: "('f, 'o) Registry \<Rightarrow> bool" where
  "shouldGateChanges r = (rg_requireMissionApproval r \<and> rg_missionStore r \<and> rg_missionSession r \<noteq> [])"

definition defaultAgent :: "string \<Rightarrow> string" where
  "defaultAgent agent = (if trim_space agent = [] then ''buckley-cli'' else agent)"

definition recordPendingChange ::
  "('f, 'o) tool_env \<Rightarrow> ('f, 'o) Registry \<Rightarrow> string \<Rightarrow> string \<Rightarrow> string \<Rightarrow> ('f, 'o) world \<Rightarrow>
   (string + string) \<times> ('f, 'o) world" where
  "recordPendingChange env r filePath diff toolName w =
     (if \<not> rg_missionStore r then (Inl ''mission store not configured'', w)
      else
        let (changeID, w1) = ulid_make env w;
            change = \<lparr>pc_ID = changeID, pc_AgentID = defaultAgent (rg_missionAgent r),
              pc_SessionID = rg_missionSession r, pc_FilePath = filePath, pc_Diff = diff,
              pc_Reason = toolName @ '' requested by '' @ defaultAgent (rg_missionAgent r),
              pc_Status = ''pending'', pc_CreatedAt = w_now w, pc_ReviewedBy = []\<rparr>
        in case CreatePendingChange env change w1 of
             (Some err, w2) \<Rightarrow> (Inl err, w2)
           | (None, w2) \<Rightarrow> (Inr changeID, w2))"

text \<open>The wait has a deadline, so it ends: \<open>decision_loop_ends\<close> below.\<close>

definition awaitDecision ::
  "('f, 'o) tool_env \<Rightarrow> ('f, 'o) Registry \<Rightarrow> go_context \<Rightarrow> string \<Rightarrow> ('f, 'o) world \<Rightarrow>
   (go_error + PendingChange) \<times> ('f, 'o) world" where
  "awaitDecision env r parentCtx changeID w =
     (let timeout = (if rg_missionTimeout r \<le> 0 then 10 * minute else rg_missionTimeout r);
          (c, w1) = WithTimeout parentCtx timeout w;
          (d, w2) = the (WaitForDecision env c changeID 750000000 w1)
      in (d, cancel c w2))"

text \<open>What the four gates share: record the change, wait for the decision, run the tool if it is approved.\<close>

definition ask_then_run ::
  "('f, 'o) tool_env \<Rightarrow> ('f, 'o) Registry \<Rightarrow> go_context \<Rightarrow> string \<Rightarrow> string \<Rightarrow> string \<Rightarrow>
   (('f, 'o) world \<Rightarrow> 'f outcome \<times> ('f, 'o) ExecutionContext option \<times> ('f, 'o) world) \<Rightarrow>
   ('f, 'o) ExecutionContext option \<Rightarrow> ('f, 'o) world \<Rightarrow>
   'f outcome \<times> ('f, 'o) ExecutionContext option \<times> ('f, 'o) world" where
  "ask_then_run env r c filePath diff toolName run ctx w =
     (case recordPendingChange env r filePath diff toolName w of
        (Inl err, w1) \<Rightarrow> (refused (''failed to create pending change: '' @ err), ctx, w1)
      | (Inr changeID, w1) \<Rightarrow>
          (case awaitDecision env r c changeID w1 of
             (Inl err, w2) \<Rightarrow> (refused (''approval wait failed: '' @ ge_text err), ctx, w2)
           | (Inr change, w2) \<Rightarrow>
               if pc_Status change \<noteq> ''approved''
               then (refused (''change '' @ pc_ID change @ '' '' @ pc_Status change @ '' by '' @ pc_ReviewedBy change), ctx, w2)
               else run w2))"

abbreviation nl :: char where "nl \<equiv> CHR 10"

definition int_param :: "('f, 'o) tool_env \<Rightarrow> 'f params \<Rightarrow> string \<Rightarrow> int" where
  "int_param env params key = (case param params key of
     Some (VFloat x) \<Rightarrow> f_to_int (te_floats env) x
   | _ \<Rightarrow> f_to_int (te_floats env) (f_zero (te_floats env)))"

text \<open>The description of a change from the parameters of the tool: nothing to ask when \<open>content\<close> is what the
  file already has.\<close>

datatype change_text = Unchanged | Described string | DiffFailed string

definition describe_write :: "('f, 'o) tool_env \<Rightarrow> string \<Rightarrow> 'f params \<Rightarrow> 'o \<Rightarrow> change_text" where
  "describe_write env absPath params files =
     (case param_string params ''content'' of
        Some content \<Rightarrow>
          let oldContent = (case te_readFile env files absPath of Found s \<Rightarrow> s | _ \<Rightarrow> [])
          in if oldContent = content then Unchanged
             else (case te_diff env absPath oldContent content of
                     Inl err \<Rightarrow> DiffFailed err
                   | Inr diff \<Rightarrow> Described diff)
      | None \<Rightarrow>
          (case param_string params ''old_string'' of
             Some oldStr \<Rightarrow>
               let newStr = (case param_string params ''new_string'' of Some s \<Rightarrow> s | None \<Rightarrow> [])
               in Described (''edit_file '' @ absPath @ '':'' @ nl # ''- '' @ oldStr @ nl # ''+ '' @ newStr)
           | None \<Rightarrow>
               (case param_string params ''text'' of
                  Some text \<Rightarrow>
                    Described (''insert_text '' @ absPath @ '' at line '' @ itoa (int_param env params ''line'') @ '':'' @
                      nl # ''+ '' @ text)
                | None \<Rightarrow>
                    (case param params ''start_line'' of
                       Some (VFloat x) \<Rightarrow>
                         Described (''delete_lines '' @ absPath @ '': lines '' @ itoa (f_to_int (te_floats env) x) @ ''-'' @
                           itoa (int_param env params ''end_line''))
                     | _ \<Rightarrow>
                         Described (''file modification: '' @ absPath @ '' (params: '' @
                           te_sprint env (VMap (case params of Some m \<Rightarrow> m | None \<Rightarrow> [])) @ '')'')))))"

definition executeWithMissionWrite ::
  "('f, 'o) tool_env \<Rightarrow> ('f, 'o) Registry \<Rightarrow> ('f, 'o) Executor \<Rightarrow> ('f, 'o) ExecutionContext \<Rightarrow> ('f, 'o) world \<Rightarrow>
   'f outcome \<times> ('f, 'o) ExecutionContext option \<times> ('f, 'o) world" where
  "executeWithMissionWrite env r next c w =
     (case param_string (ec_Params c) ''path'' of
        None \<Rightarrow> (refused ''path parameter is required'', Some c, w)
      | Some path \<Rightarrow>
          if trim_space path = [] then (refused ''path parameter is required'', Some c, w)
          else (case abs_path (te_cwd env) path of
             None \<Rightarrow> (refused ''invalid path'', Some c, w)
           | Some absPath \<Rightarrow>
               (case describe_write env absPath (ec_Params c) (w_outside w) of
                  Unchanged \<Rightarrow> next (Some c) w
                | DiffFailed err \<Rightarrow> (refused (''failed to build diff: '' @ err), Some c, w)
                | Described diff \<Rightarrow>
                    ask_then_run env r (ctxContext (Some c)) absPath diff ''write_file'' (next (Some c)) (Some c) w)))"

fun derive_target :: "string list \<Rightarrow> string" where
  "derive_target [] = ''apply_patch''"
| "derive_target (line # lines) =
     (if (has_prefix line ''+++ '' \<or> has_prefix line ''--- '') \<and> 2 \<le> length (Go_Prelude.fields line)
      then trim_space (Go_Prelude.fields line ! 1) else derive_target lines)"

definition derivePatchTarget :: "string \<Rightarrow> string" where
  "derivePatchTarget rawPatch = derive_target (split_on nl rawPatch)"

definition executeWithMissionPatch ::
  "('f, 'o) tool_env \<Rightarrow> ('f, 'o) Registry \<Rightarrow> ('f, 'o) Executor \<Rightarrow> ('f, 'o) ExecutionContext \<Rightarrow> ('f, 'o) world \<Rightarrow>
   'f outcome \<times> ('f, 'o) ExecutionContext option \<times> ('f, 'o) world" where
  "executeWithMissionPatch env r next c w =
     (case param_string (ec_Params c) ''patch'' of
        None \<Rightarrow> (refused ''patch parameter must be a non-empty string'', Some c, w)
      | Some rawPatch \<Rightarrow>
          if trim_space rawPatch = [] then (refused ''patch parameter must be a non-empty string'', Some c, w)
          else ask_then_run env r (ctxContext (Some c)) (derivePatchTarget rawPatch) rawPatch ''apply_patch''
                 (next (Some c)) (Some c) w)"

definition shown_param :: "('f, 'o) tool_env \<Rightarrow> 'f params \<Rightarrow> string \<Rightarrow> string" where
  "shown_param env params key = (case param params key of
     None \<Rightarrow> []
   | Some raw \<Rightarrow> let shown = trim_space (te_sprint env raw) in if shown = ''<nil>'' then [] else shown)"

definition clipboard_diff :: "string \<Rightarrow> string \<Rightarrow> string" where
  "clipboard_diff sessionID expectedState =
     ''clipboard read requested'' @ nl # ''session_id: '' @ sessionID @
       (if expectedState \<noteq> [] then nl # ''expected_state_version: '' @ expectedState else [])"

definition executeWithMissionClipboardRead ::
  "('f, 'o) tool_env \<Rightarrow> ('f, 'o) Registry \<Rightarrow> ('f, 'o) Executor \<Rightarrow> ('f, 'o) ExecutionContext \<Rightarrow> ('f, 'o) world \<Rightarrow>
   'f outcome \<times> ('f, 'o) ExecutionContext option \<times> ('f, 'o) world" where
  "executeWithMissionClipboardRead env r next c w =
     (let sessionID = shown_param env (ec_Params c) ''session_id'';
          expectedState = shown_param env (ec_Params c) ''expected_state_version'';
          diff = clipboard_diff sessionID expectedState
      in if sessionID = [] then (refused ''session_id parameter is required'', Some c, w)
         else ask_then_run env r (ctxContext (Some c)) (''browser/clipboard/'' @ sessionID) diff ''browser_clipboard_read''
                (next (Some c)) (Some c) w)"

definition executeWithMissionShell ::
  "('f, 'o) tool_env \<Rightarrow> ('f, 'o) Registry \<Rightarrow> ('f, 'o) Executor \<Rightarrow> ('f, 'o) ExecutionContext \<Rightarrow> ('f, 'o) world \<Rightarrow>
   'f outcome \<times> ('f, 'o) ExecutionContext option \<times> ('f, 'o) world" where
  "executeWithMissionShell env r next c w =
     (case param_string (ec_Params c) ''command'' of
        None \<Rightarrow> (refused ''command parameter is required'', Some c, w)
      | Some command \<Rightarrow>
          if trim_space command = [] then (refused ''command parameter is required'', Some c, w)
          else ask_then_run env r (ctxContext (Some c)) ''shell://run_shell''
                 (''shell command requested:'' @ nl # ''$ '' @ command) ''run_shell'' (next (Some c)) (Some c) w)"

definition gatedWriteTools :: "string list" where
  "gatedWriteTools = [''write_file'', ''edit_file'', ''insert_text'', ''delete_lines'', ''search_replace'',
     ''patch_file'', ''rename_symbol'', ''extract_function'']"

definition approvalMiddleware :: "('f, 'o) tool_env \<Rightarrow> ('f, 'o) Registry \<Rightarrow> ('f, 'o) Middleware" where
  "approvalMiddleware env r next ctx w =
     (case ctx of
        None \<Rightarrow> next ctx w
      | Some c \<Rightarrow>
          if \<not> shouldGateChanges r then next ctx w
          else
            let name = trim_space (ec_ToolName c)
            in if List.member gatedWriteTools name then executeWithMissionWrite env r next c w
               else if name = ''apply_patch'' then executeWithMissionPatch env r next c w
               else if name = ''browser_clipboard_read'' then executeWithMissionClipboardRead env r next c w
               else if name = ''run_shell'' then executeWithMissionShell env r next c w
               else next ctx w)"

section \<open>Telemetry\<close>

definition toolCallIDFromParams :: "('f, 'o) tool_env \<Rightarrow> 'f params \<Rightarrow> ('f, 'o) world \<Rightarrow> string \<times> ('f, 'o) world" where
  "toolCallIDFromParams env params w =
     (let given = (case param params ''__buckley_tool_call_id'' of
            None \<Rightarrow> []
          | Some (VString v) \<Rightarrow> trim_space v
          | Some v \<Rightarrow> trim_space (te_sprint env v))
      in if given \<noteq> [] then (given, w) else ulid_make env w)"

definition eventTypeForResult :: "'f Result option \<Rightarrow> go_error option \<Rightarrow> EventType" where
  "eventTypeForResult res err =
     (if err \<noteq> None \<or> (case res of Some r \<Rightarrow> \<not> rs_Success r | None \<Rightarrow> False) then ToolFailed else ToolCompleted)"

definition opt_entry :: "string \<Rightarrow> 'f any option \<Rightarrow> (string \<times> 'f any) list" where
  "opt_entry key v = (case v of None \<Rightarrow> [] | Some x \<Rightarrow> [(key, x)])"

text \<open>\<open>event[key]\<close>, which is nil when there is no such key.\<close>

definition entry_or_nil :: "(string \<times> 'f any) list \<Rightarrow> string \<Rightarrow> 'f any" where
  "entry_or_nil event key = (case map_of event key of Some v \<Rightarrow> v | None \<Rightarrow> VNil)"

definition flag_entry :: "(string \<times> 'f any) list \<Rightarrow> string \<Rightarrow> string \<Rightarrow> (string \<times> 'f any) list" where
  "flag_entry event key flag = (case entry_or_nil event key of VNil \<Rightarrow> [] | _ \<Rightarrow> [(flag, VBool True)])"

definition summarizeBrowserEvent :: "(string \<times> 'f any) list \<Rightarrow> (string \<times> 'f any) list" where
  "summarizeBrowserEvent event =
     [(''type'', entry_or_nil event ''type''), (''state_version'', entry_or_nil event ''state_version''),
      (''timestamp'', entry_or_nil event ''timestamp'')]
     @ flag_entry event ''frame'' ''has_frame''
     @ (case map_of event ''frame'' of
          Some (VMap frame) \<Rightarrow>
            opt_entry ''frame_width'' (map_of frame ''width'') @ opt_entry ''frame_height'' (map_of frame ''height'')
            @ opt_entry ''frame_format'' (map_of frame ''format'')
        | _ \<Rightarrow> [])
     @ flag_entry event ''dom_diff'' ''has_dom_diff''
     @ flag_entry event ''accessibility_diff'' ''has_accessibility_diff''
     @ flag_entry event ''hit_test'' ''has_hit_test''"

text \<open>The events are a slice of maps or of any values; what is not a map is skipped.\<close>

definition summarizeBrowserEvents :: "'f any \<Rightarrow> int \<Rightarrow> (string \<times> 'f any) list list" where
  "summarizeBrowserEvents raw limit = (case raw of
     VList items \<Rightarrow> take (nat (if limit \<le> 0 then 10 else limit))
       (map summarizeBrowserEvent (List.map_filter (\<lambda>item. case item of VMap event \<Rightarrow> Some event | _ \<Rightarrow> None) items))
   | _ \<Rightarrow> [])"

definition range_value :: "LineRange \<Rightarrow> 'f any" where
  "range_value r = VMap [(''start'', VInt (lr_Start r)), (''end'', VInt (lr_End r))]"

definition tool_payload ::
  "('f, 'o) tool_env \<Rightarrow> string \<Rightarrow> RichFields \<Rightarrow> go_time \<Rightarrow> 'f Result option \<Rightarrow> go_error option \<Rightarrow> int \<Rightarrow> 'f params \<Rightarrow>
   (string \<times> 'f any) list" where
  "tool_payload env toolName rich timestamp res err attempt metadata =
     [(''toolName'', VString toolName), (''operationType'', VString (rf_OperationType rich)),
      (''filePath'', VString (rf_FilePath rich)), (''ranges'', VList (map range_value (rf_Ranges rich))),
      (''command'', VString (rf_Command rich)), (''addedLines'', VInt (sint (rf_AddedLines rich))),
      (''removedLines'', VInt (sint (rf_RemovedLines rich))),
      (''expiresAt'', VInt (timestamp + TTLForOperation (rf_OperationType rich)))]
     @ (if rf_Description rich \<noteq> [] then [(''description'', VString (rf_Description rich))] else [])
     @ (if 0 < attempt then [(''attempt'', VInt attempt)] else [])
     @ (case res of
          None \<Rightarrow> []
        | Some s \<Rightarrow>
            (''success'', VBool (rs_Success s)) #
            (if trim_space toolName = ''browser_stream'' then
               (case param (rs_Data s) ''events'' of
                  None \<Rightarrow> []
                | Some raw \<Rightarrow>
                    let summary = summarizeBrowserEvents raw 25
                    in if summary \<noteq> [] then [(''browser_events'', VList (map VMap summary))] else [])
               @ opt_entry ''browser_event_count'' (param (rs_Data s) ''event_count'')
             else []))
     @ opt_entry ''error'' (map_option (\<lambda>e. VString (ge_text e)) err)
     @ (case param_string metadata ''panic_stack'' of
          Some s \<Rightarrow> if trim_space s \<noteq> [] then [(''panic_stack'', VString s)] else []
        | None \<Rightarrow> [])
     @ opt_entry ''panic_value'' (map_option (\<lambda>v. VString (te_sprint env v)) (param metadata ''panic_value''))"

definition publishToolEvent ::
  "('f, 'o) tool_env \<Rightarrow> ('f, 'o) Registry \<Rightarrow> EventType \<Rightarrow> string \<Rightarrow> string \<Rightarrow> RichFields \<Rightarrow> go_time \<Rightarrow> 'f Result option \<Rightarrow>
   go_error option \<Rightarrow> int \<Rightarrow> 'f params \<Rightarrow> ('f, 'o) world \<Rightarrow> ('f, 'o) world" where
  "publishToolEvent env r eventType callID toolName rich timestamp res err attempt metadata w =
     (if \<not> rg_telemetryHub r then w
      else emit (Published eventType (rg_telemetrySession r) callID timestamp (Some (tool_payload env toolName rich timestamp res err attempt metadata))) w)"

definition publishShellEvent :: "('f, 'o) Registry \<Rightarrow> string \<Rightarrow> (string \<times> 'f any) list \<Rightarrow> ('f, 'o) world \<Rightarrow> ('f, 'o) world" where
  "publishShellEvent r eventType data w =
     (if \<not> rg_telemetryHub r then w
      else emit (ShellPublished eventType (rg_telemetrySession r) (Some (AList.updates (map fst data) (map snd data) [(''tool'', VString ''run_shell'')]))) w)"

definition truncateForTelemetry :: "string \<Rightarrow> string" where
  "truncateForTelemetry value =
     (let s = trim_space value in if length s \<le> 512 then s else take 512 s @ ''...'')"

definition preview_entry :: "'f params \<Rightarrow> string \<Rightarrow> string \<Rightarrow> (string \<times> 'f any) list" where
  "preview_entry data key name = (case param_string data key of
     Some s \<Rightarrow> if s \<noteq> [] then [(name, VString (truncateForTelemetry s))] else []
   | None \<Rightarrow> [])"

definition shell_payload :: "string \<Rightarrow> bool \<Rightarrow> go_duration \<Rightarrow> 'f Result option \<Rightarrow> go_error option \<Rightarrow> (string \<times> 'f any) list" where
  "shell_payload command interactive duration res err =
     [(''command'', VString command), (''duration_ms'', VInt (duration div 1000000)), (''interactive'', VBool interactive)]
     @ (case res of
          None \<Rightarrow> []
        | Some s \<Rightarrow>
            opt_entry ''exit_code'' (param (rs_Data s) ''exit_code'')
            @ (case param_string (rs_DisplayData s) ''message'' of
                 Some note \<Rightarrow> if note \<noteq> [] then [(''note'', VString note)] else []
               | None \<Rightarrow> [])
            @ preview_entry (rs_Data s) ''stderr'' ''stderr_preview''
            @ preview_entry (rs_Data s) ''stdout'' ''stdout_preview''
            @ (if rs_Error s \<noteq> [] then [(''error'', VString (rs_Error s))] else []))
     @ opt_entry ''error'' (map_option (\<lambda>e. VString (ge_text e)) err)"

definition executeWithShellTelemetry :: "('f, 'o) Registry \<Rightarrow> ('f, 'o) Executor \<Rightarrow> ('f, 'o) ExecutionContext \<Rightarrow>
   ('f, 'o) world \<Rightarrow> 'f outcome \<times> ('f, 'o) ExecutionContext option \<times> ('f, 'o) world" where
  "executeWithShellTelemetry r next c w =
     (let command = (case param_string (ec_Params c) ''command'' of Some s \<Rightarrow> trim_space s | None \<Rightarrow> []);
          interactive = (case param (ec_Params c) ''interactive'' of Some (VBool b) \<Rightarrow> b | _ \<Rightarrow> False);
          w1 = publishShellEvent r ''shell.started'' [(''command'', VString command), (''interactive'', VBool interactive)] w
      in case next (Some c) w1 of
           (Panicked v, ctx2, w2) \<Rightarrow> (Panicked v, ctx2, w2)
         | (Returned res err, ctx2, w2) \<Rightarrow>
             let failed = (eventTypeForResult res err = ToolFailed)
             in (Returned res err, ctx2,
                 publishShellEvent r (if failed then ''shell.failed'' else ''shell.completed'')
                   (shell_payload command interactive (w_now w2 - w_now w1) res err) w2))"

text \<open>The defaults that the telemetry layer and the innermost executor both put into the context: parameters, call
  identifier, start time.\<close>

definition fill_context ::
  "('f, 'o) tool_env \<Rightarrow> ('f, 'o) ExecutionContext \<Rightarrow> ('f, 'o) world \<Rightarrow> ('f, 'o) ExecutionContext \<times> ('f, 'o) world" where
  "fill_context env c w =
     (let c1 = c\<lparr>ec_Params := Some (case ec_Params c of Some m \<Rightarrow> m | None \<Rightarrow> [])\<rparr>;
          (callID, w1) = (if trim_space (ec_CallID c1) = [] then toolCallIDFromParams env (ec_Params c1) w
                          else (ec_CallID c1, w))
      in (c1\<lparr>ec_CallID := callID, ec_StartTime := (if ec_StartTime c1 = 0 then w_now w1 else ec_StartTime c1)\<rparr>, w1))"

definition telemetryMiddleware :: "('f, 'o) tool_env \<Rightarrow> ('f, 'o) Registry \<Rightarrow> ('f, 'o) Middleware" where
  "telemetryMiddleware env r next ctx w =
     (case ctx of
        None \<Rightarrow> next ctx w
      | Some c \<Rightarrow>
          if \<not> rg_telemetryHub r then next ctx w
          else
            let name = trim_space (ec_ToolName c);
                (c2, w1) = fill_context env c w;
                rich = touched env name (ec_Params c2) w1;
                w2 = publishToolEvent env r ToolStarted (ec_CallID c2) name rich (ec_StartTime c2) None None (ec_Attempt c2)
                       (ec_Metadata c2) w1
            in case (if name = ''run_shell'' then executeWithShellTelemetry r next c2 w2 else next (Some c2) w2) of
                 (Returned res err, Some c3, w3) \<Rightarrow>
                   (Returned res err, Some c3,
                    publishToolEvent env r (eventTypeForResult res err) (ec_CallID c3) name rich (w_now w3) res err (ec_Attempt c3)
                      (ec_Metadata c3) w3)
               | out \<Rightarrow> out)"


section \<open>Running a tool\<close>

definition GetServiceForTool :: "string \<Rightarrow> string" where
  "GetServiceForTool toolName =
     (case map_of [(''go_test'', ''dev-go''), (''go_build'', ''dev-go''), (''go_run'', ''dev-go''), (''npm_test'', ''dev-node''),
        (''npm_run'', ''dev-node''), (''npm_build'', ''dev-node''), (''cargo_test'', ''dev-rust''), (''cargo_build'', ''dev-rust''),
        (''cargo_run'', ''dev-rust'')] toolName of
        Some service \<Rightarrow> service
      | None \<Rightarrow> ''dev-go'')"

text \<open>\<open>executeTool\<close>; the call of the tool itself leaves \<open>Ran\<close> or \<open>RanInContainer\<close> in the trace.  A tool that is
  not a \<open>ContextTool\<close> does not see the context.\<close>

definition executeTool ::
  "('f, 'o) tool_env \<Rightarrow> ('f, 'o) Registry \<Rightarrow> ('f, 'o) Tool \<Rightarrow> ('f, 'o) ExecutionContext \<Rightarrow> ('f, 'o) world \<Rightarrow>
   'f outcome \<times> ('f, 'o) world" where
  "executeTool env r t c w =
     (case (case ec_Context c of Some g \<Rightarrow> ctx_Err g w | None \<Rightarrow> None) of
        Some e \<Rightarrow> (Returned None (Some (context_error e)), w)
      | None \<Rightarrow>
          let name = trim_space (ec_ToolName c)
          in if rg_containerExecute r \<and> rg_containerCompose r \<noteq> [] then
               (case te_container env (rg_containerCompose r) (GetServiceForTool name) (rg_containerWorkDir r) (tl_Name t)
                       (ctx_done (ctxContext (Some c)) w) (ec_Params c) (w_now w) (w_outside w) of
                  (out, d, o') \<Rightarrow> (out, (advance d (emit (RanInContainer (tl_Name t) (ec_Params c)) w))\<lparr>w_outside := o'\<rparr>))
             else
               (case tl_run t (if tl_ContextTool t then ctx_done (ctxContext (Some c)) w else None) (ec_Params c)
                       (w_now w) (w_outside w) of
                  (out, d, o') \<Rightarrow> (out, (advance d (emit (Ran (tl_Name t) (ec_Params c)) w))\<lparr>w_outside := o'\<rparr>)))"

definition baseExecutor :: "('f, 'o) tool_env \<Rightarrow> ('f, 'o) Registry \<Rightarrow> ('f, 'o) Executor" where
  "baseExecutor env r ctx w =
     (case ctx of
        None \<Rightarrow> (Returned None (Some (errorf ''execution context required'')), ctx, w)
      | Some c \<Rightarrow>
          let name = trim_space (ec_ToolName c)
          in if name = [] then (Returned None (Some (errorf ''tool name cannot be empty'')), ctx, w)
             else
               (case (case ec_Tool c of Some t \<Rightarrow> Some t | None \<Rightarrow> Get name r) of
                  None \<Rightarrow> (Returned None (Some (errorf (''tool not found: '' @ name))), ctx, w)
                | Some t \<Rightarrow>
                    let (c2, w1) = fill_context env (c\<lparr>ec_Tool := Some t\<rparr>) w;
                        (out, w2) = executeTool env r t c2 w1
                    in (out, Some c2, w2)))"

definition rebuildExecutorLocked :: "('f, 'o) tool_env \<Rightarrow> ('f, 'o) Registry \<Rightarrow> ('f, 'o) Executor" where
  "rebuildExecutorLocked env r =
     Chain ([PanicRecovery env, telemetryMiddleware env r, Hooks (rg_hooks r), approvalMiddleware env r] @ rg_middlewares r)
       (baseExecutor env r)"

definition start_context ::
  "('f, 'o) Registry \<Rightarrow> go_context option \<Rightarrow> string \<Rightarrow> ('f, 'o) Tool \<Rightarrow> 'f params \<Rightarrow> string \<Rightarrow> go_time \<Rightarrow>
   ('f, 'o) ExecutionContext" where
  "start_context r ctx name t params callID now =
     \<lparr>ec_Context = Some (case ctx of None \<Rightarrow> Background | Some g \<Rightarrow> g), ec_ToolName = name,
      ec_Tool = Some t, ec_SessionID = rg_telemetrySession r, ec_CallID = callID, ec_Params = params,
      ec_StartTime = now, ec_Attempt = 1, ec_Metadata = Some []\<rparr>"

definition ExecuteWithContext ::
  "('f, 'o) tool_env \<Rightarrow> ('f, 'o) Registry \<Rightarrow> go_context option \<Rightarrow> string \<Rightarrow> 'f params \<Rightarrow> ('f, 'o) world \<Rightarrow>
   'f outcome \<times> ('f, 'o) world" where
  "ExecuteWithContext env r ctx name params w =
     (if name = [] then (Returned None (Some (errorf ''tool name cannot be empty'')), w)
      else
        (case Get name r of
           None \<Rightarrow> (Returned None (Some (errorf (''tool not found: '' @ name))), w)
         | Some t \<Rightarrow>
             let (callID, w1) = toolCallIDFromParams env params w;
                 (out, _, w2) = rebuildExecutorLocked env r (Some (start_context r ctx name t params callID (w_now w1))) w1
             in (out, w2)))"

section \<open>The default configuration\<close>

record 'f MiddlewareConfig =
  mc_ToastManager :: bool
  mc_ProgressManager :: bool
  mc_FileWatcher :: bool
  mc_DefaultTimeout :: go_duration
  mc_PerToolTimeouts :: "(string \<times> go_duration) list option"
  mc_RetryConfig :: "'f RetryConfig"
  mc_MaxResultBytes :: int
  mc_LongRunningTools :: "(string \<times> string) list option"
  mc_ValidationConfig :: "'f ValidationRule list"
  mc_OnValidationError :: bool

record ('f, 'o) RegistryConfig =
  gc_TelemetryHub :: bool
  gc_TelemetrySessionID :: string
  gc_HookRegistry :: "('f, 'o) HookRegistry option"
  gc_MissionStore :: bool
  gc_MissionSessionID :: string
  gc_MissionAgentID :: string
  gc_MissionTimeout :: go_duration
  gc_RequireMissionApproval :: bool
  gc_Middleware :: "'f MiddlewareConfig"

definition DefaultMiddlewareStack :: "('f, 'o) tool_env \<Rightarrow> 'f MiddlewareConfig \<Rightarrow> ('f, 'o) Middleware list" where
  "DefaultMiddlewareStack env cfg =
     [PanicRecovery env,
      ToastNotifications (mc_ToastManager cfg),
      Validation (mc_ValidationConfig cfg) (mc_OnValidationError cfg),
      ResultSizeLimit env (mc_MaxResultBytes cfg) (nl # ''...[truncated]''),
      Retry env (mc_RetryConfig cfg),
      Timeout (mc_DefaultTimeout cfg) (mc_PerToolTimeouts cfg),
      Progress env (mc_ProgressManager cfg)
        (Some (case mc_LongRunningTools cfg of None \<Rightarrow> DefaultLongRunningTools | Some m \<Rightarrow> m)),
      FileChangeTracking env (mc_FileWatcher cfg)]"

text \<open>\<open>DefaultRegistryConfig\<close>; the two constants that are not whole numbers are arguments.  The
  limit that it hands to the tools themselves, \<open>MaxOutputBytes\<close>, is theirs to respect and is left out.\<close>

definition DefaultRegistryConfig :: "'f \<Rightarrow> 'f \<Rightarrow> ('f, 'o) RegistryConfig" where
  "DefaultRegistryConfig two fifth =
     \<lparr>gc_TelemetryHub = False, gc_TelemetrySessionID = [], gc_HookRegistry = None, gc_MissionStore = False,
      gc_MissionSessionID = [], gc_MissionAgentID = [], gc_MissionTimeout = 0, gc_RequireMissionApproval = False,
      gc_Middleware = \<lparr>mc_ToastManager = False, mc_ProgressManager = False, mc_FileWatcher = False,
        mc_DefaultTimeout = 2 * minute, mc_PerToolTimeouts = None,
        mc_RetryConfig = \<lparr>rc_MaxAttempts = 2, rc_InitialDelay = second div 5, rc_MaxDelay = 2 * second,
          rc_Multiplier = two, rc_Jitter = fifth, rc_RetryableFunc = None\<rparr>,
        mc_MaxResultBytes = 100000, mc_LongRunningTools = Some DefaultLongRunningTools,
        mc_ValidationConfig = [], mc_OnValidationError = False\<rparr>\<rparr>"

definition ApplyRegistryConfig ::
  "('f, 'o) tool_env \<Rightarrow> ('f, 'o) RegistryConfig \<Rightarrow> ('f, 'o) Registry \<Rightarrow> ('f, 'o) Registry" where
  "ApplyRegistryConfig env cfg r =
     (let r1 = (case gc_HookRegistry cfg of None \<Rightarrow> r | Some h \<Rightarrow> r\<lparr>rg_hooks := Some h\<rparr>);
          r2 = (if gc_TelemetryHub cfg then EnableTelemetry True (gc_TelemetrySessionID cfg) r1 else r1);
          r3 = (if gc_MissionStore cfg then
                  let m = EnableMissionControl True (gc_MissionAgentID cfg) (gc_RequireMissionApproval cfg)
                            (gc_MissionTimeout cfg) r2
                  in if gc_MissionSessionID cfg \<noteq> [] then UpdateMissionSession (gc_MissionSessionID cfg) m else m
                else r2)
      in foldl (\<lambda>reg mw. Use mw reg) r3 (DefaultMiddlewareStack env (gc_Middleware cfg)))"

section \<open>The wait for a decision\<close>

lemma decision_loop_ends:
  assumes "ctx_done c w = Some (t, e)" "0 < poll"
  shows "\<exists>d t'. decision_loop env c changeID poll w = Some (d, w\<lparr>w_now := t'\<rparr>) \<and> w_now w \<le> t' \<and> t' \<le> max (w_now w) t \<and>
    (\<forall>change. d = Inr change \<longrightarrow>
       GetPendingChange env changeID (w\<lparr>w_now := t'\<rparr>) = Inr change \<and> pc_Status change \<noteq> ''pending'')"
  using assms(1)
proof (induction "nat (t - w_now w)" arbitrary: w rule: less_induct)
  case less
  note eq = decision_loop.simps[of env c changeID poll w]
  show ?case
  proof (cases "ctx_Err c w")
    case (Some e')
    then show ?thesis unfolding eq by (intro exI[of _ "Inl (context_error e')"] exI[of _ "w_now w"]) simp
  next
    case None
    show ?thesis
    proof (cases "GetPendingChange env changeID w")
      case (Inl err)
      with None show ?thesis unfolding eq by (intro exI[of _ "Inl err"] exI[of _ "w_now w"]) simp
    next
      case (Inr change)
      have late: "w_now w < t" using None less.prems by (simp add: ctx_Err_def split: if_splits)
      consider (decided) "pc_Status change \<noteq> ''pending''" | (over) "pc_Status change = ''pending''" "t \<le> w_now w + poll"
        | (tick) "pc_Status change = ''pending''" "w_now w + poll < t" by fastforce
      then show ?thesis
      proof cases
        case decided
        with None Inr show ?thesis unfolding eq by (intro exI[of _ "Inr change"] exI[of _ "w_now w"]) simp
      next
        case over
        with None Inr late less.prems show ?thesis unfolding eq
          by (intro exI[of _ "Inl (context_error e)"] exI[of _ t]) (simp add: advance_forward)
      next
        case tick
        let ?v = "w\<lparr>w_now := w_now w + poll\<rparr>"
        have "ctx_done c ?v = Some (t, e)" using less.prems by simp
        from less.hyps[OF _ this] tick assms(2) obtain d t' where
          "decision_loop env c changeID poll ?v = Some (d, w\<lparr>w_now := t'\<rparr>)" "w_now w + poll \<le> t'" "t' \<le> t"
          "\<forall>ch. d = Inr ch \<longrightarrow> GetPendingChange env changeID (w\<lparr>w_now := t'\<rparr>) = Inr ch \<and> pc_Status ch \<noteq> ''pending''"
          by fastforce
        then show ?thesis unfolding eq using None Inr tick assms(2) less.prems
          by (intro exI[of _ d] exI[of _ t']) (simp add: advance_forward)
      qed
    qed
  qed
qed

end
