(* ===== verification/Tool_Gate.thy ===== *)
theory Tool_Gate
  imports Tool_Registry
begin

text \<open>
  What the approval gate of the tool registry guarantees (src/pkg/tool/middleware_approval.go and
  registry_mission.go inside the chain of registry_execute.go): the wait for a decision ends, a gated tool
  runs only after the reviewer has approved what it is going to do, and where the gate is left open.
\<close>

section \<open>Waiting\<close>

lemma earliest_Cons_Some: "earliest (Some (t, e) # ps) \<noteq> None \<and> fst (the (earliest (Some (t, e) # ps))) \<le> t"
  by (simp split: option.splits prod.splits)

lemma WithTimeout_done:
  assumes "WithTimeout parent d w = (c, w1)"
  shows "w1 = w\<lparr>w_points := w_points w @ [Some (w_now w + d, DeadlineExceeded)]\<rparr> \<and>
    (\<exists>t e. ctx_done c w1 = Some (t, e) \<and> t \<le> w_now w + d)"
proof -
  have "w1 = w\<lparr>w_points := w_points w @ [Some (w_now w + d, DeadlineExceeded)]\<rparr>" "c = length (w_points w) # parent"
    using assms by (auto simp: WithTimeout_def)
  then show ?thesis
    using earliest_Cons_Some [of "w_now w + d" DeadlineExceeded] by (fastforce simp: ctx_done_def nth_append)
qed

lemma GetPendingChange_frame:
  "w_changes w' = w_changes w \<Longrightarrow> w_now w' = w_now w \<Longrightarrow> GetPendingChange env i w' = GetPendingChange env i w"
  by (simp add: GetPendingChange_def cong: option.case_cong)

lemma cancel_points: "\<exists>ps. cancel c w = w\<lparr>w_points := ps\<rparr>"
  by (auto simp: cancel_def split: list.splits option.splits) (metis world.surjective world.update_convs(2))+

lemma awaitDecision_frame:
  assumes "awaitDecision env r parent changeID w = (d, w')"
  shows "\<exists>t ps. w' = w\<lparr>w_now := t, w_points := ps\<rparr> \<and> w_now w \<le> t \<and>
    t \<le> w_now w + (if rg_missionTimeout r \<le> 0 then 10 * minute else rg_missionTimeout r) \<and>
    (\<forall>change. d = Inr change \<longrightarrow> GetPendingChange env changeID (w\<lparr>w_now := t\<rparr>) = Inr change)"
proof -
  define timeout where "timeout = (if rg_missionTimeout r \<le> 0 then 10 * minute else rg_missionTimeout r)"
  have pos: "0 < timeout" by (simp add: timeout_def)
  obtain c w1 where w1: "WithTimeout parent timeout w = (c, w1)" by fastforce
  then obtain t0 e where t0: "ctx_done c w1 = Some (t0, e)" "t0 \<le> w_now w + timeout"
    and w1': "w1 = w\<lparr>w_points := w_points w @ [Some (w_now w + timeout, DeadlineExceeded)]\<rparr>"
    using WithTimeout_done by blast
  obtain d' t where loop: "decision_loop env c changeID 750000000 w1 = Some (d', w1\<lparr>w_now := t\<rparr>)" "w_now w \<le> t"
    "t \<le> max (w_now w) t0" "\<forall>change. d' = Inr change \<longrightarrow> GetPendingChange env changeID (w1\<lparr>w_now := t\<rparr>) = Inr change"
    using decision_loop_ends [OF t0(1), of 750000000 env changeID] w1' by auto
  then have "d = d'" "w' = cancel c (w1\<lparr>w_now := t\<rparr>)"
    using assms w1 by (simp_all add: awaitDecision_def WaitForDecision_def timeout_def [symmetric])
  then obtain ps where "w' = w\<lparr>w_now := t, w_points := ps\<rparr>"
    using cancel_points [of c "w1\<lparr>w_now := t\<rparr>"] w1' by auto
  moreover have "GetPendingChange env changeID (w1\<lparr>w_now := t\<rparr>) = GetPendingChange env changeID (w\<lparr>w_now := t\<rparr>)"
    by (rule GetPendingChange_frame) (simp_all add: w1')
  moreover have "t \<le> w_now w + timeout" using loop(3) t0(2) pos by linarith
  ultimately show ?thesis using loop \<open>d = d'\<close> unfolding timeout_def [symmetric] by auto
qed

section \<open>Asking\<close>

text \<open>
  What the reviewer of a change has agreed to: the row names the file, the description and the session, is
  not one of the rows there were before, and the reviewer set its status to \<open>approved\<close> while the call
  waited.
\<close>

definition granted :: "('f, 'o) tool_env \<Rightarrow> ('f, 'o) Registry \<Rightarrow> string \<times> string \<Rightarrow> ('f, 'o) world \<Rightarrow> PendingChange \<Rightarrow> bool" where
  "granted env r request w change =
     (request = (pc_FilePath change, pc_Diff change) \<and> pc_SessionID change = rg_missionSession r \<and>
      pc_ID change \<notin> pc_ID ` set (w_changes w) \<and>
      (\<exists>t by. w_now w \<le> t \<and> t \<le> w_now w + (if rg_missionTimeout r \<le> 0 then 10 * minute else rg_missionTimeout r) \<and>
         te_review env t (pc_ID change) = Some (''approved'', by)))"

lemma recorded_frame:
  assumes "recordPendingChange env r filePath diff toolName w = (x, w')"
  shows "w_trace w' = w_trace w \<and> w_outside w' = w_outside w \<and> w_now w' = w_now w \<and>
    (\<forall>i. x = Inr i \<longrightarrow> (\<exists>change. w_changes w' = w_changes w @ [change] \<and> pc_ID change = i \<and>
       i \<notin> pc_ID ` set (w_changes w) \<and> pc_FilePath change = filePath \<and> pc_Diff change = diff \<and>
       pc_SessionID change = rg_missionSession r \<and> pc_Status change = ''pending''))"
  using assms
  by (auto simp: recordPendingChange_def CreatePendingChange_def ulid_make_def list_ex_iff Let_def eq_commute [of "te_ulid env k" for k]
      split: if_splits option.splits)

lemma find_new: "pc_ID x \<notin> pc_ID ` set xs \<Longrightarrow> find (\<lambda>ch. pc_ID ch = pc_ID x) (xs @ [x]) = Some x"
  by (induction xs) auto

lemma ask_then_run_cases:
  assumes "ask_then_run env r c filePath diff toolName run ctx w = (out, ctx', w')"
  obtains (refused) msg where "out = refused msg" "ctx' = ctx" "w_trace w' = w_trace w"
  | (granted) change w2 where "granted env r (filePath, diff) w change" "w_changes w2 = w_changes w @ [change]"
      "w_trace w2 = w_trace w" "w_outside w2 = w_outside w" "run w2 = (out, ctx', w')"
proof -
  obtain x w1 where rec: "recordPendingChange env r filePath diff toolName w = (x, w1)" by fastforce
  show thesis
  proof (cases x)
    case (Inl err)
    then have "out = refused (''failed to create pending change: '' @ err)" "ctx' = ctx" "w' = w1"
      using assms rec by (simp_all add: ask_then_run_def)
    then show thesis using recorded_frame [OF rec] refused by blast
  next
    case (Inr changeID)
    obtain d w2 where await: "awaitDecision env r c changeID w1 = (d, w2)" by fastforce
    from awaitDecision_frame [OF await] obtain t ps where w2: "w2 = w1\<lparr>w_now := t, w_points := ps\<rparr>" "w_now w1 \<le> t"
      "t \<le> w_now w1 + (if rg_missionTimeout r \<le> 0 then 10 * minute else rg_missionTimeout r)"
      and found: "\<And>change. d = Inr change \<Longrightarrow> GetPendingChange env changeID (w1\<lparr>w_now := t\<rparr>) = Inr change" by blast
    from recorded_frame [OF rec] Inr obtain row where row: "w_changes w1 = w_changes w @ [row]" "pc_ID row = changeID"
      "pc_ID row \<notin> pc_ID ` set (w_changes w)" "pc_FilePath row = filePath" "pc_Diff row = diff"
      "pc_SessionID row = rg_missionSession r" "pc_Status row = ''pending''" by auto
    show thesis
    proof (cases "\<exists>change. d = Inr change \<and> pc_Status change = ''approved''")
      case True
      then obtain change where change: "d = Inr change" "pc_Status change = ''approved''" by blast
      have "change = reviewed env t row"
        using found [OF change(1)] row find_new [of row "w_changes w"]
        by (auto simp: GetPendingChange_def split: option.splits)
      then have "granted env r (filePath, diff) w row"
        using row change(2) w2(2,3) recorded_frame [OF rec]
        by (auto simp: granted_def reviewed_def split: option.splits if_splits)
      moreover have "run w2 = (out, ctx', w')"
        using assms rec Inr await change by (simp add: ask_then_run_def)
      moreover have "w_changes w2 = w_changes w @ [row]" "w_trace w2 = w_trace w" "w_outside w2 = w_outside w"
        using w2(1) row(1) recorded_frame [OF rec] by simp_all
      ultimately show thesis using granted by blast
    next
      case False
      then have "\<exists>msg. out = refused msg" "ctx' = ctx" "w' = w2"
        using assms rec Inr await by (auto simp: ask_then_run_def split: sum.splits if_splits)
      then show thesis using w2(1) recorded_frame [OF rec] refused by auto
    qed
  qed
qed

section \<open>The gate\<close>

definition gated_tool :: "string \<Rightarrow> bool" where
  "gated_tool name = (List.member gatedWriteTools name \<or> name = ''apply_patch'' \<or> name = ''browser_clipboard_read'' \<or>
     name = ''run_shell'')"

text \<open>The file and the description that a call asks approval for, and the calls that ask for none because the
  parameter \<open>content\<close> is what the file has.\<close>

definition write_text :: "('f, 'o) tool_env \<Rightarrow> 'f params \<Rightarrow> 'o \<Rightarrow> (string \<times> change_text) option" where
  "write_text env params files =
     (case param_string params ''path'' of
        None \<Rightarrow> None
      | Some path \<Rightarrow> map_option (\<lambda>p. (p, describe_write env p params files)) (abs_path (te_cwd env) path))"

definition unchanged_write :: "('f, 'o) tool_env \<Rightarrow> string \<Rightarrow> 'f params \<Rightarrow> 'o \<Rightarrow> bool" where
  "unchanged_write env name params files =
     (List.member gatedWriteTools name \<and>
      (case write_text env params files of Some (_, Unchanged) \<Rightarrow> True | _ \<Rightarrow> False))"

definition change_request :: "('f, 'o) tool_env \<Rightarrow> string \<Rightarrow> 'f params \<Rightarrow> 'o \<Rightarrow> (string \<times> string) option" where
  "change_request env name params files =
     (if List.member gatedWriteTools name then
        (case write_text env params files of Some (p, Described diff) \<Rightarrow> Some (p, diff) | _ \<Rightarrow> None)
      else if name = ''apply_patch'' then
        map_option (\<lambda>patch. (derivePatchTarget patch, patch)) (param_string params ''patch'')
      else if name = ''browser_clipboard_read'' then
        Some (''browser/clipboard/'' @ shown_param env params ''session_id'',
          clipboard_diff (shown_param env params ''session_id'') (shown_param env params ''expected_state_version''))
      else
        map_option (\<lambda>command. (''shell://run_shell'', ''shell command requested:'' @ nl # ''$ '' @ command))
          (param_string params ''command''))"

lemma gated_write_names:
  "List.member gatedWriteTools name \<Longrightarrow> name \<noteq> ''apply_patch'' \<and> name \<noteq> ''browser_clipboard_read'' \<and> name \<noteq> ''run_shell''"
  by (auto simp: gatedWriteTools_def)

text \<open>The two ways in which a question to the reviewer ends.\<close>

definition turned_away ::
  "('f, 'o) ExecutionContext \<Rightarrow> ('f, 'o) world \<Rightarrow> 'f outcome \<times> ('f, 'o) ExecutionContext option \<times> ('f, 'o) world \<Rightarrow> bool" where
  "turned_away c w res = (\<exists>msg w'. res = (refused msg, Some c, w') \<and> w_trace w' = w_trace w)"

definition let_through ::
  "('f, 'o) tool_env \<Rightarrow> ('f, 'o) Registry \<Rightarrow> (string \<times> string) option \<Rightarrow> ('f, 'o) Executor \<Rightarrow> ('f, 'o) ExecutionContext \<Rightarrow>
   ('f, 'o) world \<Rightarrow> 'f outcome \<times> ('f, 'o) ExecutionContext option \<times> ('f, 'o) world \<Rightarrow> bool" where
  "let_through env r request next c w res =
     (\<exists>req change w'. request = Some req \<and> granted env r req w change \<and> w_changes w' = w_changes w @ [change] \<and>
        w_trace w' = w_trace w \<and> w_outside w' = w_outside w \<and> res = next (Some c) w')"

lemma turned_away_now [simp]: "turned_away c w (refused msg, Some c, w)"
  by (auto simp: turned_away_def)

lemma ask_answer:
  "turned_away c w (ask_then_run env r g filePath diff toolName (next (Some c)) (Some c) w) \<or>
   let_through env r (Some (filePath, diff)) next c w (ask_then_run env r g filePath diff toolName (next (Some c)) (Some c) w)"
proof -
  obtain out ctx' w' where eq: "ask_then_run env r g filePath diff toolName (next (Some c)) (Some c) w = (out, ctx', w')"
    using prod_cases3 by blast
  then show ?thesis
  proof (rule ask_then_run_cases)
    fix change w2
    assume "granted env r (filePath, diff) w change" "w_changes w2 = w_changes w @ [change]" "w_trace w2 = w_trace w"
      "w_outside w2 = w_outside w" "next (Some c) w2 = (out, ctx', w')"
    then have "let_through env r (Some (filePath, diff)) next c w (out, ctx', w')"
      unfolding let_through_def by (metis (no_types))
    then show ?thesis by (simp add: eq)
  qed (auto simp: eq turned_away_def)
qed

lemma write_answer:
  assumes res_def: "res = executeWithMissionWrite env r next c w" and "List.member gatedWriteTools name"
  shows "turned_away c w res \<or> let_through env r (change_request env name (ec_Params c) (w_outside w)) next c w res \<or>
    (unchanged_write env name (ec_Params c) (w_outside w) \<and> res = next (Some c) w)"
proof (cases "param_string (ec_Params c) ''path''")
  case (Some path)
  show ?thesis
  proof (cases "trim_space path = [] \<or> abs_path (te_cwd env) path = None")
    case False
    then obtain p where p: "abs_path (te_cwd env) path = Some p" by blast
    have wt: "write_text env (ec_Params c) (w_outside w) = Some (p, describe_write env p (ec_Params c) (w_outside w))"
      using Some p by (simp add: write_text_def)
    show ?thesis
      using ask_answer [of c w env r _ p _ _ "next"] False Some p wt assms(2)
      by (cases "describe_write env p (ec_Params c) (w_outside w)")
        (simp_all add: res_def executeWithMissionWrite_def change_request_def unchanged_write_def)
  qed (auto simp: Some res_def executeWithMissionWrite_def)
qed (simp add: res_def executeWithMissionWrite_def)

lemma patch_answer:
  assumes res_def: "res = executeWithMissionPatch env r next c w"
  shows "turned_away c w res \<or> let_through env r (change_request env ''apply_patch'' (ec_Params c) (w_outside w)) next c w res"
  using ask_answer [of c w env r _ _ _ _ "next"] gated_write_names [of "''apply_patch''"]
  by (auto simp: res_def executeWithMissionPatch_def change_request_def split: option.split)

lemma clipboard_answer:
  assumes res_def: "res = executeWithMissionClipboardRead env r next c w"
  shows "turned_away c w res \<or>
    let_through env r (change_request env ''browser_clipboard_read'' (ec_Params c) (w_outside w)) next c w res"
  using ask_answer [of c w env r _ _ _ _ "next"] gated_write_names [of "''browser_clipboard_read''"]
  by (auto simp: res_def executeWithMissionClipboardRead_def change_request_def Let_def)

lemma shell_answer:
  assumes res_def: "res = executeWithMissionShell env r next c w"
  shows "turned_away c w res \<or> let_through env r (change_request env ''run_shell'' (ec_Params c) (w_outside w)) next c w res"
  using ask_answer [of c w env r _ _ _ _ "next"] gated_write_names [of "''run_shell''"]
  by (auto simp: res_def executeWithMissionShell_def change_request_def split: option.split)

lemma gate_answer:
  assumes res_def: "res = approvalMiddleware env r next (Some c) w" and name_def: "name = trim_space (ec_ToolName c)"
    and "shouldGateChanges r" "gated_tool name"
  shows "turned_away c w res \<or> let_through env r (change_request env name (ec_Params c) (w_outside w)) next c w res \<or>
    (unchanged_write env name (ec_Params c) (w_outside w) \<and> res = next (Some c) w)"
proof -
  consider (writes) "List.member gatedWriteTools name" | (patch) "name = ''apply_patch''"
    | (clipboard) "name = ''browser_clipboard_read''" | (shell) "name = ''run_shell''"
    using assms(4) by (auto simp: gated_tool_def)
  then show ?thesis
  proof cases
    case writes
    then have "res = executeWithMissionWrite env r next c w"
      using assms(3) by (simp add: res_def name_def approvalMiddleware_def)
    then show ?thesis using write_answer [OF _ writes] by metis
  next
    case patch
    then have "res = executeWithMissionPatch env r next c w"
      using assms(3) gated_write_names [of name] by (auto simp: res_def name_def approvalMiddleware_def Let_def)
    then show ?thesis using patch_answer patch by metis
  next
    case clipboard
    then have "res = executeWithMissionClipboardRead env r next c w"
      using assms(3) gated_write_names [of name] by (auto simp: res_def name_def approvalMiddleware_def Let_def)
    then show ?thesis using clipboard_answer clipboard by metis
  next
    case shell
    then have "res = executeWithMissionShell env r next c w"
      using assms(3) gated_write_names [of name] by (auto simp: res_def name_def approvalMiddleware_def Let_def)
    then show ?thesis using shell_answer shell by metis
  qed
qed

section \<open>The gate inside the chain\<close>

definition is_run :: "'f effect \<Rightarrow> bool" where
  "is_run e = (case e of Ran _ _ \<Rightarrow> True | RanInContainer _ _ \<Rightarrow> True | RanInSandbox _ \<Rightarrow> True | _ \<Rightarrow> False)"

definition runs :: "('f, 'o) world \<Rightarrow> 'f effect list" where
  "runs w = filter is_run (w_trace w)"

lemma runs_emit: "runs (emit e w) = (if is_run e then runs w @ [e] else runs w)"
  by (simp add: runs_def emit_def)

lemma publish_runs [simp]:
  "runs (publishToolEvent env r t i n rich at res err a m w) = runs w" "runs (publishShellEvent r s d w) = runs w"
  by (simp_all add: publishToolEvent_def publishShellEvent_def runs_emit is_run_def)

lemma publish_frame [simp]:
  "w_outside (publishToolEvent env r t i n rich at res err a m w) = w_outside w"
  "w_changes (publishToolEvent env r t i n rich at res err a m w) = w_changes w"
  "w_now (publishToolEvent env r t i n rich at res err a m w) = w_now w"
  "w_outside (publishShellEvent r s d w) = w_outside w" "w_changes (publishShellEvent r s d w) = w_changes w"
  "w_now (publishShellEvent r s d w) = w_now w"
  by (simp_all add: publishToolEvent_def publishShellEvent_def emit_def)

lemma call_id_frame:
  "toolCallIDFromParams env ps w = (i, w1) \<Longrightarrow> runs w1 = runs w \<and> w_outside w1 = w_outside w \<and> w_changes w1 = w_changes w \<and>
     w_now w1 = w_now w \<and> w_trace w1 = w_trace w \<and> w_points w1 = w_points w"
  by (auto simp: toolCallIDFromParams_def ulid_make_def Let_def runs_def split: if_splits)

text \<open>An executor that drops and rewrites no row of the approval store, and a middleware that makes such an executor of
  such an executor.\<close>

definition keeps_rows :: "('f, 'o) Executor \<Rightarrow> bool" where
  "keeps_rows E = (\<forall>ctx w. prefix (w_changes w) (w_changes (snd (snd (E ctx w)))))"

definition passes_rows :: "('f, 'o) Middleware \<Rightarrow> bool" where
  "passes_rows m = (\<forall>E. keeps_rows E \<longrightarrow> keeps_rows (m E))"

lemma keeps_rowsI: "(\<And>ctx w out ctx' w'. E ctx w = (out, ctx', w') \<Longrightarrow> prefix (w_changes w) (w_changes w')) \<Longrightarrow> keeps_rows E"
  unfolding keeps_rows_def by (metis prod.collapse)

lemma keeps_rowsD: "keeps_rows E \<Longrightarrow> E ctx w = (out, ctx', w') \<Longrightarrow> prefix (w_changes w) (w_changes w')"
  unfolding keeps_rows_def by (metis snd_conv)

lemma Chain_Cons [simp]: "Chain (m # ms) final = m (Chain ms final)" "Chain [] final = final"
  by (simp_all add: Chain_def)

definition entries :: "'f params \<Rightarrow> (string \<times> 'f any) list" where
  "entries ps = (case ps of Some m \<Rightarrow> m | None \<Rightarrow> [])"

lemma param_entries: "param ps key = map_of (entries ps) key"
  by (simp add: param_def entries_def split: option.split)

lemma request_entries:
  assumes "entries ps = entries ps'"
  shows "change_request env name ps files = change_request env name ps' files"
    "unchanged_write env name ps files = unchanged_write env name ps' files"
proof -
  have s: "param_string ps = param_string ps'" "param ps = param ps'"
    by (simp_all add: fun_eq_iff param_string_def param_entries assms)
  have i: "int_param env ps = int_param env ps'" "shown_param env ps = shown_param env ps'"
    by (simp_all add: fun_eq_iff int_param_def shown_param_def s)
  have "describe_write env p ps files = describe_write env p ps' files" for p
    unfolding describe_write_def s i entries_def [symmetric] assms ..
  then have "write_text env ps files = write_text env ps' files" by (simp add: write_text_def s split: option.split)
  then show "change_request env name ps files = change_request env name ps' files"
      "unchanged_write env name ps files = unchanged_write env name ps' files"
    by (simp_all add: change_request_def unchanged_write_def s i)
qed

text \<open>The first row that the call added to the store is the approved one and describes this call.\<close>

definition cleared ::
  "('f, 'o) tool_env \<Rightarrow> ('f, 'o) Registry \<Rightarrow> ('f, 'o) world \<Rightarrow> string \<Rightarrow> 'f params \<Rightarrow> ('f, 'o) world \<Rightarrow> bool" where
  "cleared env r w name params w' =
     (unchanged_write env name params (w_outside w) \<or>
      (\<exists>request change. change_request env name params (w_outside w) = Some request \<and> granted env r request w change \<and>
         prefix (w_changes w @ [change]) (w_changes w')))"

lemma cleared_later: "cleared env r w name params w1 \<Longrightarrow> prefix (w_changes w1) (w_changes w') \<Longrightarrow> cleared env r w name params w'"
  unfolding cleared_def by (meson prefix_order.trans)

text \<open>An executor that, called with the given tool and parameters in a world as it was, runs nothing unless the
  call is cleared.\<close>

definition runs_when_cleared ::
  "('f, 'o) tool_env \<Rightarrow> ('f, 'o) Registry \<Rightarrow> ('f, 'o) world \<Rightarrow> string \<Rightarrow> 'f params \<Rightarrow> ('f, 'o) Executor \<Rightarrow> bool" where
  "runs_when_cleared env r w0 name params E =
     (\<forall>c w out ctx' w'. trim_space (ec_ToolName c) = name \<and> entries (ec_Params c) = entries params \<and>
        w_outside w = w_outside w0 \<and> w_changes w = w_changes w0 \<and> w_now w = w_now w0 \<and>
        E (Some c) w = (out, ctx', w') \<and> runs w' \<noteq> runs w \<longrightarrow> cleared env r w0 name params w')"

lemma granted_world: "w_changes w = w_changes w0 \<Longrightarrow> w_now w = w_now w0 \<Longrightarrow> granted env r q w = granted env r q w0"
  by (simp add: fun_eq_iff granted_def)

lemma approval_cleared:
  assumes "shouldGateChanges r" "gated_tool name" and rows: "keeps_rows next"
  shows "runs_when_cleared env r w0 name params (approvalMiddleware env r next)"
  unfolding runs_when_cleared_def
proof (intro allI impI, elim conjE)
  fix c w out ctx' w'
  assume name: "trim_space (ec_ToolName c) = name" and ps: "entries (ec_Params c) = entries params"
    and same: "w_outside w = w_outside w0" "w_changes w = w_changes w0" "w_now w = w_now w0"
    and run: "approvalMiddleware env r next (Some c) w = (out, ctx', w')" and new: "runs w' \<noteq> runs w"
  from gate_answer [OF run [symmetric] name [symmetric] assms(1,2)] new
  have "unchanged_write env name (ec_Params c) (w_outside w) \<or>
      (\<exists>q change w2. change_request env name (ec_Params c) (w_outside w) = Some q \<and> granted env r q w change \<and>
         w_changes w2 = w_changes w @ [change] \<and> next (Some c) w2 = (out, ctx', w'))"
    by (auto simp: turned_away_def let_through_def runs_def) metis
  then have "unchanged_write env name (ec_Params c) (w_outside w) \<or>
      (\<exists>q change. change_request env name (ec_Params c) (w_outside w) = Some q \<and> granted env r q w change \<and>
         prefix (w_changes w @ [change]) (w_changes w'))"
    using keeps_rowsD [OF rows] by metis
  then show "cleared env r w0 name params w'"
    by (auto simp: cleared_def request_entries [OF ps] same granted_world [OF same(2,3)])
qed

definition quiet_hooks :: "string \<Rightarrow> ('f, 'o) HookRegistry option \<Rightarrow> bool" where
  "quiet_hooks name hooks = (case hooks of
     None \<Rightarrow> True
   | Some h \<Rightarrow> PreHooks name h = [] \<and>
       (\<forall>hs \<in> snd ` set (hk_postHooks h). \<forall>q \<in> set hs. \<forall>c res err w.
          runs (snd (snd (qh_run q c res err w))) = runs w \<and> prefix (w_changes w) (w_changes (snd (snd (qh_run q c res err w))))))"

lemma hooks_at_sub: "set (hooks_at m name) \<subseteq> \<Union> (set ` snd ` set m)"
  by (auto simp: hooks_at_def dest: map_of_SomeD split: option.splits) (metis map_of_SomeD snd_conv)

lemma run_post_hooks_quiet:
  assumes "\<forall>q \<in> set hs. \<forall>c res err w.
    runs (snd (snd (qh_run q c res err w))) = runs w \<and> prefix (w_changes w) (w_changes (snd (snd (qh_run q c res err w))))"
  shows "runs (snd (snd (run_post_hooks hs res err c w))) = runs w \<and>
    prefix (w_changes w) (w_changes (snd (snd (run_post_hooks hs res err c w))))"
  using assms
proof (induction hs arbitrary: res err c w)
  case (Cons q hs)
  obtain o1 c1 w1 where q: "qh_run q c res err w = (o1, c1, w1)" using prod_cases3 by blast
  then have w1: "runs w1 = runs w" "prefix (w_changes w) (w_changes w1)" using Cons.prems by (metis list.set_intros(1) snd_conv)+
  show ?case
  proof (cases o1)
    case (Returned res1 err1)
    have "runs (snd (snd (run_post_hooks hs res1 err1 c1 w1))) = runs w1 \<and>
        prefix (w_changes w1) (w_changes (snd (snd (run_post_hooks hs res1 err1 c1 w1))))"
      using Cons by simp
    then show ?thesis using q Returned w1 by (auto intro: prefix_order.trans)
  qed (simp add: q w1)
qed simp

lemma Hooks_cleared:
  assumes "runs_when_cleared env r w0 (trim_space name) params E" "quiet_hooks name hooks"
  shows "runs_when_cleared env r w0 (trim_space name) params (Hooks hooks E)"
proof (cases hooks)
  case None
  then show ?thesis using assms(1) by (simp add: runs_when_cleared_def Hooks_def)
next
  case (Some h)
  show ?thesis unfolding runs_when_cleared_def
  proof (intro allI impI, elim conjE)
    fix c w out ctx' w'
    assume c: "trim_space (ec_ToolName c) = trim_space name" "entries (ec_Params c) = entries params"
      and same: "w_outside w = w_outside w0" "w_changes w = w_changes w0" "w_now w = w_now w0"
      and run: "Hooks hooks E (Some c) w = (out, ctx', w')" and new: "runs w' \<noteq> runs w"
    have post: "runs (snd (snd (run_post_hooks (rev (PostHooks n h)) res err c2 w2))) = runs w2 \<and>
        prefix (w_changes w2) (w_changes (snd (snd (run_post_hooks (rev (PostHooks n h)) res err c2 w2))))" for n res err c2 w2
      using assms(2) Some hooks_at_sub [of "hk_postHooks h"]
      by (intro run_post_hooks_quiet) (fastforce simp: quiet_hooks_def PostHooks_def Let_def split: if_splits)
    have "PreHooks (ec_ToolName c) h = []" using assms(2) Some c(1) by (simp add: quiet_hooks_def PreHooks_def)
    moreover obtain o1 ctx1 w1 where E: "E (Some c) w = (o1, ctx1, w1)" using prod_cases3 by blast
    ultimately have w1: "runs w' = runs w1 \<and> prefix (w_changes w1) (w_changes w')"
      using run Some post by (auto simp: Hooks_def split: outcome.splits option.splits prod.splits) (metis snd_conv)+
    then have "cleared env r w0 (trim_space name) params w1"
      using assms(1) c same E new unfolding runs_when_cleared_def by metis
    then show "cleared env r w0 (trim_space name) params w'" using w1 cleared_later by blast
  qed
qed

lemma fill_context_frame:
  assumes "fill_context env c w = (c2, w1)"
  shows "runs w1 = runs w" "w_outside w1 = w_outside w" "w_changes w1 = w_changes w" "w_now w1 = w_now w"
    "w_trace w1 = w_trace w" "w_points w1 = w_points w"
    "ec_ToolName c2 = ec_ToolName c" "ec_Context c2 = ec_Context c" "ec_Tool c2 = ec_Tool c"
    "ec_Params c2 = Some (entries (ec_Params c))" "entries (ec_Params c2) = entries (ec_Params c)"
  using assms call_id_frame
  by (fastforce simp: fill_context_def entries_def Let_def split: if_splits prod.splits)+

lemma shell_telemetry_cleared:
  assumes "runs_when_cleared env r w0 name params E"
  shows "runs_when_cleared env r w0 name params (\<lambda>ctx w. executeWithShellTelemetry r' E (the ctx) w)"
  unfolding runs_when_cleared_def
proof (intro allI impI, elim conjE)
  fix c w out ctx' w'
  let ?v = "\<lambda>d. publishShellEvent r' ''shell.started'' d w"
  assume c: "trim_space (ec_ToolName c) = name" "entries (ec_Params c) = entries params"
    and same: "w_outside w = w_outside w0" "w_changes w = w_changes w0" "w_now w = w_now w0"
    and run: "executeWithShellTelemetry r' E (the (Some c)) w = (out, ctx', w')" and new: "runs w' \<noteq> runs w"
  from run obtain d out1 ctx1 w1 where "E (Some c) (?v d) = (out1, ctx1, w1)" "runs w' = runs w1"
    "w_changes w' = w_changes w1"
    unfolding executeWithShellTelemetry_def
    by (auto simp: Let_def split: outcome.splits prod.splits)
  then show "cleared env r w0 name params w'"
    using assms c same new unfolding runs_when_cleared_def by (metis cleared_later prefix_order.refl publish_frame(4-6) publish_runs(2))
qed

lemma telemetry_cleared:
  assumes "runs_when_cleared env r w0 name params E"
  shows "runs_when_cleared env r w0 name params (telemetryMiddleware env r' E)"
  unfolding runs_when_cleared_def
proof (intro allI impI, elim conjE)
  fix c w out ctx' w'
  assume c: "trim_space (ec_ToolName c) = name" "entries (ec_Params c) = entries params"
    and same: "w_outside w = w_outside w0" "w_changes w = w_changes w0" "w_now w = w_now w0"
    and run: "telemetryMiddleware env r' E (Some c) w = (out, ctx', w')" and new: "runs w' \<noteq> runs w"
  show "cleared env r w0 name params w'"
  proof (cases "rg_telemetryHub r'")
    case False
    then show ?thesis
      using run assms c same new unfolding runs_when_cleared_def telemetryMiddleware_def by simp
  next
    case True
    obtain c2 w1 where fill: "fill_context env c w = (c2, w1)" by fastforce
    note f = fill_context_frame [OF fill]
    define w2 where "w2 = publishToolEvent env r' ToolStarted (ec_CallID c2) name (touched env name (ec_Params c2) w1)
      (ec_StartTime c2) None None (ec_Attempt c2) (ec_Metadata c2) w1"
    define X where "X = (if name = ''run_shell'' then executeWithShellTelemetry r' E c2 w2 else E (Some c2) w2)"
    obtain out3 ctx3 w3 where X: "X = (out3, ctx3, w3)" using prod_cases3 by blast
    have w3: "runs w' = runs w3" "w_changes w' = w_changes w3"
      using run True X c(1)
      by (auto simp: telemetryMiddleware_def fill w2_def [symmetric] X_def [symmetric] split: outcome.splits option.splits)
    then have "runs w3 \<noteq> runs w2" using new f by (simp add: w2_def)
    moreover have "w_outside w2 = w_outside w0" "w_changes w2 = w_changes w0" "w_now w2 = w_now w0"
      using f same by (simp_all add: w2_def)
    moreover have "trim_space (ec_ToolName c2) = name" "entries (ec_Params c2) = entries params" using f c by simp_all
    ultimately have "cleared env r w0 name params w3"
      using X assms shell_telemetry_cleared [OF assms, of r'] unfolding runs_when_cleared_def X_def
      by (metis option.sel)
    then show ?thesis using w3(2) by (simp add: cleared_def)
  qed
qed

lemma PanicRecovery_cleared:
  assumes "runs_when_cleared env r w0 name params E"
  shows "runs_when_cleared env r w0 name params (PanicRecovery env' E)"
  unfolding runs_when_cleared_def
proof (intro allI impI, elim conjE)
  fix c w out ctx' w'
  assume c: "trim_space (ec_ToolName c) = name" "entries (ec_Params c) = entries params"
    and same: "w_outside w = w_outside w0" "w_changes w = w_changes w0" "w_now w = w_now w0"
    and run: "PanicRecovery env' E (Some c) w = (out, ctx', w')" and new: "runs w' \<noteq> runs w"
  from run obtain out1 ctx1 where "E (Some c) w = (out1, ctx1, w')"
    by (auto simp: PanicRecovery_def Let_def split: outcome.splits prod.splits)
  then show "cleared env r w0 name params w'"
    using assms c same new unfolding runs_when_cleared_def by metis
qed

lemma baseExecutor_keeps_rows: "keeps_rows (baseExecutor env r)"
proof (rule keeps_rowsI)
  fix ctx w out ctx' w'
  assume run: "baseExecutor env r ctx w = (out, ctx', w')"
  have tool: "executeTool env r t c w1 = (out1, w2) \<Longrightarrow> w_changes w2 = w_changes w1" for t c w1 out1 w2
    by (auto simp: executeTool_def emit_def advance_def Let_def split: option.splits if_splits prod.splits)
  show "prefix (w_changes w) (w_changes w')"
    using run by (auto simp: baseExecutor_def Let_def dest!: tool fill_context_frame(3) split: option.splits if_splits prod.splits)
qed

lemma Chain_keeps_rows: "\<forall>m \<in> set ms. passes_rows m \<Longrightarrow> keeps_rows E \<Longrightarrow> keeps_rows (Chain ms E)"
  by (induction ms) (simp_all add: passes_rows_def)

lemma passes_rowsI:
  "(\<And>E ctx w out ctx' w'. keeps_rows E \<Longrightarrow> m E ctx w = (out, ctx', w') \<Longrightarrow> prefix (w_changes w) (w_changes w')) \<Longrightarrow> passes_rows m"
  unfolding passes_rows_def by (meson keeps_rowsI)

lemma world_rows [simp]:
  "w_changes (emit e w) = w_changes w" "w_changes (advance d w) = w_changes w" "w_changes (cancel g w) = w_changes w"
  "w_changes (snd (ulid_make env w)) = w_changes w" "w_changes (snd (WithTimeout g d w)) = w_changes w"
  "w_changes (snd (sleepWithContext g d w)) = w_changes w"
  "w_changes (foldl (\<lambda>v e. emit (f e) v) w es) = w_changes w"
proof -
  show "w_changes (cancel g w) = w_changes w" using cancel_points [of g w] by auto
  show "w_changes (foldl (\<lambda>v e. emit (f e) v) w es) = w_changes w" by (induction es arbitrary: w) (simp_all add: emit_def)
qed (simp_all add: emit_def advance_def ulid_make_def WithTimeout_def sleepWithContext_def Let_def split: option.split prod.split)

lemma retry_rows:
  assumes "keeps_rows E"
  shows "keeps_rows (retry_attempts env cfg test n E left attempt delay lasterr)"
proof (rule keeps_rowsI)
  fix ctx w out ctx' w'
  show "retry_attempts env cfg test n E left attempt delay lasterr ctx w = (out, ctx', w') \<Longrightarrow> prefix (w_changes w) (w_changes w')"
  proof (induction left arbitrary: attempt delay lasterr ctx w)
    case (Suc left)
    obtain o1 c1 w1 where E: "E (map_option (\<lambda>c. c\<lparr>ec_Attempt := attempt\<rparr>) ctx) w = (o1, c1, w1)" using prod_cases3 by blast
    then have w1: "prefix (w_changes w) (w_changes w1)" by (rule keeps_rowsD [OF assms])
    obtain x w2 where sleep: "sleepWithContext (ctxContext ctx) (applyJitter env delay (rc_Jitter cfg) (w_fresh w1))
      (w1\<lparr>w_fresh := w_fresh w1 + 1\<rparr>) = (x, w2)" by fastforce
    then have w2: "w_changes w2 = w_changes w1"
      using world_rows(6) [of "ctxContext ctx" "applyJitter env delay (rc_Jitter cfg) (w_fresh w1)" "w1\<lparr>w_fresh := w_fresh w1 + 1\<rparr>"] by simp
    show ?case
      using Suc.prems E w1 sleep w2 Suc.IH [of _ _ _ c1 w2]
      by (auto simp: Let_def split: option.splits outcome.splits if_splits intro: prefix_order.trans)
  qed (simp add: Let_def)
qed

lemma layers_pass_rows:
  "passes_rows (PanicRecovery env)" "passes_rows (ToastNotifications b)" "passes_rows (Validation rules b)"
  "passes_rows (ResultSizeLimit env n sfx)" "passes_rows (Retry env cfg)" "passes_rows (Timeout d per)"
  "passes_rows (Progress env b longs)" "passes_rows (FileChangeTracking env b)" "passes_rows (DockerSandboxMiddleware env box)"
proof -
  show "passes_rows (PanicRecovery env)" "passes_rows (ToastNotifications b)" "passes_rows (Validation rules b)"
    "passes_rows (ResultSizeLimit env n sfx)" "passes_rows (FileChangeTracking env b)"
    by (rule passes_rowsI; fastforce dest: keeps_rowsD
      simp: PanicRecovery_def ToastNotifications_def Validation_def ResultSizeLimit_def FileChangeTracking_def Let_def
      split: outcome.splits option.splits prod.splits if_splits)+
  show "passes_rows (Retry env cfg)"
    by (rule passes_rowsI) (auto simp: Retry_def Let_def simp del: retry_attempts.simps split: if_splits
      dest: keeps_rowsD [OF retry_rows] intro: keeps_rowsD)
  show "passes_rows (Timeout d per)"
    by (rule passes_rowsI) (auto simp: Timeout_def WithTimeout_def Let_def dest!: keeps_rowsD split: if_splits option.splits prod.splits)
  show "passes_rows (Progress env b longs)"
    by (rule passes_rowsI)
      (auto simp: Progress_def ulid_make_def Let_def dest!: keeps_rowsD split: if_splits option.splits prod.splits)
  show "passes_rows (DockerSandboxMiddleware env box)"
    by (rule passes_rowsI)
      (auto simp: DockerSandboxMiddleware_def Let_def dest!: keeps_rowsD split: if_splits option.splits prod.splits sum.splits)
qed

text \<open>All the middleware of the default stack keeps the rows of the store.\<close>

theorem default_stack_passes_rows: "\<forall>m \<in> set (DefaultMiddlewareStack env cfg). passes_rows m"
  by (simp add: DefaultMiddlewareStack_def layers_pass_rows)

text \<open>C2: With approval required, a call of a gated tool runs something - the tool itself, the container runner or the
  sandbox - only if the first row the call has added to the approval store holds exactly the file and the
  description of this call, for the registry's session and under a new identifier, and a reviewer approved that row while the call
  waited for it.  The one exception is a write whose \<open>content\<close> is what the file already has.  This holds for
  all middleware that drops and rewrites no row of the store, provided no pre-hook is registered for the tool and the post-hooks
  run no tool and keep the rows too.\<close>

theorem gated_tool_needs_approval:
  assumes "shouldGateChanges r" "gated_tool (trim_space name)" "quiet_hooks name (rg_hooks r)"
    and "\<forall>m \<in> set (rg_middlewares r). passes_rows m"
    and run: "ExecuteWithContext env r ctx name params w = (out, w')" "runs w' \<noteq> runs w"
  shows "unchanged_write env (trim_space name) params (w_outside w) \<or>
    (\<exists>request change. change_request env (trim_space name) params (w_outside w) = Some request \<and>
       granted env r request w change \<and> prefix (w_changes w @ [change]) (w_changes w'))"
proof -
  have "runs_when_cleared env r w (trim_space name) params (rebuildExecutorLocked env r)"
    using assms(1-4)
    by (auto simp: rebuildExecutorLocked_def intro!: PanicRecovery_cleared telemetry_cleared Hooks_cleared approval_cleared
        Chain_keeps_rows baseExecutor_keeps_rows)
  moreover obtain i w1 where i: "toolCallIDFromParams env params w = (i, w1)" by fastforce
  moreover obtain c ctx' where "rebuildExecutorLocked env r (Some c) w1 = (out, ctx', w')" "ec_ToolName c = name"
    "ec_Params c = params"
    using run i by (auto simp: ExecuteWithContext_def start_context_def split: if_splits option.splits prod.splits)
  ultimately have "cleared env r w (trim_space name) params w'"
    using run(2) call_id_frame [OF i] unfolding runs_when_cleared_def by metis
  then show ?thesis by (simp add: cleared_def)
qed

lemma no_panic_leaves: "\<not> (\<exists>v. fst (ExecuteWithContext env r ctx name params w) = Panicked v)"
  by (auto simp: ExecuteWithContext_def rebuildExecutorLocked_def PanicRecovery_def Let_def
      split: if_splits option.splits prod.splits outcome.splits)

text \<open>No call panics, whatever the tools, hooks and middleware do.\<close>

theorem execute_never_panics: "fst (ExecuteWithContext env r ctx name params w) \<noteq> Panicked v"
  using no_panic_leaves by blast

section \<open>Where the gate and the telemetry are left open\<close>

text \<open>C26: \<open>awaitDecision\<close> always comes back: the wait inside it returns, no later than the registry's timeout - ten
  minutes if none is set - after the call, whatever the reviewer does and whatever the caller's context is; it leaves the approval
  store, the trace and the outside as they were, and what it brings back is an error or a row of the store under the given
  identifier that is no longer pending.\<close>

theorem approval_wait_ends:
  "\<exists>c w1 d w2 w'. WithTimeout parent (if rg_missionTimeout r \<le> 0 then 10 * minute else rg_missionTimeout r) w = (c, w1) \<and>
     WaitForDecision env c changeID 750000000 w1 = Some (d, w2) \<and> awaitDecision env r parent changeID w = (d, w') \<and>
     w_now w \<le> w_now w' \<and>
     w_now w' \<le> w_now w + (if rg_missionTimeout r \<le> 0 then 10 * minute else rg_missionTimeout r) \<and>
     w_changes w' = w_changes w \<and> w_trace w' = w_trace w \<and> w_outside w' = w_outside w \<and>
     ((\<exists>err. d = Inl err) \<or>
      (\<exists>change. d = Inr change \<and> pc_ID change = changeID \<and> pc_ID change \<in> pc_ID ` set (w_changes w) \<and>
         pc_Status change \<noteq> ''pending''))"
proof -
  define timeout where "timeout = (if rg_missionTimeout r \<le> 0 then 10 * minute else rg_missionTimeout r)"
  obtain c w1 where c: "WithTimeout parent timeout w = (c, w1)" by fastforce
  obtain t e where t: "ctx_done c w1 = Some (t, e)" using WithTimeout_done [OF c] by auto
  obtain d w2 where wait: "WaitForDecision env c changeID 750000000 w1 = Some (d, w2)"
    and settled: "\<forall>change. d = Inr change \<longrightarrow> pc_Status change \<noteq> ''pending''"
    using decision_loop_ends [OF t, of 750000000 env changeID] by (auto simp: WaitForDecision_def)
  obtain w' where await: "awaitDecision env r parent changeID w = (d, w')"
    using c wait by (auto simp: awaitDecision_def timeout_def [symmetric])
  from awaitDecision_frame [OF this] obtain t2 ps where w': "w' = w\<lparr>w_now := t2, w_points := ps\<rparr>" "w_now w \<le> t2" "t2 \<le> w_now w + timeout"
    and found: "\<forall>change. d = Inr change \<longrightarrow> GetPendingChange env changeID (w\<lparr>w_now := t2\<rparr>) = Inr change"
    unfolding timeout_def by blast
  have "pc_ID change = changeID \<and> pc_ID change \<in> pc_ID ` set (w_changes w)" if "d = Inr change" for change
    using found [rule_format, OF that] by (auto simp: GetPendingChange_def reviewed_def find_Some_iff split: option.splits if_splits)
  then show ?thesis
    unfolding timeout_def [symmetric] using c wait await w' settled by (cases d) auto
qed

text \<open>A registry as \<open>NewEmptyRegistry\<close> leaves it but for the gate: no telemetry, hooks, middleware or containers.\<close>

definition bare_gate :: "('f, 'o) Registry \<Rightarrow> bool" where
  "bare_gate r = (shouldGateChanges r \<and> \<not> rg_telemetryHub r \<and> rg_middlewares r = [] \<and> \<not> rg_containerExecute r \<and>
     rg_hooks r = rg_hooks NewEmptyRegistry)"

lemma no_hooks [simp]:
  "PreHooks n \<lparr>hk_preHooks = [], hk_postHooks = qs\<rparr> = []" "PostHooks n \<lparr>hk_preHooks = ps, hk_postHooks = []\<rparr> = []"
  by (simp_all add: PreHooks_def PostHooks_def hooks_at_def Let_def)

lemma Hooks_empty: "Hooks (rg_hooks NewEmptyRegistry) E (Some c) w = E (Some c) w"
  by (simp add: Hooks_def NewEmptyRegistry_def split: prod.split outcome.split option.split)

lemma bare_executor:
  "bare_gate r \<Longrightarrow> rebuildExecutorLocked env r (Some c) w =
    PanicRecovery env (approvalMiddleware env r (baseExecutor env r)) (Some c) w"
  by (simp add: rebuildExecutorLocked_def bare_gate_def PanicRecovery_def telemetryMiddleware_def Hooks_empty)

lemma execute_via:
  assumes "name \<noteq> []" "Get name r = Some t" "toolCallIDFromParams env params w = (i, w1)"
    "rebuildExecutorLocked env r (Some (start_context r ctx name t params i (w_now w1))) w1 = (out, ctx', w2)"
  shows "ExecuteWithContext env r ctx name params w = (out, w2)"
  using assms by (simp add: ExecuteWithContext_def)

lemma ctx_Err_frame: "w_points w' = w_points w \<Longrightarrow> w_now w' = w_now w \<Longrightarrow> ctx_Err g w' = ctx_Err g w"
  using ctx_done_points [of w' w g] by (auto simp: ctx_Err_def split: option.split)

lemma Background_Err [simp]: "ctx_Err Background w = None"
  by (simp add: ctx_Err_def ctx_done_def)

lemma base_runs:
  assumes "ec_Context c = Some g" "ctx_Err g w = None" "ec_Tool c = Some t" "trim_space (ec_ToolName c) \<noteq> []" "\<not> rg_containerExecute r"
  shows "\<exists>out c' w' d now. baseExecutor env r (Some c) w = (out, Some c', w') \<and> ec_ToolName c' = ec_ToolName c \<and>
    out = fst (tl_run t d (Some (entries (ec_Params c))) now (w_outside w)) \<and>
    w_trace w' = w_trace w @ [Ran (tl_Name t) (Some (entries (ec_Params c)))] \<and> w_changes w' = w_changes w \<and>
    ec_Context c' = Some g \<and> w_points w' = w_points w"
proof -
  obtain c2 w1 where fill: "fill_context env (c\<lparr>ec_Tool := Some t\<rparr>) w = (c2, w1)" by fastforce
  note f = fill_context_frame [OF fill]
  have err: "ctx_Err g w1 = None" using assms(2) ctx_Err_frame [of w1 w g] f by simp
  obtain out w2 where tool: "executeTool env r t c2 w1 = (out, w2)" by fastforce
  define d where "d = (if tl_ContextTool t then ctx_done (ctxContext (Some c2)) w1 else None)"
  have run: "out = fst (tl_run t d (Some (entries (ec_Params c))) (w_now w1) (w_outside w))"
    "w_trace w2 = w_trace w @ [Ran (tl_Name t) (Some (entries (ec_Params c)))]" "w_changes w2 = w_changes w"
    "w_points w2 = w_points w"
    using tool f err assms(1,5)
    by (auto simp: executeTool_def d_def [symmetric] emit_def advance_def split: prod.splits)
  have "baseExecutor env r (Some c) w = (out, Some c2, w2)"
    using assms(3,4) fill tool by (simp add: baseExecutor_def)
  moreover have "ec_ToolName c2 = ec_ToolName c" "ec_Context c2 = Some g" using f assms(1) by simp_all
  ultimately show ?thesis using run by metis
qed

text \<open>C27: The exception of the gate goes by the parameter \<open>content\<close> alone, which only \<open>write_file\<close> reads.  Any other
  gated file tool, \<open>edit_file\<close> for one, runs with all its parameters and without a row in the store
  when the caller adds a \<open>content\<close> equal to the file's present text.\<close>

theorem spare_content_skips_approval:
  assumes "bare_gate r" "Get name r = Some t" "List.member gatedWriteTools (trim_space name)"
    and "param_string params ''path'' = Some path" "trim_space path \<noteq> []" "abs_path (te_cwd env) path = Some p"
    and "te_readFile env (w_outside w) p = Found present" "param_string params ''content'' = Some present"
  shows "case ExecuteWithContext env r None name params w of
    (_, w') \<Rightarrow> w_changes w' = w_changes w \<and> w_trace w' = w_trace w @ [Ran (tl_Name t) (Some (entries params))]"
proof -
  obtain i w1 where i: "toolCallIDFromParams env params w = (i, w1)" by fastforce
  define c where "c = start_context r None name t params i (w_now w1)"
  note f = call_id_frame [OF i]
  have name: "trim_space name \<noteq> []" using assms(3) by (auto simp: gatedWriteTools_def)
  then have "name \<noteq> []" by (auto simp: trim_space_def)
  have skip: "approvalMiddleware env r (baseExecutor env r) (Some c) w1 = baseExecutor env r (Some c) w1"
    using assms f
    by (simp add: approvalMiddleware_def executeWithMissionWrite_def describe_write_def c_def start_context_def bare_gate_def)
  obtain out c' w2 where base: "baseExecutor env r (Some c) w1 = (out, Some c', w2)"
    "w_trace w2 = w_trace w1 @ [Ran (tl_Name t) (Some (entries params))]" "w_changes w2 = w_changes w1"
    using base_runs [of c Background w1 t r env] name assms(1) by (auto simp: c_def start_context_def bare_gate_def)
  obtain out' ctx' where "rebuildExecutorLocked env r (Some c) w1 = (out', ctx', w2)"
    using bare_executor [OF assms(1), of env c w1] skip base(1)
    by (auto simp: PanicRecovery_def Let_def split: outcome.splits)
  from execute_via [OF \<open>name \<noteq> []\<close> assms(2) i this [unfolded c_def]] show ?thesis using base f by simp
qed

text \<open>Without a second panic recovery inside, the panic of a tool passes the telemetry layer: the call is reported
  as started and never as completed or failed, although the caller gets an error.\<close>

theorem panic_leaves_tool_started:
  assumes "rg_telemetryHub r" "rg_hooks r = rg_hooks NewEmptyRegistry" "rg_middlewares r = []" "\<not> rg_containerExecute r"
    "\<not> shouldGateChanges r" "Get name r = Some t" "trim_space name \<noteq> []" "trim_space name \<noteq> ''run_shell''"
    and panics: "\<And>d ps now files. fst (tl_run t d ps now files) = Panicked v"
  shows "case ExecuteWithContext env r None name params w of (out, w') \<Rightarrow>
    (\<exists>callID at info ps. w_trace w' = w_trace w @ [Published ToolStarted (rg_telemetrySession r) callID at info, Ran (tl_Name t) ps]) \<and>
    out = Returned (Some (failure (''tool '' @ name @ '' panicked''))) (Some (errorf (''tool '' @ name @ '' panicked'')))"
proof -
  obtain i w1 where i: "toolCallIDFromParams env params w = (i, w1)" by fastforce
  define c where "c = start_context r None name t params i (w_now w1)"
  have "name \<noteq> []" using assms(7) by (auto simp: trim_space_def)
  obtain c2 w2 where fill: "fill_context env c w1 = (c2, w2)" by fastforce
  note f = fill_context_frame [OF fill]
  define w3 where "w3 = publishToolEvent env r ToolStarted (ec_CallID c2) (trim_space name)
    (touched env (trim_space name) (ec_Params c2) w2) (ec_StartTime c2) None None (ec_Attempt c2) (ec_Metadata c2) w2"
  obtain info where w3: "w_trace w3 = w_trace w @ [Published ToolStarted (rg_telemetrySession r) (ec_CallID c2) (ec_StartTime c2) info]"
    using assms(1) f call_id_frame [OF i] by (auto simp: w3_def publishToolEvent_def emit_def)
  obtain c4 w4 where base: "baseExecutor env r (Some c2) w3 = (Panicked v, Some c4, w4)" "ec_ToolName c4 = name"
    "w_trace w4 = w_trace w3 @ [Ran (tl_Name t) (Some (entries (ec_Params c2)))]"
    using base_runs [of c2 Background w3 t r env] f assms(4,7) panics by (auto simp: c_def start_context_def)
  have "rebuildExecutorLocked env r (Some c) w1 =
      (Returned (Some (failure (''tool '' @ name @ '' panicked''))) (Some (errorf (''tool '' @ name @ '' panicked''))),
       Some (c4\<lparr>ec_Metadata := put ''panic_value'' (VString v)
         (put ''panic_stack'' (VString (te_stack env)) (ec_Metadata c4))\<rparr>), w4)"
    using assms(1-3,5,8) fill base(1,2) \<open>name \<noteq> []\<close> f
    by (simp add: rebuildExecutorLocked_def PanicRecovery_def telemetryMiddleware_def approvalMiddleware_def Hooks_empty
        w3_def tool_label_def c_def start_context_def Let_def)
  from execute_via [OF \<open>name \<noteq> []\<close> assms(6) i this [unfolded c_def]] show ?thesis using base(3) w3 by simp
qed

section \<open>Concrete runs\<close>

text \<open>The outside of the concrete runs is a list of files.  A reviewer approves the first change a second after the
  clock's zero.\<close>

type_synonym files = "(string \<times> string) list"

definition demo_env :: "(int, files) tool_env" where
  "demo_env = \<lparr>te_floats = int_floats, te_scale = (\<lambda>d m. d * m), te_jitter = (\<lambda>d _ _. d), te_sprint = (\<lambda>_. ''?''),
     te_stack = ''stack'', te_ulid = (\<lambda>n. ''id'' @ itoa_nat n), te_json = (\<lambda>_. Some 10), te_cwd = Some ''/w'',
     te_readFile = (\<lambda>files p. case map_of files p of Some s \<Rightarrow> Found s | None \<Rightarrow> Missing), te_stat = (\<lambda>_ _. Missing), te_diff = (\<lambda>p a b. Inr (a @ ''=>'' @ b)), te_insert = (\<lambda>_. None),
     te_select = (\<lambda>_ _. None),
     te_review = (\<lambda>t i. if second \<le> t \<and> i = ''id1'' then Some (''approved'', ''ann'') else None),
     te_container = (\<lambda>_ _ _ _ _ _ _ files. (Returned None None, 0, files))\<rparr>"

text \<open>A tool that writes \<open>new\<close> to the file \<open>/w/a\<close>, and one that panics.\<close>

definition demo_tool :: "string \<Rightarrow> (int, files) Tool" where
  "demo_tool name = \<lparr>tl_Name = name, tl_Description = '''', tl_Metadata = None, tl_ContextTool = False,
     tl_run = (\<lambda>_ _ _ files. (Returned (Some ((failure '''')\<lparr>rs_Success := True\<rparr>)) None, second, AList.update ''/w/a'' ''new'' files))\<rparr>"

definition panic_tool :: "(int, files) Tool" where
  "panic_tool = (demo_tool ''read_file'')\<lparr>tl_run := (\<lambda>_ _ _ files. (Panicked ''index out of range'', 0, files))\<rparr>"

definition demo_registry :: "(int, files) Registry" where
  "demo_registry = UpdateMissionSession ''s1'' (EnableMissionControl True ''agent'' True minute
     (Register (demo_tool ''run_shell'') (Register (demo_tool ''edit_file'') NewEmptyRegistry)))"

definition demo_world :: "(int, files) world" where
  "demo_world = \<lparr>w_now = 0, w_points = [], w_changes = [], w_fresh = 0, w_trace = [], w_outside = [(''/w/a'', ''old'')]\<rparr>"

definition demo_shell :: "int params" where
  "demo_shell = Some [(''command'', VString ''ls'')]"

lemma demo_gate: "shouldGateChanges demo_registry" "gated_tool (trim_space ''run_shell'')"
  "quiet_hooks ''run_shell'' (rg_hooks demo_registry)" "\<forall>m \<in> set (rg_middlewares demo_registry). passes_rows m"
  by (code_simp, code_simp)
    (simp_all add: quiet_hooks_def demo_registry_def UpdateMissionSession_def EnableMissionControl_def Register_def NewEmptyRegistry_def)

lemma demo_run: "runs (snd (ExecuteWithContext demo_env demo_registry None ''run_shell'' demo_shell demo_world)) =
    [Ran ''run_shell'' demo_shell]"
  by code_simp

lemma demo_new: "runs (snd (ExecuteWithContext demo_env demo_registry None ''run_shell'' demo_shell demo_world)) \<noteq> runs demo_world"
  unfolding demo_run by (simp add: runs_def demo_world_def)

lemma demo_request: "change_request demo_env (trim_space ''run_shell'') demo_shell (w_outside demo_world) =
    Some (''shell://run_shell'', ''shell command requested:'' @ nl # ''$ ls'')"
  "\<not> unchanged_write demo_env (trim_space ''run_shell'') demo_shell (w_outside demo_world)"
  by code_simp+

theorem gated_tool_needs_approval_witness:
  "\<exists>change. granted demo_env demo_registry (''shell://run_shell'', ''shell command requested:'' @ nl # ''$ ls'') demo_world change \<and>
     prefix [change] (w_changes (snd (ExecuteWithContext demo_env demo_registry None ''run_shell'' demo_shell demo_world)))"
  using gated_tool_needs_approval [OF demo_gate prod.collapse [symmetric] demo_new] demo_request
  by (auto simp: demo_world_def)

definition demo_edit :: "int params" where
  "demo_edit = Some [(''path'', VString ''a''), (''content'', VString ''old''), (''old_string'', VString ''old''),
     (''new_string'', VString ''new'')]"

lemma demo_bare: "bare_gate demo_registry" "Get ''edit_file'' demo_registry = Some (demo_tool ''edit_file'')"
  by (simp_all add: bare_gate_def demo_registry_def shouldGateChanges_def UpdateMissionSession_def EnableMissionControl_def
      Register_def NewEmptyRegistry_def Get_def demo_tool_def trim_space_def is_space_def)

lemma demo_edit_params:
  "List.member gatedWriteTools (trim_space ''edit_file'')" "param_string demo_edit ''path'' = Some ''a''" "trim_space ''a'' \<noteq> []"
  "abs_path (te_cwd demo_env) ''a'' = Some ''/w/a''" "te_readFile demo_env (w_outside demo_world) ''/w/a'' = Found ''old''"
  "param_string demo_edit ''content'' = Some ''old''"
  by code_simp+

theorem spare_content_skips_approval_witness:
  "w_changes (snd (ExecuteWithContext demo_env demo_registry None ''edit_file'' demo_edit demo_world)) = [] \<and>
   w_trace (snd (ExecuteWithContext demo_env demo_registry None ''edit_file'' demo_edit demo_world)) =
     [Ran (tl_Name (demo_tool ''edit_file'')) (Some (entries demo_edit))]"
  using spare_content_skips_approval [OF demo_bare demo_edit_params] by (simp add: demo_world_def split: prod.splits)

definition watched_registry :: "(int, files) Registry" where
  "watched_registry = EnableTelemetry True ''s1'' (Register panic_tool NewEmptyRegistry)"

lemma watched: "rg_telemetryHub watched_registry" "rg_hooks watched_registry = rg_hooks NewEmptyRegistry"
  "rg_middlewares watched_registry = []" "\<not> rg_containerExecute watched_registry" "\<not> shouldGateChanges watched_registry"
  "Get ''read_file'' watched_registry = Some panic_tool" "trim_space ''read_file'' \<noteq> []" "trim_space ''read_file'' \<noteq> ''run_shell''"
  "fst (tl_run panic_tool d ps now files) = Panicked ''index out of range''"
  by (simp_all add: watched_registry_def EnableTelemetry_def shouldGateChanges_def Register_def NewEmptyRegistry_def Get_def
      panic_tool_def demo_tool_def trim_space_def is_space_def)

theorem panic_leaves_tool_started_witness:
  "\<exists>callID at info ps. w_trace (snd (ExecuteWithContext demo_env watched_registry None ''read_file'' None demo_world)) =
     [Published ToolStarted (rg_telemetrySession watched_registry) callID at info, Ran (tl_Name panic_tool) ps]"
  using panic_leaves_tool_started [OF watched, where env = demo_env and params = None and w = demo_world] by (simp add: demo_world_def split: prod.splits)


section \<open>How telemetry describes the gated tools\<close>

lemma rich_operation:
  assumes "to_lower (trim_space n) = n"
  shows "n = ''write_file'' \<or> n = ''edit_file'' \<Longrightarrow> rf_OperationType (ExtractFromArgs fo fv n args) = op_name OpWrite"
    "\<not> List.member [''run_shell'', ''write_file'', ''edit_file'', ''apply_patch'', ''read_file'', ''list_directory''] n \<Longrightarrow>
     rf_OperationType (ExtractFromArgs fo fv n args) = inferOperationType n []"
  unfolding ExtractFromArgs_def Let_def assms by (auto simp: plain_fields_def with_diff_def split: prod.split)

definition described :: "string \<Rightarrow> string" where
  "described n = (if n = ''write_file'' \<or> n = ''edit_file'' then op_name OpWrite else inferOperationType n [])"

lemma gated_described: "n \<in> set gatedWriteTools \<Longrightarrow> rf_OperationType (ExtractFromArgs fo fv n args) = described n"
proof -
  assume n: "n \<in> set gatedWriteTools"
  have "list_all (\<lambda>n. to_lower (trim_space n) = n) gatedWriteTools" by (simp add: gatedWriteTools_def go_simps)
  moreover have "list_all (\<lambda>n. n = ''write_file'' \<or> n = ''edit_file'' \<or>
      \<not> List.member [''run_shell'', ''write_file'', ''edit_file'', ''apply_patch'', ''read_file'', ''list_directory''] n) gatedWriteTools"
    by (simp add: gatedWriteTools_def)
  ultimately have "to_lower (trim_space n) = n" "n = ''write_file'' \<or> n = ''edit_file'' \<or>
      \<not> List.member [''run_shell'', ''write_file'', ''edit_file'', ''apply_patch'', ''read_file'', ''list_directory''] n"
    using n unfolding list_all_iff by blast+
  with rich_operation [of n fo fv args] show ?thesis unfolding described_def by (metis (full_types))
qed

text \<open>Of the tools that the write gate holds back, telemetry calls all but two writes: \<open>search_replace\<close> is reported
  as a read and \<open>insert_text\<close> as nothing at all.\<close>

theorem gated_writes_described:
  "filter (\<lambda>name. rf_OperationType (ExtractFromArgs fo fv name args) \<noteq> op_name OpWrite) gatedWriteTools =
     [''insert_text'', ''search_replace''] \<and>
   rf_OperationType (ExtractFromArgs fo fv ''search_replace'' args) = op_name OpRead \<and>
   rf_OperationType (ExtractFromArgs fo fv ''insert_text'' args) = []"
proof -
  have "filter (\<lambda>name. described name \<noteq> op_name OpWrite) gatedWriteTools = [''insert_text'', ''search_replace'']"
    by (simp add: gatedWriteTools_def described_def inferOperationType_def go_simps op_name_def)
  moreover have "described ''search_replace'' = op_name OpRead" "described ''insert_text'' = []"
    by (simp_all add: described_def inferOperationType_def go_simps)
  moreover have "filter (\<lambda>name. rf_OperationType (ExtractFromArgs fo fv name args) \<noteq> op_name OpWrite) gatedWriteTools =
      filter (\<lambda>name. described name \<noteq> op_name OpWrite) gatedWriteTools"
    by (rule filter_cong) (simp_all add: gated_described)
  moreover have "''search_replace'' \<in> set gatedWriteTools" "''insert_text'' \<in> set gatedWriteTools"
    by (simp_all add: gatedWriteTools_def)
  ultimately show ?thesis by (simp only: gated_described simp_thms)
qed

end
