(* ===== verification/Tool_Stack.thy ===== *)
theory Tool_Stack
  imports Tool_Gate
begin

text \<open>
  What the middleware does together (src/pkg/tool/defaults.go, middleware_retry.go, middleware_timeout.go,
  middleware_limit.go): the default stack around a failing tool, the number of attempts, the size of results.
\<close>

section \<open>Retries and timeouts\<close>

lemma earliest_first: "t \<le> now \<Longrightarrow> \<exists>t' e'. earliest (Some (t, e) # ps) = Some (t', e') \<and> t' \<le> (now :: int)"
  by (auto split: option.splits)

lemma done_stays:
  assumes "i < length (w_points w)" "w_points w ! i = Some (t, e)" "t \<le> w_now w"
  shows "ctx_Err (i # ps) w \<noteq> None"
proof -
  obtain t' e' where "ctx_done (i # ps) w = Some (t', e')" "t' \<le> w_now w"
    using assms(1,2) earliest_first [OF assms(3), of e]
    by (simp only: ctx_done_def list.map if_True) blast
  then show ?thesis by (simp add: ctx_Err_def)
qed

lemma cancel_done:
  assumes "i < length (w_points w)" "w_now w \<le> w_now w'" "w_points w' = w_points (cancel (i # ps) w)"
  shows "ctx_Err (i # ps) w' \<noteq> None"
proof -
  have "\<exists>t e. w_points (cancel (i # ps) w) ! i = Some (t, e) \<and> t \<le> w_now w"
    using assms(1) by (cases "w_points w ! i") (auto simp: cancel_def)
  then obtain t e where "w_points (cancel (i # ps) w) ! i = Some (t, e)" "t \<le> w_now w" by blast
  moreover have "length (w_points (cancel (i # ps) w)) = length (w_points w)"
    by (simp add: cancel_def split: option.split)
  ultimately show ?thesis using assms by (intro done_stays [of i w' t e]) auto
qed

lemma sleep_frame:
  assumes "sleepWithContext g d w = (x, w')"
  shows "w_points w' = w_points w \<and> w_trace w' = w_trace w \<and> w_outside w' = w_outside w \<and> w_now w \<le> w_now w' \<and>
    (x \<noteq> None \<longrightarrow> (\<exists>e. x = Some (context_error e)))"
  using assms by (auto simp: sleepWithContext_def advance_def split: if_splits option.splits)

definition retry_test :: "'f RetryConfig \<Rightarrow> go_error \<Rightarrow> bool" where
  "retry_test cfg = (case rc_RetryableFunc cfg of None \<Rightarrow> (\<lambda>e. DefaultRetryable (Some e)) | Some f \<Rightarrow> f)"

lemma retry_over_timeout:
  assumes "\<not> isMutatingTool (ec_ToolName c)" "0 < d" "1 < rc_MaxAttempts cfg" "ctx_Err (ctxContext (Some c)) w = None"
    and first: "next (Some (c\<lparr>ec_Attempt := 1, ec_Context := Some (length (w_points w) # ctxContext (Some c))\<rparr>))
      (snd (WithTimeout (ctxContext (Some c)) d w)) = (Returned res (Some err), Some c1, w1)"
    and "ec_Context c1 = Some (length (w_points w) # ctxContext (Some c))" "length (w_points w) < length (w_points w1)"
    and "retry_test cfg err"
  shows "\<exists>e w2. Retry env cfg (Timeout d None next) (Some c) w = (Returned None (Some (context_error e)), Some c1, w2) \<and>
    w_trace w2 = w_trace w1 \<and> w_outside w2 = w_outside w1"
proof -
  define g where "g = length (w_points w) # ctxContext (Some c)"
  have k: "nat (rc_MaxAttempts cfg) = Suc (Suc (nat (rc_MaxAttempts cfg - 2)))" using assms(3) by simp
  let ?w1 = "cancel g w1"
  have try1: "Timeout d None next (Some (c\<lparr>ec_Attempt := 1\<rparr>)) w = (Returned res (Some err), Some c1, ?w1)"
    using first assms(2) by (auto simp: Timeout_def WithTimeout_def g_def ctxContext_def Let_def split: prod.splits)
  obtain x w2 where sleep: "sleepWithContext (ctxContext (Some c)) (applyJitter env (rc_InitialDelay cfg) (rc_Jitter cfg) (w_fresh ?w1))
      (?w1\<lparr>w_fresh := w_fresh ?w1 + 1\<rparr>) = (x, w2)" by fastforce
  note s = sleep_frame [OF sleep]
  have frame: "w_trace w2 = w_trace w1" "w_outside w2 = w_outside w1" "w_now w1 \<le> w_now w2"
    using s cancel_points [of g w1] by auto
  have "ctxContext (Some c1) = g" using assms(6) by (simp add: g_def ctxContext_def)
  moreover have "ctx_Err g w2 \<noteq> None"
    unfolding g_def using s by (intro cancel_done [OF assms(7) frame(3)]) (simp add: g_def)
  ultimately have err: "ctx_Err (ctxContext (Some c1)) w2 \<noteq> None" by simp
  show ?thesis
    using k try1 sleep s frame err assms(1,3,4,8)
    by (cases x) (auto simp: Retry_def retry_test_def)
qed


lemma idle_layers [simp]:
  "ToastNotifications False E ctx w = E ctx w" "Validation [] b E ctx w = E ctx w" "Progress env False m E ctx w = E ctx w"
  "FileChangeTracking env False E ctx w = E ctx w"
  by (auto simp: ToastNotifications_def Validation_def Progress_def FileChangeTracking_def
      split: prod.split outcome.split option.split)

lemma foldl_Use: "foldl (\<lambda>reg mw. Use mw reg) r ms = r\<lparr>rg_middlewares := rg_middlewares r @ ms\<rparr>"
  by (induction ms arbitrary: r) (simp_all add: Use_def)

definition default_registry :: "('f, 'o) tool_env \<Rightarrow> 'f \<Rightarrow> 'f \<Rightarrow> ('f, 'o) Tool \<Rightarrow> ('f, 'o) Registry" where
  "default_registry env two fifth t =
     ApplyRegistryConfig env (DefaultRegistryConfig two fifth) (Register t NewEmptyRegistry)"

abbreviation default_retry :: "'f \<Rightarrow> 'f \<Rightarrow> 'f RetryConfig" where
  "default_retry two fifth \<equiv> \<lparr>rc_MaxAttempts = 2, rc_InitialDelay = second div 5, rc_MaxDelay = 2 * second,
     rc_Multiplier = two, rc_Jitter = fifth, rc_RetryableFunc = None\<rparr>"

lemma default_registry_fields:
  "rg_middlewares (default_registry env two fifth t) =
     [PanicRecovery env, ToastNotifications False, Validation [] False, ResultSizeLimit env 100000 (nl # ''...[truncated]''),
      Retry env (default_retry two fifth), Timeout (2 * minute) None, Progress env False (Some DefaultLongRunningTools),
      FileChangeTracking env False]"
  "\<not> rg_telemetryHub (default_registry env two fifth t)" "\<not> shouldGateChanges (default_registry env two fifth t)"
  "\<not> rg_containerExecute (default_registry env two fifth t)"
  "rg_hooks (default_registry env two fifth t) = rg_hooks NewEmptyRegistry"
  "Get (tl_Name t) (default_registry env two fifth t) = Some t"
  by (simp_all add: default_registry_def ApplyRegistryConfig_def foldl_Use DefaultRegistryConfig_def Register_def DefaultMiddlewareStack_def
      NewEmptyRegistry_def shouldGateChanges_def Get_def)

text \<open>C25: The default configuration asks for two attempts.  But \<open>Timeout\<close>, which lies inside \<open>Retry\<close>, leaves its own
  context, cancelled, in the execution context, and \<open>Retry\<close> looks there before the next attempt: a tool that
  fails with a retryable error is run once, and its result and error are lost to an error of
  the context.\<close>

theorem default_stack_never_retries:
  assumes "trim_space (tl_Name t) \<noteq> []" "\<not> isMutatingTool (tl_Name t)" "DefaultRetryable (Some err)"
    and fails: "\<And>d ps now files. \<exists>res. fst (tl_run t d ps now files) = Returned res (Some err)"
  shows "case ExecuteWithContext env (default_registry env two fifth t) None (tl_Name t) params w of (out, w') \<Rightarrow>
    (\<exists>e. out = Returned None (Some (context_error e))) \<and>
    w_trace w' = w_trace w @ [Ran (tl_Name t) (Some (entries params))]"
proof -
  let ?r = "default_registry env two fifth t" and ?name = "tl_Name t"
  obtain i w0 where i: "toolCallIDFromParams env params w = (i, w0)" by fastforce
  define c where "c = start_context ?r None ?name t params i (w_now w0)"
  have name: "?name \<noteq> []" using assms(1) by (auto simp: trim_space_def)
  define g where "g = [length (w_points w0)]"
  define c1 where "c1 = c\<lparr>ec_Attempt := 1, ec_Context := Some g\<rparr>"
  define w1 where "w1 = snd (WithTimeout Background (2 * minute) w0)"
  have "ctx_Err g w1 = None" by (simp add: w1_def g_def WithTimeout_def ctx_Err_def ctx_done_def)
  then obtain out c2 w2 where base: "baseExecutor env ?r (Some c1) w1 = (out, Some c2, w2)"
    "\<exists>d ps now files. out = fst (tl_run t d ps now files)"
    "w_trace w2 = w_trace w1 @ [Ran ?name (Some (entries params))]" "ec_Context c2 = Some g" "w_points w2 = w_points w1"
    using base_runs [of c1 g w1 t ?r env] assms(1) default_registry_fields(4) [of env two fifth t]
    by (fastforce simp: c1_def c_def start_context_def)
  then obtain res where out: "out = Returned res (Some err)" using fails by blast
  have "\<exists>e w3. Retry env (default_retry two fifth) (Timeout (2 * minute) None (baseExecutor env ?r)) (Some c) w0 =
      (Returned None (Some (context_error e)), Some c2, w3) \<and> w_trace w3 = w_trace w2 \<and> w_outside w3 = w_outside w2"
  proof (rule retry_over_timeout)
    show "baseExecutor env ?r (Some (c\<lparr>ec_Attempt := 1, ec_Context := Some (length (w_points w0) # ctxContext (Some c))\<rparr>))
      (snd (WithTimeout (ctxContext (Some c)) (2 * minute) w0)) = (Returned res (Some err), Some c2, w2)"
      using base(1) out by (simp add: c1_def g_def w1_def c_def start_context_def ctxContext_def)
  qed (use assms(2,3) base(4,5) in \<open>auto simp: c_def start_context_def ctxContext_def g_def w1_def WithTimeout_def retry_test_def\<close>)
  then obtain e w3 where retry: "Retry env (default_retry two fifth) (Timeout (2 * minute) None (baseExecutor env ?r)) (Some c) w0 =
      (Returned None (Some (context_error e)), Some c2, w3)" "w_trace w3 = w_trace w2" by blast
  have "rebuildExecutorLocked env ?r (Some c) w0 = (Returned None (Some (context_error e)), Some c2, w3)"
    using retry(1) default_registry_fields(2,3) [of env two fifth t]
    by (simp add: rebuildExecutorLocked_def default_registry_fields PanicRecovery_def
        telemetryMiddleware_def approvalMiddleware_def Hooks_empty ResultSizeLimit_def)
  from execute_via [OF name default_registry_fields(6) i this [unfolded c_def]]
  show ?thesis using retry(2) base(3) call_id_frame [OF i] by (auto simp: w1_def WithTimeout_def)
qed

text \<open>Whatever it wraps, \<open>Retry\<close> calls it at most as often as configured, and just once for a tool that changes
  things.\<close>

lemma retry_attempts_bound:
  assumes step: "\<And>ctx w. length (runs (snd (snd (E ctx w)))) \<le> Suc (length (runs w))"
  shows "length (runs (snd (snd (retry_attempts env cfg test n E left attempt delay lasterr ctx w)))) \<le> length (runs w) + left"
proof (induction left arbitrary: attempt delay lasterr ctx w)
  case (Suc left)
  obtain out ctx2 w1 where E: "E (map_option (\<lambda>c. c\<lparr>ec_Attempt := attempt\<rparr>) ctx) w = (out, ctx2, w1)" using prod_cases3 by blast
  then have w1: "length (runs w1) \<le> Suc (length (runs w))" using step by (metis snd_conv)
  show ?case
  proof (cases "\<exists>res err. ctx_Err (ctxContext ctx) w = None \<and> out = Returned res (Some err) \<and> test err \<and> attempt \<noteq> n")
    case False
    then show ?thesis using E w1 by (auto simp: Let_def split: option.split outcome.split)
  next
    case True
    then obtain res err where t: "ctx_Err (ctxContext ctx) w = None" "out = Returned res (Some err)" "test err" "attempt \<noteq> n"
      by blast
    obtain x w2 where sleep: "sleepWithContext (ctxContext ctx) (applyJitter env delay (rc_Jitter cfg) (w_fresh w1))
      (w1\<lparr>w_fresh := w_fresh w1 + 1\<rparr>) = (x, w2)" by fastforce
    then have w2: "runs w2 = runs w1" using sleep_frame [OF sleep] by (simp add: runs_def)
    show ?thesis
      using E t sleep w1 w2 Suc.IH [of "attempt + 1" "minDuration (te_scale env delay (rc_Multiplier cfg)) (rc_MaxDelay cfg)"
        "Some err" ctx2 w2]
      by (cases x) (simp_all add: Let_def)
  qed
qed (simp add: Let_def)

theorem retry_runs_bounded:
  assumes "\<And>ctx w. length (runs (snd (snd (E ctx w)))) \<le> Suc (length (runs w))"
  shows "length (runs (snd (snd (Retry env cfg E (Some c) w)))) \<le> length (runs w) +
    (if isMutatingTool (ec_ToolName c) then 1 else nat (max 1 (rc_MaxAttempts cfg)))"
proof (cases "isMutatingTool (ec_ToolName c)")
  case False
  define n where "n = (if rc_MaxAttempts cfg \<le> 0 then 1 else rc_MaxAttempts cfg)"
  have "nat n = nat (max 1 (rc_MaxAttempts cfg))" by (auto simp: n_def)
  then show ?thesis
    using False retry_attempts_bound [OF assms, where env = env and cfg = cfg and n = n and left = "nat n"] by (simp add: Retry_def n_def [symmetric] Let_def)
qed (use assms in \<open>simp add: Retry_def\<close>)

section \<open>The size of results\<close>

lemma truncateString_bound: "0 < limit \<Longrightarrow> int (length (truncateString s limit sfx)) \<le> limit"
  by (auto simp: truncateString_def)

definition string_values :: "'f params \<Rightarrow> string list" where
  "string_values data = (case data of
     None \<Rightarrow> []
   | Some m \<Rightarrow> List.map_filter (\<lambda>(_, v). case v of VString s \<Rightarrow> Some s | _ \<Rightarrow> None) m)"

lemma truncateMapStrings_bound:
  "0 < limit \<Longrightarrow> s \<in> set (string_values (truncateMapStrings data limit sfx)) \<Longrightarrow> int (length s) \<le> limit"
  by (auto simp: string_values_def truncateMapStrings_def map_filter_set truncateString_bound split: option.splits any.splits)

text \<open>What \<open>ResultSizeLimit\<close> returns is the result of the tool itself, if that fits or says that it is truncated, or a
  result whose error text and whose strings have at most half the limit each.\<close>

theorem limited_result:
  assumes "ResultSizeLimit env maxBytes sfx E ctx w = (Returned (Some res) err, ctx', w')" "1 < maxBytes"
    "int (length (trim_space (''output truncated'' @ sfx))) \<le> maxBytes div 2"
  shows "(\<exists>ctx1. E ctx w = (Returned (Some res) err, ctx1, w') \<and> (hasNativeTruncation res \<or> sizeFits env res maxBytes)) \<or>
    (int (length (rs_Error res)) \<le> maxBytes div 2 \<and>
     (\<forall>s \<in> set (string_values (rs_Data res)) \<union> set (string_values (rs_DisplayData res)). int (length s) \<le> maxBytes div 2))"
proof -
  obtain out ctx1 w1 where E: "E ctx w = (out, ctx1, w1)" using prod_cases3 by blast
  then obtain res0 err0 where out: "out = Returned (Some res0) err0"
    using assms(1) by (cases out) (auto simp: ResultSizeLimit_def split: option.splits outcome.splits)
  have t: "truncation_target maxBytes = maxBytes div 2" "0 < maxBytes div 2" using assms(2) by (auto simp: truncation_target_def Let_def)
  let ?cut = "truncateResultStrings maxBytes sfx res0"
  have cut: "int (length (rs_Error ?cut)) \<le> maxBytes div 2"
    "\<forall>s \<in> set (string_values (rs_Data ?cut)) \<union> set (string_values (rs_DisplayData ?cut)). int (length s) \<le> maxBytes div 2"
    using truncateMapStrings_bound [OF t(2)] truncateString_bound [OF t(2)] t
    by (auto simp: truncateResultStrings_def Let_def)
  define msg where "msg = trim_space (''output truncated'' @ sfx)"
  define stub where "stub = ?cut\<lparr>rs_DisplayData := Some [(''message'', VString msg)], rs_Data := Some [(''truncated'', VBool True)]\<rparr>"
  have stub: "int (length (rs_Error stub)) \<le> maxBytes div 2"
    "string_values (rs_Data stub) = []" "string_values (rs_DisplayData stub) = [msg]"
    using cut(1) by (simp_all add: stub_def string_values_def map_filter_simps)
  consider (same) "(hasNativeTruncation res0 \<or> sizeFits env res0 maxBytes) \<and> res = res0 \<and> err = err0 \<and> w' = w1"
    | (cut) "res = ?cut" | (stub) "res = stub"
    using assms(1,2) E out unfolding ResultSizeLimit_def stub_def msg_def
    by (cases "hasNativeTruncation res0"; cases "sizeFits env res0 maxBytes"; cases "sizeFits env ?cut maxBytes") auto
  then show ?thesis
    by cases (use E out cut stub assms(3) in \<open>auto simp: msg_def\<close>)
qed

section \<open>Concrete runs\<close>

definition refused_error :: go_error where
  "refused_error = errorf ''dial tcp: connection refused''"

definition flaky_tool :: "(int, files) Tool" where
  "flaky_tool = (demo_tool ''read_file'')\<lparr>tl_run := (\<lambda>_ _ _ files. (Returned None (Some refused_error), second, files))\<rparr>"

lemma flaky: "trim_space (tl_Name flaky_tool) \<noteq> []" "\<not> isMutatingTool (tl_Name flaky_tool)" "DefaultRetryable (Some refused_error)"
  by code_simp+

lemma flaky_fails: "\<exists>res. fst (tl_run flaky_tool d ps now files) = Returned res (Some refused_error)"
  by (simp add: flaky_tool_def)

theorem default_stack_never_retries_witness:
  "w_trace (snd (ExecuteWithContext demo_env (default_registry demo_env 2 0 flaky_tool) None (tl_Name flaky_tool) (Some []) demo_world)) =
     [Ran (tl_Name flaky_tool) (Some [])]"
  using default_stack_never_retries [OF flaky flaky_fails, where env = demo_env and two = 2 and fifth = 0 and params = "Some []" and
      w = demo_world]
  by (simp add: demo_world_def entries_def split: prod.splits)

definition counting :: "(int, files) Executor" where
  "counting ctx w = (Returned None (Some refused_error), ctx, emit (Ran ''x'' None) w)"

theorem retry_runs_bounded_witness:
  "length (runs (snd (snd (Retry demo_env (default_retry 2 0) counting
     (Some (start_context NewEmptyRegistry None ''read_file'' flaky_tool None ''i'' 1)) demo_world)))) \<le> 2"
proof -
  have "length (runs (snd (snd (counting ctx w)))) \<le> Suc (length (runs w))" for ctx w
    by (simp add: counting_def runs_emit is_run_def)
  from retry_runs_bounded [OF this, where env = demo_env and cfg = "default_retry 2 0" and w = demo_world and
      c = "start_context NewEmptyRegistry None ''read_file'' flaky_tool None ''i'' 1"]
  show ?thesis using flaky(2) by (simp add: start_context_def demo_world_def runs_def flaky_tool_def demo_tool_def)
qed

definition wordy :: "(int, files) Executor" where
  "wordy ctx w = (Returned (Some ((failure (replicate 60 CHR ''x''))\<lparr>rs_Success := True\<rparr>)) None, ctx, w)"

lemma wordy_run: "fst (ResultSizeLimit (demo_env\<lparr>te_json := \<lambda>r. Some (length (rs_Error r))\<rparr>) 40 ''..'' wordy None demo_world) =
    Returned (Some ((failure (replicate 18 CHR ''x'' @ ''..''))\<lparr>rs_Success := True\<rparr>)) None"
  by code_simp

theorem limited_result_witness:
  "int (length (rs_Error ((failure (replicate 18 CHR ''x'' @ ''..'') :: int Result)\<lparr>rs_Success := True\<rparr>))) \<le> 20"
proof -
  have "int (length (trim_space (''output truncated'' @ ''..''))) \<le> 40 div 2" by code_simp
  moreover obtain ctx' w' where "ResultSizeLimit (demo_env\<lparr>te_json := \<lambda>r. Some (length (rs_Error r))\<rparr>) 40 ''..'' wordy None
      demo_world = (Returned (Some ((failure (replicate 18 CHR ''x'' @ ''..''))\<lparr>rs_Success := True\<rparr>)) None, ctx', w')"
    using wordy_run by (metis prod.collapse)
  ultimately show ?thesis using limited_result by (fastforce simp: wordy_def failure_def)
qed

end
