(* ===== verification/Tool_Output.thy ===== *)
theory Tool_Output
  imports Tool_Pipeline
begin

text \<open>
  What the model gets to see of a tool's result (src/pkg/tool/tool.go): the fields that matter, encoded, and when
  that is too long a shorter form with the beginning and the end of the encoding, which shrinks until it fits.

  The encoder, TOON or JSON, is an argument: it returns the encoding or the text of its error.
\<close>

type_synonym 'f encoder = "(string \<times> 'f any) list \<Rightarrow> string + string"

text \<open>\<open>utf8.RuneStart\<close>: not a continuation byte.\<close>

definition rune_start :: "char \<Rightarrow> bool" where
  "rune_start c = (let n = of_char c :: nat in n < 128 \<or> 192 \<le> n)"

fun back_to_start :: "string \<Rightarrow> nat \<Rightarrow> nat" where
  "back_to_start value 0 = 0"
| "back_to_start value (Suc n) = (if rune_start (value ! Suc n) then Suc n else back_to_start value n)"

definition modelOutputPrefix :: "string \<Rightarrow> nat \<Rightarrow> string" where
  "modelOutputPrefix value bytes = (if length value \<le> bytes then value else take (back_to_start value bytes) value)"

definition modelOutputSuffix :: "string \<Rightarrow> nat \<Rightarrow> string" where
  "modelOutputSuffix value bytes =
     (if length value \<le> bytes then value
      else dropWhile (\<lambda>c. \<not> rune_start c) (drop (length value - bytes) value))"

definition compact_payload :: "'f Result \<Rightarrow> string \<Rightarrow> nat \<Rightarrow> (string \<times> 'f any) list" where
  "compact_payload r original partBytes =
     [(''success'', VBool (rs_Success r)), (''truncated'', VBool True), (''original_bytes'', VInt (int (length original))),
      (''output_head'', VString (modelOutputPrefix original partBytes)),
      (''output_tail'', VString (modelOutputSuffix original partBytes))]
     @ (if rs_Error r \<noteq> [] then [(''error'', VString (modelOutputPrefix (rs_Error r) 512))] else [])"

text \<open>The loop; an encoding that is too long shortens both parts by half of what it is too long, at least by one
  byte, so the loop ends.\<close>

function shrink :: "'f encoder \<Rightarrow> 'f Result \<Rightarrow> nat \<Rightarrow> string \<Rightarrow> nat \<Rightarrow> string + string" where
  "shrink marshal r limit original partBytes =
     (case marshal (compact_payload r original partBytes) of
        Inl err \<Rightarrow> Inl err
      | Inr encoded \<Rightarrow>
          if length encoded \<le> limit then Inr encoded
          else if partBytes = 0
            then Inl (''model output limit '' @ itoa_nat limit @ '' too small for compact payload'')
          else shrink marshal r limit original (partBytes - (length encoded - limit + 1) div 2))"
  by pat_completeness auto
termination
  by (relation "measure (\<lambda>(_, _, _, _, partBytes). partBytes)") auto

declare shrink.simps [simp del]

definition ToModelOutputWithLimit :: "'f encoder \<Rightarrow> 'f Result option \<Rightarrow> int \<Rightarrow> string + string" where
  "ToModelOutputWithLimit marshal res limit = (case res of
     None \<Rightarrow> Inr []
   | Some r \<Rightarrow>
       let data = (if rs_ShouldAbridge r \<and> (case rs_DisplayData r of Some (_ # _) \<Rightarrow> True | _ \<Rightarrow> False)
                   then rs_DisplayData r else rs_Data r);
           payload = [(''success'', VBool (rs_Success r))]
             @ (if rs_Error r \<noteq> [] then [(''error'', VString (rs_Error r))] else [])
             @ (case data of Some (x # xs) \<Rightarrow> [(''data'', VMap (x # xs))] | _ \<Rightarrow> [])
       in case marshal payload of
            Inl err \<Rightarrow> Inl err
          | Inr encoded \<Rightarrow>
              if limit \<le> 0 \<or> int (length encoded) \<le> limit then Inr encoded
              else shrink marshal r (nat limit) encoded (nat ((limit - 1024) div 2)))"

definition ToModelOutput :: "'f encoder \<Rightarrow> 'f Result option \<Rightarrow> string + string" where
  "ToModelOutput marshal res = ToModelOutputWithLimit marshal res (24 * 1024)"

section \<open>Properties\<close>

lemma back_to_start_le: "back_to_start str n \<le> n"
  by (induction n) auto

lemma back_to_start_rune: "back_to_start str n \<noteq> 0 \<Longrightarrow> rune_start (str ! back_to_start str n)"
  by (induction n) (auto split: if_splits)

text \<open>The cut falls before a byte that begins a rune, or at the very start; the shown beginning is within the bytes
  asked for, and so is the shown end.\<close>

lemma modelOutputPrefix_cut:
  obtains k where "modelOutputPrefix str bytes = take k str" "k \<le> max bytes (length str)"
    "k = 0 \<or> k \<ge> length str \<or> rune_start (str ! k)" "length (modelOutputPrefix str bytes) \<le> bytes"
proof (cases "length str \<le> bytes")
  case True
  then show thesis using that [of "length str"] by (simp add: modelOutputPrefix_def)
next
  case False
  then show thesis
    using that [of "back_to_start str bytes"] back_to_start_le [of str bytes] back_to_start_rune [of str bytes]
    by (auto simp: modelOutputPrefix_def)
qed

lemma modelOutputSuffix_cut: "length (modelOutputSuffix str bytes) \<le> bytes"
  using length_dropWhile_le [of "\<lambda>c. \<not> rune_start c" "drop (length str - bytes) str"]
  by (auto simp: modelOutputSuffix_def)

lemma shrink_bound: "shrink marshal r limit original partBytes = Inr s \<Longrightarrow> length s \<le> limit"
proof (induction marshal r limit original partBytes rule: shrink.induct)
  case (1 marshal r limit original partBytes)
  then show ?case
    by (cases "marshal (compact_payload r original partBytes)")
      (auto simp: shrink.simps [of marshal r limit original partBytes] split: if_splits)
qed

lemma shrink_returns:
  assumes "\<And>k. \<exists>s. marshal (compact_payload r original k) = Inr s"
    "\<And>s. marshal (compact_payload r original 0) = Inr s \<Longrightarrow> length s \<le> limit"
  shows "\<exists>s. shrink marshal r limit original partBytes = Inr s"
proof (induction partBytes rule: less_induct)
  case (less n)
  obtain s where s: "marshal (compact_payload r original n) = Inr s" using assms(1) by blast
  show ?case
  proof (cases "length s \<le> limit \<or> n = 0")
    case True
    then show ?thesis using s assms(2) by (auto simp: shrink.simps [of marshal r limit original n])
  next
    case False
    then have "n - (length s - limit + 1) div 2 < n" by auto
    then show ?thesis using less s False by (simp add: shrink.simps [of marshal r limit original n])
  qed
qed

lemma output_shape:
  "\<exists>payload. ToModelOutputWithLimit marshal (Some r) limit = (case marshal payload of
     Inl err \<Rightarrow> Inl err
   | Inr encoded \<Rightarrow>
       if limit \<le> 0 \<or> int (length encoded) \<le> limit then Inr encoded
       else shrink marshal r (nat limit) encoded (nat ((limit - 1024) div 2)))"
  unfolding ToModelOutputWithLimit_def option.case Let_def by (rule exI) (rule refl)

text \<open>C28: With a positive limit the output never exceeds it.\<close>

theorem model_output_bounded:
  assumes "0 < limit" "ToModelOutputWithLimit marshal res limit = Inr s"
  shows "int (length s) \<le> limit"
proof (cases res)
  case None
  then show ?thesis using assms by (simp add: ToModelOutputWithLimit_def)
next
  case (Some r)
  then show ?thesis
    using assms output_shape [of marshal r limit] shrink_bound [of marshal r "nat limit"]
    by (force split: sum.splits if_splits)
qed

text \<open>The shrinking ends with an output whenever the encoder does not fail and the compact form without any
  excerpt fits.\<close>

theorem model_output_returns:
  assumes "\<And>p. \<exists>s. marshal p = Inr s"
    and "\<And>original s. marshal (compact_payload r original 0) = Inr s \<Longrightarrow> int (length s) \<le> limit"
  shows "\<exists>s. ToModelOutputWithLimit marshal (Some r) limit = Inr s"
proof -
  have shrinks: "\<exists>s. shrink marshal r (nat limit) original n = Inr s" for original n
    using assms(1) by (rule shrink_returns) (use assms(2) in force)
  obtain payload where shape: "ToModelOutputWithLimit marshal (Some r) limit = (case marshal payload of
     Inl err \<Rightarrow> Inl err
   | Inr encoded \<Rightarrow>
       if limit \<le> 0 \<or> int (length encoded) \<le> limit then Inr encoded
       else shrink marshal r (nat limit) encoded (nat ((limit - 1024) div 2)))"
    using output_shape by blast
  moreover obtain encoded where "marshal payload = Inr encoded" using assms(1) by blast
  ultimately show ?thesis using shrinks [of encoded "nat ((limit - 1024) div 2)"] by simp
qed

text \<open>An encoder for concrete runs: the strings of the payload, one after the other.\<close>

definition plain_encoder :: "int encoder" where
  "plain_encoder p = Inr (concat (map (\<lambda>(_, v). case v of VString s \<Rightarrow> s | VMap ((_, VString s) # _) \<Rightarrow> s | _ \<Rightarrow> ''-'') p))"

definition long_result :: "int Result" where
  "long_result = (failure [])\<lparr>rs_Success := True, rs_Data := Some [(''stdout'', VString (replicate 50 CHR ''x''))]\<rparr>"

lemma long_output: "ToModelOutputWithLimit plain_encoder (Some long_result) 20 = Inr ''---''"
  by (simp add: ToModelOutputWithLimit_def plain_encoder_def long_result_def failure_def shrink.simps compact_payload_def
      modelOutputPrefix_def modelOutputSuffix_def)

theorem model_output_bounded_witness: "int (length ''---'') \<le> 20"
  using model_output_bounded [OF _ long_output] by simp

lemma plain_compact: "plain_encoder (compact_payload long_result str 0) = Inr s \<Longrightarrow> int (length s) \<le> 20"
  using modelOutputSuffix_cut [of str 0]
  by (auto simp: plain_encoder_def compact_payload_def long_result_def failure_def modelOutputPrefix_def)

theorem model_output_returns_witness: "\<exists>s. ToModelOutputWithLimit plain_encoder (Some long_result) 20 = Inr s"
proof (rule model_output_returns)
  show "\<exists>s. plain_encoder p = Inr s" for p by (simp add: plain_encoder_def)
qed (rule plain_compact)

end
