(* ===== verification/Tool_Validation.thy ===== *)
theory Tool_Validation
  imports Tool_Pipeline
begin

text \<open>
  The path validator of the tool middleware (src/pkg/tool/middleware_validation.go, \<open>ValidatePath\<close>) with the
  part of \<open>filepath.Rel\<close> that it uses, and what it confines.
\<close>

text \<open>\<open>filepath.Rel\<close> of two absolute paths, on their pieces: what they have in common is dropped, every other piece of
  the base becomes \<open>..\<close>.\<close>

fun rel_pieces :: "string list \<Rightarrow> string list \<Rightarrow> string list" where
  "rel_pieces (p # ps) (q # qs) = (if p = q then rel_pieces ps qs else replicate (Suc (length ps)) ''..'' @ q # qs)"
| "rel_pieces ps [] = replicate (length ps) ''..''"
| "rel_pieces [] qs = qs"

definition rel_abs :: "string \<Rightarrow> string \<Rightarrow> string option" where
  "rel_abs base targ =
     (if is_abs base \<and> is_abs targ
      then Some (case rel_pieces (clean_pieces True base) (clean_pieces True targ) of
             [] \<Rightarrow> ''.''
           | ws \<Rightarrow> join_with sep ws)
      else None)"

definition join_path :: "string \<Rightarrow> string \<Rightarrow> string" where
  "join_path a b = clean (a @ sep # b)"

definition validation_base :: "string option \<Rightarrow> string \<Rightarrow> string" where
  "validation_base cwd baseDir =
     (let base = trim_space baseDir
      in if base = [] then [] else (case abs_path cwd base of Some p \<Rightarrow> p | None \<Rightarrow> base))"

definition ValidatePath :: "string option \<Rightarrow> string \<Rightarrow> 'f any \<Rightarrow> string option" where
  "ValidatePath cwd baseDir val = (case val of
     VString raw \<Rightarrow>
       let base = validation_base cwd baseDir; pathValue = trim_space raw
       in if pathValue = [] then Some ''path required''
          else if List.member pathValue (CHR 0x00) then Some ''path contains null byte''
          else
            let cleaned = clean pathValue
            in if base = [] then (if has_prefix cleaned ''..'' then Some ''path escapes base directory'' else None)
               else (case abs_path cwd (if is_abs cleaned then cleaned else join_path base cleaned) of
                  None \<Rightarrow> Some ''resolve path''
                | Some target \<Rightarrow>
                    (case rel_abs base target of
                       None \<Rightarrow> Some ''resolve path''
                     | Some rel \<Rightarrow> if has_prefix rel ''..'' then Some ''path outside base directory'' else None))
   | _ \<Rightarrow> Some ''path must be a string'')"

section \<open>What it accepts\<close>

lemma rel_pieces_prefix: "rel_pieces ps (ps @ rest) = rest"
  by (induction ps) (cases rest, auto)

lemma rel_pieces_dots: "\<not> prefix ps qs \<Longrightarrow> \<exists>ws. rel_pieces ps qs = ''..'' # ws"
  by (induction ps qs rule: rel_pieces.induct) (auto simp: neq_Nil_conv)

lemma join_dots:
  assumes "\<forall>w \<in> set ws. sep \<notin> set w" "ws \<noteq> []"
  shows "has_prefix (join_with sep ws) ''..'' \<longleftrightarrow> has_prefix (hd ws) ''..''"
proof -
  obtain w vs where ws: "ws = w # vs" using assms(2) by (cases ws) auto
  have "has_prefix (w @ sep # s) ''..'' \<longleftrightarrow> has_prefix w ''..''" for s
    by (cases w; cases "tl w") (auto simp: has_prefix_def)
  then show ?thesis using ws by (cases vs) simp_all
qed

definition inside :: "string list \<Rightarrow> string list \<Rightarrow> bool" where
  "inside bs ts = (\<exists>rest. ts = bs @ rest \<and> (rest = [] \<or> \<not> has_prefix (hd rest) ''..''))"

lemma rel_abs_inside:
  assumes "is_abs base" "is_abs target"
  shows "(\<exists>rel. rel_abs base target = Some rel \<and> \<not> has_prefix rel ''..'') \<longleftrightarrow>
    inside (clean_pieces True base) (clean_pieces True target)"
proof (cases "prefix (clean_pieces True base) (clean_pieces True target)")
  case True
  then obtain rest where rest: "clean_pieces True target = clean_pieces True base @ rest" by (auto simp: prefix_def)
  have "\<forall>w \<in> set rest. sep \<notin> set w" using clean_pieces_plain [of target] rest by (auto simp: plain_piece_def)
  moreover have "\<not> has_prefix ''.'' ''..''" by (simp add: has_prefix_def)
  ultimately show ?thesis
    using assms rest join_dots [of rest] rel_pieces_prefix [of "clean_pieces True base" "[]"]
    by (cases rest) (auto simp: rel_abs_def rel_pieces_prefix inside_def)
next
  case False
  then obtain ws where ws: "rel_pieces (clean_pieces True base) (clean_pieces True target) = ''..'' # ws"
    using rel_pieces_dots by blast
  have "has_prefix (join_with sep (''..'' # ws)) ''..''" by (cases ws) (simp_all add: has_prefix_def)
  then show ?thesis using False assms ws by (auto simp: rel_abs_def inside_def prefix_def)
qed

lemma is_abs_clean: "is_abs (clean p) \<longleftrightarrow> is_abs p"
proof (cases "is_abs p")
  case True
  then show ?thesis by (simp add: clean_abs is_abs_Cons)
next
  case False
  have "rel_stack (foldl (clean_step False) [] (split_on sep p))"
    using rel_stack_replicate [of 0] split_on_pieces [of _ sep p]
    by (intro foldl_clean_step_rel_stack) auto
  then have "\<forall>w \<in> set (clean_pieces False p). w \<noteq> [] \<and> sep \<notin> set w"
    using rel_stack_pieces by (auto simp: clean_pieces_def)
  from is_abs_join [OF this] False show ?thesis
    by (simp add: clean_def is_abs_def has_prefix_def Let_def)
qed

lemma clean_pieces_clean: "is_abs q \<Longrightarrow> clean_pieces True (clean q) = clean_pieces True q"
  by (simp add: clean_abs clean_pieces_root clean_pieces_join clean_pieces_plain)

text \<open>C30: With a base directory, a path passes exactly when it is not blank, has no null byte and its cleaned absolute
  form, taken from the base directory if it is relative, extends the base directory piece by piece; only
  a first further piece that begins with two dots is refused without need.\<close>

theorem validate_path_iff:
  assumes "cwd_ok cwd" "is_abs (validation_base cwd baseDir)"
  shows "ValidatePath cwd baseDir (VString raw) = None \<longleftrightarrow>
    (let base = validation_base cwd baseDir; p = trim_space raw
     in p \<noteq> [] \<and> CHR 0x00 \<notin> set p \<and>
        inside (clean_pieces True base)
          (clean_pieces True (if is_abs p then p else base @ sep # clean p)))"
proof -
  define base where "base = validation_base cwd baseDir"
  define p where "p = trim_space raw"
  define q where "q = (if is_abs (clean p) then clean p else join_path base (clean p))"
  have base: "is_abs base" "base \<noteq> []" using assms(2) by (auto simp: base_def is_abs_Cons)
  have joined: "is_abs (base @ sep # clean p)" using base(1) by (auto simp: is_abs_Cons)
  have q: "is_abs q" using joined by (auto simp: q_def join_path_def is_abs_clean)
  have pieces: "clean_pieces True (clean q) = clean_pieces True (if is_abs p then p else base @ sep # clean p)"
    using joined by (simp add: q_def join_path_def is_abs_clean clean_pieces_clean)
  have "ValidatePath cwd baseDir (VString raw) = None \<longleftrightarrow>
      p \<noteq> [] \<and> CHR 0x00 \<notin> set p \<and> (\<exists>rel. rel_abs base (clean q) = Some rel \<and> \<not> has_prefix rel ''..'')"
    using base(2) q by (auto simp: ValidatePath_def base_def [symmetric] p_def [symmetric] q_def [symmetric] abs_path_def Let_def
        split: option.splits)
  then show ?thesis
    using rel_abs_inside [of base "clean q"] base(1) q pieces
    by (simp add: is_abs_clean base_def [symmetric] p_def [symmetric] Let_def)
qed

text \<open>Without a base directory only a path that begins with two dots is refused: every absolute path passes.\<close>

theorem validate_path_without_base:
  assumes "trim_space baseDir = []" "is_abs (trim_space raw)" "CHR 0x00 \<notin> set (trim_space raw)"
  shows "ValidatePath cwd baseDir (VString raw) = None"
proof -
  have "\<not> has_prefix (clean (trim_space raw)) ''..''"
    using assms(2) by (simp add: clean_abs has_prefix_def)
  moreover have "trim_space raw \<noteq> []" using assms(2) by (auto simp: is_abs_Cons)
  ultimately show ?thesis using assms(1,3) by (simp add: ValidatePath_def validation_base_def)
qed

section \<open>Concrete paths\<close>

lemma validate_demo: "cwd_ok (Some ''/w'')" "is_abs (validation_base (Some ''/w'') ''src'')"
  "validation_base (Some ''/w'') ''src'' = ''/w/src''"
  "trim_space ''x/../a.go'' = ''x/../a.go''" "\<not> is_abs ''x/../a.go''"
  "clean_pieces True (''/w/src'' @ sep # clean ''x/../a.go'') = [''w'', ''src'', ''a.go'']"
  "trim_space ''../a.go'' = ''../a.go''" "\<not> is_abs ''../a.go''"
  "clean_pieces True (''/w/src'' @ sep # clean ''../a.go'') = [''w'', ''a.go'']"
  "clean_pieces True ''/w/src'' = [''w'', ''src'']" "\<not> has_prefix ''a.go'' ''..''"
  by code_simp+

theorem validate_path_iff_witness:
  "ValidatePath (Some ''/w'') ''src'' (VString ''x/../a.go'') = None \<and> ValidatePath (Some ''/w'') ''src'' (VString ''../a.go'') \<noteq> None"
  unfolding validate_path_iff [OF validate_demo(1,2)]
  by (simp only: validate_demo(3-) inside_def Let_def if_False) (simp add: validate_demo(11))

lemma absolute_demo:
  "trim_space [] = []" "is_abs (trim_space ''/etc/passwd'')" "CHR 0x00 \<notin> set (trim_space ''/etc/passwd'')"
  by code_simp+

theorem validate_path_without_base_witness: "ValidatePath None [] (VString ''/etc/passwd'') = None"
  by (rule validate_path_without_base [OF absolute_demo])

end
