(* ===== verification/Tool_Governance.thy ===== *)
theory Tool_Governance
  imports Tool_Registry "HOL-Library.Product_Lexorder"
begin

text \<open>
  Which tools an agent gets to see (src/pkg/tool/governed.go, metadata.go, filter.go, discovery.go,
  registry_openai.go) and the second, governed registry (execution.go, src/pkg/types): the permission tier
  inferred from a tool's metadata, the pool modes, the filters of skills and of the rule engine, the
  discovery of further tools.

  The rule engine is an argument: it maps a domain, a strategy and facts to its parameters or to an error,
  \<open>None\<close>.  Go maps used as sets are lists.
\<close>

section \<open>Permission tiers\<close>

datatype PermissionTier = TierReadOnly | TierWorkspaceWrite | TierShellExec | TierFullAccess

fun tier_rank :: "PermissionTier \<Rightarrow> nat" where
  "tier_rank TierReadOnly = 0"
| "tier_rank TierWorkspaceWrite = 1"
| "tier_rank TierShellExec = 2"
| "tier_rank TierFullAccess = 3"

lemma tier_rank_inj: "tier_rank a = tier_rank b \<Longrightarrow> a = b"
  by (cases a; cases b) simp_all

instantiation PermissionTier :: linorder
begin

definition less_eq_PermissionTier :: "PermissionTier \<Rightarrow> PermissionTier \<Rightarrow> bool" where
  "less_eq_PermissionTier a b = (tier_rank a \<le> tier_rank b)"

definition less_PermissionTier :: "PermissionTier \<Rightarrow> PermissionTier \<Rightarrow> bool" where
  "less_PermissionTier a b = (tier_rank a < tier_rank b)"

instance
  by standard (auto simp: less_eq_PermissionTier_def less_PermissionTier_def dest: tier_rank_inj)

end

definition permissionTierNames :: "(string \<times> PermissionTier) list" where
  "permissionTierNames = [(''read_only'', TierReadOnly), (''workspace_write'', TierWorkspaceWrite),
     (''shell_exec'', TierShellExec), (''full_access'', TierFullAccess)]"

definition PermissionTier_String :: "PermissionTier \<Rightarrow> string" where
  "PermissionTier_String t = fst (permissionTierNames ! tier_rank t)"

definition ParsePermissionTier :: "string \<Rightarrow> PermissionTier" where
  "ParsePermissionTier s = (case map_of permissionTierNames s of Some t \<Rightarrow> t | None \<Rightarrow> TierReadOnly)"

section \<open>Metadata\<close>

definition DefaultMetadata :: ToolMetadata where
  "DefaultMetadata = \<lparr>md_Category = CategoryFilesystem, md_Intent = ''Executing {tool}'', md_Summary = ''Completed {tool}'',
     md_Impact = ImpactReadOnly, md_Cost = CostFree\<rparr>"

definition name_contains :: "string \<Rightarrow> string list \<Rightarrow> bool" where
  "name_contains s substrings = list_ex (\<lambda>sub. contains (to_lower s) (to_lower sub)) substrings"

definition inferMetadata :: "string \<Rightarrow> ToolMetadata" where
  "inferMetadata name =
     (if name_contains name [''git''] then
        DefaultMetadata\<lparr>md_Category := CategoryGit, md_Intent := ''Running git operation'', md_Summary := ''Git operation completed''\<rparr>
      else if name_contains name [''test''] then
        DefaultMetadata\<lparr>md_Category := CategoryTesting, md_Intent := ''Running tests'', md_Summary := ''Tests completed''\<rparr>
      else if name_contains name [''search'', ''grep'', ''find''] then
        DefaultMetadata\<lparr>md_Category := CategoryCodebase, md_Impact := ImpactReadOnly, md_Intent := ''Searching codebase'',
          md_Summary := ''Search completed''\<rparr>
      else if name_contains name [''read'', ''list'', ''get'', ''status''] then
        DefaultMetadata\<lparr>md_Category := CategoryFilesystem, md_Impact := ImpactReadOnly, md_Intent := ''Reading file'',
          md_Summary := ''Read completed''\<rparr>
      else if name_contains name [''write'', ''patch'', ''edit''] then
        DefaultMetadata\<lparr>md_Category := CategoryFilesystem, md_Impact := ImpactModifying, md_Intent := ''Modifying file'',
          md_Summary := ''File modified''\<rparr>
      else if name_contains name [''delete'', ''remove''] then
        DefaultMetadata\<lparr>md_Category := CategoryFilesystem, md_Impact := ImpactDestructive, md_Intent := ''Deleting file'',
          md_Summary := ''File deleted''\<rparr>
      else if name_contains name [''rename'', ''extract'', ''refactor''] then
        DefaultMetadata\<lparr>md_Category := CategoryRefactoring, md_Impact := ImpactModifying, md_Intent := ''Refactoring code'',
          md_Summary := ''Refactoring completed''\<rparr>
      else if name_contains name [''generate_docstring'', ''explain''] then
        DefaultMetadata\<lparr>md_Category := CategoryDocumentation, md_Intent := ''Generating documentation'',
          md_Summary := ''Documentation generated''\<rparr>
      else if name_contains name [''analyze'', ''complexity'', ''duplicate''] then
        DefaultMetadata\<lparr>md_Category := CategoryAnalysis, md_Intent := ''Analyzing code'', md_Summary := ''Analysis completed''\<rparr>
      else if name_contains name [''buckley'', ''subagent'', ''codex'', ''claude''] then
        DefaultMetadata\<lparr>md_Category := CategoryDelegation, md_Cost := CostExpensive, md_Intent := ''Delegating to agent'',
          md_Summary := ''Agent task completed''\<rparr>
      else if name_contains name [''browse'', ''browser''] then
        DefaultMetadata\<lparr>md_Category := CategoryBrowser, md_Intent := ''Browsing URL'', md_Summary := ''Browser task completed''\<rparr>
      else if name_contains name [''shell'', ''command''] then
        DefaultMetadata\<lparr>md_Category := CategoryShell, md_Impact := ImpactDestructive, md_Intent := ''Executing shell command'',
          md_Summary := ''Command executed''\<rparr>
      else if name_contains name [''todo'', ''checkpoint''] then
        DefaultMetadata\<lparr>md_Category := CategoryPlanning, md_Intent := ''Managing tasks'', md_Summary := ''Task list updated''\<rparr>
      else DefaultMetadata)"

definition GetMetadata :: "('f, 'o) Tool \<Rightarrow> ToolMetadata" where
  "GetMetadata t = (case tl_Metadata t of Some m \<Rightarrow> m | None \<Rightarrow> inferMetadata (tl_Name t))"

definition RequiredTierForTool :: "('f, 'o) Tool \<Rightarrow> PermissionTier" where
  "RequiredTierForTool t =
     (let meta = GetMetadata t
      in if md_Impact meta = ImpactDestructive then TierShellExec
         else if List.member [CategoryShell, CategoryBrowser, CategoryDelegation] (md_Category meta) then TierShellExec
         else if md_Impact meta = ImpactModifying then TierWorkspaceWrite
         else TierReadOnly)"

definition RequiredTier :: "string \<Rightarrow> ('f, 'o) Registry \<Rightarrow> PermissionTier" where
  "RequiredTier name r = (case Get name r of None \<Rightarrow> TierReadOnly | Some t \<Rightarrow> RequiredTierForTool t)"

section \<open>The governed tool list\<close>

definition matchesPoolMode :: "('f, 'o) Tool \<Rightarrow> string \<Rightarrow> bool" where
  "matchesPoolMode t rawMode =
     (let mode = to_lower (trim_space rawMode); meta = GetMetadata t
      in if mode = [] \<or> mode = ''full'' then True
         else if mode = ''read_only'' then RequiredTierForTool t = TierReadOnly
         else if mode = ''standard'' then
           md_Impact meta \<noteq> ImpactDestructive \<and> md_Category meta \<noteq> CategoryDelegation \<and> md_Category meta \<noteq> CategoryBrowser
         else if mode = ''simple'' then
           RequiredTierForTool t = TierReadOnly \<or>
           List.member [CategoryFilesystem, CategoryCodebase, CategoryRefactoring, CategoryAnalysis, CategoryTesting,
             CategoryDocumentation, CategoryPlanning, CategoryShell] (md_Category meta)
         else True)"

type_synonym 'f RuleEvaluator = "string \<Rightarrow> string \<Rightarrow> (string \<times> 'f any) list \<Rightarrow> 'f params option"

definition strategy_string :: "'f params \<Rightarrow> string \<Rightarrow> string" where
  "strategy_string ps key = (case param_string ps key of Some s \<Rightarrow> s | None \<Rightarrow> [])"

definition trimmed_items :: "string list \<Rightarrow> string list" where
  "trimmed_items xs = filter (\<lambda>s. s \<noteq> []) (map trim_space xs)"

definition pool_policy :: "'f params option \<Rightarrow> string \<times> string list" where
  "pool_policy answer = (case answer of
     None \<Rightarrow> (''full'', [])
   | Some ps \<Rightarrow>
       let resolvedMode = trim_space (strategy_string ps ''mode'')
       in (if resolvedMode \<noteq> [] then resolvedMode else ''full'',
           trimmed_items (split_on (CHR '','') (strategy_string ps ''exclude_tools''))))"

definition GovernedToolNames ::
  "('f, 'o) Registry \<Rightarrow> 'f RuleEvaluator option \<Rightarrow> string \<Rightarrow> string \<Rightarrow> string list option \<Rightarrow> 'f \<Rightarrow> string list" where
  "GovernedToolNames r evaluator role taskType baseAllowed budgetUtil =
     (let allowed = trimmed_items (case baseAllowed of None \<Rightarrow> [] | Some xs \<Rightarrow> xs);
          (mode, excluded) = pool_policy (case evaluator of
             None \<Rightarrow> None
           | Some eval \<Rightarrow> eval ''runtime/concurrency'' ''pool_policy''
               [(''role'', VString role), (''task_type'', VString taskType), (''budget_util'', VFloat budgetUtil)])
      in if baseAllowed \<noteq> None \<and> allowed = [] then []
         else sort (map (\<lambda>t. trim_space (tl_Name t))
           (filter (\<lambda>t. let name = trim_space (tl_Name t)
              in name \<noteq> [] \<and> (baseAllowed \<noteq> None \<longrightarrow> List.member allowed name) \<and> \<not> List.member excluded name \<and>
                 matchesPoolMode t mode) (snapshotTools r))))"

definition IsToolAllowed :: "string \<Rightarrow> string list option \<Rightarrow> bool" where
  "IsToolAllowed name names = (case names of
     None \<Rightarrow> True
   | Some xs \<Rightarrow> list_ex (\<lambda>a. trim_space name = trim_space a) xs)"

text \<open>The functions handed to the model, by the names of their tools.\<close>

definition ToOpenAIFunctionsFiltered :: "('f, 'o) Registry \<Rightarrow> string list option \<Rightarrow> string list" where
  "ToOpenAIFunctionsFiltered r names =
     map tl_Name (filter (\<lambda>t. IsToolAllowed (tl_Name t) names) (snapshotTools r))"

definition filterDiscoveredToolNames :: "('f, 'o) Registry \<Rightarrow> string list \<Rightarrow> string list" where
  "filterDiscoveredToolNames r governed =
     (if \<not> rg_discoveryEnabled r then governed
      else filter (\<lambda>name. List.member (rg_discoveryExposed r) name) governed)"

definition ToOpenAIFunctionsGoverned ::
  "('f, 'o) Registry \<Rightarrow> 'f RuleEvaluator option \<Rightarrow> string \<Rightarrow> string \<Rightarrow> string list option \<Rightarrow> 'f \<Rightarrow> string list" where
  "ToOpenAIFunctionsGoverned r evaluator role taskType baseAllowed budgetUtil =
     ToOpenAIFunctionsFiltered r (Some (filterDiscoveredToolNames r
       (GovernedToolNames r evaluator role taskType baseAllowed budgetUtil)))"

section \<open>Discovery\<close>

definition DefaultDiscoveryTools :: "string list" where
  "DefaultDiscoveryTools = [''discover_tools'', ''read_file'', ''search_text'', ''find_files'', ''run_shell'', ''write_file'',
     ''patch_file'', ''run_tests'', ''activate_skill'', ''compact_context'']"

text \<open>\<open>discovery\<close> is the tool \<open>discover_tools\<close> itself; what it does is \<open>DiscoveryTool_Execute\<close> below.\<close>

definition EnableDynamicDiscovery :: "string list option \<Rightarrow> ('f, 'o) Tool \<Rightarrow> ('f, 'o) Registry \<Rightarrow> ('f, 'o) Registry" where
  "EnableDynamicDiscovery core discovery r =
     (let names = trimmed_items (case core of None \<Rightarrow> DefaultDiscoveryTools | Some xs \<Rightarrow> xs)
      in r\<lparr>rg_discoveryEnabled := True, rg_discoveryCore := names @ [''discover_tools''],
           rg_discoveryExposed := names @ [''discover_tools''],
           rg_tools := AList.update ''discover_tools'' discovery (rg_tools r)\<rparr>)"

definition exposeTools :: "string list \<Rightarrow> ('f, 'o) Registry \<Rightarrow> ('f, 'o) Registry" where
  "exposeTools names r =
     r\<lparr>rg_discoveryExposed := rg_discoveryCore r @ filter (\<lambda>name. Get name r \<noteq> None) names\<rparr>"

text \<open>\<open>strings.FieldsFunc\<close> with the separators of \<open>discoveryTerms\<close>; bytes from 128 on count as letters.\<close>

definition term_char :: "char \<Rightarrow> bool" where
  "term_char c = (let n = of_char c :: nat
     in (48 \<le> n \<and> n \<le> 57) \<or> (65 \<le> n \<and> n \<le> 90) \<or> (97 \<le> n \<and> n \<le> 122) \<or> n = 95 \<or> 128 \<le> n)"

fun fields_func :: "(char \<Rightarrow> bool) \<Rightarrow> string \<Rightarrow> string \<Rightarrow> string list" where
  "fields_func keep cur [] = (if cur = [] then [] else [rev cur])"
| "fields_func keep cur (x # s) =
     (if keep x then fields_func keep (x # cur) s
      else if cur = [] then fields_func keep [] s else rev cur # fields_func keep [] s)"

definition discoveryTerms :: "string \<Rightarrow> string list" where
  "discoveryTerms query = fields_func term_char [] (to_lower query)"

fun Category_name :: "Category \<Rightarrow> string" where
  "Category_name CategoryCodebase = ''codebase''"
| "Category_name CategoryGit = ''git''"
| "Category_name CategoryTesting = ''testing''"
| "Category_name CategoryFilesystem = ''filesystem''"
| "Category_name CategoryRefactoring = ''refactoring''"
| "Category_name CategoryDocumentation = ''documentation''"
| "Category_name CategoryAnalysis = ''analysis''"
| "Category_name CategoryDelegation = ''delegation''"
| "Category_name CategoryBrowser = ''browser''"
| "Category_name CategoryShell = ''shell''"
| "Category_name CategoryPlanning = ''planning''"

definition match_score :: "string list \<Rightarrow> string list \<Rightarrow> ('f, 'o) Tool \<Rightarrow> int" where
  "match_score terms exact t =
     (let name = to_lower (tl_Name t);
          haystack = name @ '' '' @ to_lower (tl_Description t) @ '' '' @ Category_name (md_Category (GetMetadata t))
      in (if List.member (map (\<lambda>e. to_lower (trim_space e)) exact) name then 1000 else 0) +
         sum_list (map (\<lambda>s. if name = s then 100 else if contains name s then 25 else if contains haystack s then 5 else 0) terms))"

definition find_tools :: "('f, 'o) Registry \<Rightarrow> string \<Rightarrow> string list \<Rightarrow> ('f, 'o) Tool list" where
  "find_tools r query exact =
     (let terms = discoveryTerms query
      in sort_key (\<lambda>t. (- match_score terms exact t, tl_Name t))
           (filter (\<lambda>t. tl_Name t \<noteq> ''discover_tools'' \<and> 0 < match_score terms exact t) (snapshotTools r)))"

definition stringSlice :: "'f any option \<Rightarrow> string list" where
  "stringSlice v = (case v of
     Some (VList vs) \<Rightarrow> List.map_filter (\<lambda>x. case x of VString s \<Rightarrow> if trim_space s \<noteq> [] then Some s else None | _ \<Rightarrow> None) vs
   | Some (VStrings xs) \<Rightarrow> xs
   | _ \<Rightarrow> [])"

definition intParam :: "'f float_ops \<Rightarrow> 'f any option \<Rightarrow> int \<Rightarrow> int" where
  "intParam fo v fallback = (case v of Some (VInt n) \<Rightarrow> n | Some (VFloat x) \<Rightarrow> f_to_int fo x | _ \<Rightarrow> fallback)"

definition discovery_limit :: "'f float_ops \<Rightarrow> 'f params \<Rightarrow> nat" where
  "discovery_limit fo params =
     (let limit = intParam fo (param params ''limit'') 5
      in nat (if limit < 1 then 1 else if 12 < limit then 12 else limit))"

definition DiscoveryTool_Execute ::
  "'f float_ops \<Rightarrow> 'f params \<Rightarrow> ('f, 'o) Registry \<Rightarrow> 'f Result \<times> ('f, 'o) Registry" where
  "DiscoveryTool_Execute fo params r =
     (let query = (case param_string params ''query'' of Some s \<Rightarrow> s | None \<Rightarrow> []);
          matches = take (discovery_limit fo params) (find_tools r query (stringSlice (param params ''names'')));
          items = map (\<lambda>t. VMap [(''name'', VString (tl_Name t)), (''description'', VString (tl_Description t))]) matches;
          r1 = exposeTools (map tl_Name matches) r
      in if items = [] then (failure ''no matching tools found'', r1)
         else ((failure [])\<lparr>rs_Success := True, rs_Data := Some [(''enabled'', VList items),
                 (''hint'', VString ''The enabled tool schemas will be available on the next model turn.'')]\<rparr>, r1))"

section \<open>The governed execution registry\<close>

record 'x Executable =
  xe_Name :: string
  xe_RequiredTier :: PermissionTier
  xe_Execute :: "go_duration \<Rightarrow> 'x"

datatype exec_error = ExecutableNotFound string | PermissionDenied string string

record EscalationOutcome =
  eo_Granted :: bool
  eo_AuditNote :: string

record ('f, 'x) ExecutionRegistry =
  xr_executables :: "(string \<times> 'x Executable) list"
  xr_evaluator :: "'f RuleEvaluator option"
  xr_escalator :: "(string \<Rightarrow> PermissionTier \<Rightarrow> string \<Rightarrow> EscalationOutcome) option"

definition ExecutionRegistry_Register :: "'x Executable \<Rightarrow> ('f, 'x) ExecutionRegistry \<Rightarrow> ('f, 'x) ExecutionRegistry" where
  "ExecutionRegistry_Register exec r = r\<lparr>xr_executables := AList.update (xe_Name exec) exec (xr_executables r)\<rparr>"

definition resolveTimeout :: "'f float_ops \<Rightarrow> ('f, 'x) ExecutionRegistry \<Rightarrow> string \<Rightarrow> string \<Rightarrow> go_duration" where
  "resolveTimeout fo r tool role =
     (case xr_evaluator r of
        None \<Rightarrow> 2 * minute
      | Some eval \<Rightarrow>
          (case eval ''runtime/timeouts'' ''timeout_policy'' [(''tool'', VString tool), (''role'', VString role)] of
             None \<Rightarrow> 2 * minute
           | Some ps \<Rightarrow>
               let seconds = (case param ps ''timeout_seconds'' of Some (VFloat x) \<Rightarrow> f_to_int fo x | _ \<Rightarrow> 0)
               in if seconds \<le> 0 then 2 * minute else seconds * second))"

text \<open>\<open>Execute\<close>: the executable runs with a context that ends after the resolved timeout.  The error of the
  escalator is not looked at.\<close>

definition ExecutionRegistry_Execute ::
  "'f float_ops \<Rightarrow> ('f, 'x) ExecutionRegistry \<Rightarrow> string \<Rightarrow> string \<Rightarrow> exec_error + 'x" where
  "ExecutionRegistry_Execute fo r name role =
     (case map_of (xr_executables r) name of
        None \<Rightarrow> Inl (ExecutableNotFound name)
      | Some exec \<Rightarrow>
          let timeout = resolveTimeout fo r name role
          in case xr_escalator r of
               None \<Rightarrow> Inr (xe_Execute exec timeout)
             | Some decide \<Rightarrow>
                 let verdict = decide name (xe_RequiredTier exec) role
                 in if \<not> eo_Granted verdict then Inl (PermissionDenied name (eo_AuditNote verdict))
                    else Inr (xe_Execute exec timeout))"

datatype PoolMode = PoolFull | PoolStandard | PoolSimple | PoolReadOnly

record PoolConfig =
  pl_Mode :: PoolMode
  pl_IncludeMCP :: bool
  pl_ExcludeTools :: "string list"

definition FilterTo :: "PoolConfig \<Rightarrow> ('f, 'x) ExecutionRegistry \<Rightarrow> (string \<times> 'x Executable) list" where
  "FilterTo config r = filter (\<lambda>(name, _). \<not> List.member (pl_ExcludeTools config) name) (xr_executables r)"

definition AssemblePool ::
  "('f, 'x) ExecutionRegistry \<Rightarrow> 'f RuleEvaluator option \<Rightarrow> string \<Rightarrow> string \<Rightarrow> (string \<times> 'x Executable) list" where
  "AssemblePool r evaluator role taskType =
     (let readOnly = \<lparr>pl_Mode = PoolReadOnly, pl_IncludeMCP = False, pl_ExcludeTools = []\<rparr>
      in case evaluator of
           None \<Rightarrow> FilterTo readOnly r
         | Some eval \<Rightarrow>
             (case eval ''runtime/concurrency'' ''pool_policy'' [(''role'', VString role), (''task_type'', VString taskType)] of
                None \<Rightarrow> FilterTo readOnly r
              | Some ps \<Rightarrow>
                  FilterTo \<lparr>pl_Mode = PoolFull, pl_IncludeMCP = (case param ps ''include_mcp'' of Some (VBool b) \<Rightarrow> b | _ \<Rightarrow> False),
                     pl_ExcludeTools = trimmed_items (split_on (CHR '','') (strategy_string ps ''exclude_tools''))\<rparr> r))"

definition pool_has :: "string \<Rightarrow> (string \<times> 'x Executable) list \<Rightarrow> bool" where
  "pool_has name pool = (map_of pool name \<noteq> None)"

section \<open>Properties of the tool list\<close>

lemma tier_roundtrip: "ParsePermissionTier (PermissionTier_String t) = t"
  by (cases t) (simp_all add: ParsePermissionTier_def PermissionTier_String_def permissionTierNames_def)

lemma trimmed_items_set: "set (trimmed_items xs) = trim_space ` set xs - {[]}"
  by (auto simp: trimmed_items_def)

lemma snapshot_set [simp]: "set (snapshotTools r) = snd ` set (rg_tools r)"
  by (simp add: snapshotTools_def)

definition governed_policy :: "'f RuleEvaluator option \<Rightarrow> string \<Rightarrow> string \<Rightarrow> 'f \<Rightarrow> string \<times> string list" where
  "governed_policy evaluator role taskType budgetUtil = pool_policy (case evaluator of
     None \<Rightarrow> None
   | Some eval \<Rightarrow> eval ''runtime/concurrency'' ''pool_policy''
       [(''role'', VString role), (''task_type'', VString taskType), (''budget_util'', VFloat budgetUtil)])"

text \<open>The governed names are sorted and are exactly those of the registered tools that the skill allows, the rules do
  not exclude and the pool mode admits.\<close>

theorem governed_names_iff:
  "sorted (GovernedToolNames r evaluator role taskType baseAllowed budgetUtil) \<and>
   (name \<in> set (GovernedToolNames r evaluator role taskType baseAllowed budgetUtil) \<longleftrightarrow>
    name \<noteq> [] \<and> name \<notin> set (snd (governed_policy evaluator role taskType budgetUtil)) \<and>
    (case baseAllowed of None \<Rightarrow> True | Some xs \<Rightarrow> name \<in> trim_space ` set xs) \<and>
    (\<exists>t \<in> snd ` set (rg_tools r). trim_space (tl_Name t) = name \<and>
       matchesPoolMode t (fst (governed_policy evaluator role taskType budgetUtil))))"
proof -
  define names where "names = GovernedToolNames r evaluator role taskType baseAllowed budgetUtil"
  define allowed where "allowed = trimmed_items (case baseAllowed of None \<Rightarrow> [] | Some xs \<Rightarrow> xs)"
  obtain mode excluded where policy: "governed_policy evaluator role taskType budgetUtil = (mode, excluded)" by fastforce
  define keep where "keep t = (let n = trim_space (tl_Name t) in n \<noteq> [] \<and> (baseAllowed \<noteq> None \<longrightarrow> List.member allowed n) \<and>
    \<not> List.member excluded n \<and> matchesPoolMode t mode)" for t :: "('a, 'b) Tool"
  have names: "names = (if baseAllowed \<noteq> None \<and> allowed = [] then []
      else sort (map (\<lambda>t. trim_space (tl_Name t)) (filter keep (snapshotTools r))))"
    using policy by (simp add: names_def GovernedToolNames_def governed_policy_def allowed_def keep_def [abs_def])
  have "name \<in> set names \<longleftrightarrow> \<not> (baseAllowed \<noteq> None \<and> allowed = []) \<and>
      (\<exists>t \<in> snd ` set (rg_tools r). trim_space (tl_Name t) = name \<and> keep t)"
    by (auto simp: names)
  moreover have "set allowed = (case baseAllowed of None \<Rightarrow> {} | Some xs \<Rightarrow> trim_space ` set xs - {[]})"
    by (simp add: allowed_def trimmed_items_set split: option.split)
  ultimately show ?thesis
    unfolding names_def [symmetric] policy fst_conv snd_conv
    by (auto simp: names keep_def Let_def split: option.splits)
qed

lemma filter_discovered_sub:
  "name \<in> set (filterDiscoveredToolNames r governed) \<longleftrightarrow>
   name \<in> set governed \<and> (rg_discoveryEnabled r \<longrightarrow> name \<in> set (rg_discoveryExposed r))"
  by (simp add: filterDiscoveredToolNames_def)

text \<open>What the model is offered: registered tools only, governed ones only, and of these, with discovery on, the
  exposed ones only.\<close>

theorem offered_tools_governed:
  "name \<in> set (ToOpenAIFunctionsGoverned r evaluator role taskType baseAllowed budgetUtil) \<longleftrightarrow>
   (\<exists>t \<in> snd ` set (rg_tools r). tl_Name t = name) \<and>
   trim_space name \<in> trim_space ` set (filterDiscoveredToolNames r
     (GovernedToolNames r evaluator role taskType baseAllowed budgetUtil))"
  by (auto simp: ToOpenAIFunctionsGoverned_def ToOpenAIFunctionsFiltered_def IsToolAllowed_def list_ex_iff image_iff) 

section \<open>Pool modes\<close>

lemma mode_names: "to_lower (trim_space ''read_only'') = ''read_only''" "to_lower (trim_space ''standard'') = ''standard''"
  "to_lower (trim_space ''simple'') = ''simple''" "to_lower (trim_space ''full'') = ''full''"
  by code_simp+

text \<open>What the mode \<open>read_only\<close> admits, every other mode admits as well.\<close>

theorem read_only_mode_smallest:
  assumes "matchesPoolMode t ''read_only''"
  shows "matchesPoolMode t mode"
  using assms
  by (auto simp: matchesPoolMode_def mode_names RequiredTierForTool_def Let_def split: if_splits)

definition unlisted_writers :: "string list" where
  "unlisted_writers = [''insert_text'', ''search_replace'']"

text \<open>No built-in tool carries metadata, so the tier comes from the tool's name, and \<open>insert_text\<close> and
  \<open>search_replace\<close>, which write files, pass for read-only: the first contains none of the words looked for,
  the second contains \<open>search\<close>.  The mode \<open>read_only\<close> offers both to the model.\<close>

theorem read_only_mode_admits_writers:
  assumes "tl_Metadata t = None" "tl_Name t \<in> set unlisted_writers"
  shows "matchesPoolMode t ''read_only'' \<and> RequiredTierForTool t = TierReadOnly \<and> isMutatingTool (tl_Name t)"
proof -
  have "md_Impact (inferMetadata n) = ImpactReadOnly \<and> md_Category (inferMetadata n) \<in> {CategoryFilesystem, CategoryCodebase} \<and>
      isMutatingTool n" if "n \<in> set unlisted_writers" for n
    using that unfolding unlisted_writers_def by (simp, elim disjE) (simp_all, code_simp+)
  from this [OF assms(2)] show ?thesis
    using assms(1) by (auto simp: matchesPoolMode_def mode_names RequiredTierForTool_def GetMetadata_def Let_def)
qed

text \<open>A pool mode that is none of the four names admits every tool.\<close>

theorem unknown_mode_admits_all:
  assumes "to_lower (trim_space mode) \<notin> {''read_only'', ''standard'', ''simple''}"
  shows "matchesPoolMode t mode"
  using assms by (simp add: matchesPoolMode_def Let_def)

text \<open>\<open>AssemblePool\<close> asks for a read-only pool when there is no rule engine or the rules fail, but \<open>FilterTo\<close> does not
  look at the mode: the pool has every executable of the registry.\<close>

theorem read_only_pool_is_full:
  assumes "case evaluator of None \<Rightarrow> True
    | Some eval \<Rightarrow> eval ''runtime/concurrency'' ''pool_policy'' [(''role'', VString role), (''task_type'', VString taskType)] = None"
  shows "AssemblePool r evaluator role taskType = xr_executables r"
  using assms by (auto simp: AssemblePool_def FilterTo_def split: option.splits)

section \<open>The working set of discovery\<close>

text \<open>What may happen to the registry while a session uses discovery.\<close>

inductive discovery_step :: "'f float_ops \<Rightarrow> ('f, 'o) Registry \<Rightarrow> ('f, 'o) Registry \<Rightarrow> bool" for fo where
  discover: "discovery_step fo r (snd (DiscoveryTool_Execute fo params r))"
| add: "discovery_step fo r (Register t r)"
| removal: "discovery_step fo r (Remove name r)"
| enable: "discovery_step fo r (EnableDynamicDiscovery core discovery r)"

inductive_cases discovery_stepE: "discovery_step fo r r'"

definition working_set_ok :: "('f, 'o) Registry \<Rightarrow> bool" where
  "working_set_ok r =
     (rg_discoveryEnabled r \<and> ''discover_tools'' \<in> set (rg_discoveryCore r) \<and>
      set (rg_discoveryCore r) \<subseteq> set (rg_discoveryExposed r) \<and>
      length (rg_discoveryExposed r) \<le> length (rg_discoveryCore r) + 12)"

lemma discovery_limit_le: "discovery_limit fo params \<le> 12"
  by (auto simp: discovery_limit_def Let_def)

lemma discovered_registry:
  "\<exists>names. snd (DiscoveryTool_Execute fo params r) = exposeTools names r \<and> length names \<le> 12"
proof -
  have "length (take (discovery_limit fo params) xs) \<le> 12" for xs :: "('a, 'b) Tool list"
    using discovery_limit_le [of fo params] by simp
  then show ?thesis
    by (intro exI [of _ "map tl_Name (take (discovery_limit fo params) (find_tools r
      (case param_string params ''query'' of Some s \<Rightarrow> s | None \<Rightarrow> []) (stringSlice (param params ''names''))))"])
      (simp add: DiscoveryTool_Execute_def Let_def)
qed

lemma exposeTools_ok:
  assumes "working_set_ok r" "length names \<le> 12"
  shows "working_set_ok (exposeTools names r)"
  using assms order_trans [OF length_filter_le assms(2)]
  by (auto simp: working_set_ok_def exposeTools_def)

lemma enabled_ok: "working_set_ok (EnableDynamicDiscovery core tool r)"
  by (simp add: working_set_ok_def EnableDynamicDiscovery_def Let_def)

lemma discovery_step_ok: "working_set_ok r \<Longrightarrow> discovery_step fo r r' \<Longrightarrow> working_set_ok r'"
proof (erule discovery_stepE)
  fix params
  assume "working_set_ok r" "r' = snd (DiscoveryTool_Execute fo params r)"
  then show "working_set_ok r'" using discovered_registry [of fo params r] exposeTools_ok by metis
qed (simp_all add: enabled_ok, simp_all add: working_set_ok_def Register_def Remove_def)

interpretation discovery: transition_system
  "\<lambda>r. \<exists>core tool r0. r = EnableDynamicDiscovery core tool r0" "discovery_step fo" working_set_ok
  by unfold_locales
    (auto simp: enabled_ok intro: discovery_step_ok)

text \<open>C31: Once discovery is enabled, through any sequence of discoveries, registrations and removals, the core tools stay
  exposed, \<open>discover_tools\<close> among them, and at most twelve names more: the schemas sent to the model do not
  grow with use.\<close>

theorem discovery_working_set:
  assumes "(discovery_step fo)\<^sup>*\<^sup>* (EnableDynamicDiscovery core tool r0) r"
  shows "rg_discoveryEnabled r \<and> ''discover_tools'' \<in> set (rg_discoveryExposed r) \<and>
    set (rg_discoveryCore r) \<subseteq> set (rg_discoveryExposed r) \<and>
    length (rg_discoveryExposed r) \<le> length (rg_discoveryCore r) + 12"
proof -
  have "working_set_ok r" by (rule discovery.reachable_inv [OF _ assms]) blast
  then show ?thesis by (auto simp: working_set_ok_def)
qed

section \<open>Concrete tools\<close>

definition named_tool :: "string \<Rightarrow> (int, unit) Tool" where
  "named_tool name = \<lparr>tl_Name = name, tl_Description = ''a tool'', tl_Metadata = None, tl_ContextTool = False,
     tl_run = (\<lambda>_ _ _ out. (Returned None None, 0, out))\<rparr>"

definition three_tools :: "(int, unit) Registry" where
  "three_tools = Register (named_tool ''git_log'') (Register (named_tool ''git_blame'') (Register (named_tool ''read_file'') NewEmptyRegistry))"

definition seek_git :: "int params" where
  "seek_git = Some [(''query'', VString ''Git history'')]"

lemma sought: "(discovery_step int_floats)\<^sup>*\<^sup>* (EnableDynamicDiscovery (Some [''read_file'']) (named_tool ''discover_tools'') three_tools)
    (snd (DiscoveryTool_Execute int_floats seek_git (EnableDynamicDiscovery (Some [''read_file'']) (named_tool ''discover_tools'') three_tools)))"
  by (meson discovery_step.discover r_into_rtranclp)

theorem discovery_working_set_witness:
  "rg_discoveryEnabled (snd (DiscoveryTool_Execute int_floats seek_git
     (EnableDynamicDiscovery (Some [''read_file'']) (named_tool ''discover_tools'') three_tools)))"
  using discovery_working_set [OF sought] by blast

lemma read_file_mode: "matchesPoolMode (named_tool ''read_file'') ''read_only''"
  by code_simp

theorem read_only_mode_smallest_witness: "matchesPoolMode (named_tool ''read_file'') ''simple''"
  by (rule read_only_mode_smallest [OF read_file_mode])

lemma writer_named: "tl_Metadata (named_tool ''search_replace'') = None" "tl_Name (named_tool ''search_replace'') \<in> set unlisted_writers"
  by (simp_all add: named_tool_def unlisted_writers_def)

theorem read_only_mode_admits_writers_witness: "matchesPoolMode (named_tool ''search_replace'') ''read_only''"
  using read_only_mode_admits_writers [OF writer_named] by blast

lemma typo_mode: "to_lower (trim_space ''readonly'') \<notin> {''read_only'', ''standard'', ''simple''}"
  by code_simp

theorem unknown_mode_admits_all_witness: "matchesPoolMode (named_tool ''run_shell'') ''readonly''"
  by (rule unknown_mode_admits_all [OF typo_mode])

definition shell_executable :: "nat Executable" where
  "shell_executable = \<lparr>xe_Name = ''run_shell'', xe_RequiredTier = TierShellExec, xe_Execute = (\<lambda>_. 0)\<rparr>"

definition one_executable :: "(int, nat) ExecutionRegistry" where
  "one_executable = ExecutionRegistry_Register shell_executable \<lparr>xr_executables = [], xr_evaluator = None, xr_escalator = None\<rparr>"

theorem read_only_pool_is_full_witness:
  "AssemblePool one_executable None ''reviewer'' ''review'' = xr_executables one_executable"
  by (rule read_only_pool_is_full) simp

end
