(* ===== verification/Commuting_Steps.thy ===== *)
theory Commuting_Steps
  imports "HOL-Library.Multiset"
begin

text \<open>
  Steps on a shared state that commute. Each item of a list does one step, which reads and changes the state and leaves a
  record. Two runs of the same items, in two orders, leave the same records and equivalent states when the items whose steps do
  not commute come in the same order in both.
\<close>

fun run_seq :: "('a \<Rightarrow> 'w \<Rightarrow> 'r \<times> 'w) \<Rightarrow> 'a list \<Rightarrow> 'w \<Rightarrow> ('a \<times> 'r) list \<times> 'w" where
  "run_seq f [] w = ([], w)"
| "run_seq f (x # xs) w = (let (r, w1) = f x w; (rs, w2) = run_seq f xs w1 in ((x, r) # rs, w2))"

lemma run_seq_append:
  "run_seq f (xs @ ys) w = (let (rs, w1) = run_seq f xs w; (ss, w2) = run_seq f ys w1 in (rs @ ss, w2))"
  by (induction xs arbitrary: w) (simp_all add: split_def Let_def)

lemma run_seq_items: "map fst (fst (run_seq f xs w)) = xs"
  by (induction xs arbitrary: w) (simp_all add: split_def Let_def)

lemma run_seq_results: "(x, r) \<in> set (fst (run_seq f xs w)) \<Longrightarrow> \<exists>w'. r = fst (f x w')"
  by (induction xs arbitrary: w) (auto simp: split_def Let_def)

text \<open>Equivalent outcomes: the same records, in any order, and equivalent states.\<close>

definition alike :: "('w \<Rightarrow> 'w \<Rightarrow> bool) \<Rightarrow> 'r list \<times> 'w \<Rightarrow> 'r list \<times> 'w \<Rightarrow> bool" where
  "alike same a b = (mset (fst a) = mset (fst b) \<and> same (snd a) (snd b))"

definition steps_respect :: "('w \<Rightarrow> 'w \<Rightarrow> bool) \<Rightarrow> ('a \<Rightarrow> 'w \<Rightarrow> 'r \<times> 'w) \<Rightarrow> 'a set \<Rightarrow> bool" where
  "steps_respect same f A = (\<forall>x \<in> A. \<forall>w w'. same w w' \<longrightarrow> fst (f x w) = fst (f x w') \<and> same (snd (f x w)) (snd (f x w')))"

definition commute :: "('w \<Rightarrow> 'w \<Rightarrow> bool) \<Rightarrow> ('a \<Rightarrow> 'w \<Rightarrow> 'r \<times> 'w) \<Rightarrow> 'a \<Rightarrow> 'a \<Rightarrow> bool" where
  "commute same f x y = (\<forall>w. alike same (run_seq f [x, y] w) (run_seq f [y, x] w))"

lemma alike_trans: "equivp same \<Longrightarrow> alike same a b \<Longrightarrow> alike same b c \<Longrightarrow> alike same a c"
  by (auto simp: alike_def dest: equivp_transp)

lemma run_seq_respects:
  assumes "steps_respect same f A" "set xs \<subseteq> A" "same w w'"
  shows "fst (run_seq f xs w) = fst (run_seq f xs w') \<and> same (snd (run_seq f xs w)) (snd (run_seq f xs w'))"
  using assms(2-)
proof (induction xs arbitrary: w w')
  case (Cons x xs)
  have "fst (f x w) = fst (f x w')" "same (snd (f x w)) (snd (f x w'))"
    using assms(1) Cons.prems by (auto simp: steps_respect_def)
  then show ?case using Cons.IH [of "snd (f x w)" "snd (f x w')"] Cons.prems by (simp add: split_def Let_def)
qed simp

lemma alike_append:
  assumes "steps_respect same f A" "set ys \<subseteq> A" "alike same (run_seq f xs w) (run_seq f xs' w')"
  shows "alike same (run_seq f (xs @ ys) w) (run_seq f (xs' @ ys) w')"
  using run_seq_respects [OF assms(1,2), of "snd (run_seq f xs w)" "snd (run_seq f xs' w')"] assms(3)
  by (simp add: run_seq_append split_def Let_def alike_def)

lemma alike_Cons:
  "alike same (run_seq f xs (snd (f x w))) (run_seq f ys (snd (f x w))) \<Longrightarrow> alike same (run_seq f (x # xs) w) (run_seq f (x # ys) w)"
  by (simp add: split_def Let_def alike_def)

text \<open>An item moves to the front past items that its step commutes with.\<close>

lemma move_front:
  assumes "equivp same" "steps_respect same f A" "x \<in> A" "set xs \<subseteq> A" "\<forall>y \<in> set xs. commute same f y x"
  shows "alike same (run_seq f (xs @ [x]) w) (run_seq f (x # xs) w)"
  using assms(4,5)
proof (induction xs arbitrary: w)
  case Nil
  then show ?case using assms(1) by (simp add: alike_def split_def Let_def equivp_reflp)
next
  case (Cons y ys)
  have "alike same (run_seq f (y # (ys @ [x])) w) (run_seq f (y # x # ys) w)"
    by (rule alike_Cons) (use Cons in auto)
  moreover have "alike same (run_seq f ([y, x] @ ys) w) (run_seq f ([x, y] @ ys) w)"
    by (rule alike_append [OF assms(2)]) (use Cons in \<open>auto simp: commute_def\<close>)
  ultimately show ?case using alike_trans [OF assms(1)] by fastforce
qed

theorem reorder:
  assumes "equivp same" "steps_respect same f A" "set xs \<subseteq> A" "mset ys = mset xs"
    and "sorted_wrt (\<lambda>x y. before x y) xs"
    and "sorted_wrt (\<lambda>x y. before y x \<longrightarrow> commute same f x y) ys"
  shows "alike same (run_seq f ys w) (run_seq f xs w)"
  using assms(3-6)
proof (induction xs arbitrary: ys w)
  case Nil
  then show ?case using assms(1) by (simp add: alike_def equivp_reflp)
next
  case (Cons x xs)
  have "x \<in> set ys" using Cons.prems(2) by (metis list.set_intros(1) set_mset_mset)
  then obtain as bs where ys: "ys = as @ x # bs" by (auto simp: in_set_conv_decomp)
  have rest: "mset (as @ bs) = mset xs" using Cons.prems(2) ys by simp
  then have sub: "set (as @ bs) = set xs" by (metis set_mset_mset)
  have early: "\<forall>y \<in> set as. commute same f y x" using Cons.prems(3,4) ys sub by (auto simp: sorted_wrt_append)
  have "alike same (run_seq f ((as @ [x]) @ bs) w) (run_seq f ((x # as) @ bs) w)"
    using move_front [OF assms(1,2) _ _ early] Cons.prems(1) sub by (intro alike_append [OF assms(2)]) auto
  moreover have "alike same (run_seq f (x # (as @ bs)) w) (run_seq f (x # xs) w)"
    by (rule alike_Cons, rule Cons.IH) (use Cons.prems ys rest in \<open>auto simp: sorted_wrt_append\<close>)
  ultimately show ?case using alike_trans [OF assms(1)] ys by fastforce
qed

lemma sorted_wrt_concat:
  "sorted_wrt P (concat xss) \<longleftrightarrow>
   (\<forall>xs \<in> set xss. sorted_wrt P xs) \<and> sorted_wrt (\<lambda>xs ys. \<forall>x \<in> set xs. \<forall>y \<in> set ys. P x y) xss"
  by (induction xss) (auto simp: sorted_wrt_append)

end
