(* ===== verification/Chat_Types.thy ===== *)
theory Chat_Types
  imports Tool_Values
begin

text \<open>
  Messages, tool calls, usage and requests of the chat models (src/pkg/model/types.go), as far as the parts of the
  program that are modelled read or write them.  The content of a message is any value in the code: a text, the
  parts of a multimodal message, a list or another value decoded from JSON.
\<close>

record FunctionCall =
  fn_Name :: string
  fn_Arguments :: string

record ToolCall =
  tc_ID :: string
  tc_Type :: string
  tc_Function :: FunctionCall

record ReasoningDetail =
  rd_Type :: string
  rd_ID :: string
  rd_Index :: int
  rd_HasIndex :: bool
  rd_Text :: string
  rd_Summary :: string
  rd_Data :: string
  rd_Signature :: "string option"
  rd_Format :: string
  rd_Extra :: "(string \<times> string) list"

record ContentPart =
  cp_Type :: string
  cp_Text :: string

datatype 'f content = NoContent | TextContent string | PartsContent "ContentPart list" | ListContent "'f any list" | OtherContent "'f any"

record 'f Message =
  mm_Role :: string
  mm_Content :: "'f content"
  mm_ToolCalls :: "ToolCall list"
  mm_ToolCallID :: string
  mm_Name :: string
  mm_Reasoning :: string
  mm_ReasoningDetails :: "ReasoningDetail list"

definition plain_message :: "string \<Rightarrow> 'f content \<Rightarrow> 'f Message" where
  "plain_message role content =
     \<lparr>mm_Role = role, mm_Content = content, mm_ToolCalls = [], mm_ToolCallID = [], mm_Name = [], mm_Reasoning = [],
      mm_ReasoningDetails = []\<rparr>"

text \<open>\<open>msg.Content.(string)\<close>.\<close>

fun content_string :: "'f content \<Rightarrow> string option" where
  "content_string (TextContent s) = Some s"
| "content_string _ = None"

definition renderContentParts :: "ContentPart list \<Rightarrow> string" where
  "renderContentParts parts =
     join_with (CHR 10) (map cp_Text (filter (\<lambda>p. trim_space (cp_Type p) = ''text'' \<and> cp_Text p \<noteq> []) parts))"

definition part_of_map :: "(string \<times> 'f any) list \<Rightarrow> ContentPart" where
  "part_of_map m =
     \<lparr>cp_Type = (case map_of m ''type'' of Some (VString t) \<Rightarrow> t | _ \<Rightarrow> []),
      cp_Text = (case map_of m ''text'' of Some (VString t) \<Rightarrow> t | _ \<Rightarrow> [])\<rparr>"

fun GetContentAsString :: "'f content \<Rightarrow> string" where
  "GetContentAsString (TextContent s) = s"
| "GetContentAsString (PartsContent parts) = renderContentParts parts"
| "GetContentAsString (ListContent items) =
     renderContentParts (List.map_filter (\<lambda>raw. case raw of VMap m \<Rightarrow> Some (part_of_map m) | _ \<Rightarrow> None) items)"
| "GetContentAsString _ = []"

section \<open>Usage\<close>

record Usage =
  us_PromptTokens :: int
  us_CompletionTokens :: int
  us_TotalTokens :: int
  us_CachedTokens :: "int option"
  us_ReasoningTokens :: "int option"
  us_CacheWriteTokens :: int

definition no_usage :: Usage where
  "no_usage = \<lparr>us_PromptTokens = 0, us_CompletionTokens = 0, us_TotalTokens = 0, us_CachedTokens = None,
     us_ReasoningTokens = None, us_CacheWriteTokens = 0\<rparr>"

definition add_detail :: "int option \<Rightarrow> int option \<Rightarrow> int option" where
  "add_detail sofar usage = (case usage of
     None \<Rightarrow> sofar
   | Some n \<Rightarrow> Some ((case sofar of None \<Rightarrow> 0 | Some t \<Rightarrow> t) + n))"

definition AddUsage :: "Usage \<Rightarrow> Usage \<Rightarrow> Usage" where
  "AddUsage sofar usage =
     \<lparr>us_PromptTokens = us_PromptTokens sofar + us_PromptTokens usage,
      us_CompletionTokens = us_CompletionTokens sofar + us_CompletionTokens usage,
      us_TotalTokens = us_TotalTokens sofar + us_TotalTokens usage,
      us_CachedTokens = add_detail (us_CachedTokens sofar) (us_CachedTokens usage),
      us_ReasoningTokens = add_detail (us_ReasoningTokens sofar) (us_ReasoningTokens usage),
      us_CacheWriteTokens = us_CacheWriteTokens sofar + us_CacheWriteTokens usage\<rparr>"

section \<open>Requests\<close>

text \<open>The fields of a request that the tool runner sets; tools are given by their names.\<close>

record 'f ChatRequest =
  cr_Model :: string
  cr_Messages :: "'f Message list"
  cr_MaxTokens :: int
  cr_MaxCompletionTokens :: int
  cr_Stream :: bool
  cr_Tools :: "string list"
  cr_ToolChoice :: string
  cr_SessionID :: string

text \<open>What the code asks of the libraries: SHA-256, \<open>json.Marshal\<close> of a map, \<open>json.Unmarshal\<close> into a map, and the
  lengths of the encodings of messages, tools and the rest of a request.\<close>

record 'f chat_env =
  ce_sha256 :: "string \<Rightarrow> string"
  ce_marshal :: "(string \<times> 'f any) list \<Rightarrow> string + string"
  ce_unmarshal :: "string \<Rightarrow> string + 'f params"
  ce_messages_size :: "'f Message list \<Rightarrow> nat"
  ce_tools_size :: "string list \<Rightarrow> nat"
  ce_request_size :: "'f ChatRequest \<Rightarrow> nat"

definition EstimateRequestTokens :: "'f chat_env \<Rightarrow> 'f ChatRequest \<Rightarrow> nat" where
  "EstimateRequestTokens env req =
     ce_messages_size env (cr_Messages req) div 4 + ce_tools_size env (cr_Tools req) div 4 +
     ce_request_size env (req\<lparr>cr_Messages := [], cr_Tools := []\<rparr>) div 4"

end
