(* ===== verification/Tool_Calls.thy ===== *)
theory Tool_Calls
  imports Commuting_Steps Think_Parser Chat_Types Tool_Output Tool_Gate
begin

text \<open>
  Running the tool calls of one reply (src/pkg/toolrunner/parallel.go and the second half of execution.go): calls are put into batches so
  that calls on the same path do not run at the same time, batches run one after the other, and the calls of a batch at the
  same time under a semaphore.

  A call is one step of the model, so a batch runs as its calls in some order, which is an argument; any order is possible.
  This is what the code does when the semaphore has one place (\<open>MaxParallelTools = 1\<close>), because a goroutine holds its place from
  before the call until after it, and for a batch of one call. With more places the calls of a batch overlap, and then the model
  leaves out what a call sees of another one half done: a world of the model is one that the calls reach one after the
  other. So the equality with the execution in sequence is stated for one place.
  The semaphore is modelled with what the code does on a panic: the recovered goroutine never gives its place back.
  \<open>None\<close> as the outcome of a batch is a wait without end.

  Shown here: the batches hold every call once and keep the order of calls that conflict; with one place, if calls that do not
  conflict commute, the goroutines give the records and the world of running in sequence, whichever of them goes first; without
  panics no batch gets stuck.
\<close>

section \<open>Batches\<close>

record toolCallMeta =
  tm_index :: nat
  tm_mode :: string
  tm_path :: string

definition toolAccessMode :: "string \<Rightarrow> string" where
  "toolAccessMode name =
     (if List.member [''read_file'', ''list_directory'', ''find_files'', ''file_exists'', ''search_text''] name then ''read''
      else if List.member [''write_file'', ''patch_file'', ''edit_file'', ''edit_file_terminal'', ''insert_text'', ''delete_lines'',
        ''search_replace'', ''rename_symbol'', ''extract_function'', ''mark_resolved''] name then ''write''
      else [])"

definition extractToolPath :: "(string \<Rightarrow> string + 'f params) \<Rightarrow> string \<Rightarrow> string" where
  "extractToolPath unmarshal args =
     (if trim_space args = [] then []
      else case unmarshal args of
        Inl _ \<Rightarrow> []
      | Inr parsed \<Rightarrow>
          (case param_string parsed ''path'' of
             Some path \<Rightarrow> path
           | None \<Rightarrow> (case param_string parsed ''file'' of Some path \<Rightarrow> path | None \<Rightarrow> [])))"

definition normalizeToolPath :: "string \<Rightarrow> string" where
  "normalizeToolPath path = (let p = trim_space path in if p = [] then [] else clean p)"

definition call_meta :: "(string \<Rightarrow> string + 'f params) \<Rightarrow> nat \<Rightarrow> ToolCall \<Rightarrow> toolCallMeta" where
  "call_meta unmarshal i call =
     \<lparr>tm_index = i, tm_mode = toolAccessMode (fn_Name (tc_Function call)),
      tm_path = normalizeToolPath (extractToolPath unmarshal (fn_Arguments (tc_Function call)))\<rparr>"

definition toolCallsConflict :: "toolCallMeta \<Rightarrow> toolCallMeta \<Rightarrow> bool" where
  "toolCallsConflict a b =
     (if tm_path a = [] \<or> tm_path b = [] then False
      else if tm_path a \<noteq> tm_path b then False
      else if tm_mode a = ''read'' \<and> tm_mode b = ''read'' then False
      else True)"

definition toolCallConflicts :: "toolCallMeta \<Rightarrow> toolCallMeta list \<Rightarrow> bool" where
  "toolCallConflicts meta batch = list_ex (toolCallsConflict meta) batch"

definition min_batch :: "toolCallMeta \<Rightarrow> toolCallMeta list list \<Rightarrow> nat" where
  "min_batch meta batches =
     foldl (\<lambda>m i. if toolCallConflicts meta (batches ! i) \<and> m < i + 1 then i + 1 else m) 0 [0..<length batches]"

definition place_call :: "toolCallMeta \<Rightarrow> toolCallMeta list list \<Rightarrow> toolCallMeta list list" where
  "place_call meta batches =
     (case find (\<lambda>i. \<not> toolCallConflicts meta (batches ! i)) [min_batch meta batches..<length batches] of
        Some i \<Rightarrow> batches[i := batches ! i @ [meta]]
      | None \<Rightarrow> batches @ [[meta]])"

definition buildToolCallBatches :: "(string \<Rightarrow> string + 'f params) \<Rightarrow> ToolCall list \<Rightarrow> toolCallMeta list list" where
  "buildToolCallBatches unmarshal calls =
     foldl (\<lambda>batches meta. place_call meta batches) [] (map (\<lambda>i. call_meta unmarshal i (calls ! i)) [0..<length calls])"

section \<open>One call\<close>

text \<open>A record of a call; \<open>Think_Parser\<close> has the part that the deduplication reads.\<close>

record CallRecord = ToolCallRecord +
  tcr_Arguments :: string
  tcr_Error :: string
  tcr_Success :: bool
  tcr_Duration :: int

record ToolExecutionResult =
  er_Result :: string
  er_Error :: string
  er_Success :: bool

datatype exec_outcome = Executed ToolExecutionResult | ExecFailed string | ExecPanicked string

text \<open>Events of the stream handler that concern tools.\<close>

datatype tool_event = OnToolStart string string | OnToolEnd string string "string option"

text \<open>What a runner is configured with: the registry, the tools on offer by name, an executor that replaces the default one,
  parallel execution and its width; and the libraries: the environment of the tools, the decoder of arguments and the encoder
  of results.\<close>

record ('f, 'o) runner =
  rn_env :: "('f, 'o) tool_env"
  rn_registry :: "('f, 'o) Registry"
  rn_toolMap :: "string list"
  rn_ToolExecutor :: "(go_context option \<Rightarrow> ToolCall \<Rightarrow> 'f params \<Rightarrow> ('f, 'o) world \<Rightarrow> exec_outcome \<times> ('f, 'o) world) option"
  rn_EnableParallelTools :: bool
  rn_MaxParallelTools :: int
  rn_unmarshal :: "string \<Rightarrow> string + 'f params"
  rn_encode :: "'f encoder"

definition executeToolDefault ::
  "('f, 'o) runner \<Rightarrow> go_context option \<Rightarrow> string \<Rightarrow> 'f params \<Rightarrow> ('f, 'o) world \<Rightarrow> exec_outcome \<times> ('f, 'o) world" where
  "executeToolDefault rn ctx name args w =
     (if \<not> List.member (rn_toolMap rn) name then
        (Executed \<lparr>er_Result = ''tool not found: '' @ name, er_Error = ''tool not found: '' @ name, er_Success = False\<rparr>, w)
      else case ExecuteWithContext (rn_env rn) (rn_registry rn) ctx name args w of
        (Panicked v, w') \<Rightarrow> (ExecPanicked v, w')
      | (Returned res (Some err), w') \<Rightarrow>
          (Executed \<lparr>er_Result = ''error: '' @ ge_text err, er_Error = ge_text err, er_Success = False\<rparr>, w')
      | (Returned None None, w') \<Rightarrow> (Executed \<lparr>er_Result = [], er_Error = [], er_Success = False\<rparr>, w')
      | (Returned (Some res) None, w') \<Rightarrow>
          if rs_Error res \<noteq> [] then (Executed \<lparr>er_Result = rs_Error res, er_Error = rs_Error res, er_Success = False\<rparr>, w')
          else (case rs_Data res of
            Some data \<Rightarrow>
              (case ToModelOutput (rn_encode rn) (Some res) of
                 Inr out \<Rightarrow> (Executed \<lparr>er_Result = out, er_Error = [], er_Success = rs_Success res\<rparr>, w')
               | Inl _ \<Rightarrow> (Executed \<lparr>er_Result = te_sprint (rn_env rn) (VMap data), er_Error = [], er_Success = rs_Success res\<rparr>, w'))
          | None \<Rightarrow> (Executed \<lparr>er_Result = ''success'', er_Error = [], er_Success = rs_Success res\<rparr>, w')))"

definition execute_tool ::
  "('f, 'o) runner \<Rightarrow> go_context option \<Rightarrow> ToolCall \<Rightarrow> 'f params \<Rightarrow> ('f, 'o) world \<Rightarrow> exec_outcome \<times> ('f, 'o) world" where
  "execute_tool rn ctx call args w = (case rn_ToolExecutor rn of
     Some execute \<Rightarrow> execute ctx call args w
   | None \<Rightarrow> executeToolDefault rn ctx (fn_Name (tc_Function call)) args w)"

definition call_record :: "ToolCall \<Rightarrow> string \<Rightarrow> string \<Rightarrow> bool \<Rightarrow> go_duration \<Rightarrow> CallRecord" where
  "call_record call result' err success d =
     \<lparr>tcr_ID = tc_ID call, tcr_Name = fn_Name (tc_Function call), tcr_Result = result', tcr_Arguments = fn_Arguments (tc_Function call),
      tcr_Error = err, tcr_Success = success, tcr_Duration = d div 1000000\<rparr>"

text \<open>The record or the value of a panic, the events, the world.\<close>

definition executeSingleToolCall ::
  "('f, 'o) runner \<Rightarrow> go_context option \<Rightarrow> ToolCall \<Rightarrow> ('f, 'o) world \<Rightarrow> (string + CallRecord) \<times> tool_event list \<times> ('f, 'o) world" where
  "executeSingleToolCall rn ctx call w =
     (let name = fn_Name (tc_Function call); started = OnToolStart name (fn_Arguments (tc_Function call))
      in case rn_unmarshal rn (fn_Arguments (tc_Function call)) of
           Inl err \<Rightarrow>
             let msg = ''invalid arguments: '' @ err
             in (Inr (call_record call msg msg False 0), [started, OnToolEnd name msg (Some msg)], w)
         | Inr parsed \<Rightarrow>
             let m = (case parsed of None \<Rightarrow> [] | Some m \<Rightarrow> m);
                 args = (if tc_ID call \<noteq> [] then put ''__buckley_tool_call_id'' (VString (tc_ID call)) (Some m) else Some m)
             in case execute_tool rn ctx call args w of
                  (ExecPanicked v, w') \<Rightarrow> (Inl v, [started], w')
                | (ExecFailed err, w') \<Rightarrow>
                    (Inr (call_record call err err False (w_now w' - w_now w)), [started, OnToolEnd name err (Some err)], w')
                | (Executed r, w') \<Rightarrow>
                    (Inr (call_record call (er_Result r) (er_Error r) (er_Success r) (w_now w' - w_now w)),
                     [started, OnToolEnd name (er_Result r) (if er_Error r \<noteq> [] then Some (er_Error r) else None)], w'))"

section \<open>All calls\<close>

fun executeToolCallsSequential ::
  "('f, 'o) runner \<Rightarrow> go_context option \<Rightarrow> ToolCall list \<Rightarrow> ('f, 'o) world \<Rightarrow>
   (string + CallRecord list) \<times> tool_event list \<times> ('f, 'o) world" where
  "executeToolCallsSequential rn ctx [] w = (Inr [], [], w)"
| "executeToolCallsSequential rn ctx (call # calls) w =
     (case executeSingleToolCall rn ctx call w of
        (Inl v, ev, w1) \<Rightarrow> (Inl v, ev, w1)
      | (Inr rcd, ev, w1) \<Rightarrow>
          (case executeToolCallsSequential rn ctx calls w1 of
             (Inl v, ev', w2) \<Rightarrow> (Inl v, ev @ ev', w2)
           | (Inr rcds, ev', w2) \<Rightarrow> (Inr (rcd # rcds), ev @ ev', w2)))"

definition panic_record :: "ToolCall \<Rightarrow> string \<Rightarrow> CallRecord" where
  "panic_record call v =
     \<lparr>tcr_ID = tc_ID call, tcr_Name = fn_Name (tc_Function call), tcr_Result = ''tool panicked: '' @ v, tcr_Arguments = [],
      tcr_Error = ''tool panicked: '' @ v, tcr_Success = False, tcr_Duration = 0\<rparr>"

text \<open>The goroutines of a batch; \<open>free\<close> is the number of places that the semaphore still has.\<close>

fun run_batch ::
  "('f, 'o) runner \<Rightarrow> go_context option \<Rightarrow> ToolCall list \<Rightarrow> nat \<Rightarrow> toolCallMeta list \<Rightarrow> CallRecord list \<Rightarrow> ('f, 'o) world \<Rightarrow>
   (CallRecord list \<times> tool_event list \<times> ('f, 'o) world) option" where
  "run_batch rn ctx calls free [] rcds w = Some (rcds, [], w)"
| "run_batch rn ctx calls 0 (m # ms) rcds w = None"
| "run_batch rn ctx calls (Suc k) (m # ms) rcds w =
     (case executeSingleToolCall rn ctx (calls ! tm_index m) w of
        (Inl v, ev, w1) \<Rightarrow>
          map_option (\<lambda>(r, ev', w2). (r, ev @ ev', w2))
            (run_batch rn ctx calls k ms (rcds[tm_index m := panic_record (calls ! tm_index m) v]) w1)
      | (Inr rcd, ev, w1) \<Rightarrow>
          map_option (\<lambda>(r, ev', w2). (r, ev @ ev', w2)) (run_batch rn ctx calls (Suc k) ms (rcds[tm_index m := rcd]) w1))"

text \<open>\<open>order\<close> is the order in which the goroutines of a batch get through.\<close>

fun run_batches ::
  "('f, 'o) runner \<Rightarrow> go_context option \<Rightarrow> ToolCall list \<Rightarrow> (toolCallMeta list \<Rightarrow> toolCallMeta list) \<Rightarrow> nat \<Rightarrow> toolCallMeta list list \<Rightarrow>
   CallRecord list \<Rightarrow> ('f, 'o) world \<Rightarrow> ((string + CallRecord list) \<times> tool_event list \<times> ('f, 'o) world) option" where
  "run_batches rn ctx calls order width [] rcds w = Some (Inr rcds, [], w)"
| "run_batches rn ctx calls order width (batch # batches) rcds w =
     (case batch of
        [] \<Rightarrow> run_batches rn ctx calls order width batches rcds w
      | [m] \<Rightarrow>
          (case executeSingleToolCall rn ctx (calls ! tm_index m) w of
             (Inl v, ev, w1) \<Rightarrow> Some (Inl v, ev, w1)
           | (Inr rcd, ev, w1) \<Rightarrow>
               map_option (\<lambda>(r, ev', w2). (r, ev @ ev', w2)) (run_batches rn ctx calls order width batches (rcds[tm_index m := rcd]) w1))
      | _ \<Rightarrow>
          Option.bind (run_batch rn ctx calls width (order batch) rcds w) (\<lambda>(rcds1, ev, w1).
            map_option (\<lambda>(r, ev', w2). (r, ev @ ev', w2)) (run_batches rn ctx calls order width batches rcds1 w1)))"

text \<open>\<open>stale\<close> is what the recycled slice of records holds, cut to the number of calls.\<close>

definition executeToolCallsParallel ::
  "('f, 'o) runner \<Rightarrow> go_context option \<Rightarrow> ToolCall list \<Rightarrow> (toolCallMeta list \<Rightarrow> toolCallMeta list) \<Rightarrow> CallRecord list \<Rightarrow> ('f, 'o) world \<Rightarrow>
   ((string + CallRecord list) \<times> tool_event list \<times> ('f, 'o) world) option" where
  "executeToolCallsParallel rn ctx calls order stale w =
     run_batches rn ctx calls order (nat (if rn_MaxParallelTools rn \<le> 0 then 5 else rn_MaxParallelTools rn))
       (buildToolCallBatches (rn_unmarshal rn) calls) stale w"

definition executeToolCalls ::
  "('f, 'o) runner \<Rightarrow> go_context option \<Rightarrow> ToolCall list \<Rightarrow> (toolCallMeta list \<Rightarrow> toolCallMeta list) \<Rightarrow> CallRecord list \<Rightarrow> ('f, 'o) world \<Rightarrow>
   ((string + CallRecord list) \<times> tool_event list \<times> ('f, 'o) world) option" where
  "executeToolCalls rn ctx calls order stale w =
     (if rn_EnableParallelTools rn \<and> 1 < length calls then executeToolCallsParallel rn ctx calls order stale w
      else Some (executeToolCallsSequential rn ctx calls w))"


section \<open>The batches keep the order of conflicting calls\<close>

lemma conflict_sym: "toolCallsConflict a b = toolCallsConflict b a"
  by (auto simp: toolCallsConflict_def)

lemma min_batch_fold:
  fixes c :: "nat \<Rightarrow> bool"
  shows "let r = foldl (\<lambda>m i. if c i \<and> m < i + 1 then i + 1 else m) 0 [0..<n] in r \<le> n \<and> (\<forall>i < n. c i \<longrightarrow> i < r)"
proof (induction n)
  case (Suc n)
  then show ?case by (auto simp: Let_def less_Suc_eq intro: le_SucI)
qed simp

lemma min_batch_bounds:
  "min_batch meta bs \<le> length bs" "i < length bs \<Longrightarrow> toolCallConflicts meta (bs ! i) \<Longrightarrow> i < min_batch meta bs"
  using min_batch_fold [of "\<lambda>i. toolCallConflicts meta (bs ! i)" "length bs"] by (simp_all add: min_batch_def Let_def)

text \<open>The batch in which a call is placed is new or the first one after all that conflict.\<close>

lemma place_cases:
  obtains (old) k where "k = min_batch meta bs" "k < length bs" "place_call meta bs = bs[k := bs ! k @ [meta]]"
  | (new) "min_batch meta bs = length bs" "place_call meta bs = bs @ [[meta]]"
proof (cases "min_batch meta bs < length bs")
  case True
  define k where "k = min_batch meta bs"
  have "\<not> toolCallConflicts meta (bs ! k)" using min_batch_bounds(2) [of k bs meta] True by (auto simp: k_def)
  then have "find (\<lambda>i. \<not> toolCallConflicts meta (bs ! i)) [k..<length bs] = Some k"
    using True by (simp add: k_def upt_conv_Cons)
  then show thesis using old True by (simp add: place_call_def k_def)
next
  case False
  then have "min_batch meta bs = length bs" using min_batch_bounds(1) [of meta bs] by simp
  then show thesis using new by (simp add: place_call_def)
qed

lemma place_call_mset: "mset (concat (place_call meta bs)) = add_mset meta (mset (concat bs))"
proof (cases rule: place_cases [of meta bs])
  case (old k)
  have "concat (bs[k := bs ! k @ [meta]]) = concat (take k bs) @ bs ! k @ meta # concat (drop (Suc k) bs)"
    using old(2) by (simp add: upd_conv_take_nth_drop)
  moreover have "concat bs = concat (take k bs) @ bs ! k @ concat (drop (Suc k) bs)"
    using old(2) by (metis concat.simps(2) concat_append id_take_nth_drop)
  ultimately show ?thesis using old(3) by simp
qed simp

text \<open>Of two conflicting calls in the batches, the one that the reply names first is in an earlier batch.\<close>

definition well_placed :: "toolCallMeta list list \<Rightarrow> bool" where
  "well_placed bs = (\<forall>p q x y. p < length bs \<longrightarrow> q < length bs \<longrightarrow> x \<in> set (bs ! p) \<longrightarrow> y \<in> set (bs ! q) \<longrightarrow>
     toolCallsConflict x y \<longrightarrow> tm_index x < tm_index y \<longrightarrow> p < q)"

lemma well_placedD:
  "\<lbrakk>well_placed bs; p < length bs; q < length bs; x \<in> set (bs ! p); y \<in> set (bs ! q); toolCallsConflict x y; tm_index x < tm_index y\<rbrakk>
   \<Longrightarrow> p < q"
  by (auto simp: well_placed_def)

lemma placed_nth:
  assumes "p < length (place_call meta bs)" "x \<in> set (place_call meta bs ! p)"
  obtains (was) "p < length bs" "x \<in> set (bs ! p)" | (added) "x = meta" "min_batch meta bs \<le> p"
proof (cases rule: place_cases [of meta bs])
  case (old k)
  then show thesis using assms was added by (cases "p = k") (auto simp: nth_list_update)
next
  case new
  then show thesis using assms was added by (cases "p < length bs") (auto simp: nth_append)
qed

lemma place_well_placed:
  assumes ok: "well_placed bs" and later: "\<forall>b \<in> set bs. \<forall>x \<in> set b. tm_index x < tm_index meta"
  shows "well_placed (place_call meta bs)"
  unfolding well_placed_def
proof (intro allI impI)
  fix p q x y
  assume p: "p < length (place_call meta bs)" "x \<in> set (place_call meta bs ! p)"
    and q: "q < length (place_call meta bs)" "y \<in> set (place_call meta bs ! q)"
    and c: "toolCallsConflict x y" "tm_index x < tm_index y"
  from p show "p < q"
  proof (cases rule: placed_nth)
    case was
    note x = was
    from q show ?thesis
    proof (cases rule: placed_nth)
      case was
      then show ?thesis using well_placedD [OF ok x(1) _ x(2)] c by blast
    next
      case added
      have "toolCallConflicts meta (bs ! p)"
        using x c added conflict_sym [of x y] by (auto simp: toolCallConflicts_def list_ex_iff)
      then show ?thesis using min_batch_bounds(2) [OF x(1)] added by fastforce
    qed
  next
    case added
    from q show ?thesis
    proof (cases rule: placed_nth)
      case was
      then show ?thesis using later c added(1) by (meson less_asym nth_mem)
    qed (use c added in simp)
  qed
qed

lemma placed_all:
  "mset (concat (foldl (\<lambda>bs m. place_call m bs) bs ms)) = mset (concat bs) + mset ms"
  by (induction ms arbitrary: bs) (simp_all add: place_call_mset)

lemma placed_well_placed:
  assumes "sorted_wrt (\<lambda>a b. tm_index a < tm_index b) ms"
  shows "well_placed (foldl (\<lambda>bs m. place_call m bs) [] ms)"
  using assms
proof (induction ms rule: rev_induct)
  case Nil
  then show ?case by (simp add: well_placed_def)
next
  case (snoc m ms)
  have "set (concat (foldl (\<lambda>bs m. place_call m bs) [] ms)) = set ms"
    using placed_all [of "[]" ms] by (metis add_0 concat.simps(1) mset.simps(1) set_mset_mset)
  then have "\<forall>b \<in> set (foldl (\<lambda>bs m. place_call m bs) [] ms). \<forall>x \<in> set b. tm_index x < tm_index m"
    using snoc.prems by (auto simp: sorted_wrt_append)
  then show ?case using snoc place_well_placed by (simp add: sorted_wrt_append)
qed

definition metas :: "(string \<Rightarrow> string + 'f params) \<Rightarrow> ToolCall list \<Rightarrow> toolCallMeta list" where
  "metas u calls = map (\<lambda>i. call_meta u i (calls ! i)) [0..<length calls]"

lemma metas_simps:
  "map tm_index (metas u calls) = [0..<length calls]" "sorted_wrt (\<lambda>a b. tm_index a < tm_index b) (metas u calls)"
  by (simp_all add: metas_def call_meta_def comp_def sorted_wrt_map)

lemma batches_mset: "mset (concat (buildToolCallBatches u calls)) = mset (metas u calls)"
  using placed_all [of "[]" "metas u calls"] by (simp add: buildToolCallBatches_def metas_def)

lemma batches_well_placed: "well_placed (buildToolCallBatches u calls)"
  using placed_well_placed [OF metas_simps(2) [of u calls]] by (simp add: buildToolCallBatches_def metas_def)

text \<open>C9: Every call is in exactly one batch, and of two calls that conflict the earlier one is in an earlier batch.\<close>

theorem batches_keep_order:
  "mset (map tm_index (concat (buildToolCallBatches u calls))) = mset [0..<length calls] \<and>
   well_placed (buildToolCallBatches u calls)"
  using batches_mset [of u calls] metas_simps(1) [of u calls] batches_well_placed by (metis mset_map)

section \<open>Parallel and sequential execution\<close>

text \<open>A call as a step on the world, by its place in the reply.\<close>

definition call_step :: "('f, 'o) runner \<Rightarrow> go_context option \<Rightarrow> ToolCall list \<Rightarrow> toolCallMeta \<Rightarrow> ('f, 'o) world \<Rightarrow>
  ((string + CallRecord) \<times> tool_event list) \<times> ('f, 'o) world" where
  "call_step rn ctx calls m w =
     (case executeSingleToolCall rn ctx (calls ! tm_index m) w of (out, ev, w1) \<Rightarrow> ((out, ev), w1))"

definition no_panic :: "('f, 'o) runner \<Rightarrow> go_context option \<Rightarrow> ToolCall list \<Rightarrow> bool" where
  "no_panic rn ctx calls = (\<forall>call \<in> set calls. \<forall>w. \<not> isl (fst (executeSingleToolCall rn ctx call w)))"

definition store :: "CallRecord list \<Rightarrow> (toolCallMeta \<times> (string + CallRecord) \<times> tool_event list) list \<Rightarrow> CallRecord list" where
  "store rcds rs = foldl (\<lambda>r (m, out, ev). r[tm_index m := projr out]) rcds rs"

abbreviation events_of :: "(toolCallMeta \<times> (string + CallRecord) \<times> tool_event list) list \<Rightarrow> tool_event list" where
  "events_of rs \<equiv> concat (map (\<lambda>(m, out, ev). ev) rs)"

lemma no_panicD:
  assumes "no_panic rn ctx calls" "i < length calls"
  shows "\<exists>rcd ev w1. executeSingleToolCall rn ctx (calls ! i) w = (Inr rcd, ev, w1)"
proof -
  have "\<not> isl (fst (executeSingleToolCall rn ctx (calls ! i) w))" using assms by (simp add: no_panic_def)
  then show ?thesis by (metis isl_def prod.collapse sum.exhaust)
qed

lemma run_batch_seq:
  assumes "no_panic rn ctx calls" "\<forall>m \<in> set ms. tm_index m < length calls" "0 < width"
  shows "run_batch rn ctx calls width ms rcds w =
    (case run_seq (call_step rn ctx calls) ms w of (rs, w') \<Rightarrow> Some (store rcds rs, events_of rs, w'))"
  using assms(2)
proof (induction ms arbitrary: rcds w)
  case (Cons m ms)
  obtain rcd ev w1 where "executeSingleToolCall rn ctx (calls ! tm_index m) w = (Inr rcd, ev, w1)"
    using no_panicD [OF assms(1), of "tm_index m" w] Cons.prems by auto
  moreover obtain k where "width = Suc k" using assms(3) by (cases width) auto
  ultimately show ?case using Cons by (simp add: call_step_def store_def split_def Let_def)
qed (simp add: store_def)

lemma run_batches_seq:
  assumes "no_panic rn ctx calls" "\<forall>m \<in> set (concat bs). tm_index m < length calls" "0 < width" "\<forall>b. mset (order b) = mset b"
  shows "run_batches rn ctx calls order width bs rcds w =
    (case run_seq (call_step rn ctx calls) (concat (map order bs)) w of (rs, w') \<Rightarrow> Some (Inr (store rcds rs), events_of rs, w'))"
  using assms(2)
proof (induction bs arbitrary: rcds w)
  case (Cons b bs)
  consider (none) "b = []" | (one) m where "b = [m]" | (many) "1 < length b" by (cases b rule: remdups_adj.cases) auto
  then show ?case
  proof cases
    case none
    have "order [] = []" using assms(4) by (metis mset_zero_iff)
    then show ?thesis using none Cons by simp
  next
    case one
    have "order [m] = [m]" using assms(4) by (metis mset_single_iff_right mset.simps)
    moreover obtain rcd ev w1 where "executeSingleToolCall rn ctx (calls ! tm_index m) w = (Inr rcd, ev, w1)"
      using no_panicD [OF assms(1), of "tm_index m" w] Cons.prems one by auto
    ultimately show ?thesis using one Cons by (simp add: call_step_def store_def split_def Let_def)
  next
    case many
    have "set (order b) = set b" using assms(4) by (metis set_mset_mset)
    then have "run_batch rn ctx calls width (order b) rcds w =
      (case run_seq (call_step rn ctx calls) (order b) w of (rs, w') \<Rightarrow> Some (store rcds rs, events_of rs, w'))"
      using run_batch_seq [OF assms(1) _ assms(3)] Cons.prems by simp
    moreover obtain x y zs where "b = x # y # zs" using many by (cases b rule: remdups_adj.cases) auto
    ultimately show ?thesis using Cons by (simp add: run_seq_append store_def split_def Let_def)
  qed
qed (simp add: store_def)

lemma sequential_seq:
  assumes "no_panic rn ctx calls" "\<forall>m \<in> set ms. tm_index m < length calls"
  shows "executeToolCallsSequential rn ctx (map (\<lambda>m. calls ! tm_index m) ms) w =
    (case run_seq (call_step rn ctx calls) ms w of (rs, w') \<Rightarrow> (Inr (map (projr \<circ> fst \<circ> snd) rs), events_of rs, w'))"
  using assms(2)
proof (induction ms arbitrary: w)
  case (Cons m ms)
  obtain rcd ev w1 where "executeSingleToolCall rn ctx (calls ! tm_index m) w = (Inr rcd, ev, w1)"
    using no_panicD [OF assms(1), of "tm_index m" w] Cons.prems by auto
  then show ?case using Cons by (simp add: call_step_def split_def Let_def)
qed simp

lemma store_length [simp]: "length (store rcds rs) = length rcds"
  by (induction rs arbitrary: rcds) (auto simp: store_def)

lemma store_other: "i \<notin> (\<lambda>(m, _). tm_index m) ` set rs \<Longrightarrow> store rcds rs ! i = rcds ! i"
  by (induction rs arbitrary: rcds) (auto simp: store_def)

lemma store_nth:
  assumes "distinct (map (\<lambda>(m, _). tm_index m) rs)" "(m, out, ev) \<in> set rs" "tm_index m < length rcds"
  shows "store rcds rs ! tm_index m = projr out"
  using assms
proof (induction rs arbitrary: rcds)
  case (Cons r rs)
  obtain m' out' ev' where r: "r = (m', out', ev')" by (cases r) auto
  show ?case
  proof (cases "(m, out, ev) = r")
    case True
    then have "tm_index m \<notin> (\<lambda>(m, _). tm_index m) ` set rs" using Cons.prems(1) r by auto
    then show ?thesis using store_other [of "tm_index m" rs "rcds[tm_index m := projr out]"] Cons.prems True r
      by (simp add: store_def)
  next
    case False
    then show ?thesis using Cons.IH [of "rcds[tm_index m' := projr out']"] Cons.prems r by (auto simp: store_def)
  qed
qed simp

text \<open>Stored by their places, the records of any order are the records of the sequence.\<close>

lemma store_sequence:
  assumes "mset rs = mset rs'" "map (tm_index \<circ> fst) rs' = [0..<length stale]"
  shows "store stale rs = map (projr \<circ> fst \<circ> snd) rs'"
proof (rule nth_equalityI)
  have len: "length rs' = length stale" using assms(2) by (metis length_map length_upt minus_nat.diff_0)
  then show "length (store stale rs) = length (map (projr \<circ> fst \<circ> snd) rs')" by simp
  have tm: "(\<lambda>(m, _). tm_index m) = tm_index \<circ> fst" by auto
  have "mset (map (tm_index \<circ> fst) rs) = mset [0..<length stale]" using assms by (metis mset_map)
  then have dist: "distinct (map (\<lambda>(m, _). tm_index m) rs)" unfolding tm by (metis distinct_upt mset_eq_imp_distinct_iff)
  fix i
  assume "i < length (store stale rs)"
  then have i: "i < length rs'" "i < length stale" using len by simp_all
  obtain m out ev where e: "rs' ! i = (m, out, ev)" by (cases "rs' ! i") auto
  have "map (tm_index \<circ> fst) rs' ! i = i" using assms(2) i by simp
  then have m: "tm_index m = i" using e i by simp
  have "(m, out, ev) \<in> set rs" using e i assms(1) by (metis nth_mem set_mset_mset)
  then show "store stale rs ! i = map (projr \<circ> fst \<circ> snd) rs' ! i" using store_nth [OF dist] m i e by fastforce
qed

text \<open>However the goroutines of the batches get through, calls that conflict run in the order of the reply.\<close>

lemma schedule_in_order:
  assumes "\<forall>b. mset (order b) = mset b"
  shows "sorted_wrt (\<lambda>x y. tm_index y < tm_index x \<longrightarrow> \<not> toolCallsConflict x y) (concat (map order (buildToolCallBatches u calls)))"
proof -
  let ?bs = "buildToolCallBatches u calls"
  have sets: "set (order b) = set b" for b using assms by (metis set_mset_mset)
  have late: "\<not> toolCallsConflict x y"
    if "p \<le> q" "q < length ?bs" "x \<in> set (?bs ! p)" "y \<in> set (?bs ! q)" "tm_index y < tm_index x" for p q x y
    using well_placedD [OF batches_well_placed, of q u calls p y x] that conflict_sym by fastforce
  have "sorted_wrt (\<lambda>x y. tm_index y < tm_index x \<longrightarrow> \<not> toolCallsConflict x y) (order b)" if b: "b \<in> set ?bs" for b
  proof -
    obtain q where "q < length ?bs" "?bs ! q = b" using b by (auto simp: in_set_conv_nth)
    then have "\<forall>x \<in> set (order b). \<forall>y \<in> set (order b). tm_index y < tm_index x \<longrightarrow> \<not> toolCallsConflict x y"
      using late [of q q] sets by auto
    then show ?thesis by (auto simp: sorted_wrt_iff_nth_less)
  qed
  then show ?thesis
    unfolding sorted_wrt_concat using late [OF less_imp_le] sets by (auto simp: sorted_wrt_iff_nth_less)
qed

text \<open>C4: With one place in the semaphore (\<open>MaxParallelTools = 1\<close>), when calls that do not conflict commute, up to \<open>same\<close>, and no
  call panics, parallel execution always returns, whichever goroutine of a batch gets the place first, with the records of the
  sequential execution in the order of the calls, its events in some order and the same world.\<close>

theorem parallel_equals_sequential:
  assumes "equivp same" "steps_respect same (call_step rn ctx calls) (set (metas (rn_unmarshal rn) calls))"
    and "\<forall>x \<in> set (metas (rn_unmarshal rn) calls). \<forall>y \<in> set (metas (rn_unmarshal rn) calls).
      tm_index x \<noteq> tm_index y \<longrightarrow> \<not> toolCallsConflict x y \<longrightarrow> commute same (call_step rn ctx calls) x y"
    and "no_panic rn ctx calls" "\<forall>b. mset (order b) = mset b" "length stale = length calls" "rn_MaxParallelTools rn = 1"
  shows "\<exists>rcds ev ev' w1 w2. executeToolCallsSequential rn ctx calls w = (Inr rcds, ev, w1) \<and>
    executeToolCallsParallel rn ctx calls order stale w = Some (Inr rcds, ev', w2) \<and> mset ev' = mset ev \<and> same w2 w1"
proof -
  let ?u = "rn_unmarshal rn" and ?f = "call_step rn ctx calls"
  let ?ms = "metas ?u calls" and ?ys = "concat (map order (buildToolCallBatches ?u calls))"
  have "mset ?ys = mset (concat (buildToolCallBatches ?u calls))"
    using assms(5) by (induction "buildToolCallBatches ?u calls") (simp_all add: mset_concat comp_def)
  then have perm: "mset ?ys = mset ?ms" by (simp add: batches_mset)
  have bound: "\<forall>m \<in> set ?ms. tm_index m < length calls" by (auto simp: metas_def call_meta_def)
  have "sorted_wrt (\<lambda>x y. tm_index y < tm_index x \<longrightarrow> commute same ?f x y) ?ys"
    using schedule_in_order [OF assms(5), of ?u calls] perm assms(3)
    by (auto elim!: sorted_wrt_mono_rel [rotated] dest!: mset_eq_setD)
  then have alike: "alike same (run_seq ?f ?ys w) (run_seq ?f ?ms w)"
    by (intro reorder [OF assms(1,2) _ perm metas_simps(2)]) auto
  obtain rs w2 rs' w1 where run: "run_seq ?f ?ys w = (rs, w2)" "run_seq ?f ?ms w = (rs', w1)" by fastforce
  have "map fst rs' = ?ms" using run_seq_items [of ?f ?ms w] run by simp
  then have "map (tm_index \<circ> fst) rs' = [0..<length stale]" using metas_simps(1) assms(6) by (metis map_map)
  then have same_records: "store stale rs = map (projr \<circ> fst \<circ> snd) rs'" using alike run by (auto simp: alike_def store_sequence)
  have "map (\<lambda>m. calls ! tm_index m) ?ms = calls" by (simp add: metas_def call_meta_def comp_def map_nth)
  then have seq: "executeToolCallsSequential rn ctx calls w = (Inr (map (projr \<circ> fst \<circ> snd) rs'), events_of rs', w1)"
    using sequential_seq [OF assms(4) bound, of w] run by simp
  have "set (concat (buildToolCallBatches ?u calls)) = set ?ms" using batches_mset by (metis set_mset_mset)
  then have "\<forall>m \<in> set (concat (buildToolCallBatches ?u calls)). tm_index m < length calls" using bound by simp
  then have par: "executeToolCallsParallel rn ctx calls order stale w = Some (Inr (store stale rs), events_of rs, w2)"
    unfolding executeToolCallsParallel_def by (subst run_batches_seq [OF assms(4) _ _ assms(5)]) (simp_all add: run assms(7))
  have "mset (map (mset \<circ> (\<lambda>(m, out, ev). ev)) rs) = mset (map (mset \<circ> (\<lambda>(m, out, ev). ev)) rs')"
    using alike run by (simp add: alike_def)
  then have "mset (events_of rs) = mset (events_of rs')" by (simp add: mset_concat flip: sum_mset_sum_list)
  then show ?thesis using seq par same_records alike run by (auto simp: alike_def)
qed

section \<open>Every call is answered\<close>

lemma single_record:
  "executeSingleToolCall rn ctx call w = (Inr rcd, ev, w1) \<Longrightarrow>
   tcr_ID rcd = tc_ID call \<and> tcr_Name rcd = fn_Name (tc_Function call) \<and> tcr_Arguments rcd = fn_Arguments (tc_Function call)"
  by (auto simp: executeSingleToolCall_def call_record_def Let_def split: sum.splits prod.splits exec_outcome.splits)

lemma default_executor_no_panic: "fst (executeToolDefault rn ctx name args w) \<noteq> ExecPanicked v"
proof -
  have "\<not> (\<exists>v. fst (ExecuteWithContext (rn_env rn) (rn_registry rn) ctx name args w) = Panicked v)" by (simp add: no_panic_leaves)
  then show ?thesis
    by (cases "ExecuteWithContext (rn_env rn) (rn_registry rn) ctx name args w")
      (auto simp: executeToolDefault_def split: if_splits outcome.splits option.splits sum.splits)
qed

lemma default_executor_returns: "executeToolDefault rn ctx name args w \<noteq> (ExecPanicked v, w')"
  using default_executor_no_panic [of rn ctx name args w v] by auto

lemma default_no_panic: "rn_ToolExecutor rn = None \<Longrightarrow> no_panic rn ctx calls"
  by (auto simp: no_panic_def executeSingleToolCall_def execute_tool_def Let_def isl_def default_executor_returns
      split: sum.splits prod.splits exec_outcome.splits)

definition answers :: "CallRecord list \<Rightarrow> ToolCall list \<Rightarrow> bool" where
  "answers rcds calls = list_all2 (\<lambda>rcd call. tcr_ID rcd = tc_ID call \<and> tcr_Name rcd = fn_Name (tc_Function call) \<and>
     tcr_Arguments rcd = fn_Arguments (tc_Function call)) rcds calls"

lemma sequential_answers:
  "no_panic rn ctx calls \<Longrightarrow> \<exists>rcds ev w'. executeToolCallsSequential rn ctx calls w = (Inr rcds, ev, w') \<and> answers rcds calls"
proof (induction calls arbitrary: w)
  case (Cons call calls)
  obtain rcd ev w1 where s: "executeSingleToolCall rn ctx call w = (Inr rcd, ev, w1)"
    using no_panicD [OF Cons.prems, of 0 w] by auto
  have "no_panic rn ctx calls" using Cons.prems by (simp add: no_panic_def)
  then obtain rcds ev' w' where "executeToolCallsSequential rn ctx calls w1 = (Inr rcds, ev', w')" "answers rcds calls"
    using Cons.IH by blast
  then show ?case using s single_record [OF s] by (simp add: answers_def)
qed (simp add: answers_def)

lemma parallel_answers:
  assumes "no_panic rn ctx calls" "\<forall>b. mset (order b) = mset b" "length stale = length calls"
  shows "\<exists>rcds ev w'. executeToolCallsParallel rn ctx calls order stale w = Some (Inr rcds, ev, w') \<and> answers rcds calls"
proof -
  let ?bs = "buildToolCallBatches (rn_unmarshal rn) calls" and ?ms = "metas (rn_unmarshal rn) calls"
  obtain rs w' where run: "run_seq (call_step rn ctx calls) (concat (map order ?bs)) w = (rs, w')" by fastforce
  have sets: "set (concat ?bs) = set ?ms" using batches_mset by (metis set_mset_mset)
  have "mset (concat (map order ?bs)) = mset ?ms"
    using assms(2) batches_mset [of "rn_unmarshal rn" calls] by (simp add: mset_concat comp_def)
  then have perm: "mset (map fst rs) = mset ?ms" using run_seq_items [of "call_step rn ctx calls" "concat (map order ?bs)" w] run by simp
  then have idx: "mset (map (\<lambda>(m, _). tm_index m) rs) = mset [0..<length calls]"
    using metas_simps(1) [of "rn_unmarshal rn" calls] by (metis (no_types, lifting) list.map_cong0 list.map_comp comp_apply mset_map split_def)
  have dist: "distinct (map (\<lambda>(m, _). tm_index m) rs)" using idx by (metis distinct_upt mset_eq_imp_distinct_iff)
  have "\<forall>m \<in> set (concat ?bs). tm_index m < length calls" unfolding sets by (auto simp: metas_def call_meta_def)
  then have par: "executeToolCallsParallel rn ctx calls order stale w = Some (Inr (store stale rs), events_of rs, w')"
    unfolding executeToolCallsParallel_def by (subst run_batches_seq [OF assms(1) _ _ assms(2)]) (simp_all add: run)
  have "tcr_ID (store stale rs ! i) = tc_ID (calls ! i) \<and> tcr_Name (store stale rs ! i) = fn_Name (tc_Function (calls ! i)) \<and>
     tcr_Arguments (store stale rs ! i) = fn_Arguments (tc_Function (calls ! i))" if i: "i < length calls" for i
  proof -
    have "i \<in> set (map (\<lambda>(m, _). tm_index m) rs)" using i idx by (metis atLeastLessThan_iff le0 set_mset_mset set_upt)
    then obtain m out ev where m: "(m, out, ev) \<in> set rs" "tm_index m = i" by auto
    then obtain v where "(out, ev) = fst (call_step rn ctx calls m v)"
      using run_seq_results [of m "(out, ev)" "call_step rn ctx calls" "concat (map order ?bs)" w] run by auto
    moreover obtain rcd ev' w1 where s: "executeSingleToolCall rn ctx (calls ! i) v = (Inr rcd, ev', w1)"
      using no_panicD [OF assms(1) i] by blast
    ultimately have "projr out = rcd" using m by (simp add: call_step_def)
    then show ?thesis using store_nth [OF dist m(1)] single_record [OF s] m i assms(3) by simp
  qed
  then show ?thesis using par assms(3) by (auto simp: answers_def list_all2_conv_all_nth)
qed

lemma executed_answers:
  assumes "rn_ToolExecutor rn = None" "\<forall>b. mset (order b) = mset b" "length stale = length calls"
  shows "\<exists>rcds ev w'. executeToolCalls rn ctx calls order stale w = Some (Inr rcds, ev, w') \<and> answers rcds calls"
  unfolding executeToolCalls_def
  using parallel_answers [OF default_no_panic [OF assms(1)] assms(2,3)] sequential_answers [OF default_no_panic [OF assms(1)]] by auto

text \<open>With the default executor every set of calls is carried out, in whatever order the goroutines run, and the records answer
  the calls one by one.\<close>

theorem calls_are_answered:
  assumes "rn_ToolExecutor rn = None" "\<forall>b. mset (order b) = mset b" "length stale = length calls"
  shows "\<exists>rcds ev w'. executeToolCalls rn ctx calls order stale w = Some (Inr rcds, ev, w') \<and> answers rcds calls"
  using executed_answers [OF assms] .

text \<open>A call of a tool that is not on offer fails and changes nothing.\<close>

theorem unoffered_tool_has_no_effect:
  assumes "rn_ToolExecutor rn = None" "\<not> List.member (rn_toolMap rn) (fn_Name (tc_Function call))"
  shows "\<exists>rcd ev. executeSingleToolCall rn ctx call w = (Inr rcd, ev, w) \<and> \<not> tcr_Success rcd"
  using assms
  by (auto simp: executeSingleToolCall_def execute_tool_def executeToolDefault_def call_record_def Let_def split: sum.splits)

section \<open>Calls without a path, and calls that panic\<close>

text \<open>A call without a path conflicts with no other: shell commands run at the same time as each other and as every write.\<close>

lemma place_pathless: "tm_path m = [] \<Longrightarrow> place_call m [b] = [b @ [m]]"
  by (simp add: place_call_def min_batch_def toolCallConflicts_def toolCallsConflict_def list_ex_iff)

lemma place_all_pathless: "\<forall>m \<in> set ms. tm_path m = [] \<Longrightarrow> foldl (\<lambda>bs m. place_call m bs) [b] ms = [b @ ms]"
  by (induction ms arbitrary: b) (simp_all add: place_pathless)

lemma pathless_batch:
  assumes "\<forall>m \<in> set (metas u calls). tm_path m = []" "calls \<noteq> []"
  shows "buildToolCallBatches u calls = [metas u calls]"
proof (cases "metas u calls")
  case Nil
  then show ?thesis using assms(2) by (simp add: metas_def)
next
  case (Cons m ms)
  have "place_call m [] = [[m]]" by (simp add: place_call_def min_batch_def)
  then show ?thesis using place_all_pathless [of ms "[m]"] Cons assms(1)
    by (simp add: buildToolCallBatches_def metas_def [symmetric])
qed

lemma run_batch_stuck:
  assumes "\<forall>m \<in> set ms. \<forall>w. isl (fst (executeSingleToolCall rn ctx (calls ! tm_index m) w))" "k < length ms"
  shows "run_batch rn ctx calls k ms rcds w = None"
  using assms
proof (induction ms arbitrary: k rcds w)
  case (Cons m ms)
  show ?case
  proof (cases k)
    case (Suc j)
    have "isl (fst (executeSingleToolCall rn ctx (calls ! tm_index m) w))" using Cons.prems by simp
    then obtain v ev w1 where "executeSingleToolCall rn ctx (calls ! tm_index m) w = (Inl v, ev, w1)"
      by (metis isl_def prod.collapse)
    then show ?thesis using Cons Suc by simp
  qed simp
qed simp

text \<open>A goroutine that panics keeps its place in the semaphore: with more panicking calls in a batch than places, the wait for
  the batch never ends.\<close>

theorem panicking_calls_block:
  assumes "rn_EnableParallelTools rn" "1 < length calls" "0 < rn_MaxParallelTools rn" "rn_MaxParallelTools rn < int (length calls)"
    and "\<forall>m \<in> set (metas (rn_unmarshal rn) calls). tm_path m = []"
    and "\<forall>call \<in> set calls. \<forall>w. isl (fst (executeSingleToolCall rn ctx call w))" "\<forall>b. mset (order b) = mset b"
  shows "executeToolCalls rn ctx calls order stale w = None"
proof -
  let ?ms = "metas (rn_unmarshal rn) calls"
  have len: "length ?ms = length calls" by (simp add: metas_def)
  then obtain x y zs where ms: "?ms = x # y # zs" using assms(2) by (cases ?ms rule: remdups_adj.cases) auto
  have "set (order ?ms) = set ?ms" "length (order ?ms) = length calls"
    using assms(7) len by (metis set_mset_mset, metis size_mset)
  moreover have "\<forall>m \<in> set ?ms. calls ! tm_index m \<in> set calls" by (auto simp: metas_def call_meta_def)
  ultimately have "run_batch rn ctx calls (nat (rn_MaxParallelTools rn)) (order ?ms) stale w = None"
    using run_batch_stuck [of "order ?ms" rn ctx calls "nat (rn_MaxParallelTools rn)" stale w] assms(3,4,6) by simp
  moreover have "buildToolCallBatches (rn_unmarshal rn) calls = [?ms]" using pathless_batch [OF assms(5)] assms(2) by fastforce
  ultimately show ?thesis using assms(1-3) ms by (auto simp: executeToolCalls_def executeToolCallsParallel_def)
qed

section \<open>Concrete runs\<close>

text \<open>Files by name, an executor that reads and writes them, and a decoder for arguments that are only a path.\<close>

definition file_env :: "(int, string \<Rightarrow> string) tool_env" where
  "file_env = \<lparr>te_floats = int_floats, te_scale = (\<lambda>d m. d * m), te_jitter = (\<lambda>d _ _. d), te_sprint = (\<lambda>_. ''?''),
     te_stack = ''stack'', te_ulid = (\<lambda>n. ''id''), te_json = (\<lambda>_. Some 10), te_cwd = Some ''/w'',
     te_readFile = (\<lambda>fs p. Found (fs p)), te_stat = (\<lambda>_ _. Missing), te_diff = (\<lambda>p a b. Inr b), te_insert = (\<lambda>_. None),
     te_select = (\<lambda>_ _. None), te_review = (\<lambda>_ _. None), te_container = (\<lambda>_ _ _ _ _ _ _ fs. (Returned None None, 0, fs))\<rparr>"

definition path_of_args :: "string \<Rightarrow> string + int params" where
  "path_of_args s = Inr (Some [(''path'', VString s)])"

definition file_executor :: "go_context option \<Rightarrow> ToolCall \<Rightarrow> int params \<Rightarrow> (int, string \<Rightarrow> string) world \<Rightarrow>
  exec_outcome \<times> (int, string \<Rightarrow> string) world" where
  "file_executor ctx call args w =
     (let p = normalizeToolPath (extractToolPath path_of_args (fn_Arguments (tc_Function call)))
      in if p = [] then (ExecFailed ''no path'', w)
         else if toolAccessMode (fn_Name (tc_Function call)) = ''read''
         then (Executed \<lparr>er_Result = w_outside w p, er_Error = [], er_Success = True\<rparr>, w)
         else (Executed \<lparr>er_Result = w_outside w p, er_Error = [], er_Success = True\<rparr>, w\<lparr>w_outside := (w_outside w)(p := tc_ID call)\<rparr>))"

definition file_runner :: "(int, string \<Rightarrow> string) runner" where
  "file_runner = \<lparr>rn_env = file_env, rn_registry = NewEmptyRegistry, rn_toolMap = [], rn_ToolExecutor = Some file_executor,
     rn_EnableParallelTools = True, rn_MaxParallelTools = 1, rn_unmarshal = path_of_args,
     rn_encode = (\<lambda>_. Inr ''?'')\<rparr>"


lemma file_step:
  assumes "m \<in> set (metas path_of_args calls)"
  shows "call_step file_runner ctx calls m w =
    (let call = calls ! tm_index m; name = fn_Name (tc_Function call); r = w_outside w (tm_path m)
     in if tm_path m = []
        then ((Inr (call_record call ''no path'' ''no path'' False 0),
               [OnToolStart name (fn_Arguments (tc_Function call)), OnToolEnd name ''no path'' (Some ''no path'')]), w)
        else ((Inr (call_record call r [] True 0), [OnToolStart name (fn_Arguments (tc_Function call)), OnToolEnd name r None]),
              if tm_mode m = ''read'' then w else w\<lparr>w_outside := (w_outside w)(tm_path m := tc_ID call)\<rparr>))"
  using assms
  by (auto simp: metas_def call_meta_def call_step_def executeSingleToolCall_def execute_tool_def file_runner_def file_executor_def
      path_of_args_def Let_def)

lemma file_commute:
  assumes "x \<in> set (metas path_of_args calls)" "y \<in> set (metas path_of_args calls)" "\<not> toolCallsConflict x y"
  shows "commute (=) (call_step file_runner ctx calls) x y"
  using assms(3) unfolding commute_def alike_def
  by (auto simp: file_step [OF assms(1)] file_step [OF assms(2)] Let_def split_def toolCallsConflict_def fun_upd_twist)

lemma file_no_panic: "no_panic file_runner ctx calls"
  by (auto simp: no_panic_def executeSingleToolCall_def execute_tool_def file_runner_def file_executor_def path_of_args_def Let_def)

definition demo_call :: "string \<Rightarrow> string \<Rightarrow> string \<Rightarrow> ToolCall" where
  "demo_call i name args = \<lparr>tc_ID = i, tc_Type = ''function'', tc_Function = \<lparr>fn_Name = name, fn_Arguments = args\<rparr>\<rparr>"

abbreviation demo_calls :: "ToolCall list" where
  "demo_calls \<equiv> [demo_call ''1'' ''write_file'' ''/w/a'', demo_call ''2'' ''write_file'' ''/w/b'', demo_call ''3'' ''read_file'' ''/w/a'']"

abbreviation file_world :: "(int, string \<Rightarrow> string) world" where
  "file_world \<equiv> \<lparr>w_now = 0, w_points = [], w_changes = [], w_fresh = 0, w_trace = [], w_outside = (\<lambda>_. [])\<rparr>"

theorem parallel_equals_sequential_witness:
  "\<exists>rcds ev ev' w1 w2. executeToolCallsSequential file_runner None demo_calls file_world = (Inr rcds, ev, w1) \<and>
     executeToolCallsParallel file_runner None demo_calls rev (replicate 3 (call_record (demo_call [] [] []) [] [] False 0)) file_world =
       Some (Inr rcds, ev', w2) \<and> mset ev' = mset ev \<and> w2 = w1"
proof (rule parallel_equals_sequential)
  show "equivp (=)" by (rule identity_equivp)
  show "steps_respect (=) (call_step file_runner None demo_calls) (set (metas (rn_unmarshal file_runner) demo_calls))"
    by (simp add: steps_respect_def)
  show "\<forall>x \<in> set (metas (rn_unmarshal file_runner) demo_calls). \<forall>y \<in> set (metas (rn_unmarshal file_runner) demo_calls).
      tm_index x \<noteq> tm_index y \<longrightarrow> \<not> toolCallsConflict x y \<longrightarrow> commute (=) (call_step file_runner None demo_calls) x y"
    using file_commute [where calls = demo_calls] by (simp add: file_runner_def)
qed (simp_all add: file_no_panic, simp add: file_runner_def)

theorem calls_are_answered_witness:
  "\<exists>rcds ev w'. executeToolCalls (file_runner\<lparr>rn_ToolExecutor := None\<rparr>) None demo_calls rev
     (replicate 3 (call_record (demo_call [] [] []) [] [] False 0)) file_world = Some (Inr rcds, ev, w') \<and> answers rcds demo_calls"
  by (rule calls_are_answered) simp_all

theorem unoffered_tool_has_no_effect_witness:
  "\<exists>rcd ev. executeSingleToolCall (file_runner\<lparr>rn_ToolExecutor := None\<rparr>) None (demo_call ''1'' ''run_shell'' ''ls'') file_world =
     (Inr rcd, ev, file_world) \<and> \<not> tcr_Success rcd"
  by (rule unoffered_tool_has_no_effect) (simp_all add: file_runner_def)

abbreviation panic_runner :: "(int, string \<Rightarrow> string) runner" where
  "panic_runner \<equiv> file_runner\<lparr>rn_ToolExecutor := Some (\<lambda>ctx call args w. (ExecPanicked ''nil map'', w))\<rparr>"

theorem panicking_calls_block_witness:
  "executeToolCalls panic_runner None [demo_call ''1'' ''run_shell'' [], demo_call ''2'' ''run_shell'' []] rev [] file_world = None"
  by (rule panicking_calls_block)
    (auto simp: metas_def call_meta_def demo_call_def extractToolPath_def normalizeToolPath_def file_runner_def
      executeSingleToolCall_def execute_tool_def path_of_args_def Let_def trim_space_def upt_rec)

end
