(* ===== verification/Go_Regexp.thy ===== *)
theory Go_Regexp
  imports Go_Numbers
begin

text \<open>
  Regular expressions of package regexp, as far as the sources use them: classes of bytes, sequence, choice, greedy and lazy
  repetition, and the assertion \<open>\b\<close>.

  \<open>ends r prev s\<close> lists, in the order of preference, where the matches of \<open>r\<close> at the beginning of \<open>s\<close> end; \<open>prev\<close> is the byte before
  \<open>s\<close>.  Package regexp takes the leftmost match and among these the one that backtracking would find first.
  A class that stands for any rune matches single bytes here, which for repetitions of it is the same.
\<close>

datatype regex =
  RClass "char \<Rightarrow> bool"
| REps
| RWordBoundary
| RSeq regex regex
| RAlt regex regex
| RStar bool regex

definition word_byte :: "char \<Rightarrow> bool" where
  "word_byte c = (let n = of_char c :: nat in 48 \<le> n \<and> n \<le> 57 \<or> 65 \<le> n \<and> n \<le> 90 \<or> 97 \<le> n \<and> n \<le> 122 \<or> n = 95)"

definition word_at :: "char option \<Rightarrow> bool" where
  "word_at c = (case c of None \<Rightarrow> False | Some x \<Rightarrow> word_byte x)"

definition prev_at :: "char option \<Rightarrow> string \<Rightarrow> nat \<Rightarrow> char option" where
  "prev_at prev s i = (if i = 0 then prev else Some (s ! (i - 1)))"

function ends :: "regex \<Rightarrow> char option \<Rightarrow> string \<Rightarrow> nat list" where
  "ends (RClass p) prev s = (case s of [] \<Rightarrow> [] | c # _ \<Rightarrow> if p c then [1] else [])"
| "ends REps prev s = [0]"
| "ends RWordBoundary prev s =
     (if word_at prev \<noteq> word_at (case s of [] \<Rightarrow> None | c # _ \<Rightarrow> Some c) then [0] else [])"
| "ends (RSeq a b) prev s =
     concat (map (\<lambda>i. map (\<lambda>j. i + j) (ends b (prev_at prev s i) (drop i s))) (ends a prev s))"
| "ends (RAlt a b) prev s = ends a prev s @ ends b prev s"
| "ends (RStar greedy a) prev s =
     (let again = concat (map (\<lambda>i. if 0 < i \<and> i \<le> length s
            then map (\<lambda>j. i + j) (ends (RStar greedy a) (prev_at prev s i) (drop i s)) else []) (ends a prev s))
      in if greedy then again @ [0] else 0 # again)"
  by pat_completeness auto
termination
  by (relation "measures [\<lambda>(r, _, _). size r, \<lambda>(_, _, s). length s]") auto

definition match_end :: "regex \<Rightarrow> char option \<Rightarrow> string \<Rightarrow> nat option" where
  "match_end r prev s = (case ends r prev s of [] \<Rightarrow> None | n # _ \<Rightarrow> Some n)"

text \<open>The first match that is not empty: what comes before it, the match, the rest.  None of the patterns in use matches the empty
  text.\<close>

fun find_match :: "regex \<Rightarrow> char option \<Rightarrow> string \<Rightarrow> (string \<times> string \<times> string) option" where
  "find_match r prev [] = None"
| "find_match r prev (c # s) =
     (case match_end r prev (c # s) of
        Some (Suc n) \<Rightarrow> Some ([], take (Suc n) (c # s), drop (Suc n) (c # s))
      | _ \<Rightarrow> map_option (\<lambda>(before, found, rest). (c # before, found, rest)) (find_match r (Some c) s))"

lemma find_match_split: "find_match r prev s = Some (before, found, rest) \<Longrightarrow> s = before @ found @ rest \<and> found \<noteq> []"
proof (induction s arbitrary: prev before)
  case (Cons c s)
  show ?case
  proof (cases "\<exists>n. match_end r prev (c # s) = Some (Suc n)")
    case True
    then show ?thesis using Cons.prems by auto
  next
    case False
    then have "find_match r prev (c # s) = map_option (\<lambda>(before, found, rest). (c # before, found, rest)) (find_match r (Some c) s)"
      by (auto split: option.split nat.split)
    then show ?thesis using Cons by auto
  qed
qed simp

definition last_byte :: "char option \<Rightarrow> string \<Rightarrow> char option" where
  "last_byte prev s = (if s = [] then prev else Some (last s))"

text \<open>\<open>FindAllString\<close> and \<open>ReplaceAllString\<close> with the empty text.\<close>

function find_all :: "regex \<Rightarrow> char option \<Rightarrow> string \<Rightarrow> string list" where
  "find_all r prev s = (case find_match r prev s of
     None \<Rightarrow> []
   | Some (before, found, rest) \<Rightarrow> found # find_all r (last_byte prev found) rest)"
  by auto
termination
  by (relation "measure (\<lambda>(_, _, s). length s)") (auto dest: find_match_split)

function remove_all :: "regex \<Rightarrow> char option \<Rightarrow> string \<Rightarrow> string" where
  "remove_all r prev s = (case find_match r prev s of
     None \<Rightarrow> s
   | Some (before, found, rest) \<Rightarrow> before @ remove_all r (last_byte prev found) rest)"
  by auto
termination
  by (relation "measure (\<lambda>(_, _, s). length s)") (auto dest: find_match_split)

declare find_all.simps [simp del] remove_all.simps [simp del]

section \<open>Patterns\<close>

fun rlit :: "string \<Rightarrow> regex" where
  "rlit [] = REps"
| "rlit [c] = RClass (\<lambda>x. x = c)"
| "rlit (c # s) = RSeq (RClass (\<lambda>x. x = c)) (rlit s)"

definition rplus :: "regex \<Rightarrow> regex" where
  "rplus r = RSeq r (RStar True r)"

definition ropt :: "regex \<Rightarrow> regex" where
  "ropt r = RAlt r REps"

fun rseq :: "regex list \<Rightarrow> regex" where
  "rseq [] = REps"
| "rseq [r] = r"
| "rseq (r # rs) = RSeq r (rseq rs)"

definition space_byte :: "char \<Rightarrow> bool" where
  "space_byte c = (let n = of_char c :: nat in n = 9 \<or> n = 10 \<or> n = 12 \<or> n = 13 \<or> n = 32)"

section \<open>What is matched, and what is left\<close>

lemma remove_all_none: "find_match r prev s = None \<Longrightarrow> remove_all r prev s = s"
  by (simp add: remove_all.simps)

lemma remove_all_subseq: "subseq (remove_all r prev s) s"
proof (induction r prev s rule: remove_all.induct)
  case (1 r prev s)
  show ?case
  proof (cases "find_match r prev s")
    case (Some x)
    obtain before found rest where x: "x = (before, found, rest)" by (cases x) auto
    then have s: "s = before @ found @ rest" using Some find_match_split by blast
    have "remove_all r prev s = before @ remove_all r (last_byte prev found) rest"
      using Some x by (subst remove_all.simps) simp
    moreover have "subseq (remove_all r (last_byte prev found) rest) rest" using 1 Some x by auto
    ultimately show ?thesis unfolding s by (metis list_emb_append2 list_emb_append_mono subseq_order.order_refl)
  qed (simp add: remove_all_none)
qed

end
