(* ===== verification/Stream_Accumulator.thy ===== *)
theory Stream_Accumulator
  imports Chat_Types Go_Regexp Tool_Output
begin

text \<open>
  Putting a streamed reply together (src/pkg/model/stream_accumulator.go and \<open>ExtractThinkingContent\<close> of manager.go): texts are
  concatenated, tool calls are assembled from deltas by their index, tool calls that a model wrote as special tokens into the
  text are parsed, remaining tokens are filtered out, and reasoning that arrived with a line break per token is joined.

  A negative index of a delta is a panic in the code and \<open>None\<close> here.  Characters are classified as in ASCII.
\<close>

section \<open>Chunks\<close>

record ToolCallDelta =
  td_Index :: int
  td_ID :: string
  td_Type :: string
  td_Function :: "(string \<times> string) option"

record MessageDelta =
  md_Role :: string
  md_Content :: string
  md_Reasoning :: string
  md_ReasoningDetails :: "ReasoningDetail list"
  md_ToolCalls :: "ToolCallDelta list"

record StreamChoice =
  sc_Delta :: MessageDelta
  sc_FinishReason :: "string option"

record StreamChunk =
  sk_Choices :: "StreamChoice list"
  sk_Usage :: "Usage option"

record StreamAccumulator =
  sa_content :: string
  sa_reasoning :: string
  sa_reasoningDetails :: "ReasoningDetail list"
  sa_toolCalls :: "ToolCall list"
  sa_usage :: "Usage option"
  sa_role :: string

definition NewStreamAccumulator :: StreamAccumulator where
  "NewStreamAccumulator = \<lparr>sa_content = [], sa_reasoning = [], sa_reasoningDetails = [], sa_toolCalls = [], sa_usage = None, sa_role = []\<rparr>"

definition new_call :: ToolCall where
  "new_call = \<lparr>tc_ID = [], tc_Type = ''function'', tc_Function = \<lparr>fn_Name = [], fn_Arguments = []\<rparr>\<rparr>"

definition extend_call :: "ToolCallDelta \<Rightarrow> ToolCall \<Rightarrow> ToolCall" where
  "extend_call delta tc =
     \<lparr>tc_ID = tc_ID tc @ td_ID delta,
      tc_Type = (if td_Type delta \<noteq> [] then td_Type delta else tc_Type tc),
      tc_Function = (case td_Function delta of
         None \<Rightarrow> tc_Function tc
       | Some (name, arguments) \<Rightarrow>
           \<lparr>fn_Name = fn_Name (tc_Function tc) @ name, fn_Arguments = fn_Arguments (tc_Function tc) @ arguments\<rparr>)\<rparr>"

definition accumulateToolCall :: "ToolCall list \<Rightarrow> ToolCallDelta \<Rightarrow> ToolCall list option" where
  "accumulateToolCall calls delta =
     (if td_Index delta < 0 then None
      else
        let i = nat (td_Index delta);
            padded = calls @ replicate (Suc i - length calls) new_call
        in Some (padded[i := extend_call delta (padded ! i)]))"

fun accumulate_calls :: "ToolCall list \<Rightarrow> ToolCallDelta list \<Rightarrow> ToolCall list option" where
  "accumulate_calls calls [] = Some calls"
| "accumulate_calls calls (d # ds) = Option.bind (accumulateToolCall calls d) (\<lambda>cs. accumulate_calls cs ds)"

definition Add :: "StreamAccumulator \<Rightarrow> StreamChunk \<Rightarrow> StreamAccumulator option" where
  "Add a chunk =
     (let a1 = (case sk_Usage chunk of None \<Rightarrow> a | Some u \<Rightarrow> a\<lparr>sa_usage := Some u\<rparr>)
      in case sk_Choices chunk of
           [] \<Rightarrow> Some a1
         | choice # _ \<Rightarrow>
             let delta = sc_Delta choice
             in map_option (\<lambda>calls. a1\<lparr>
                  sa_role := (if md_Role delta \<noteq> [] then md_Role delta else sa_role a1),
                  sa_content := sa_content a1 @ md_Content delta,
                  sa_reasoning := sa_reasoning a1 @ md_Reasoning delta,
                  sa_reasoningDetails := sa_reasoningDetails a1 @ md_ReasoningDetails delta,
                  sa_toolCalls := calls\<rparr>)
                (accumulate_calls (sa_toolCalls a1) (md_ToolCalls delta)))"

section \<open>Reasoning that was split per token\<close>

definition is_letter :: "char \<Rightarrow> bool" where
  "is_letter c = (let n = of_char c :: nat in 65 \<le> n \<and> n \<le> 90 \<or> 97 \<le> n \<and> n \<le> 122)"

definition is_upper :: "char \<Rightarrow> bool" where
  "is_upper c = (let n = of_char c :: nat in 65 \<le> n \<and> n \<le> 90)"

definition rune_count :: "string \<Rightarrow> nat" where
  "rune_count s = length (filter rune_start s)"

abbreviation blank :: "char \<Rightarrow> bool" where "blank c \<equiv> c = CHR '' '' \<or> c = CHR 9"

definition startsWithSpace :: "string \<Rightarrow> bool" where
  "startsWithSpace text = (case text of [] \<Rightarrow> False | c # _ \<Rightarrow> is_space c)"

definition endsWithSpace :: "string \<Rightarrow> bool" where
  "endsWithSpace text = startsWithSpace (rev text)"

definition last_char :: "string \<Rightarrow> char option" where
  "last_char s = (case rev s of [] \<Rightarrow> None | c # _ \<Rightarrow> Some c)"

definition first_is :: "(char \<Rightarrow> bool) \<Rightarrow> string \<Rightarrow> bool" where
  "first_is p s = (case s of [] \<Rightarrow> False | c # _ \<Rightarrow> p c)"

definition reasoningStructuralBreak :: "string \<Rightarrow> string \<Rightarrow> nat \<Rightarrow> nat" where
  "reasoningStructuralBreak joined next newlines =
     (let trimmed = dropWhile blank next;
          previous = last_char (rev (dropWhile blank (rev joined)))
      in if newlines < 3 \<and> has_prefix trimmed ''- '' then 1
         else if startsWithSpace next then 0
         else if newlines < 3 \<and> previous = Some (CHR '':'') \<and> first_is is_digit trimmed then 2
         else if newlines \<noteq> 2 then 0
         else if has_prefix trimmed ''**'' then 2
         else if previous = Some (CHR ''.'') \<and> (first_is is_upper trimmed \<or> first_is is_digit trimmed \<and> rune_count trimmed = 1) then 2
         else 0)"

definition reasoningFragmentNeedsSpace :: "string \<Rightarrow> string \<Rightarrow> bool" where
  "reasoningFragmentNeedsSpace joined next =
     (if \<not> first_is is_letter next \<and> \<not> first_is is_digit next then False
      else if last_char joined = Some (CHR ''.'') \<and> first_is is_digit next then False
      else case last_char joined of None \<Rightarrow> False | Some c \<Rightarrow> List.member ''.,:;!?)]}'' c)"

definition writeReasoningFragment :: "string \<Rightarrow> string \<Rightarrow> nat \<Rightarrow> string" where
  "writeReasoningFragment joined fragment newlines =
     (if list_all blank fragment then
        (if joined \<noteq> [] \<and> \<not> endsWithSpace joined then joined @ '' '' else joined)
      else
        let breaks = reasoningStructuralBreak joined fragment newlines
        in joined
           @ (if joined = [] then []
              else if 0 < breaks then replicate breaks (CHR 10)
              else if \<not> startsWithSpace fragment \<and> reasoningFragmentNeedsSpace joined fragment then '' '' else [])
           @ fragment)"

function join_fragments :: "string \<Rightarrow> string \<Rightarrow> nat \<Rightarrow> string" where
  "join_fragments joined text newlines =
     (if text = [] then joined
      else
        let fragment = takeWhile (\<lambda>c. c \<noteq> CHR 10) text;
            rest = dropWhile (\<lambda>c. c \<noteq> CHR 10) text;
            joined' = writeReasoningFragment joined fragment newlines
        in if rest = [] then joined'
           else join_fragments joined' (dropWhile (\<lambda>c. c = CHR 10) rest) (length (takeWhile (\<lambda>c. c = CHR 10) rest)))"
  by auto
termination
proof (relation "measure (\<lambda>(_, text, _). length text)", goal_cases)
  case (2 joined txt1 newlines x y z)
  then have "hd y = CHR 10" using hd_dropWhile [of "\<lambda>c. c \<noteq> CHR 10" txt1] by blast
  moreover have "y \<noteq> []" using 2 by blast
  ultimately obtain ys where ys: "y = CHR 10 # ys" by (cases y) auto
  have "length (dropWhile (\<lambda>c. c = CHR 10) y) < length y" unfolding ys by (simp add: le_imp_less_Suc length_dropWhile_le)
  moreover have "length y \<le> length txt1" using 2 by (simp add: length_dropWhile_le)
  ultimately show ?case by simp
qed simp

definition joinReasoningFragments :: "string \<Rightarrow> string" where
  "joinReasoningFragments text = join_fragments [] text 0"

definition reasoningIsSplitPerToken :: "string \<Rightarrow> bool" where
  "reasoningIsSplitPerToken text =
     (let lines = split_on (CHR 10) text;
          nonEmpty = length (filter (\<lambda>l. l \<noteq> []) lines);
          short = length (filter (\<lambda>l. l \<noteq> [] \<and> rune_count l \<le> 16) lines);
          indented = length (filter (first_is blank) (tl lines));
          empty = length lines - nonEmpty
      in 8 \<le> length lines - 1 \<and> 8 \<le> nonEmpty \<and> nonEmpty * 80 \<le> short * 100 \<and>
         (nonEmpty * 40 \<le> indented * 100 \<or> length lines * 35 \<le> empty * 100))"

definition NormalizeReasoningText :: "string \<Rightarrow> string" where
  "NormalizeReasoningText text = (if reasoningIsSplitPerToken text then joinReasoningFragments text else text)"

section \<open>Tool calls written into the text\<close>

abbreviation toolCallSectionBegin :: string where "toolCallSectionBegin \<equiv> ''<|tool_calls_section_begin|>''"
abbreviation toolCallSectionEnd :: string where "toolCallSectionEnd \<equiv> ''<|tool_calls_section_end|>''"
abbreviation toolCallBegin :: string where "toolCallBegin \<equiv> ''<|tool_call_begin|>''"
abbreviation toolCallEnd :: string where "toolCallEnd \<equiv> ''<|tool_call_end|>''"
abbreviation toolCallArgBegin :: string where "toolCallArgBegin \<equiv> ''<|tool_call_argument_begin|>''"

definition toolCallTokens :: "string list" where
  "toolCallTokens = [toolCallSectionBegin, toolCallSectionEnd, toolCallBegin, toolCallEnd, toolCallArgBegin]"

definition toolCallIDPattern :: regex where
  "toolCallIDPattern = rseq [rlit ''functions.'', rplus (RClass word_byte), rlit '':'', rplus (RClass is_digit)]"

definition orphanedIDPattern :: regex where
  "orphanedIDPattern = rseq [RWordBoundary,
     RAlt (rseq [RStar True (RClass word_byte), rlit ''_'', RStar True (RClass word_byte)]) (RAlt (rlit ''tool_call'') (rlit ''function_call'')),
     rlit '':'', rplus (RClass is_digit), RWordBoundary]"

definition fragment_byte :: "char \<Rightarrow> bool" where
  "fragment_byte c = (c = CHR ''_'' \<or> (let n = of_char c :: nat in 97 \<le> n \<and> n \<le> 122))"

definition partialTokenPattern :: regex where
  "partialTokenPattern = rseq [RStar True (RClass fragment_byte), rlit ''call'', RStar True (RClass fragment_byte),
     ropt (rlit ''|''), ropt (rlit ''>'')]"

definition FilterToolCallTokens :: "string \<Rightarrow> string" where
  "FilterToolCallTokens content =
     (if \<not> contains content ''<|'' \<and> \<not> contains content ''|>'' \<and> \<not> contains content ''functions.'' \<and> \<not> contains content ''_call''
      then content
      else
        let r1 = remove_all toolCallIDPattern None content;
            r2 = foldl (\<lambda>r token. str_replace_all r token []) r1 toolCallTokens;
            r3 = remove_all partialTokenPattern None r2;
            r4 = str_replace_all (str_replace_all r3 ''<|'' []) ''|>'' [];
            r5 = remove_all orphanedIDPattern None r4
        in trim_space r5)"

definition any_but_newline :: regex where
  "any_but_newline = RClass (\<lambda>c. c \<noteq> CHR 10)"

definition toolCallSectionPattern :: regex where
  "toolCallSectionPattern = rseq [rlit toolCallSectionBegin, RStar False any_but_newline, rlit toolCallSectionEnd]"

definition spaces :: regex where
  "spaces = RStar True (RClass space_byte)"

definition toolCallPattern :: regex where
  "toolCallPattern = rseq [rlit toolCallBegin, spaces, rplus (RClass (\<lambda>c. word_byte c \<or> c = CHR ''.'')), rlit '':'', rplus (RClass is_digit),
     spaces, rlit toolCallArgBegin, spaces, RStar False any_but_newline, spaces, rlit toolCallEnd]"

text \<open>The groups of a match.  An identifier has no space and no bracket, so it ends at the first of them; the arguments are what
  is left between the tokens, less the spaces at both ends.\<close>

definition section_body :: "string \<Rightarrow> string" where
  "section_body found = take (length found - length toolCallSectionBegin - length toolCallSectionEnd) (drop (length toolCallSectionBegin) found)"

definition call_inner :: "string \<Rightarrow> string" where
  "call_inner found = dropWhile space_byte (take (length found - length toolCallBegin - length toolCallEnd) (drop (length toolCallBegin) found))"

definition id_byte :: "char \<Rightarrow> bool" where
  "id_byte c = (\<not> space_byte c \<and> c \<noteq> CHR ''<'')"

definition call_id :: "string \<Rightarrow> string" where
  "call_id found = takeWhile id_byte (call_inner found)"

definition call_arguments :: "string \<Rightarrow> string" where
  "call_arguments found =
     trim_space (drop (length toolCallArgBegin) (dropWhile space_byte (dropWhile id_byte (call_inner found))))"

definition extractFunctionName :: "string \<Rightarrow> string" where
  "extractFunctionName toolCallID =
     (let s = trim_prefix toolCallID ''functions.''
      in if CHR '':'' \<in> set s then rev (tl (dropWhile (\<lambda>c. c \<noteq> CHR '':'') (rev s))) else s)"

definition parsed_call :: "string \<Rightarrow> ToolCall" where
  "parsed_call found = \<lparr>tc_ID = call_id found, tc_Type = ''function'',
     tc_Function = \<lparr>fn_Name = extractFunctionName (call_id found), fn_Arguments = call_arguments found\<rparr>\<rparr>"

definition ParseToolCallsFromContent :: "string \<Rightarrow> ToolCall list \<times> string" where
  "ParseToolCallsFromContent content =
     (if \<not> contains content toolCallSectionBegin then ([], content)
      else
        let sections = map section_body (find_all toolCallSectionPattern None content)
        in (concat (map (\<lambda>body. map parsed_call (find_all toolCallPattern None body)) sections),
            trim_space (remove_all toolCallSectionPattern None content)))"

definition FinalizeWithTokenParsing :: "StreamAccumulator \<Rightarrow> 'f Message" where
  "FinalizeWithTokenParsing a =
     (let (toolCalls, content) =
            (if sa_toolCalls a = [] \<and> contains (sa_content a) toolCallSectionBegin
             then ParseToolCallsFromContent (sa_content a) else (sa_toolCalls a, sa_content a))
      in \<lparr>mm_Role = sa_role a, mm_Content = TextContent (FilterToolCallTokens content), mm_ToolCalls = toolCalls, mm_ToolCallID = [],
          mm_Name = [], mm_Reasoning = NormalizeReasoningText (sa_reasoning a), mm_ReasoningDetails = sa_reasoningDetails a\<rparr>)"

definition accumulated_message :: "StreamAccumulator \<Rightarrow> 'f Message" where
  "accumulated_message a =
     \<lparr>mm_Role = sa_role a, mm_Content = TextContent (sa_content a), mm_ToolCalls = sa_toolCalls a, mm_ToolCallID = [],
      mm_Name = [], mm_Reasoning = NormalizeReasoningText (sa_reasoning a), mm_ReasoningDetails = sa_reasoningDetails a\<rparr>"

definition Reset :: "StreamAccumulator \<Rightarrow> StreamAccumulator" where
  "Reset a = a\<lparr>sa_content := [], sa_reasoning := [], sa_reasoningDetails := [], sa_toolCalls := [], sa_usage := None, sa_role := []\<rparr>"

definition thinkTagPattern :: regex where
  "thinkTagPattern = rseq [rlit ''<think>'', RStar False (RClass (\<lambda>_. True)), rlit ''</think>'']"

definition think_body :: "string \<Rightarrow> string" where
  "think_body found = trim_space (take (length found - 15) (drop 7 found))"

definition ExtractThinkingContent :: "string \<Rightarrow> string \<times> string" where
  "ExtractThinkingContent text =
     (let found = find_all thinkTagPattern None text
      in if found = [] then ([], text)
         else (concat (case map think_body found of [] \<Rightarrow> [] | b # bs \<Rightarrow> b # map (\<lambda>x. CHR 10 # CHR 10 # x) bs),
               trim_space (remove_all thinkTagPattern None text)))"


section \<open>A stream is put together again\<close>

fun add_all :: "StreamAccumulator \<Rightarrow> StreamChunk list \<Rightarrow> StreamAccumulator option" where
  "add_all a [] = Some a"
| "add_all a (c # cs) = Option.bind (Add a c) (\<lambda>b. add_all b cs)"

definition stream_deltas :: "StreamChunk list \<Rightarrow> MessageDelta list" where
  "stream_deltas chunks = List.map_filter (\<lambda>c. case sk_Choices c of [] \<Rightarrow> None | choice # _ \<Rightarrow> Some (sc_Delta choice)) chunks"

definition call_deltas :: "StreamChunk list \<Rightarrow> ToolCallDelta list" where
  "call_deltas chunks = concat (map md_ToolCalls (stream_deltas chunks))"

definition delta_name :: "ToolCallDelta \<Rightarrow> string" where
  "delta_name d = (case td_Function d of None \<Rightarrow> [] | Some (name, _) \<Rightarrow> name)"

definition delta_arguments :: "ToolCallDelta \<Rightarrow> string" where
  "delta_arguments d = (case td_Function d of None \<Rightarrow> [] | Some (_, arguments) \<Rightarrow> arguments)"

definition assembled :: "nat \<Rightarrow> ToolCallDelta list \<Rightarrow> ToolCall \<Rightarrow> bool" where
  "assembled i ds call = (let own = filter (\<lambda>d. td_Index d = int i) ds in
     tc_ID call = concat (map td_ID own) \<and> fn_Name (tc_Function call) = concat (map delta_name own) \<and>
     fn_Arguments (tc_Function call) = concat (map delta_arguments own))"

definition slots :: "ToolCallDelta list \<Rightarrow> nat" where
  "slots ds = foldr (\<lambda>d. max (Suc (nat (td_Index d)))) ds 0"

lemma slots_snoc: "slots (ds @ [d]) = max (slots ds) (Suc (nat (td_Index d)))"
proof -
  let ?f = "\<lambda>d. max (Suc (nat (td_Index d)))"
  have "foldr ?f ds n = max (foldr ?f ds 0) n" for n by (induction ds) auto
  from this [of "Suc (nat (td_Index d))"] show ?thesis by (simp add: slots_def)
qed

lemma accumulate_calls_append:
  "accumulate_calls cs (ds @ es) = Option.bind (accumulate_calls cs ds) (\<lambda>x. accumulate_calls x es)"
  by (induction ds arbitrary: cs) (simp_all add: Option.bind_assoc)

lemma assembled_other: "td_Index d \<noteq> int i \<Longrightarrow> assembled i (ds @ [d]) call = assembled i ds call"
  by (simp add: assembled_def)

lemma assembled_own: "td_Index d = int i \<Longrightarrow> assembled i ds call \<Longrightarrow> assembled i (ds @ [d]) (extend_call d call)"
  by (auto simp: assembled_def extend_call_def delta_name_def delta_arguments_def Let_def split: option.split prod.split)

lemma assembled_new: "slots ds \<le> i \<Longrightarrow> assembled i ds new_call"
proof -
  assume "slots ds \<le> i"
  then have "filter (\<lambda>d. td_Index d = int i) ds = []"
    unfolding slots_def by (induction ds) auto
  then show ?thesis by (simp add: assembled_def new_call_def)
qed

lemma calls_assembled:
  assumes "\<forall>d \<in> set ds. 0 \<le> td_Index d"
  shows "\<exists>calls. accumulate_calls [] ds = Some calls \<and> length calls = slots ds \<and> (\<forall>i < length calls. assembled i ds (calls ! i))"
  using assms
proof (induction ds rule: rev_induct)
  case Nil
  then show ?case by (simp add: slots_def)
next
  case (snoc d ds)
  then obtain calls where calls: "accumulate_calls [] ds = Some calls" "length calls = slots ds"
    "\<And>i. i < length calls \<Longrightarrow> assembled i ds (calls ! i)" by auto
  define k where "k = nat (td_Index d)"
  define padded where "padded = calls @ replicate (Suc k - length calls) new_call"
  have k: "td_Index d = int k" using snoc.prems by (simp add: k_def)
  have len: "length padded = max (slots ds) (Suc k)" using calls(2) by (simp add: padded_def)
  have before: "assembled i ds (padded ! i)" if "i < length padded" for i
    using that calls(2,3) assembled_new [of ds i] by (auto simp: padded_def nth_append)
  have "accumulate_calls [] (ds @ [d]) = Some (padded[k := extend_call d (padded ! k)])"
    using k by (simp add: accumulate_calls_append calls(1) accumulateToolCall_def padded_def Let_def)
  moreover have "assembled i (ds @ [d]) (padded[k := extend_call d (padded ! k)] ! i)" if "i < length padded" for i
    using before [OF that] assembled_own [OF k] assembled_other [of d i] k that by (cases "i = k") simp_all
  ultimately show ?case using len by (simp add: slots_snoc k)
qed

lemma add_all_fields:
  assumes "accumulate_calls (sa_toolCalls a) (call_deltas chunks) = Some calls"
  shows "\<exists>b. add_all a chunks = Some b \<and> sa_toolCalls b = calls \<and>
    sa_content b = sa_content a @ concat (map md_Content (stream_deltas chunks)) \<and>
    sa_reasoning b = sa_reasoning a @ concat (map md_Reasoning (stream_deltas chunks)) \<and>
    sa_reasoningDetails b = sa_reasoningDetails a @ concat (map md_ReasoningDetails (stream_deltas chunks))"
  using assms
proof (induction chunks arbitrary: a)
  case Nil
  then show ?case by (simp add: call_deltas_def stream_deltas_def List.map_filter_simps)
next
  case (Cons c cs)
  show ?case
  proof (cases "sk_Choices c")
    case Nil
    then obtain a1 where a1: "Add a c = Some a1" "sa_toolCalls a1 = sa_toolCalls a" "sa_content a1 = sa_content a"
      "sa_reasoning a1 = sa_reasoning a" "sa_reasoningDetails a1 = sa_reasoningDetails a"
      by (auto simp: Add_def Let_def split: option.split)
    moreover have "stream_deltas (c # cs) = stream_deltas cs" using Nil by (simp add: stream_deltas_def List.map_filter_simps)
    ultimately show ?thesis using Cons.IH [of a1] Cons.prems by (simp add: call_deltas_def)
  next
    case choices: (Cons choice rest)
    have ds: "stream_deltas (c # cs) = sc_Delta choice # stream_deltas cs"
      using choices by (simp add: stream_deltas_def List.map_filter_simps)
    then obtain mid where mid: "accumulate_calls (sa_toolCalls a) (md_ToolCalls (sc_Delta choice)) = Some mid"
      "accumulate_calls mid (call_deltas cs) = Some calls"
      using Cons.prems by (auto simp: call_deltas_def accumulate_calls_append Option.bind_eq_Some_conv)
    obtain a1 where a1: "Add a c = Some a1" "sa_toolCalls a1 = mid" "sa_content a1 = sa_content a @ md_Content (sc_Delta choice)"
      "sa_reasoning a1 = sa_reasoning a @ md_Reasoning (sc_Delta choice)"
      "sa_reasoningDetails a1 = sa_reasoningDetails a @ md_ReasoningDetails (sc_Delta choice)"
      using choices mid(1) by (cases "sk_Usage c") (auto simp: Add_def Let_def)
    then show ?thesis using Cons.IH [of a1] mid(2) by (simp add: ds)
  qed
qed

text \<open>C10: However a reply is cut into chunks, provided no tool call delta has a negative index, the accumulator does not panic and what it holds at the end is the concatenation of the texts, and in every
  slot the call whose identifier, name and arguments are the concatenations of the deltas with that index, in their order.\<close>

theorem stream_reassembled:
  assumes "\<forall>d \<in> set (call_deltas chunks). 0 \<le> td_Index d"
  shows "\<exists>a. add_all NewStreamAccumulator chunks = Some a \<and>
    sa_content a = concat (map md_Content (stream_deltas chunks)) \<and>
    sa_reasoning a = concat (map md_Reasoning (stream_deltas chunks)) \<and>
    length (sa_toolCalls a) = slots (call_deltas chunks) \<and>
    (\<forall>i < length (sa_toolCalls a). assembled i (call_deltas chunks) (sa_toolCalls a ! i))"
  using calls_assembled [OF assms] add_all_fields [of NewStreamAccumulator chunks]
  by (fastforce simp: NewStreamAccumulator_def)

text \<open>A delta with a negative index is a panic.\<close>

theorem negative_index_panics:
  assumes "td_Index d < 0" "md_ToolCalls (sc_Delta choice) = d # ds"
  shows "Add a \<lparr>sk_Choices = [choice], sk_Usage = u\<rparr> = None"
  using assms by (simp add: Add_def accumulateToolCall_def Let_def split: option.split)


section \<open>Parsing and filtering tokens\<close>

text \<open>The filter only deletes.\<close>

lemma subseq_replace_all: "subseq (str_replace_all s old []) s"
proof (induction s old "[] :: string" rule: str_replace_all.induct)
  case (1 s old)
  show ?case
  proof (cases "old = [] \<or> str_index s old = None")
    case True
    then show ?thesis by (subst str_replace_all.simps) auto
  next
    case False
    then obtain i where i: "str_index s old = Some i" by auto
    have "subseq (drop (i + length old) s) (drop i s)"
      by (metis add.commute drop_drop suffix_drop suffix_imp_subseq)
    moreover have "subseq (str_replace_all (drop (i + length old) s) old []) (drop (i + length old) s)" using 1 False i by blast
    ultimately have "subseq (take i s @ str_replace_all (drop (i + length old) s) old []) (take i s @ drop i s)"
      by (meson list_emb_append_mono subseq_order.order_refl subseq_order.order_trans)
    then show ?thesis using False i by (subst str_replace_all.simps) simp
  qed
qed

lemma subseq_trim: "subseq (trim_space s) s"
proof -
  have "suffix (dropWhile is_space s) s" by (simp add: suffix_dropWhile)
  moreover have "prefix (trim_space s) (dropWhile is_space s)"
    unfolding trim_space_def using suffix_dropWhile [of is_space "rev (dropWhile is_space s)"] by (simp add: suffix_to_prefix)
  ultimately show ?thesis by (meson prefix_imp_subseq subseq_order.order_trans suffix_imp_subseq)
qed

lemma filter_deletes: "subseq (FilterToolCallTokens content) content"
proof -
  have fold: "subseq (foldl (\<lambda>r token. str_replace_all r token []) r ts) r" for r ts
    by (induction ts arbitrary: r) (auto intro: subseq_order.order_trans subseq_replace_all)
  define r1 where "r1 = remove_all toolCallIDPattern None content"
  define r2 where "r2 = foldl (\<lambda>r token. str_replace_all r token []) r1 toolCallTokens"
  define r4 where "r4 = str_replace_all (str_replace_all (remove_all partialTokenPattern None r2) ''<|'' []) ''|>'' []"
  have "subseq r1 content" "subseq r2 r1" by (simp_all add: r1_def r2_def remove_all_subseq fold)
  moreover have "subseq r4 r2"
    unfolding r4_def by (meson remove_all_subseq subseq_order.order_trans subseq_replace_all)
  moreover have "subseq (trim_space (remove_all orphanedIDPattern None r4)) r4"
    by (meson remove_all_subseq subseq_order.order_trans subseq_trim)
  ultimately have "subseq (trim_space (remove_all orphanedIDPattern None r4)) content" by (meson subseq_order.order_trans)
  then show ?thesis by (simp add: FilterToolCallTokens_def Let_def r1_def r2_def r4_def)
qed

text \<open>It also deletes names that merely contain \<open>call\<close>: whatever a reply says of them is lost.\<close>

theorem filter_deletes_names: "FilterToolCallTokens ''an on_call b'' = ''an  b''"
  by code_simp

fun avoids :: "char \<Rightarrow> regex \<Rightarrow> bool" where
  "avoids c (RClass p) = (\<not> p c)"
| "avoids c (RSeq a b) = (avoids c a \<and> avoids c b)"
| "avoids c (RAlt a b) = (avoids c a \<and> avoids c b)"
| "avoids c (RStar _ a) = avoids c a"
| "avoids c _ = True"

lemma ends_avoid: "n \<in> set (ends r prev s) \<Longrightarrow> avoids c r \<Longrightarrow> c \<notin> set (take n s)"
proof (induction r prev s arbitrary: n rule: ends.induct)
  case (4 a b prev s)
  then obtain i j where ij: "i \<in> set (ends a prev s)" "j \<in> set (ends b (prev_at prev s i) (drop i s))" "n = i + j" by auto
  then show ?case using 4 by (auto simp: take_add)
next
  case (6 g a prev s)
  then consider "n = 0" | i j where "i \<in> set (ends a prev s)" "0 < i" "i \<le> length s"
      "j \<in> set (ends (RStar g a) (prev_at prev s i) (drop i s))" "n = i + j"
    by (auto simp: Let_def simp del: ends.simps simp add: ends.simps(6) [of g a prev s] split: if_splits)
  then show ?case using 6 by cases (auto simp: take_add)
qed (auto split: list.splits if_splits)

lemma match_avoid: "find_match r prev s = Some (before, found, rest) \<Longrightarrow> avoids c r \<Longrightarrow> c \<notin> set found"
proof (induction s arbitrary: prev before)
  case (Cons x s)
  show ?case
  proof (cases "\<exists>n. match_end r prev (x # s) = Some (Suc n)")
    case True
    then obtain n where n: "match_end r prev (x # s) = Some (Suc n)" by blast
    then have "Suc n \<in> set (ends r prev (x # s))" by (auto simp: match_end_def split: list.splits)
    then show ?thesis using ends_avoid [of "Suc n" r prev "x # s" c] n Cons.prems by auto
  next
    case False
    then have "find_match r prev (x # s) = map_option (\<lambda>(before, found, rest). (x # before, found, rest)) (find_match r (Some x) s)"
      by (auto split: option.split nat.split)
    then show ?thesis using Cons by auto
  qed
qed simp

lemma find_all_avoid: "m \<in> set (find_all r prev s) \<Longrightarrow> avoids c r \<Longrightarrow> c \<notin> set m"
proof (induction r prev s rule: find_all.induct)
  case (1 r prev s)
  show ?case
  proof (cases "find_match r prev s")
    case None
    then show ?thesis using 1 by (simp add: find_all.simps [of r prev s])
  next
    case (Some x)
    obtain before found rest where x: "x = (before, found, rest)" by (cases x) auto
    then have "m = found \<or> m \<in> set (find_all r (last_byte prev found) rest)"
      using 1(2) Some by (simp add: find_all.simps [of r prev s])
    moreover have "c \<notin> set found" using match_avoid [of r prev s before found rest c] Some x 1(3) by simp
    moreover have "m \<in> set (find_all r (last_byte prev found) rest) \<Longrightarrow> c \<notin> set m"
      using 1(1) [OF Some, of before "(found, rest)" found rest] x 1(3) by simp
    ultimately show ?thesis by auto
  qed
qed

text \<open>A section of tool calls is recognised only if it is written on one line: its pattern does not match line breaks.  Arguments that
  are printed over several lines are not parsed, and the filter then shows them as text.\<close>

theorem sections_on_one_line:
  assumes "found \<in> set (find_all toolCallSectionPattern None content)"
  shows "CHR 10 \<notin> set found"
  using assms by (rule find_all_avoid) (simp add: toolCallSectionPattern_def any_but_newline_def)


section \<open>Concrete streams\<close>

definition demo_chunk :: "string \<Rightarrow> ToolCallDelta list \<Rightarrow> StreamChunk" where
  "demo_chunk s ds = \<lparr>sk_Choices = [\<lparr>sc_Delta = \<lparr>md_Role = ''assistant'', md_Content = s, md_Reasoning = [], md_ReasoningDetails = [],
     md_ToolCalls = ds\<rparr>, sc_FinishReason = None\<rparr>], sk_Usage = None\<rparr>"

definition demo_delta :: "int \<Rightarrow> string \<Rightarrow> string \<Rightarrow> ToolCallDelta" where
  "demo_delta i name args = \<lparr>td_Index = i, td_ID = ''c1'', td_Type = [], td_Function = Some (name, args)\<rparr>"

abbreviation demo_chunks :: "StreamChunk list" where
  "demo_chunks \<equiv> [demo_chunk ''a'' [demo_delta 1 ''f'' ''{''], demo_chunk ''b'' [demo_delta 1 [] ''}'']]"

theorem stream_reassembled_witness:
  "\<exists>a. add_all NewStreamAccumulator demo_chunks = Some a \<and>
    sa_content a = concat (map md_Content (stream_deltas demo_chunks)) \<and>
    sa_reasoning a = concat (map md_Reasoning (stream_deltas demo_chunks)) \<and>
    length (sa_toolCalls a) = slots (call_deltas demo_chunks) \<and>
    (\<forall>i < length (sa_toolCalls a). assembled i (call_deltas demo_chunks) (sa_toolCalls a ! i))"
  by (rule stream_reassembled)
    (simp add: call_deltas_def stream_deltas_def demo_chunk_def demo_delta_def map_filter_simps)

theorem negative_index_panics_witness:
  "Add NewStreamAccumulator (demo_chunk [] [demo_delta (-1) ''f'' []]) = None"
  unfolding demo_chunk_def by (rule negative_index_panics) (simp_all add: demo_delta_def)

end
