(* ===== verification/Efficient_Context.thy ===== *)
theory Efficient_Context
  imports Chat_Types Tool_Output
begin

text \<open>
  The view of a conversation that is sent with a request (src/pkg/conversation/efficient_context.go): old tool
  output, old arguments and old replies are shortened, duplicate tool output is replaced by a reference, and when
  the whole is still over the budget, more is shortened and in the end the older part is replaced by a summary.

  Chat services reject a tool result without the call it answers, so the views must keep calls and results
  together: the properties below.
\<close>

section \<open>Texts\<close>

record EfficientContextOptions =
  eo_RecentMessages :: int
  eo_OldToolBytes :: int
  eo_OldToolArgumentBytes :: int
  eo_OldAssistantBytes :: int
  eo_KeepReasoningRecent :: int
  eo_MaxBytes :: int

definition DefaultEfficientContextOptions :: EfficientContextOptions where
  "DefaultEfficientContextOptions =
     \<lparr>eo_RecentMessages = 32, eo_OldToolBytes = 1200, eo_OldToolArgumentBytes = 512, eo_OldAssistantBytes = 1600,
      eo_KeepReasoningRecent = 8, eo_MaxBytes = 180 * 1024\<rparr>"

definition utf8Prefix :: "string \<Rightarrow> nat \<Rightarrow> string" where
  "utf8Prefix value bytes = (if length value \<le> bytes then value else take (back_to_start value bytes) value)"

definition utf8Suffix :: "string \<Rightarrow> nat \<Rightarrow> string" where
  "utf8Suffix value bytes =
     (if length value \<le> bytes then value
      else dropWhile (\<lambda>c. \<not> rune_start c) (drop (length value - bytes) value))"

text \<open>The ellipsis has three bytes in UTF-8.\<close>

abbreviation ellipsis :: string where "ellipsis \<equiv> [CHR 0xE2, CHR 0x80, CHR 0xA6]"

definition compaction_marker :: "string \<Rightarrow> nat \<Rightarrow> string" where
  "compaction_marker label omitted =
     CHR 10 # ellipsis @ '' ['' @ label @ '' compacted; '' @ itoa_nat omitted @ '' bytes omitted] '' @ ellipsis @ [CHR 10]"

definition compactHistoricalContent :: "string \<Rightarrow> int \<Rightarrow> string \<Rightarrow> string" where
  "compactHistoricalContent content limit label =
     (if limit \<le> 0 \<or> int (length content) \<le> limit then content
      else
        let marker = compaction_marker label (length content - nat limit);
            available = limit - int (length marker)
        in if available < 80 then marker
           else let head = nat available * 2 div 3; tail = nat available - head
                in utf8Prefix content head @ marker @ utf8Suffix content tail)"

section \<open>Arguments of tool calls\<close>

definition hex_digits_of :: "char \<Rightarrow> string" where
  "hex_digits_of c = (let n = of_char c :: nat; d = ''0123456789abcdef'' in [d ! (n div 16), d ! (n mod 16)])"

definition encoded :: "'f chat_env \<Rightarrow> (string \<times> 'f any) list \<Rightarrow> string" where
  "encoded env m = (case ce_marshal env m of Inl _ \<Rightarrow> [] | Inr s \<Rightarrow> s)"

definition kept_argument :: "(string \<times> 'f any) list \<Rightarrow> string \<Rightarrow> (string \<times> 'f any) list" where
  "kept_argument parsed key = (case map_of parsed key of
     Some (VString s) \<Rightarrow> [(key, VString (utf8Prefix s 200))]
   | Some (VFloat x) \<Rightarrow> [(key, VFloat x)]
   | Some (VBool b) \<Rightarrow> [(key, VBool b)]
   | _ \<Rightarrow> [])"

definition argument_summary :: "'f chat_env \<Rightarrow> string \<Rightarrow> (string \<times> 'f any) list" where
  "argument_summary env arguments =
     [(''_buckley_compacted'', VBool True), (''original_bytes'', VInt (int (length arguments))),
      (''sha256'', VString (concat (map hex_digits_of (take 6 (ce_sha256 env arguments)))))]
     @ (case ce_unmarshal env arguments of
          Inl _ \<Rightarrow> []
        | Inr parsed \<Rightarrow> concat (map (kept_argument (case parsed of None \<Rightarrow> [] | Some m \<Rightarrow> m))
            [''path'', ''file'', ''command'', ''query'', ''pattern'', ''url'', ''name'']))"

definition without_keys :: "string list \<Rightarrow> (string \<times> 'f any) list \<Rightarrow> (string \<times> 'f any) list" where
  "without_keys keys m = filter (\<lambda>(k, v). \<not> List.member keys k) m"

definition shorten_names :: "(string \<times> 'f any) list \<Rightarrow> (string \<times> 'f any) list" where
  "shorten_names m = map (\<lambda>(k, v). (k, case v of
     VString s \<Rightarrow> if List.member [''path'', ''file'', ''url'', ''name''] k then VString (utf8Prefix s 48) else v
   | _ \<Rightarrow> v)) m"

definition compactToolArguments :: "'f chat_env \<Rightarrow> string \<Rightarrow> nat \<Rightarrow> string" where
  "compactToolArguments env arguments limit =
     (if length arguments \<le> limit then arguments
      else
        let s1 = argument_summary env arguments;
            s2 = without_keys [''command'', ''query'', ''pattern''] s1;
            s3 = shorten_names s2
        in if length (encoded env s1) \<le> limit then encoded env s1
           else if length (encoded env s2) \<le> limit then encoded env s2
           else if length (encoded env s3) \<le> limit then encoded env s3
           else encoded env (without_keys [''path'', ''file'', ''url'', ''name''] s3))"

definition compact_call :: "'f chat_env \<Rightarrow> nat \<Rightarrow> ToolCall \<Rightarrow> ToolCall" where
  "compact_call env limit call =
     call\<lparr>tc_Function := (tc_Function call)\<lparr>fn_Arguments := compactToolArguments env (fn_Arguments (tc_Function call)) limit\<rparr>\<rparr>"

definition compactToolCallArguments :: "'f chat_env \<Rightarrow> ToolCall list \<Rightarrow> int \<Rightarrow> ToolCall list" where
  "compactToolCallArguments env calls limit = (if limit \<le> 0 then calls else map (compact_call env (nat limit)) calls)"


section \<open>The first pass, from the newest message back\<close>

definition set_text :: "string \<Rightarrow> 'f Message \<Rightarrow> 'f Message" where
  "set_text s msg = msg\<lparr>mm_Content := TextContent s\<rparr>"

definition compact_text :: "int \<Rightarrow> string \<Rightarrow> 'f Message \<Rightarrow> 'f Message" where
  "compact_text limit label msg = (case content_string (mm_Content msg) of
     Some content \<Rightarrow> set_text (compactHistoricalContent content limit label) msg
   | None \<Rightarrow> msg)"

definition compact_arguments :: "'f chat_env \<Rightarrow> int \<Rightarrow> 'f Message \<Rightarrow> 'f Message" where
  "compact_arguments env limit msg = msg\<lparr>mm_ToolCalls := compactToolCallArguments env (mm_ToolCalls msg) limit\<rparr>"

definition drop_reasoning :: "'f Message \<Rightarrow> 'f Message" where
  "drop_reasoning msg = msg\<lparr>mm_Reasoning := [], mm_ReasoningDetails := []\<rparr>"

definition toolLabel :: "string \<Rightarrow> string" where
  "toolLabel name = (if trim_space name = [] then ''tool'' else name)"

definition tool_digest :: "'f chat_env \<Rightarrow> 'f Message \<Rightarrow> string option" where
  "tool_digest env msg =
     (if mm_Role msg = ''tool'' then
        (case content_string (mm_Content msg) of
           Some (x # xs) \<Rightarrow> Some (ce_sha256 env (mm_Name msg @ CHR 0x00 # x # xs))
         | _ \<Rightarrow> None)
      else None)"

text \<open>The message at index \<open>i\<close>; \<open>seen\<close> maps the digests of newer tool results to their index.\<close>

definition history_step ::
  "'f chat_env \<Rightarrow> EfficientContextOptions \<Rightarrow> nat \<Rightarrow> nat \<Rightarrow> (string \<Rightarrow> nat option) \<Rightarrow> nat \<Rightarrow> 'f Message \<Rightarrow>
   'f Message \<times> (string \<Rightarrow> nat option)" where
  "history_step env opts recentStart reasoningStart seen i msg0 =
     (let msg = (if i < reasoningStart \<and> mm_Role msg0 = ''assistant'' then drop_reasoning msg0 else msg0)
      in if recentStart \<le> i then
           (msg, case tool_digest env msg of Some d \<Rightarrow> seen(d \<mapsto> i) | None \<Rightarrow> seen)
         else if mm_Role msg = ''tool'' then
           (case tool_digest env msg of
              None \<Rightarrow> (msg, seen)
            | Some d \<Rightarrow>
                (case seen d of
                   Some newer \<Rightarrow>
                     (set_text (''[duplicate '' @ toolLabel (mm_Name msg) @ '' result omitted; same as later message '' @
                        itoa_nat (newer + 1) @ '']'') msg, seen)
                 | None \<Rightarrow> (compact_text (eo_OldToolBytes opts) ''tool output'' msg, seen(d \<mapsto> i))))
         else if mm_Role msg = ''assistant'' then
           (if mm_ToolCalls msg \<noteq> [] then (compact_arguments env (eo_OldToolArgumentBytes opts) msg, seen)
            else (compact_text (eo_OldAssistantBytes opts) ''assistant response'' msg, seen))
         else (msg, seen))"

text \<open>The messages in reverse order, the newest first.\<close>

fun history_pass ::
  "'f chat_env \<Rightarrow> EfficientContextOptions \<Rightarrow> nat \<Rightarrow> nat \<Rightarrow> (string \<Rightarrow> nat option) \<Rightarrow> 'f Message list \<Rightarrow> 'f Message list" where
  "history_pass env opts recentStart reasoningStart seen [] = []"
| "history_pass env opts recentStart reasoningStart seen (msg # older) =
     (case history_step env opts recentStart reasoningStart seen (length older) msg of
        (msg', seen') \<Rightarrow> history_pass env opts recentStart reasoningStart seen' older @ [msg'])"

section \<open>The budget\<close>

definition modelMessageBytes :: "'f Message \<Rightarrow> nat" where
  "modelMessageBytes msg =
     length (GetContentAsString (mm_Content msg)) + length (mm_Reasoning msg)
     + sum_list (map (\<lambda>call. length (fn_Name (tc_Function call)) + length (fn_Arguments (tc_Function call))) (mm_ToolCalls msg))
     + sum_list (map (\<lambda>d. length (rd_Text d) + length (rd_Summary d) + length (rd_Data d)) (mm_ReasoningDetails msg))"

definition modelMessagesBytes :: "'f Message list \<Rightarrow> nat" where
  "modelMessagesBytes messages = sum_list (map modelMessageBytes messages)"

definition squeeze :: "'f chat_env \<Rightarrow> int \<Rightarrow> int \<Rightarrow> int \<Rightarrow> int \<Rightarrow> 'f Message \<Rightarrow> 'f Message" where
  "squeeze env toolBytes argumentBytes assistantBytes userBytes msg =
     (if mm_Role msg = ''tool'' then compact_text toolBytes ''tool output'' msg
      else if mm_Role msg = ''assistant'' then
        (if mm_ToolCalls msg \<noteq> [] then compact_arguments env argumentBytes (drop_reasoning msg)
         else compact_text assistantBytes ''assistant response'' (drop_reasoning msg))
      else if mm_Role msg = ''user'' then compact_text userBytes ''user message'' msg
      else msg)"

text \<open>A loop over the first messages, which ends when the bytes are within the budget.\<close>

fun budget_pass :: "('f Message \<Rightarrow> 'f Message) \<Rightarrow> int \<Rightarrow> nat \<Rightarrow> int \<Rightarrow> 'f Message list \<Rightarrow> 'f Message list \<times> int" where
  "budget_pass shorten maxBytes (Suc n) totalBytes (msg # msgs) =
     (if totalBytes \<le> maxBytes then (msg # msgs, totalBytes)
      else
        let msg' = shorten msg;
            (rest, bytes) = budget_pass shorten maxBytes n
              (totalBytes + int (modelMessageBytes msg') - int (modelMessageBytes msg)) msgs
        in (msg' # rest, bytes))"
| "budget_pass shorten maxBytes n totalBytes msgs = (msgs, totalBytes)"

section \<open>The summary of the older part\<close>

definition assistantHasToolCall :: "'f Message \<Rightarrow> string \<Rightarrow> bool" where
  "assistantHasToolCall msg callID = (mm_Role msg = ''assistant'' \<and> list_ex (\<lambda>call. tc_ID call = callID) (mm_ToolCalls msg))"

text \<open>The index of the last message before \<open>start\<close> that made the call.\<close>

definition nearest_call :: "'f Message list \<Rightarrow> nat \<Rightarrow> string \<Rightarrow> nat option" where
  "nearest_call messages start callID = find (\<lambda>j. assistantHasToolCall (messages ! j) callID) (rev [0..<start])"

definition earliest_call :: "'f Message list \<Rightarrow> nat \<Rightarrow> nat" where
  "earliest_call messages start =
     foldl (\<lambda>earliest msg.
       if mm_Role msg \<noteq> ''tool'' \<or> mm_ToolCallID msg = [] then earliest
       else case nearest_call messages start (mm_ToolCallID msg) of
         None \<Rightarrow> earliest
       | Some j \<Rightarrow> min j earliest) start (drop start messages)"

lemma earliest_call_le: "earliest_call messages start \<le> start"
proof -
  have "foldl (\<lambda>earliest msg.
      if mm_Role msg \<noteq> ''tool'' \<or> mm_ToolCallID msg = [] then earliest
      else case nearest_call messages start (mm_ToolCallID msg) of
        None \<Rightarrow> earliest
      | Some j \<Rightarrow> min j earliest) e ms \<le> e" for e :: nat and ms
    by (induction ms rule: rev_induct) (auto split: option.split)
  then show ?thesis unfolding earliest_call_def .
qed

function safeToolPairTailStart :: "'f Message list \<Rightarrow> nat \<Rightarrow> nat" where
  "safeToolPairTailStart messages start =
     (let earliest = earliest_call messages start
      in if earliest = start then start else safeToolPairTailStart messages earliest)"
  by auto
termination
  by (relation "measure snd") (auto simp: le_neq_implies_less [OF earliest_call_le])

declare safeToolPairTailStart.simps [simp del]


section \<open>The summary that replaces the older part\<close>

definition summary_indices :: "'f Message list \<Rightarrow> nat list" where
  "summary_indices messages =
     (let users = take 2 (filter (\<lambda>i. mm_Role (messages ! i) = ''user'') [0..<length messages])
      in users @ filter (\<lambda>i. i \<notin> set users) [length messages - 10..<length messages])"

definition join_text :: "string \<Rightarrow> string list \<Rightarrow> string" where
  "join_text sepa ws = (case ws of [] \<Rightarrow> [] | v # vs \<Rightarrow> v @ concat (map (\<lambda>x. sepa @ x) vs))"

definition summary_text :: "'f Message \<Rightarrow> string" where
  "summary_text msg =
     (if mm_ToolCalls msg \<noteq> [] then ''called '' @ join_text '', '' (map (\<lambda>call. fn_Name (tc_Function call)) (mm_ToolCalls msg))
      else join_text '' '' (Go_Prelude.fields (GetContentAsString (mm_Content msg))))"

definition summary_label :: "'f Message \<Rightarrow> string" where
  "summary_label msg =
     (if mm_ToolCalls msg = [] \<and> mm_Role msg = ''tool'' \<and> mm_Name msg \<noteq> [] then ''tool '' @ mm_Name msg else mm_Role msg)"

fun summary_lines :: "nat \<Rightarrow> string \<Rightarrow> 'f Message list \<Rightarrow> string" where
  "summary_lines limit b [] = b"
| "summary_lines limit b (msg # msgs) =
     (if summary_text msg = [] then summary_lines limit b msgs
      else
        let b' = b @ CHR 10 # ''- '' @ summary_label msg @ '': '' @ utf8Prefix (summary_text msg) 180
        in if limit \<le> length b' then b' else summary_lines limit b' msgs)"

definition deterministicHistorySummary :: "'f Message list \<Rightarrow> nat \<Rightarrow> string" where
  "deterministicHistorySummary messages limit =
     utf8Prefix (summary_lines limit
       (''['' @ itoa_nat (length messages) @
        '' earlier messages compacted for this model context; full history remains available in the session]'')
       (map (\<lambda>i. messages ! i) (summary_indices messages))) limit"

definition collapseHistoricalPrefix :: "'f Message list \<Rightarrow> int \<Rightarrow> 'f Message list" where
  "collapseHistoricalPrefix messages maxBytes =
     (if length messages \<le> 2 then messages
      else
        let tailStart = safeToolPairTailStart messages (length messages - 2);
            older = take tailStart messages;
            protected = filter (\<lambda>m. mm_Role m = ''system'') older;
            collapsed = filter (\<lambda>m. mm_Role m \<noteq> ''system'') older;
            summaryLimit = min 4096 (max 512 (maxBytes div 4))
        in if tailStart = 0 \<or> collapsed = [] then messages
           else protected @ [plain_message ''system'' (TextContent (deterministicHistorySummary collapsed (nat summaryLimit)))]
                @ drop tailStart messages)"

section \<open>The view\<close>

definition compactToBudget :: "'f chat_env \<Rightarrow> EfficientContextOptions \<Rightarrow> 'f Message list \<Rightarrow> 'f Message list" where
  "compactToBudget env opts messages =
     (let totalBytes = int (modelMessagesBytes messages); stop = length messages - 2; budget = eo_MaxBytes opts
      in if budget \<le> 0 \<or> totalBytes \<le> budget then messages
         else
           let (m1, t1) = budget_pass (squeeze env (eo_OldToolBytes opts) (eo_OldToolArgumentBytes opts) (eo_OldAssistantBytes opts) 800)
                            budget stop totalBytes messages;
               (m2, t2) = budget_pass (squeeze env 192 192 240 240) budget stop t1 m1
           in if budget < t2 then collapseHistoricalPrefix m2 budget else m2)"

definition CompactModelMessages :: "'f chat_env \<Rightarrow> 'f Message list \<Rightarrow> EfficientContextOptions \<Rightarrow> 'f Message list" where
  "CompactModelMessages env messages opts0 =
     (let opts = (if eo_RecentMessages opts0 \<le> 0 then DefaultEfficientContextOptions else opts0);
          n = int (length messages)
      in compactToBudget env opts
           (history_pass env opts (nat (n - eo_RecentMessages opts)) (nat (n - eo_KeepReasoningRecent opts)) Map.empty (rev messages)))"

definition CompactModelMessagesForRequest :: "'f chat_env \<Rightarrow> 'f Message list \<Rightarrow> 'f ChatRequest \<Rightarrow> int \<Rightarrow> 'f Message list" where
  "CompactModelMessagesForRequest env messages req contextWindow =
     CompactModelMessages env messages
       (if contextWindow \<le> 0 then DefaultEfficientContextOptions
        else
          let overhead = int (EstimateRequestTokens env (req\<lparr>cr_Messages := []\<rparr>));
              completionReserve = max 2048 (max (cr_MaxCompletionTokens req) (cr_MaxTokens req));
              messageTokens = max 1024 (contextWindow * 4 div 5 - overhead - completionReserve)
          in DefaultEfficientContextOptions\<lparr>eo_MaxBytes := min (eo_MaxBytes DefaultEfficientContextOptions) (messageTokens * 4)\<rparr>)"


section \<open>Calls and results stay together\<close>

text \<open>What compaction leaves as it is: the role, the name, the identifier of the answered call, the calls' identifiers.\<close>

definition shape :: "'f Message \<Rightarrow> string \<times> string \<times> string \<times> (string \<times> string) list" where
  "shape m = (mm_Role m, mm_Name m, mm_ToolCallID m, map (\<lambda>c. (tc_ID c, fn_Name (tc_Function c))) (mm_ToolCalls m))"

lemma shape_role: "shape m = shape m' \<Longrightarrow> mm_Role m = mm_Role m' \<and> mm_ToolCallID m = mm_ToolCallID m'"
  by (simp add: shape_def)

lemma shape_call: "shape m = shape m' \<Longrightarrow> assistantHasToolCall m i = assistantHasToolCall m' i"
proof -
  have "list_ex (\<lambda>c. tc_ID c = i) (mm_ToolCalls x) \<longleftrightarrow> i \<in> fst ` set (snd (snd (snd (shape x))))" for x :: "'f Message"
    by (force simp: shape_def list_ex_iff)
  moreover assume eq: "shape m = shape m'"
  ultimately show ?thesis using shape_role [OF eq] unfolding assistantHasToolCall_def by metis
qed

lemma shape_edits [simp]:
  "shape (set_text s m) = shape m" "shape (compact_text n l m) = shape m" "shape (drop_reasoning m) = shape m"
  "shape (compact_arguments env n m) = shape m"
  by (simp_all add: shape_def set_text_def compact_text_def drop_reasoning_def compact_arguments_def
      compactToolCallArguments_def compact_call_def comp_def split: option.split)

lemma shape_step: "shape (fst (history_step env opts rs rea seen i m)) = shape m"
  by (simp add: history_step_def Let_def split: option.split)

lemma shape_pass: "map shape (history_pass env opts rs rea seen ms) = rev (map shape ms)"
proof (induction ms arbitrary: seen)
  case (Cons m ms)
  show ?case
    using Cons shape_step [of env opts rs rea seen "length ms" m]
    by (cases "history_step env opts rs rea seen (length ms) m") simp
qed simp

lemma shape_squeeze: "shape (squeeze env a b c d m) = shape m"
  by (simp add: squeeze_def)

lemma shape_budget:
  assumes "\<And>m. shape (f m) = shape m"
  shows "map shape (fst (budget_pass f mx n t ms)) = map shape ms"
proof (induction n arbitrary: t ms)
  case (Suc n)
  then show ?case by (cases ms) (simp_all add: assms Let_def split: prod.split, metis fst_conv)
qed simp

text \<open>Every tool result is preceded by its call; every call is followed by its result.\<close>

definition results_called :: "'f Message list \<Rightarrow> bool" where
  "results_called ms \<longleftrightarrow> (\<forall>i < length ms. mm_Role (ms ! i) = ''tool'' \<longrightarrow> mm_ToolCallID (ms ! i) \<noteq> [] \<longrightarrow>
     (\<exists>j < i. assistantHasToolCall (ms ! j) (mm_ToolCallID (ms ! i))))"

definition calls_answered :: "'f Message list \<Rightarrow> bool" where
  "calls_answered ms \<longleftrightarrow> (\<forall>j < length ms. \<forall>callID. callID \<noteq> [] \<longrightarrow> assistantHasToolCall (ms ! j) callID \<longrightarrow>
     (\<exists>i. j < i \<and> i < length ms \<and> mm_Role (ms ! i) = ''tool'' \<and> mm_ToolCallID (ms ! i) = callID))"

lemma pairs_shape:
  assumes "map shape ms = map shape ms'"
  shows "results_called ms = results_called ms'" "calls_answered ms = calls_answered ms'"
proof -
  have len: "length ms = length ms'" using assms map_eq_imp_length_eq by blast
  have at: "shape (ms ! i) = shape (ms' ! i)" if "i < length ms'" for i
    using assms len that by (metis nth_map)
  have same: "mm_Role (ms ! i) = mm_Role (ms' ! i)" "mm_ToolCallID (ms ! i) = mm_ToolCallID (ms' ! i)"
    "assistantHasToolCall (ms ! i) c = assistantHasToolCall (ms' ! i) c" if "i < length ms'" for i c
    using shape_role [OF at [OF that]] shape_call [OF at [OF that]] by simp_all
  have "(\<exists>j < i. assistantHasToolCall (ms ! j) c) = (\<exists>j < i. assistantHasToolCall (ms' ! j) c)" if "i < length ms'" for i c
    using same(3) that by (meson order_less_trans)
  then show "results_called ms = results_called ms'"
    unfolding results_called_def len by (simp add: same cong: conj_cong)
  show "calls_answered ms = calls_answered ms'"
    unfolding calls_answered_def len by (simp add: same cong: conj_cong)
qed

lemma nearest_call_None:
  "nearest_call ms start callID = None \<longleftrightarrow> (\<forall>j < start. \<not> assistantHasToolCall (ms ! j) callID)"
  by (auto simp: nearest_call_def find_None_iff)

lemma nearest_call_Some: "nearest_call ms start callID = Some j \<Longrightarrow> j < start \<and> assistantHasToolCall (ms ! j) callID"
  unfolding nearest_call_def by (auto simp: find_Some_iff)
     (metis add.right_neutral diff_zero length_rev length_upt nth_mem set_rev atLeastLessThan_iff set_upt)

lemma earliest_call_fix:
  assumes "earliest_call ms start = start" "m \<in> set (drop start ms)" "mm_Role m = ''tool''" "mm_ToolCallID m \<noteq> []"
  shows "nearest_call ms start (mm_ToolCallID m) = None"
proof (rule ccontr)
  assume "nearest_call ms start (mm_ToolCallID m) \<noteq> None"
  then obtain j where j: "nearest_call ms start (mm_ToolCallID m) = Some j" "j < start"
    using nearest_call_Some by (metis option.exhaust)
  let ?f = "\<lambda>earliest msg. if mm_Role msg \<noteq> ''tool'' \<or> mm_ToolCallID msg = [] then earliest
     else case nearest_call ms start (mm_ToolCallID msg) of None \<Rightarrow> earliest | Some j \<Rightarrow> min j earliest"
  have "x \<in> set xs \<Longrightarrow> x = m \<Longrightarrow> foldl ?f e xs \<le> j" for e x xs
    by (induction xs rule: rev_induct) (auto simp: j assms(3,4) split: option.split)
  then have "earliest_call ms start \<le> j" unfolding earliest_call_def using assms(2) by blast
  with assms(1) j(2) show False by simp
qed

lemma safe_fix: "earliest_call ms (safeToolPairTailStart ms start) = safeToolPairTailStart ms start"
proof (induction ms start rule: safeToolPairTailStart.induct)
  case (1 ms start)
  then show ?case
    by (cases "earliest_call ms start = start") (simp_all add: safeToolPairTailStart.simps [of ms start])
qed

lemma safe_le: "safeToolPairTailStart ms start \<le> start"
proof (induction ms start rule: safeToolPairTailStart.induct)
  case (1 ms start)
  then show ?case
    using earliest_call_le [of ms start]
    by (cases "earliest_call ms start = start") (force simp: safeToolPairTailStart.simps [of ms start])+
qed

text \<open>No result at or after the cut answers a call before it.\<close>

lemma safe_cut:
  assumes "s = safeToolPairTailStart ms start" "s \<le> i" "i < length ms" "mm_Role (ms ! i) = ''tool''" "mm_ToolCallID (ms ! i) \<noteq> []"
    "assistantHasToolCall (ms ! j) (mm_ToolCallID (ms ! i))"
  shows "s \<le> j"
proof -
  have "ms ! i \<in> set (drop s ms)" using assms(2,3) by (auto simp: set_conv_nth intro!: exI [of _ "i - s"])
  then have "nearest_call ms s (mm_ToolCallID (ms ! i)) = None"
    using earliest_call_fix [OF safe_fix, of "ms ! i" ms start] assms(1,4,5) by simp
  with assms(6) show ?thesis using nearest_call_None not_le_imp_less by blast
qed


lemma collapse_cases:
  obtains (same) "collapseHistoricalPrefix ms mx = ms"
  | (cut) s summary where "s = safeToolPairTailStart ms (length ms - 2)" "s \<le> length ms - 2" "2 < length ms"
      "collapseHistoricalPrefix ms mx = filter (\<lambda>m. mm_Role m = ''system'') (take s ms) @
         [plain_message ''system'' (TextContent summary)] @ drop s ms"
proof (cases "collapseHistoricalPrefix ms mx = ms")
  case True
  then show thesis by (rule same)
next
  case False
  then have "2 < length ms" unfolding collapseHistoricalPrefix_def by (auto split: if_splits)
  moreover from False obtain summary where "collapseHistoricalPrefix ms mx =
      filter (\<lambda>m. mm_Role m = ''system'') (take (safeToolPairTailStart ms (length ms - 2)) ms) @
      [plain_message ''system'' (TextContent summary)] @ drop (safeToolPairTailStart ms (length ms - 2)) ms"
    unfolding collapseHistoricalPrefix_def Let_def by (metis (no_types, lifting))
  ultimately show thesis using cut [OF refl safe_le] by blast
qed

lemma no_call [simp]:
  "mm_Role m = ''system'' \<Longrightarrow> \<not> assistantHasToolCall m c" "mm_Role (plain_message r c') = r"
  by (simp_all add: assistantHasToolCall_def plain_message_def)

text \<open>Both pairings survive in front of other messages that are neither calls nor results.\<close>

lemma pairs_append:
  assumes sys: "\<forall>m \<in> set pre. mm_Role m = ''system''"
    and tail: "\<And>i j. \<lbrakk>s \<le> i; i < length ms; mm_Role (ms ! i) = ''tool''; mm_ToolCallID (ms ! i) \<noteq> [];
       assistantHasToolCall (ms ! j) (mm_ToolCallID (ms ! i))\<rbrakk> \<Longrightarrow> s \<le> j"
  shows "results_called ms \<Longrightarrow> results_called (pre @ drop s ms)" "calls_answered ms \<Longrightarrow> calls_answered (pre @ drop s ms)"
proof -
  let ?n = "length pre"
  let ?r = "pre @ drop s ms"
  have sys': "mm_Role (?r ! i) = ''system''" if "i < ?n" for i using sys that by (simp add: nth_append)
  have at: "?r ! i = ms ! (i - ?n + s)" if "?n \<le> i" "i < length ?r" for i
    using that by (simp add: nth_append add.commute)
  { assume called: "results_called ms"
    show "results_called ?r"
      unfolding results_called_def
    proof (intro allI impI)
      fix i
      assume i: "i < length ?r" "mm_Role (?r ! i) = ''tool''" "mm_ToolCallID (?r ! i) \<noteq> []"
      then have ge: "?n \<le> i" using sys' [of i] by (cases "i < ?n") auto
      define k where "k = i - ?n + s"
      have k: "?r ! i = ms ! k" "k < length ms" "s \<le> k" using at [OF ge i(1)] i(1) ge by (auto simp: k_def)
      with called i obtain j where j: "j < k" "assistantHasToolCall (ms ! j) (mm_ToolCallID (ms ! k))"
        unfolding results_called_def by metis
      then have "s \<le> j" using tail [of k j] k i by simp
      then have "j - s + ?n < i" "?r ! (j - s + ?n) = ms ! j"
        using j(1) ge at [of "j - s + ?n"] i(1) by (auto simp: k_def)
      then show "\<exists>j < i. assistantHasToolCall (?r ! j) (mm_ToolCallID (?r ! i))" using j(2) k(1) by metis
    qed }
  { assume answered: "calls_answered ms"
    show "calls_answered ?r"
      unfolding calls_answered_def
    proof (intro allI impI)
      fix j c
      assume j: "j < length ?r" "c \<noteq> []" "assistantHasToolCall (?r ! j) c"
      then have ge: "?n \<le> j" using sys' [of j] no_call(1) by (cases "j < ?n") auto
      define k where "k = j - ?n + s"
      have k: "?r ! j = ms ! k" "k < length ms" using at [OF ge j(1)] j(1) ge by (auto simp: k_def)
      with answered j obtain i where i: "k < i" "i < length ms" "mm_Role (ms ! i) = ''tool''" "mm_ToolCallID (ms ! i) = c"
        unfolding calls_answered_def by metis
      then have "j < i - s + ?n" "i - s + ?n < length ?r" "?r ! (i - s + ?n) = ms ! i"
        using ge at [of "i - s + ?n"] by (auto simp: k_def)
      then show "\<exists>i. j < i \<and> i < length ?r \<and> mm_Role (?r ! i) = ''tool'' \<and> mm_ToolCallID (?r ! i) = c"
        using i(3,4) by metis
    qed }
qed

lemma collapse_pairs:
  "results_called ms \<Longrightarrow> results_called (collapseHistoricalPrefix ms mx)"
  "calls_answered ms \<Longrightarrow> calls_answered (collapseHistoricalPrefix ms mx)"
proof -
  have "(results_called ms \<longrightarrow> results_called (collapseHistoricalPrefix ms mx)) \<and>
    (calls_answered ms \<longrightarrow> calls_answered (collapseHistoricalPrefix ms mx))"
  proof (rule collapse_cases [of ms mx])
    fix s summary
    assume cut: "s = safeToolPairTailStart ms (length ms - 2)"
      "collapseHistoricalPrefix ms mx = filter (\<lambda>m. mm_Role m = ''system'') (take s ms) @
         [plain_message ''system'' (TextContent summary)] @ drop s ms"
    let ?pre = "filter (\<lambda>m. mm_Role m = ''system'') (take s ms) @ [plain_message ''system'' (TextContent summary)]"
    have "\<forall>m \<in> set ?pre. mm_Role m = ''system''" by auto
    note p = pairs_append [OF this safe_cut [OF cut(1)]]
    show ?thesis using p cut(2) by simp
  qed simp
  then show "results_called ms \<Longrightarrow> results_called (collapseHistoricalPrefix ms mx)"
    "calls_answered ms \<Longrightarrow> calls_answered (collapseHistoricalPrefix ms mx)" by simp_all
qed

lemma budget_cases:
  obtains m2 where "map shape m2 = map shape ms"
    "compactToBudget env opts ms = m2 \<or> compactToBudget env opts ms = collapseHistoricalPrefix m2 (eo_MaxBytes opts)"
proof -
  define f where "f = squeeze env (eo_OldToolBytes opts) (eo_OldToolArgumentBytes opts) (eo_OldAssistantBytes opts) 800"
  define g where "g = squeeze env 192 192 240 240"
  define n where "n = length ms - 2"
  obtain m1 t1 where b1: "budget_pass f (eo_MaxBytes opts) n (int (modelMessagesBytes ms)) ms = (m1, t1)" by fastforce
  obtain m2 t2 where b2: "budget_pass g (eo_MaxBytes opts) n t1 m1 = (m2, t2)" by fastforce
  have "map shape m2 = map shape ms"
    using shape_budget [of f "eo_MaxBytes opts" n "int (modelMessagesBytes ms)" ms]
      shape_budget [of g "eo_MaxBytes opts" n t1 m1] unfolding b1 b2 by (simp add: f_def g_def shape_squeeze)
  moreover have "compactToBudget env opts ms \<in> {ms, m2, collapseHistoricalPrefix m2 (eo_MaxBytes opts)}"
    unfolding compactToBudget_def Let_def f_def [symmetric] g_def [symmetric] n_def [symmetric] by (simp add: b1 b2)
  ultimately show thesis using that by blast
qed

text \<open>The steps before the collapse.\<close>

lemma view_cases:
  obtains m2 where "map shape m2 = map shape ms"
    "CompactModelMessages env ms opts = m2 \<or> (\<exists>mx. CompactModelMessages env ms opts = collapseHistoricalPrefix m2 mx)"
proof -
  define opts' where "opts' = (if eo_RecentMessages opts \<le> 0 then DefaultEfficientContextOptions else opts)"
  define h where "h = history_pass env opts' (nat (int (length ms) - eo_RecentMessages opts'))
    (nat (int (length ms) - eo_KeepReasoningRecent opts')) Map.empty (rev ms)"
  have "map shape h = map shape ms" by (simp add: h_def shape_pass rev_map)
  moreover have "CompactModelMessages env ms opts = compactToBudget env opts' h"
    by (simp add: CompactModelMessages_def Let_def opts'_def [symmetric] h_def)
  ultimately show thesis using that budget_cases [of h env opts'] by metis
qed

lemma view_pairs:
  "results_called ms \<Longrightarrow> results_called (CompactModelMessages env ms opts)"
  "calls_answered ms \<Longrightarrow> calls_answered (CompactModelMessages env ms opts)"
proof -
  obtain m2 where m2: "map shape m2 = map shape ms"
    "CompactModelMessages env ms opts = m2 \<or> (\<exists>mx. CompactModelMessages env ms opts = collapseHistoricalPrefix m2 mx)"
    by (rule view_cases)
  note same = pairs_shape [OF m2(1)]
  show "results_called ms \<Longrightarrow> results_called (CompactModelMessages env ms opts)"
    using m2(2) same(1) collapse_pairs(1) [of m2] by auto
  show "calls_answered ms \<Longrightarrow> calls_answered (CompactModelMessages env ms opts)"
    using m2(2) same(2) collapse_pairs(2) [of m2] by auto
qed

text \<open>C7: The view that is sent keeps calls and results together: if in the conversation every result follows its call and every
  call has its result, so it is in the view.\<close>

theorem view_keeps_pairs:
  assumes "results_called ms" "calls_answered ms"
  shows "results_called (CompactModelMessagesForRequest env ms req window) \<and>
    calls_answered (CompactModelMessagesForRequest env ms req window)"
  unfolding CompactModelMessagesForRequest_def using assms by (simp add: view_pairs)

section \<open>Instructions and the latest messages\<close>

abbreviation is_system :: "'f Message \<Rightarrow> bool" where "is_system m \<equiv> mm_Role m = ''system''"

lemma step_system: "is_system m \<Longrightarrow> fst (history_step env opts rs rea seen i m) = m"
  by (simp add: history_step_def Let_def tool_digest_def)

lemma pass_system: "filter is_system (history_pass env opts rs rea seen ms) = rev (filter is_system ms)"
proof (induction ms arbitrary: seen)
  case (Cons m ms)
  obtain m' seen' where step: "history_step env opts rs rea seen (length ms) m = (m', seen')" by fastforce
  have "mm_Role m' = mm_Role m" using shape_role shape_step [of env opts rs rea seen "length ms" m] step by fastforce
  moreover have "is_system m \<Longrightarrow> m' = m" using step_system [of m env opts rs rea seen "length ms"] step by simp
  ultimately show ?case using Cons by (cases "is_system m") (simp_all add: step)
qed simp

lemma budget_system:
  assumes "\<And>m. shape (f m) = shape m" "\<And>m. is_system m \<Longrightarrow> f m = m"
  shows "filter is_system (fst (budget_pass f mx n t ms)) = filter is_system ms"
proof (induction n arbitrary: t ms)
  case (Suc n)
  have "mm_Role (f m) = mm_Role m" for m using shape_role assms(1) by blast
  then show ?case
    using Suc assms(2) by (cases ms) (simp_all add: Let_def split: prod.split, metis fst_conv)
qed simp

lemma squeeze_system: "is_system m \<Longrightarrow> squeeze env a b c d m = m"
  by (simp add: squeeze_def)

lemma step_recent: "rs \<le> i \<Longrightarrow> rea \<le> i \<Longrightarrow> fst (history_step env opts rs rea seen i m) = m"
  by (simp add: history_step_def Let_def)

lemma pass_recent:
  assumes "k \<le> length ms" "rs \<le> length ms - k" "rea \<le> length ms - k"
  shows "take k (rev (history_pass env opts rs rea seen ms)) = take k ms"
  using assms
proof (induction ms arbitrary: k seen)
  case (Cons m ms)
  show ?case
  proof (cases k)
    case (Suc k')
    obtain m' seen' where step: "history_step env opts rs rea seen (length ms) m = (m', seen')" by fastforce
    have "m' = m" using step_recent [of rs "length ms" rea env opts seen m] step Cons.prems Suc by simp
    then show ?thesis using Cons.IH [of k' seen'] Cons.prems Suc by (simp add: step)
  qed simp
qed simp

lemma budget_tail: "length (fst (budget_pass f mx n t ms)) = length ms \<and> drop n (fst (budget_pass f mx n t ms)) = drop n ms"
proof (induction n arbitrary: t ms)
  case (Suc n)
  then show ?case by (cases ms) (simp_all add: Let_def split: prod.split, metis fst_conv)
qed simp

lemma budget_keeps:
  shows "subseq (filter is_system ms) (compactToBudget env opts ms)"
    and "\<exists>pre. compactToBudget env opts ms = pre @ drop (length ms - 2) ms"
proof -
  define f where "f = squeeze env (eo_OldToolBytes opts) (eo_OldToolArgumentBytes opts) (eo_OldAssistantBytes opts) 800"
  define g where "g = squeeze env 192 192 240 240"
  define n where "n = length ms - 2"
  obtain m1 t1 where b1: "budget_pass f (eo_MaxBytes opts) n (int (modelMessagesBytes ms)) ms = (m1, t1)" by fastforce
  obtain m2 t2 where b2: "budget_pass g (eo_MaxBytes opts) n t1 m1 = (m2, t2)" by fastforce
  have out: "compactToBudget env opts ms \<in> {ms, m2, collapseHistoricalPrefix m2 (eo_MaxBytes opts)}"
    unfolding compactToBudget_def Let_def f_def [symmetric] g_def [symmetric] n_def [symmetric] by (simp add: b1 b2)
  have sys: "filter is_system m2 = filter is_system ms"
    using budget_system [of f "eo_MaxBytes opts" n "int (modelMessagesBytes ms)" ms]
      budget_system [of g "eo_MaxBytes opts" n t1 m1]
    unfolding b1 b2 by (simp add: f_def g_def shape_squeeze squeeze_system)
  have tail: "length m2 = length ms" "drop n m2 = drop n ms"
    using budget_tail [of f "eo_MaxBytes opts" n "int (modelMessagesBytes ms)" ms]
      budget_tail [of g "eo_MaxBytes opts" n t1 m1] unfolding b1 b2 by simp_all
  have "subseq (filter is_system m2) (collapseHistoricalPrefix m2 mx) \<and>
      (\<exists>pre. collapseHistoricalPrefix m2 mx = pre @ drop n m2)" for mx
  proof (rule collapse_cases [of m2 mx])
    assume "collapseHistoricalPrefix m2 mx = m2"
    then show ?thesis by (metis append_take_drop_id subseq_filter_left)
  next
    fix s summary
    assume cut: "s \<le> length m2 - 2" "collapseHistoricalPrefix m2 mx = filter is_system (take s m2) @
      [plain_message ''system'' (TextContent summary)] @ drop s m2"
    have split: "filter is_system m2 = filter is_system (take s m2) @ filter is_system (drop s m2)"
      by (metis append_take_drop_id filter_append)
    have "subseq (filter is_system (drop s m2)) ([plain_message ''system'' (TextContent summary)] @ drop s m2)"
      by (intro list_emb_append2 subseq_filter_left)
    then have "subseq (filter is_system m2) (collapseHistoricalPrefix m2 mx)"
      unfolding cut(2) split by (intro list_emb_append_mono subseq_order.order_refl)
    moreover have "drop s m2 = take (n - s) (drop s m2) @ drop n m2"
      using cut(1) tail(1) by (metis append_take_drop_id drop_drop le_add_diff_inverse2 n_def)
    then have "collapseHistoricalPrefix m2 mx = (filter is_system (take s m2) @
      [plain_message ''system'' (TextContent summary)] @ take (n - s) (drop s m2)) @ drop n m2"
      unfolding cut(2) by (metis append.assoc)
    ultimately show ?thesis by blast
  qed
  note collapsed = this [of "eo_MaxBytes opts"]
  have "\<exists>pre. ms = pre @ drop n ms" by (metis append_take_drop_id)
  moreover have "\<exists>pre. m2 = pre @ drop n ms" using tail(2) by (metis append_take_drop_id)
  ultimately show "\<exists>pre. compactToBudget env opts ms = pre @ drop (length ms - 2) ms"
    using out collapsed tail(2) unfolding n_def [symmetric] by auto
  have "subseq (filter is_system ms) m2" using sys subseq_filter_left [of is_system m2] by simp
  then show "subseq (filter is_system ms) (compactToBudget env opts ms)"
    using out collapsed sys subseq_filter_left [of is_system ms] by auto
qed

text \<open>C23: Whatever is dropped, the instructions, that is, all messages of the system role, are in the view in their order, and
  the last two messages end it unchanged.\<close>

theorem view_keeps_instructions_and_tail:
  "subseq (filter is_system ms) (CompactModelMessagesForRequest env ms req window) \<and>
   (\<exists>pre. CompactModelMessagesForRequest env ms req window = pre @ drop (length ms - 2) ms)"
proof -
  obtain opts where opts: "CompactModelMessagesForRequest env ms req window = CompactModelMessages env ms opts"
    "eo_RecentMessages opts = 32" "eo_KeepReasoningRecent opts = 8"
    by (auto simp: CompactModelMessagesForRequest_def DefaultEfficientContextOptions_def Let_def)
  define n where "n = int (length ms)"
  define h where "h = history_pass env opts (nat (n - 32)) (nat (n - 8)) Map.empty (rev ms)"
  have view: "CompactModelMessagesForRequest env ms req window = compactToBudget env opts h"
    using opts by (simp add: CompactModelMessages_def Let_def h_def n_def)
  have len: "length h = length ms" using shape_pass [of env opts "nat (n - 32)" "nat (n - 8)" Map.empty "rev ms"]
    by (metis h_def length_map length_rev)
  have "take (min 2 (length ms)) (rev h) = take (min 2 (length ms)) (rev ms)"
    unfolding h_def by (rule pass_recent) (auto simp: n_def)
  then have "drop (length h - 2) h = drop (length ms - 2) ms"
    using len by (cases "2 \<le> length ms") (simp_all add: take_rev rev_swap min_def)
  moreover have "filter is_system h = filter is_system ms" by (simp add: h_def pass_system rev_filter)
  ultimately show ?thesis using budget_keeps [where ms = h and env = env and opts = opts] unfolding view by metis
qed


section \<open>Identifiers that repeat\<close>

definition rounds :: "nat \<Rightarrow> 'f Message \<Rightarrow> 'f Message \<Rightarrow> 'f Message list" where
  "rounds n a t = concat (replicate n [a, t])"

lemma rounds_Suc: "rounds (Suc n) a t = a # t # rounds n a t" "rounds 0 a t = []" "length (rounds n a t) = 2 * n"
  by (simp_all add: rounds_def length_concat sum_list_replicate)

lemma rounds_nth: "k < n \<Longrightarrow> rounds n a t ! (2 * k) = a \<and> rounds n a t ! Suc (2 * k) = t"
proof (induction k arbitrary: n)
  case (Suc k)
  then show ?case by (cases n) (simp_all add: rounds_Suc)
qed (auto simp: rounds_Suc gr0_conv_Suc)

lemma rounds_drop: "k \<le> n \<Longrightarrow> drop (2 * k) (rounds n a t) = rounds (n - k) a t"
proof (induction k arbitrary: n)
  case (Suc k)
  then show ?case by (cases n) (simp_all add: rounds_Suc)
qed simp

text \<open>A service that sends no identifiers gets the same ones, \<open>tool-1\<close> and so on, for the calls of every round.  The search for
  a safe cut then goes back through all rounds: however long the history, none of them is summarised.\<close>

theorem repeated_ids_keep_history:
  assumes a: "assistantHasToolCall a callID" and t: "mm_Role t = ''tool''" "mm_ToolCallID t = callID" "callID \<noteq> []"
    and u: "\<not> assistantHasToolCall u callID"
  shows "\<exists>pre. collapseHistoricalPrefix (u # rounds (Suc n) a t) mx = pre @ rounds (Suc n) a t"
proof -
  define ms where "ms = u # rounds (Suc n) a t"
  have tn: "\<not> assistantHasToolCall t callID" and at: "mm_Role a \<noteq> ''tool''" using a t by (auto simp: assistantHasToolCall_def)
  have nth: "ms ! Suc (2 * k) = a" "ms ! Suc (Suc (2 * k)) = t" if "k \<le> n" for k
    using rounds_nth [of k "Suc n" a t] that by (auto simp: ms_def)
  have near: "nearest_call ms (Suc (2 * k)) callID = (if k = 0 then None else Some (2 * k - 1))" if "k \<le> n" for k
  proof (cases k)
    case 0
    then show ?thesis using u by (simp add: nearest_call_def ms_def)
  next
    case (Suc m)
    then have "assistantHasToolCall (ms ! Suc (2 * m)) callID" "\<not> assistantHasToolCall (ms ! Suc (Suc (2 * m))) callID"
      using nth [of m] that a tn by simp_all
    then show ?thesis using Suc by (simp add: nearest_call_def)
  qed
  have drp: "drop (Suc (2 * k)) ms = rounds (Suc n - k) a t" if "k \<le> n" for k
    using rounds_drop [of k "Suc n" a t] that by (simp add: ms_def)
  have fold: "foldl (\<lambda>e m. if mm_Role m \<noteq> ''tool'' \<or> mm_ToolCallID m = [] then e
      else case nearest_call ms s (mm_ToolCallID m) of None \<Rightarrow> e | Some j \<Rightarrow> min j e) e (rounds (Suc r) a t) =
      (case nearest_call ms s callID of None \<Rightarrow> e | Some j \<Rightarrow> min j e)" for s e r
    by (induction r arbitrary: e) (auto simp: rounds_Suc at t split: option.split)
  have early: "earliest_call ms (Suc (2 * k)) = (if k = 0 then 1 else 2 * k - 1)" if "k \<le> n" for k
    using fold [where r = "n - k"] near [OF that] that by (simp add: earliest_call_def drp Suc_diff_le)
  have "k \<le> n \<Longrightarrow> safeToolPairTailStart ms (Suc (2 * k)) = 1" for k
  proof (induction k)
    case 0
    then show ?case using early [of 0] by (simp add: safeToolPairTailStart.simps [of ms "Suc 0"])
  next
    case (Suc k)
    then have "earliest_call ms (Suc (2 * Suc k)) = Suc (2 * k)" using early [of "Suc k"] by simp
    then show ?case using Suc by (subst safeToolPairTailStart.simps) simp
  qed
  then have one: "safeToolPairTailStart ms (length ms - 2) = 1" by (simp add: ms_def rounds_Suc)
  have "\<exists>pre. ms = pre @ rounds (Suc n) a t" unfolding ms_def by (metis append_Cons append_Nil)
  moreover have "drop 1 ms = rounds (Suc n) a t" by (simp add: ms_def)
  then have "\<exists>pre. collapseHistoricalPrefix ms mx = pre @ rounds (Suc n) a t"
    if "collapseHistoricalPrefix ms mx = p @ [q] @ drop 1 ms" for p q using that by (metis append.assoc)
  ultimately show ?thesis
    unfolding ms_def [symmetric] using collapse_cases [of ms mx] one by metis
qed

section \<open>Shortened texts\<close>

lemma utf8_lengths: "length (utf8Prefix s n) \<le> n" "length (utf8Suffix s n) \<le> n"
proof -
  have "length (modelOutputPrefix s n) \<le> n" by (rule modelOutputPrefix_cut)
  then show "length (utf8Prefix s n) \<le> n" by (simp add: utf8Prefix_def modelOutputPrefix_def)
  show "length (utf8Suffix s n) \<le> n"
    using modelOutputSuffix_cut [of s n] by (simp add: utf8Suffix_def modelOutputSuffix_def)
qed

lemma utf8_parts: "\<exists>rest. s = utf8Prefix s n @ rest" "\<exists>rest. s = rest @ utf8Suffix s n"
  by (metis append_Nil2 append_take_drop_id utf8Prefix_def)
    (metis append_Nil append.assoc append_take_drop_id takeWhile_dropWhile_id utf8Suffix_def)

text \<open>A shortened text is the marker alone, or a beginning of the text, the marker and an end of the text; in the second case
  it is within the limit.\<close>

theorem shortened_text:
  assumes "0 < limit" "limit < int (length content)"
  shows "compactHistoricalContent content limit label = compaction_marker label (length content - nat limit) \<or>
    (\<exists>front mid rear. content = front @ mid @ rear \<and>
       compactHistoricalContent content limit label = front @ compaction_marker label (length content - nat limit) @ rear \<and>
       int (length (compactHistoricalContent content limit label)) \<le> limit)"
proof -
  define marker where "marker = compaction_marker label (length content - nat limit)"
  define available where "available = limit - int (length marker)"
  show ?thesis
  proof (cases "available < 80")
    case True
    then show ?thesis
      using assms by (simp add: compactHistoricalContent_def Let_def marker_def available_def)
  next
    case False
    define h where "h = nat available * 2 div 3"
    have eq: "compactHistoricalContent content limit label = utf8Prefix content h @ marker @ utf8Suffix content (nat available - h)"
      using False assms by (simp add: compactHistoricalContent_def Let_def marker_def available_def h_def)
    have le: "h \<le> nat available" by (simp add: h_def)
    let ?f = "utf8Prefix content h" and ?b = "utf8Suffix content (nat available - h)"
    have small: "length ?f + length ?b \<le> nat available" using utf8_lengths(1) [of content h] utf8_lengths(2) [of content "nat available - h"] le by linarith
    obtain r1 where r1: "content = ?f @ r1" using utf8_parts(1) by blast
    obtain r2 where r2: "content = r2 @ ?b" using utf8_parts(2) by blast
    have "length ?f + length ?b \<le> length content" using small assms(2) by (simp add: available_def)
    then have "length ?f \<le> length r2" using arg_cong [OF r2, of length] by simp
    then have "r1 = drop (length ?f) r2 @ ?b" using r1 r2 by (metis append_eq_conv_conj drop_append diff_is_0_eq drop_0)
    then obtain mid where "r1 = mid @ ?b" by blast
    with r1 have "content = ?f @ mid @ ?b" by simp
    moreover have "int (length (compactHistoricalContent content limit label)) \<le> limit"
      using small False by (simp add: eq available_def)
    ultimately show ?thesis using eq unfolding marker_def by blast
  qed
qed


section \<open>Concrete conversations\<close>

definition demo_chat_env :: "int chat_env" where
  "demo_chat_env = \<lparr>ce_sha256 = (\<lambda>s. s), ce_marshal = (\<lambda>_. Inr ''?''), ce_unmarshal = (\<lambda>_. Inr None),
     ce_messages_size = (\<lambda>ms. 100 * length ms), ce_tools_size = (\<lambda>ts. 10 * length ts), ce_request_size = (\<lambda>_. 50)\<rparr>"

definition demo_request :: "int ChatRequest" where
  "demo_request = \<lparr>cr_Model = ''m'', cr_Messages = [], cr_MaxTokens = 0, cr_MaxCompletionTokens = 0, cr_Stream = False, cr_Tools = [],
     cr_ToolChoice = ''auto'', cr_SessionID = ''s''\<rparr>"

abbreviation demo_asked :: "int Message" where "demo_asked \<equiv> plain_message ''user'' (TextContent ''hi'')"

abbreviation demo_calling :: "int Message" where
  "demo_calling \<equiv> (plain_message ''assistant'' NoContent)
     \<lparr>mm_ToolCalls := [\<lparr>tc_ID = ''c1'', tc_Type = ''function'', tc_Function = \<lparr>fn_Name = ''f'', fn_Arguments = ''{}''\<rparr>\<rparr>]\<rparr>"

abbreviation demo_answer :: "int Message" where
  "demo_answer \<equiv> (plain_message ''tool'' (TextContent ''ok''))\<lparr>mm_ToolCallID := ''c1''\<rparr>"

lemma demo_pairs: "results_called [demo_asked, demo_calling, demo_answer]" "calls_answered [demo_asked, demo_calling, demo_answer]"
proof -
  have calls: "assistantHasToolCall demo_calling i \<longleftrightarrow> i = ''c1''" "\<not> assistantHasToolCall demo_asked i"
    "\<not> assistantHasToolCall demo_answer i" for i
    by (auto simp: assistantHasToolCall_def plain_message_def)
  show "results_called [demo_asked, demo_calling, demo_answer]"
    unfolding results_called_def using calls(1) [of "''c1''"]
    by (auto simp: less_Suc_eq plain_message_def intro!: exI [of _ 1])
  show "calls_answered [demo_asked, demo_calling, demo_answer]"
    unfolding calls_answered_def
  proof (intro allI impI)
    fix j callID
    assume "j < length [demo_asked, demo_calling, demo_answer]" "assistantHasToolCall ([demo_asked, demo_calling, demo_answer] ! j) callID"
    then have "j < 3" and has: "assistantHasToolCall ([demo_asked, demo_calling, demo_answer] ! j) callID" by simp_all
    then consider "j = 0" | "j = 1" | "j = 2" by linarith
    then have "j = 1 \<and> callID = ''c1''" by cases (use has calls [of callID] in simp_all)
    then show "\<exists>i. j < i \<and> i < length [demo_asked, demo_calling, demo_answer] \<and>
        mm_Role ([demo_asked, demo_calling, demo_answer] ! i) = ''tool'' \<and>
        mm_ToolCallID ([demo_asked, demo_calling, demo_answer] ! i) = callID"
      by (intro exI [of _ 2]) (simp add: plain_message_def)
  qed
qed

theorem view_keeps_pairs_witness:
  "results_called (CompactModelMessagesForRequest demo_chat_env [demo_asked, demo_calling, demo_answer] demo_request 1000) \<and>
   calls_answered (CompactModelMessagesForRequest demo_chat_env [demo_asked, demo_calling, demo_answer] demo_request 1000)"
  by (rule view_keeps_pairs [OF demo_pairs])

theorem repeated_ids_keep_history_witness:
  "\<exists>pre. collapseHistoricalPrefix (demo_asked # rounds (Suc 99) demo_calling demo_answer) 1000 = pre @ rounds (Suc 99) demo_calling demo_answer"
proof -
  have "assistantHasToolCall demo_calling ''c1''" "mm_Role demo_answer = ''tool''" "mm_ToolCallID demo_answer = ''c1''"
    "''c1'' \<noteq> ([] :: string)" "\<not> assistantHasToolCall demo_asked ''c1''"
    by (simp_all add: assistantHasToolCall_def plain_message_def)
  from repeated_ids_keep_history [OF this, of 99 1000] show ?thesis .
qed

theorem shortened_text_witness:
  "compactHistoricalContent (replicate 200 (CHR ''a'')) 10 ''tool'' = compaction_marker ''tool'' 190 \<or>
    (\<exists>front mid rear. replicate 200 (CHR ''a'') = front @ mid @ rear \<and>
       compactHistoricalContent (replicate 200 (CHR ''a'')) 10 ''tool'' = front @ compaction_marker ''tool'' 190 @ rear \<and>
       int (length (compactHistoricalContent (replicate 200 (CHR ''a'')) 10 ''tool'')) \<le> 10)"
  using shortened_text [of 10 "replicate 200 (CHR ''a'')" "''tool''"] by simp

end
