(* ===== verification/Tool_Loop.thy ===== *)
theory Tool_Loop
  imports Tool_Calls Stream_Accumulator Efficient_Context
begin

text \<open>
  The loop of the tool runner (src/pkg/toolrunner/execution.go, executeWithTools): ask the model with the whole conversation,
  read the stream of its reply, carry out the tool calls of the reply, append the results, and ask again until a reply has no
  calls or the iterations are used up.

  The model client is a parameter: for a request it tells the events that the \<open>select\<close> of the stream loop takes, in their order,
  and the world when the stream has been read.  A list of events that ends before the loop leaves is a wait without end,
  \<open>None\<close>.  The order in which the goroutines of a batch of calls get through, and the recycled slices of records,
  are arguments as in \<open>Tool_Calls\<close>.  The requests that the loop sends are part of its outcome.

  Shown here: when the streams end, the loop returns after at most the configured number of requests, and every request it
  sends has each tool result after its call and each call before its result; the race between the two channels of a stream.
\<close>

section \<open>Reading a stream\<close>

text \<open>What one \<open>select\<close> takes: a chunk, the closed channel of chunks, an error or the closed channel of errors, the end of the context.\<close>

datatype select_event = GotChunk StreamChunk | ChunksClosed | GotError "string option" | GotDone ctx_error

record stream_state =
  ss_acc :: StreamAccumulator
  ss_finishReason :: string
  ss_thinkParser :: ThinkTagParser
  ss_hasReasoningDetails :: bool

definition new_stream :: stream_state where
  "new_stream = \<lparr>ss_acc = NewStreamAccumulator, ss_finishReason = [], ss_thinkParser = NewThinkTagParser, ss_hasReasoningDetails = False\<rparr>"

definition detail_text :: "ReasoningDetail \<Rightarrow> string" where
  "detail_text rd = (if rd_Text rd = [] then rd_Summary rd else rd_Text rd)"

text \<open>What the handler hears of a delta.\<close>

definition delta_events :: "MessageDelta \<Rightarrow> stream_state \<Rightarrow> think_event list \<times> stream_state" where
  "delta_events delta st =
     (let details = md_ReasoningDetails delta;
          has = (ss_hasReasoningDetails st \<or> details \<noteq> []);
          ev1 = map OnReasoning (filter (\<lambda>t. t \<noteq> []) (map detail_text details));
          ev2 = (if md_Reasoning delta \<noteq> [] \<and> \<not> has then [OnReasoning (md_Reasoning delta)] else []);
          filtered = (if md_Content delta \<noteq> [] then FilterToolCallTokens (md_Content delta) else []);
          (ev3, parser) =
            (if filtered = [] then ([], ss_thinkParser st)
             else if has then ([OnText filtered], ss_thinkParser st)
             else Write filtered (ss_thinkParser st))
      in (ev1 @ ev2 @ ev3, st\<lparr>ss_hasReasoningDetails := has, ss_thinkParser := parser\<rparr>))"

text \<open>\<open>None\<close> is the panic of the accumulator.\<close>

definition take_chunk :: "bool \<Rightarrow> StreamChunk \<Rightarrow> stream_state \<Rightarrow> (think_event list \<times> stream_state) option" where
  "take_chunk handler chunk st =
     map_option (\<lambda>acc.
       let st1 = st\<lparr>ss_acc := acc\<rparr>
       in case sk_Choices chunk of
            [] \<Rightarrow> ([], st1)
          | choice # _ \<Rightarrow>
              let st2 = (case sc_FinishReason choice of None \<Rightarrow> st1 | Some fr \<Rightarrow> st1\<lparr>ss_finishReason := fr\<rparr>)
              in if handler then delta_events (sc_Delta choice) st2 else ([], st2))
       (Add (ss_acc st) chunk)"

datatype stream_end = StreamDone stream_state | StreamFailed string | StreamPanicked

fun read_stream :: "bool \<Rightarrow> select_event list \<Rightarrow> stream_state \<Rightarrow> (think_event list \<times> stream_end) option" where
  "read_stream handler [] st = None"
| "read_stream handler (GotDone e # _) st = Some ([], StreamFailed (ge_text (context_error e)))"
| "read_stream handler (GotError (Some err) # _) st = Some ([], StreamFailed (''streaming chat completion: '' @ err))"
| "read_stream handler (GotError None # _) st = Some ([], StreamDone st)"
| "read_stream handler (ChunksClosed # _) st = Some ([], StreamDone st)"
| "read_stream handler (GotChunk chunk # evs) st =
     (case take_chunk handler chunk st of
        None \<Rightarrow> Some ([], StreamPanicked)
      | Some (ev, st') \<Rightarrow> map_option (\<lambda>(ev', out). (ev @ ev', out)) (read_stream handler evs st'))"

text \<open>The rest of the thinking is flushed when the stream is over.\<close>

definition end_of_stream :: "bool \<Rightarrow> stream_state \<Rightarrow> think_event list" where
  "end_of_stream handler st =
     (if handler then fst (Flush (ss_thinkParser st)) @ (if ss_hasReasoningDetails st then [OnReasoningEnd] else []) else [])"

section \<open>The runner\<close>

record LoopResult =
  lr_Content :: string
  lr_Reasoning :: string
  lr_ToolCalls :: "CallRecord list"
  lr_Usage :: Usage
  lr_Iterations :: int
  lr_FinishReason :: string

definition empty_result :: LoopResult where
  "empty_result = \<lparr>lr_Content = [], lr_Reasoning = [], lr_ToolCalls = [], lr_Usage = no_usage, lr_Iterations = 0, lr_FinishReason = []\<rparr>"

datatype stream_event = Thinking think_event | ToolEvent tool_event | OnError string | OnComplete LoopResult

text \<open>The model client: the stream and the answer for a request, the model for executions, and the context lengths if it knows them.\<close>

record ('f, 'o) models =
  ml_ChatCompletionStream :: "'f ChatRequest \<Rightarrow> ('f, 'o) world \<Rightarrow> select_event list \<times> ('f, 'o) world"
  ml_ChatCompletion :: "'f ChatRequest \<Rightarrow> ('f, 'o) world \<Rightarrow> (string + 'f content list) \<times> ('f, 'o) world"
  ml_ExecutionModel :: string
  ml_ContextLength :: "(string \<Rightarrow> int) option"

record ('f, 'o) Runner =
  ru_calls :: "('f, 'o) runner"
  ru_chat :: "'f chat_env"
  ru_Models :: "('f, 'o) models"
  ru_DefaultMaxIterations :: int
  ru_MaxToolsPhase1 :: int
  ru_EnableReasoning :: bool
  ru_ModelTimeout :: go_duration
  ru_streamHandler :: bool

record 'f Request =
  rq_Messages :: "'f Message list"
  rq_SelectionPrompt :: string
  rq_AllowedTools :: "string list"
  rq_MaxIterations :: int
  rq_Model :: string
  rq_SessionID :: string

definition notifyStreamError :: "('f, 'o) Runner \<Rightarrow> string \<Rightarrow> stream_event list" where
  "notifyStreamError r err = (if ru_streamHandler r then [OnError err] else [])"

definition complete :: "('f, 'o) Runner \<Rightarrow> LoopResult \<Rightarrow> stream_event list" where
  "complete r res = (if ru_streamHandler r then [OnComplete res] else [])"

definition requestModel :: "('f, 'o) Runner \<Rightarrow> 'f Request \<Rightarrow> string" where
  "requestModel r req = (let modelID = trim_space (rq_Model req) in if modelID = [] then ml_ExecutionModel (ru_Models r) else modelID)"

section \<open>One reply\<close>

definition api_request :: "('f, 'o) Runner \<Rightarrow> string \<Rightarrow> string \<Rightarrow> int \<Rightarrow> string list \<Rightarrow> 'f Message list \<Rightarrow> 'f ChatRequest" where
  "api_request r modelID sessionID contextWindow toolDefs messages =
     (let apiReq = \<lparr>cr_Model = modelID, cr_Messages = [], cr_MaxTokens = 0, cr_MaxCompletionTokens = 0, cr_Stream = True,
            cr_Tools = toolDefs, cr_ToolChoice = (if toolDefs \<noteq> [] then ''auto'' else []), cr_SessionID = sessionID\<rparr>
      in apiReq\<lparr>cr_Messages := CompactModelMessagesForRequest (ru_chat r) messages apiReq contextWindow\<rparr>)"

definition note_reply :: "('f, 'o) Runner \<Rightarrow> stream_state \<Rightarrow> 'f Message \<Rightarrow> LoopResult \<Rightarrow> LoopResult" where
  "note_reply r st msg res =
     (let res1 = (case sa_usage (ss_acc st) of None \<Rightarrow> res | Some u \<Rightarrow> res\<lparr>lr_Usage := AddUsage (lr_Usage res) u\<rparr>);
          res2 = res1\<lparr>lr_FinishReason := ss_finishReason st\<rparr>
      in if mm_Reasoning msg \<noteq> [] \<and> ru_EnableReasoning r then res2\<lparr>lr_Reasoning := mm_Reasoning msg\<rparr> else res2)"

text \<open>A reply without tool calls is the answer.\<close>

definition final_answer :: "('f, 'o) Runner \<Rightarrow> 'f Message \<Rightarrow> LoopResult \<Rightarrow> LoopResult \<times> string option \<times> stream_event list" where
  "final_answer r msg res =
     (let raw = (case content_string (mm_Content msg) of None \<Rightarrow> [] | Some s \<Rightarrow> s);
          (thinking, content) = ExtractThinkingContent raw;
          res1 = (if thinking \<noteq> [] \<and> lr_Reasoning res = [] then res\<lparr>lr_Reasoning := thinking\<rparr> else res)
      in if trim_space content = [] then
           (if lr_Reasoning res1 \<noteq> [] then let res2 = res1\<lparr>lr_Content := []\<rparr> in (res2, None, complete r res2)
            else (res1, Some ''model returned empty response'', notifyStreamError r ''model returned empty response''))
         else let res2 = res1\<lparr>lr_Content := content\<rparr> in (res2, None, complete r res2))"

definition ensure_ids :: "ToolCall list \<Rightarrow> ToolCall list" where
  "ensure_ids calls = map (\<lambda>(i, call). if tc_ID call = [] then call\<lparr>tc_ID := ''tool-'' @ itoa_nat (Suc i)\<rparr> else call) (enumerate 0 calls)"

fun tool_messages :: "toolResultDeduper option \<Rightarrow> CallRecord list \<Rightarrow> 'f Message list \<times> toolResultDeduper option" where
  "tool_messages d [] = ([], d)"
| "tool_messages d (tr # trs) =
     (let (content, d1) = messageFor d (ToolCallRecord.truncate tr);
          (ms, d2) = tool_messages d1 trs
      in ((plain_message ''tool'' (TextContent content))\<lparr>mm_ToolCallID := tcr_ID tr, mm_Name := tcr_Name tr\<rparr> # ms, d2))"

section \<open>The loop\<close>

datatype loop_end = LoopReturned LoopResult "string option" | LoopPanicked string

type_synonym ('f, 'o) loop_outcome = "(loop_end \<times> stream_event list \<times> 'f ChatRequest list \<times> ('f, 'o) world) option"

abbreviation before :: "stream_event list \<Rightarrow> 'f ChatRequest list \<Rightarrow> ('f, 'o) loop_outcome \<Rightarrow> ('f, 'o) loop_outcome" where
  "before ev reqs \<equiv> map_option (\<lambda>(out, ev', reqs', w). (out, ev @ ev', reqs @ reqs', w))"

record loop_config =
  lc_model :: string
  lc_session :: string
  lc_window :: int
  lc_tools :: "string list"

fun tool_loop :: "('f, 'o) Runner \<Rightarrow> go_context \<Rightarrow> loop_config \<Rightarrow> (toolCallMeta list \<Rightarrow> toolCallMeta list) \<Rightarrow> (nat \<Rightarrow> CallRecord list) \<Rightarrow> nat \<Rightarrow>
  int \<Rightarrow> 'f Message list \<Rightarrow> toolResultDeduper option \<Rightarrow> LoopResult \<Rightarrow> ('f, 'o) world \<Rightarrow> ('f, 'o) loop_outcome" where
  "tool_loop r ctx lc order stale 0 i messages d res w =
     Some (LoopReturned (res\<lparr>lr_Content := ''Maximum iterations reached. Please try a simpler request.''\<rparr>) None, [], [], w)"
| "tool_loop r ctx lc order stale (Suc n) i messages d res w =
     (let res1 = res\<lparr>lr_Iterations := i + 1\<rparr>
      in case ctx_Err ctx w of
           Some e \<Rightarrow> (let err = ge_text (context_error e) in Some (LoopReturned res1 (Some err), notifyStreamError r err, [], w))
         | None \<Rightarrow>
             let apiReq = api_request r (lc_model lc) (lc_session lc) (lc_window lc) (lc_tools lc) messages;
                 (events, w1) = ml_ChatCompletionStream (ru_Models r) apiReq w
             in Option.bind (read_stream (ru_streamHandler r) events new_stream) (\<lambda>(ev, out).
                  case out of
                    StreamPanicked \<Rightarrow> Some (LoopPanicked ''index out of range'', map Thinking ev, [apiReq], w1)
                  | StreamFailed err \<Rightarrow>
                      Some (LoopReturned res1 (Some err), map Thinking ev @ notifyStreamError r err, [apiReq], w1)
                  | StreamDone st \<Rightarrow>
                      let ev1 = map Thinking (ev @ end_of_stream (ru_streamHandler r) st);
                          msg = FinalizeWithTokenParsing (ss_acc st);
                          res2 = note_reply r st msg res1
                      in if mm_ToolCalls msg = [] then
                           (let (res3, err, ev2) = final_answer r msg res2 in Some (LoopReturned res3 err, ev1 @ ev2, [apiReq], w1))
                         else
                           let calls = ensure_ids (mm_ToolCalls msg);
                               asked = (plain_message ''assistant'' (mm_Content msg))\<lparr>mm_ToolCalls := calls\<rparr>
                           in case executeToolCalls ((ru_calls r)\<lparr>rn_toolMap := lc_tools lc\<rparr>) (Some ctx) calls order (stale (length calls)) w1 of
                                None \<Rightarrow> None
                              | Some (Inl v, ev2, w2) \<Rightarrow>
                                  Some (LoopPanicked v, ev1 @ (if ru_streamHandler r then map ToolEvent ev2 else []), [apiReq], w2)
                              | Some (Inr rcds, ev2, w2) \<Rightarrow>
                                  let (answers, d1) = tool_messages d rcds
                                  in before (ev1 @ (if ru_streamHandler r then map ToolEvent ev2 else [])) [apiReq]
                                       (tool_loop r ctx lc order stale n (i + 1) (messages @ asked # answers) d1
                                          (res2\<lparr>lr_ToolCalls := lr_ToolCalls res2 @ rcds\<rparr>) w2)))"

definition max_iterations :: "('f, 'o) Runner \<Rightarrow> 'f Request \<Rightarrow> nat" where
  "max_iterations r req =
     (let m1 = rq_MaxIterations req;
          m2 = (if m1 \<le> 0 then ru_DefaultMaxIterations r else m1)
      in nat (if m2 \<le> 0 then 25 else m2))"

definition executeWithTools :: "('f, 'o) Runner \<Rightarrow> go_context \<Rightarrow> (toolCallMeta list \<Rightarrow> toolCallMeta list) \<Rightarrow> (nat \<Rightarrow> CallRecord list) \<Rightarrow>
  'f Request \<Rightarrow> ('f, 'o) Tool list \<Rightarrow> LoopResult \<Rightarrow> ('f, 'o) world \<Rightarrow> ('f, 'o) loop_outcome" where
  "executeWithTools r ctx order stale req tools res w =
     (let modelID = requestModel r req;
          session = trim_space (rq_SessionID req);
          lc = \<lparr>lc_model = modelID, lc_session = (if session = [] then ''toolrunner-'' @ itoa (w_now w) else session),
                lc_window = (case ml_ContextLength (ru_Models r) of None \<Rightarrow> 0 | Some f \<Rightarrow> f modelID), lc_tools = map tl_Name tools\<rparr>
      in tool_loop r ctx lc order stale (max_iterations r req) 0 (rq_Messages req) (Some []) res w)"

section \<open>The loop returns and its requests are well formed\<close>

lemma results_called_append:
  assumes "results_called ms"
    and "\<forall>t \<in> set ts. mm_Role t = ''tool'' \<longrightarrow> mm_ToolCallID t \<noteq> [] \<longrightarrow> (\<exists>m \<in> set ms. assistantHasToolCall m (mm_ToolCallID t))"
  shows "results_called (ms @ ts)"
  unfolding results_called_def
proof (intro allI impI)
  fix i
  assume i: "i < length (ms @ ts)" "mm_Role ((ms @ ts) ! i) = ''tool''" "mm_ToolCallID ((ms @ ts) ! i) \<noteq> []"
  show "\<exists>j < i. assistantHasToolCall ((ms @ ts) ! j) (mm_ToolCallID ((ms @ ts) ! i))"
  proof (cases "i < length ms")
    case True
    then obtain j where "j < i" "assistantHasToolCall (ms ! j) (mm_ToolCallID (ms ! i))"
      using assms(1) i unfolding results_called_def by (metis nth_append)
    then have "j < i \<and> assistantHasToolCall ((ms @ ts) ! j) (mm_ToolCallID ((ms @ ts) ! i))" using True by (simp add: nth_append)
    then show ?thesis by blast
  next
    case False
    then have "(ms @ ts) ! i \<in> set ts" using i by (simp add: nth_append)
    then obtain m where "m \<in> set ms" "assistantHasToolCall m (mm_ToolCallID ((ms @ ts) ! i))" using assms(2) i by blast
    moreover then obtain j where "j < length ms" "ms ! j = m" by (auto simp: in_set_conv_nth)
    ultimately have "j < i \<and> assistantHasToolCall ((ms @ ts) ! j) (mm_ToolCallID ((ms @ ts) ! i))" using False by (simp add: nth_append)
    then show ?thesis by blast
  qed
qed

lemma calls_answered_append:
  assumes "calls_answered ms" "\<forall>t \<in> set ts. mm_Role t \<noteq> ''assistant''"
    and "\<forall>callID. callID \<noteq> [] \<longrightarrow> assistantHasToolCall a callID \<longrightarrow> (\<exists>t \<in> set ts. mm_Role t = ''tool'' \<and> mm_ToolCallID t = callID)"
  shows "calls_answered (ms @ a # ts)"
  unfolding calls_answered_def
proof (intro allI impI)
  fix j callID
  assume j: "j < length (ms @ a # ts)" "callID \<noteq> []" "assistantHasToolCall ((ms @ a # ts) ! j) callID"
  consider "j < length ms" | "j = length ms" | "length ms < j" by linarith
  then show "\<exists>i. j < i \<and> i < length (ms @ a # ts) \<and> mm_Role ((ms @ a # ts) ! i) = ''tool'' \<and> mm_ToolCallID ((ms @ a # ts) ! i) = callID"
  proof cases
    case 1
    then obtain i where "j < i" "i < length ms" "mm_Role (ms ! i) = ''tool''" "mm_ToolCallID (ms ! i) = callID"
      using assms(1) j unfolding calls_answered_def by (auto simp: nth_append)
    then show ?thesis by (intro exI [of _ i]) (simp add: nth_append)
  next
    case 2
    then obtain t where "t \<in> set ts" "mm_Role t = ''tool''" "mm_ToolCallID t = callID" using assms(3) j by (auto simp: nth_append)
    moreover then obtain k where "k < length ts" "ts ! k = t" by (auto simp: in_set_conv_nth)
    ultimately show ?thesis using 2 by (intro exI [of _ "Suc (length ms + k)"]) (simp add: nth_append)
  next
    case 3
    then have "(ms @ a # ts) ! j \<in> set ts" using j(1) by (auto simp: nth_append nth_Cons split: nat.splits)
    then show ?thesis using assms(2) j(3) by (auto simp: assistantHasToolCall_def)
  qed
qed

lemma tool_messages_shape:
  "map mm_ToolCallID (fst (tool_messages d rcds)) = map tcr_ID rcds" "\<forall>m \<in> set (fst (tool_messages d rcds)). mm_Role m = ''tool''"
  by (induction rcds arbitrary: d) (auto simp: Let_def split_def plain_message_def)

lemma ensure_ids_nonempty: "\<forall>call \<in> set (ensure_ids calls). tc_ID call \<noteq> []"
  by (auto simp: ensure_ids_def split: if_splits)

lemma answered_round:
  assumes ok: "results_called messages" "calls_answered messages" and ans: "answers rcds calls"
  shows "results_called (messages @ (plain_message ''assistant'' c)\<lparr>mm_ToolCalls := calls\<rparr> # fst (tool_messages d rcds))"
    and "calls_answered (messages @ (plain_message ''assistant'' c)\<lparr>mm_ToolCalls := calls\<rparr> # fst (tool_messages d rcds))"
proof -
  let ?a = "(plain_message ''assistant'' c)\<lparr>mm_ToolCalls := calls\<rparr>" and ?ts = "fst (tool_messages d rcds)"
  have ids: "map mm_ToolCallID ?ts = map tc_ID calls"
    unfolding tool_messages_shape(1) using ans by (auto simp: answers_def list_all2_conv_all_nth intro: nth_equalityI)
  have has: "assistantHasToolCall ?a i \<longleftrightarrow> i \<in> tc_ID ` set calls" for i
    by (auto simp: assistantHasToolCall_def plain_message_def list_ex_iff)
  have sets: "mm_ToolCallID ` set ?ts = tc_ID ` set calls" using ids by (metis set_map)
  have "results_called (messages @ [?a])" using ok(1) by (rule results_called_append) (simp add: plain_message_def)
  then have "results_called ((messages @ [?a]) @ ?ts)"
    by (rule results_called_append) (use has sets in auto)
  then show "results_called (messages @ ?a # ?ts)" by simp
  show "calls_answered (messages @ ?a # ?ts)"
  proof (rule calls_answered_append [OF ok(2)])
    show "\<forall>t \<in> set ?ts. mm_Role t \<noteq> ''assistant''" using tool_messages_shape(2) by fastforce
    show "\<forall>i. i \<noteq> [] \<longrightarrow> assistantHasToolCall ?a i \<longrightarrow> (\<exists>t \<in> set ?ts. mm_Role t = ''tool'' \<and> mm_ToolCallID t = i)"
    proof (intro allI impI)
      fix i
      assume "assistantHasToolCall ?a i"
      then have "i \<in> mm_ToolCallID ` set ?ts" unfolding has sets .
      then show "\<exists>t \<in> set ?ts. mm_Role t = ''tool'' \<and> mm_ToolCallID t = i" using tool_messages_shape(2) [of d rcds] by blast
    qed
  qed
qed


text \<open>A stream that ends: some event of it leaves the loop.\<close>

fun leaves :: "select_event \<Rightarrow> bool" where
  "leaves (GotChunk _) = False"
| "leaves _ = True"

abbreviation stream_ends :: "select_event list \<Rightarrow> bool" where "stream_ends evs \<equiv> list_ex leaves evs"

lemma read_stream_returns: "stream_ends evs \<Longrightarrow> \<exists>ev out. read_stream handler evs st = Some (ev, out)"
proof (induction evs arbitrary: st)
  case (Cons e evs)
  show ?case
  proof (cases e)
    case (GotChunk chunk)
    then have "stream_ends evs" using Cons.prems by simp
    then have IH: "\<exists>ev out. read_stream handler evs st' = Some (ev, out)" for st' using Cons.IH by blast
    show ?thesis
    proof (cases "take_chunk handler chunk st")
      case (Some p)
      obtain ev st' where p: "p = (ev, st')" by fastforce
      obtain ev' out where "read_stream handler evs st' = Some (ev', out)" using IH by blast
      then show ?thesis using GotChunk Some p by simp
    qed (simp add: GotChunk)
  next
    case (GotError err)
    then show ?thesis by (cases err) simp_all
  qed simp_all
qed simp

definition paired :: "'f Message list \<Rightarrow> bool" where
  "paired ms \<longleftrightarrow> results_called ms \<and> calls_answered ms"

lemma api_request_paired: "paired ms \<Longrightarrow> paired (cr_Messages (api_request r m s window tools ms))"
  by (simp add: paired_def api_request_def Let_def CompactModelMessagesForRequest_def view_pairs)

text \<open>What is shown of a loop with \<open>n\<close> iterations left.\<close>

definition loop_good :: "nat \<Rightarrow> 'f Message list \<Rightarrow> ('f, 'o) loop_outcome \<Rightarrow> bool" where
  "loop_good n messages out = (\<exists>le ev reqs w. out = Some (le, ev, reqs, w) \<and> length reqs \<le> n \<and>
     (paired messages \<longrightarrow> (\<forall>q \<in> set reqs. paired (cr_Messages q))))"

lemma loop_good_stop: "loop_good n messages (Some (le, ev, [], w))"
  by (simp add: loop_good_def)

lemma loop_good_one:
  "(paired messages \<Longrightarrow> paired (cr_Messages q)) \<Longrightarrow> loop_good (Suc n) messages (Some (le, ev, [q], w))"
  by (simp add: loop_good_def)

lemma loop_good_before:
  assumes "loop_good n messages' out" "paired messages \<Longrightarrow> paired messages' \<and> paired (cr_Messages q)"
  shows "loop_good (Suc n) messages (map_option (\<lambda>(le, ev, reqs, w). (le, f ev, q # reqs, w)) out)"
  using assms by (fastforce simp: loop_good_def)

lemma tool_loop_good:
  assumes exec: "rn_ToolExecutor (ru_calls r) = None" "\<forall>b. mset (order b) = mset b" "\<forall>k. length (stale k) = k"
    and ends: "\<forall>q w. stream_ends (fst (ml_ChatCompletionStream (ru_Models r) q w))"
  shows "loop_good n messages (tool_loop r ctx lc order stale n i messages d res w)"
proof (induction n arbitrary: i messages d res w)
  case 0
  then show ?case by (simp add: loop_good_stop)
next
  case (Suc n)
  let ?q = "api_request r (lc_model lc) (lc_session lc) (lc_window lc) (lc_tools lc) messages"
  obtain events w1 where s: "ml_ChatCompletionStream (ru_Models r) ?q w = (events, w1)" by fastforce
  then have "stream_ends events" using ends by (metis fst_conv)
  then obtain ev out where read: "read_stream (ru_streamHandler r) events new_stream = Some (ev, out)"
    using read_stream_returns by blast
  have q: "paired messages \<Longrightarrow> paired (cr_Messages ?q)" by (rule api_request_paired)
  show ?case
  proof (cases "ctx_Err ctx w")
    case (Some e)
    then show ?thesis by (simp add: Let_def loop_good_stop)
  next
    case None
    show ?thesis
    proof (cases out)
      case (StreamDone st)
      define msg :: "'a Message" where "msg = FinalizeWithTokenParsing (ss_acc st)"
      define calls where "calls = ensure_ids (mm_ToolCalls msg)"
      obtain rcds ev2 w2 where run: "executeToolCalls ((ru_calls r)\<lparr>rn_toolMap := lc_tools lc\<rparr>) (Some ctx) calls order
          (stale (length calls)) w1 = Some (Inr rcds, ev2, w2)" and ans: "answers rcds calls"
        using executed_answers [of "(ru_calls r)\<lparr>rn_toolMap := lc_tools lc\<rparr>" order "stale (length calls)" calls "Some ctx" w1] exec by auto
      have round: "paired (messages @ (plain_message ''assistant'' (mm_Content msg))\<lparr>mm_ToolCalls := calls\<rparr> # fst (tool_messages d rcds))"
        if "paired messages"
        using that by (simp add: paired_def answered_round [OF _ _ ans])
      show ?thesis
      proof (cases "mm_ToolCalls msg = []")
        case True
        then show ?thesis using None s read StreamDone q by (simp add: Let_def split_def msg_def loop_good_one)
      next
        case False
        obtain ms :: "'a Message list" and d1 where ms: "tool_messages d rcds = (ms, d1)" by fastforce
        show ?thesis using None s read StreamDone False run [unfolded calls_def] ms round [unfolded calls_def] q
          by (auto simp: Let_def msg_def [symmetric] intro!: loop_good_before [OF Suc.IH])
      qed
    qed (use None s read q in \<open>simp_all add: Let_def loop_good_one\<close>)
  qed
qed

text \<open>C3: When every stream ends and the default executor runs the tools, the loop returns or panics, however long the model keeps
  calling tools, after at most the configured number of requests; and every request has all tool results after their calls
  and all calls before their results, if the conversation it started from does.\<close>

theorem loop_returns_paired:
  assumes "rn_ToolExecutor (ru_calls r) = None" "\<forall>b. mset (order b) = mset b" "\<forall>k. length (stale k) = k"
    and "\<forall>q w. stream_ends (fst (ml_ChatCompletionStream (ru_Models r) q w))" "paired (rq_Messages req)"
  shows "\<exists>out ev reqs w'. executeWithTools r ctx order stale req tools res w = Some (out, ev, reqs, w') \<and>
    length reqs \<le> max_iterations r req \<and> (\<forall>q \<in> set reqs. paired (cr_Messages q))"
proof -
  have "loop_good (max_iterations r req) (rq_Messages req) (executeWithTools r ctx order stale req tools res w)"
    unfolding executeWithTools_def Let_def by (rule tool_loop_good [OF assms(1-4)])
  then show ?thesis using assms(5) by (auto simp: loop_good_def)
qed

section \<open>The two channels of a stream\<close>

text \<open>A provider's goroutine and the \<open>select\<close> of the loop share a channel of chunks and a channel of errors.  \<open>cap\<close> is the
  capacity of the first; that of the second is one.\<close>

record channels =
  ch_chunks :: "StreamChunk list"
  ch_chunksClosed :: bool
  ch_errs :: "string list"
  ch_errsClosed :: bool

definition no_channels :: channels where
  "no_channels = \<lparr>ch_chunks = [], ch_chunksClosed = False, ch_errs = [], ch_errsClosed = False\<rparr>"

datatype provider_act = SendChunk StreamChunk | SendErr string | CloseChunks | CloseErrs

inductive provider_step :: "nat \<Rightarrow> provider_act \<Rightarrow> channels \<Rightarrow> channels \<Rightarrow> bool" where
  send_chunk: "length (ch_chunks ch) < cap \<Longrightarrow> provider_step cap (SendChunk c) ch (ch\<lparr>ch_chunks := ch_chunks ch @ [c]\<rparr>)"
| send_err: "length (ch_errs ch) < 1 \<Longrightarrow> provider_step cap (SendErr e) ch (ch\<lparr>ch_errs := ch_errs ch @ [e]\<rparr>)"
| close_chunks: "provider_step cap CloseChunks ch (ch\<lparr>ch_chunksClosed := True\<rparr>)"
| close_errs: "provider_step cap CloseErrs ch (ch\<lparr>ch_errsClosed := True\<rparr>)"

inductive select_step :: "channels \<Rightarrow> select_event \<Rightarrow> channels \<Rightarrow> bool" where
  chunk: "ch_chunks ch = c # cs \<Longrightarrow> select_step ch (GotChunk c) (ch\<lparr>ch_chunks := cs\<rparr>)"
| chunks_closed: "ch_chunks ch = [] \<Longrightarrow> ch_chunksClosed ch \<Longrightarrow> select_step ch ChunksClosed ch"
| err: "ch_errs ch = e # es \<Longrightarrow> select_step ch (GotError (Some e)) (ch\<lparr>ch_errs := es\<rparr>)"
| errs_closed: "ch_errs ch = [] \<Longrightarrow> ch_errsClosed ch \<Longrightarrow> select_step ch (GotError None) ch"
| ctx_done: "select_step ch (GotDone e) ch"

inductive_cases provider_stepE: "provider_step cap a ch ch'"
inductive_cases select_stepE: "select_step ch e ch'"

text \<open>The events that the loop can take while a provider does its acts.\<close>

inductive stream_trace :: "nat \<Rightarrow> provider_act list \<Rightarrow> channels \<Rightarrow> select_event list \<Rightarrow> bool" where
  stop: "stream_trace cap acts ch []"
| provider: "provider_step cap a ch ch' \<Longrightarrow> stream_trace cap acts ch' evs \<Longrightarrow> stream_trace cap (a # acts) ch evs"
| consumer: "select_step ch e ch' \<Longrightarrow> stream_trace cap acts ch' evs \<Longrightarrow> stream_trace cap acts ch (e # evs)"

text \<open>The goroutine of the Anthropic provider, from what its request returned: an error, no choices, or the chunk it makes of the
  first choice, where \<open>sprint\<close> is \<open>fmt.Sprintf\<close> of a value; the deferred closes run in reverse.\<close>

definition text_parts :: "ContentPart list \<Rightarrow> string" where
  "text_parts parts = join_with (CHR 10) (map cp_Text (filter (\<lambda>p. cp_Type p = ''text'') parts))"

fun messageContentToText :: "('f any \<Rightarrow> string) \<Rightarrow> 'f content \<Rightarrow> string" where
  "messageContentToText sprint (TextContent s) = s"
| "messageContentToText sprint (PartsContent parts) = text_parts parts"
| "messageContentToText sprint (ListContent items) =
     text_parts (List.map_filter (\<lambda>raw. case raw of VMap m \<Rightarrow> Some (part_of_map m) | _ \<Rightarrow> None) items)"
| "messageContentToText sprint NoContent = []"
| "messageContentToText sprint (OtherContent v) = sprint v"

definition toStreamDelta :: "('f any \<Rightarrow> string) \<Rightarrow> 'f Message \<Rightarrow> MessageDelta" where
  "toStreamDelta sprint msg =
     \<lparr>md_Role = mm_Role msg, md_Content = messageContentToText sprint (mm_Content msg), md_Reasoning = [], md_ReasoningDetails = [],
      md_ToolCalls = map (\<lambda>(i, call). \<lparr>td_Index = int i, td_ID = tc_ID call, td_Type = tc_Type call,
        td_Function = Some (fn_Name (tc_Function call), fn_Arguments (tc_Function call))\<rparr>) (enumerate 0 (mm_ToolCalls msg))\<rparr>"

definition anthropic_acts :: "('f any \<Rightarrow> string) \<Rightarrow> string + ('f Message \<times> string) list \<times> Usage \<Rightarrow> provider_act list" where
  "anthropic_acts sprint resp =
     (case resp of
        Inl err \<Rightarrow> [SendErr err]
      | Inr ([], _) \<Rightarrow> [SendErr ''anthropic: empty response choices'']
      | Inr ((msg, fr) # _, usage) \<Rightarrow>
          [SendChunk \<lparr>sk_Choices = [\<lparr>sc_Delta = toStreamDelta sprint msg, sc_FinishReason = Some fr\<rparr>], sk_Usage = Some usage\<rparr>])
     @ [CloseErrs, CloseChunks]"

text \<open>\<open>parseSSEStream\<close> from the lines of the response: the chunks it sends and the error it returns.  \<open>decode\<close> is
  \<open>json.Unmarshal\<close>, which fails or gives an error object of the provider or a chunk; \<open>stopped k\<close> is the end of the context as the \<open>k\<close>th
  look at it finds it, once per line and once per chunk to send; \<open>readErr\<close> is the error of the scanner after its last line.\<close>

fun parseSSEStream :: "(string \<Rightarrow> string + string + StreamChunk) \<Rightarrow> (nat \<Rightarrow> ctx_error option) \<Rightarrow> string option \<Rightarrow> nat \<Rightarrow> string list \<Rightarrow>
  StreamChunk list \<times> string option" where
  "parseSSEStream decode stopped readErr k [] = ([], map_option (\<lambda>err. ''reading stream: '' @ err) readErr)"
| "parseSSEStream decode stopped readErr k (line # lines) =
     (case stopped k of
        Some e \<Rightarrow> ([], Some (ge_text (context_error e)))
      | None \<Rightarrow>
          if line = [] \<or> has_prefix line '':'' \<or> \<not> has_prefix line ''data: '' then parseSSEStream decode stopped readErr (Suc k) lines
          else
            let body = drop 6 line
            in if body = ''[DONE]'' then ([], None)
               else case decode body of
                      Inl err \<Rightarrow> ([], Some (''decoding chunk: '' @ err))
                    | Inr (Inl apiErr) \<Rightarrow> ([], Some apiErr)
                    | Inr (Inr chunk) \<Rightarrow>
                        (case stopped (Suc k) of
                           Some e \<Rightarrow> ([], Some (ge_text (context_error e)))
                         | None \<Rightarrow>
                             let (chunks, err) = parseSSEStream decode stopped readErr (Suc (Suc k)) lines in (chunk # chunks, err)))"

text \<open>The goroutine of the client, from what the circuit breaker and the request come to: an error before any line is read, or the
  chunks and the error of the stream.  The deferred closes run in reverse.\<close>

definition client_acts :: "string + StreamChunk list \<times> string option \<Rightarrow> provider_act list" where
  "client_acts reply =
     (case reply of
        Inl err \<Rightarrow> [SendErr err]
      | Inr (chunks, None) \<Rightarrow> map SendChunk chunks
      | Inr (chunks, Some err) \<Rightarrow> map SendChunk chunks @ [SendErr (''parsing SSE stream: '' @ err)])
     @ [CloseChunks, CloseErrs]"

text \<open>What a provider still has to send, and that it sends nothing after it has closed the channel.\<close>

fun sends :: "provider_act list \<Rightarrow> StreamChunk list" where
  "sends [] = []"
| "sends (SendChunk c # acts) = c # sends acts"
| "sends (_ # acts) = sends acts"

fun closes_last :: "provider_act list \<Rightarrow> bool" where
  "closes_last [] = True"
| "closes_last (CloseChunks # acts) = (sends acts = [] \<and> closes_last acts)"
| "closes_last (_ # acts) = closes_last acts"

fun got :: "select_event list \<Rightarrow> StreamChunk list" where
  "got [] = []"
| "got (GotChunk c # evs) = c # got evs"
| "got (_ # evs) = got evs"

lemma trace_prefix:
  assumes "stream_trace cap acts ch evs" "closes_last acts" "ch_chunksClosed ch \<longrightarrow> sends acts = []"
  shows "prefix (got evs) (ch_chunks ch @ sends acts) \<and> (ChunksClosed \<in> set evs \<longrightarrow> got evs = ch_chunks ch @ sends acts)"
  using assms
proof (induction rule: stream_trace.induct)
  case (provider cap a ch ch' acts evs)
  from provider.hyps(1) show ?case by (rule provider_stepE) (use provider in auto)
next
  case (consumer ch e ch' cap acts evs)
  from consumer.hyps(1) show ?case
    by (rule select_stepE) (use consumer in auto)
qed simp

lemma sends_append: "sends (xs @ ys) = sends xs @ sends ys"
  by (induction xs rule: sends.induct) simp_all

lemma closes_last_append: "closes_last (xs @ ys) \<longleftrightarrow> closes_last xs \<and> closes_last ys \<and> (CloseChunks \<in> set xs \<longrightarrow> sends ys = [])"
  by (induction xs rule: closes_last.induct) (auto simp: sends_append)

lemma chunk_acts: "sends (map SendChunk chunks) = chunks" "closes_last (map SendChunk chunks)" "CloseChunks \<notin> set (map SendChunk chunks)"
  by (induction chunks) auto

lemma providers_close_last: "closes_last (client_acts reply)" "closes_last (anthropic_acts sprint resp)"
proof -
  show "closes_last (client_acts reply)"
    by (cases reply) (simp_all add: client_acts_def closes_last_append chunk_acts split: option.split prod.split)
  show "closes_last (anthropic_acts sprint resp)"
  proof (cases resp)
    case (Inr p)
    obtain choices usage where "p = (choices, usage)" by fastforce
    then show ?thesis using Inr by (cases choices) (auto simp: anthropic_acts_def)
  qed (simp add: anthropic_acts_def)
qed

lemma client_sends: "sends (client_acts (Inr (chunks, err))) = chunks"
  by (simp add: client_acts_def sends_append chunk_acts split: option.split)

text \<open>The chunks that the loop took before the event on which it leaves.\<close>

abbreviation taken :: "select_event list \<Rightarrow> select_event list" where "taken evs \<equiv> takeWhile (\<lambda>e. \<not> leaves e) evs"

lemma taken_got: "got (taken evs) = take (length (taken evs)) (got evs)" "length (got (taken evs)) = length (taken evs)"
  by (induction evs rule: got.induct) auto

lemma delta_events_acc [simp]: "ss_acc (snd (delta_events delta st)) = ss_acc st"
  by (simp add: delta_events_def Let_def split_def)

lemma take_chunk_adds:
  assumes "take_chunk handler chunk st = Some (ev, st')"
  shows "Add (ss_acc st) chunk = Some (ss_acc st')"
proof -
  obtain acc where acc: "Add (ss_acc st) chunk = Some acc" using assms by (auto simp: take_chunk_def)
  have "ss_acc (snd (the (take_chunk handler chunk st))) = acc"
    by (cases "sk_Choices chunk") (simp_all add: take_chunk_def acc Let_def split: option.split)
  then show ?thesis using acc assms by simp
qed

lemma read_stream_adds:
  assumes "read_stream handler evs st = Some (ev, StreamDone st')"
  shows "add_all (ss_acc st) (got (taken evs)) = Some (ss_acc st')"
  using assms
proof (induction handler evs st arbitrary: ev rule: read_stream.induct)
  case (6 handler chunk evs st)
  then obtain ev1 st1 ev2 where "take_chunk handler chunk st = Some (ev1, st1)"
    "read_stream handler evs st1 = Some (ev2, StreamDone st')" by (auto split: option.splits)
  then show ?case using 6 take_chunk_adds by simp
qed simp_all

lemma closed_in_trace: "find leaves evs = Some ChunksClosed \<Longrightarrow> \<exists>rest. evs = taken evs @ ChunksClosed # rest"
  by (induction evs) (auto split: if_splits)

lemma stream_trace_prefix: "stream_trace cap acts ch (es @ fs) \<Longrightarrow> stream_trace cap acts ch es"
proof (induction cap acts ch "es @ fs" arbitrary: es rule: stream_trace.induct)
  case (consumer ch e ch' cap acts evs)
  then show ?case by (cases es) (auto intro: stream_trace.intros)
qed (auto intro: stream_trace.intros)

text \<open>C24: A reply that the loop accepts as complete has been put together from all the chunks the loop took from the stream, in
  the order the provider sent them and without a gap: they are the first chunks that the provider sends, as many as the loop took before it
  left; and when it left on the close of the channel of chunks they are all that the provider sends.  This holds for every provider that
  sends nothing after it has closed the channel of chunks, every capacity and every interleaving of the two.\<close>

theorem stream_read_is_prefix:
  assumes "stream_trace cap acts no_channels evs" "closes_last acts"
    and "read_stream handler evs new_stream = Some (ev, StreamDone st)"
  shows "add_all NewStreamAccumulator (take (length (taken evs)) (sends acts)) = Some (ss_acc st) \<and>
    (find leaves evs = Some ChunksClosed \<longrightarrow> add_all NewStreamAccumulator (sends acts) = Some (ss_acc st))"
proof -
  have pre: "prefix (got evs) (sends acts)" using trace_prefix [OF assms(1,2)] by (simp add: no_channels_def)
  then have "got (taken evs) = take (length (taken evs)) (sends acts)"
    using taken_got [of evs] by (auto simp: prefix_def)
  moreover have added: "add_all NewStreamAccumulator (got (taken evs)) = Some (ss_acc st)"
    using read_stream_adds [OF assms(3)] by (simp add: new_stream_def)
  moreover have "got (taken evs) = sends acts" if closed: "find leaves evs = Some ChunksClosed"
  proof -
    obtain rest where "evs = (taken evs @ [ChunksClosed]) @ rest" using closed_in_trace [OF closed] by auto
    then have "stream_trace cap acts no_channels (taken evs @ [ChunksClosed])" using assms(1) stream_trace_prefix by metis
    moreover have "got (es @ [ChunksClosed]) = got es" for es by (induction es rule: got.induct) simp_all
    ultimately show ?thesis using trace_prefix [OF _ assms(2)] by (fastforce simp: no_channels_def)
  qed
  ultimately show ?thesis by metis
qed

text \<open>It can be less: when both channels are ready the \<open>select\<close> takes either.  A whole reply of the Anthropic provider can get lost
  in its buffer, behind the close of the other channel, and the loop answers that the reply was empty.\<close>

theorem reply_may_be_lost:
  "\<exists>evs. stream_trace 1 (anthropic_acts sprint (Inr ((msg, fr) # choices, usage))) no_channels evs \<and>
     read_stream handler evs new_stream = Some ([], StreamDone new_stream) \<and>
     (lr_Reasoning res = [] \<longrightarrow>
       fst (snd (final_answer r (FinalizeWithTokenParsing (ss_acc new_stream)) res)) = Some ''model returned empty response'')"
proof (intro exI conjI impI)
  let ?c = "\<lparr>sk_Choices = [\<lparr>sc_Delta = toStreamDelta sprint msg, sc_FinishReason = Some fr\<rparr>], sk_Usage = Some usage\<rparr>"
  have "stream_trace 1 [SendChunk ?c, CloseErrs, CloseChunks] no_channels [GotError None]"
    by (rule stream_trace.provider [OF provider_step.send_chunk], simp add: no_channels_def,
        rule stream_trace.provider [OF provider_step.close_errs], rule stream_trace.consumer [OF select_step.errs_closed])
      (auto simp: no_channels_def intro: stream_trace.stop)
  then show "stream_trace 1 (anthropic_acts sprint (Inr ((msg, fr) # choices, usage))) no_channels [GotError None]"
    by (simp add: anthropic_acts_def)
  show "read_stream handler [GotError None] new_stream = Some ([], StreamDone new_stream)" by simp
  have e: "ExtractThinkingContent [] = ([], [])" by code_simp
  have f: "FilterToolCallTokens [] = []" by code_simp
  assume "lr_Reasoning res = []"
  then show "fst (snd (final_answer r (FinalizeWithTokenParsing (ss_acc new_stream)) res)) = Some ''model returned empty response''"
    by (simp add: final_answer_def FinalizeWithTokenParsing_def new_stream_def NewStreamAccumulator_def f e Let_def
        split_def trim_space_def contains_def)
qed

text \<open>So can an error: the loop that sees the channel of chunks closed ends as if the reply were complete.\<close>

theorem stream_error_may_be_lost:
  "\<exists>evs. stream_trace 10 (client_acts (Inl err)) no_channels evs \<and>
     read_stream handler evs new_stream = Some ([], StreamDone new_stream)"
proof (intro exI conjI)
  show "stream_trace 10 (client_acts (Inl err)) no_channels [ChunksClosed]"
    unfolding client_acts_def
    by (simp, rule stream_trace.provider [OF provider_step.send_err], simp add: no_channels_def,
        rule stream_trace.provider [OF provider_step.close_chunks], rule stream_trace.consumer [OF select_step.chunks_closed])
      (auto simp: no_channels_def intro: stream_trace.stop)
  show "read_stream handler [ChunksClosed] new_stream = Some ([], StreamDone new_stream)" by simp
qed

section \<open>A concrete loop\<close>

text \<open>A model that calls a tool in every reply and never comes to an end.\<close>

definition calling_chunk :: StreamChunk where
  "calling_chunk = demo_chunk [] [demo_delta 0 ''run_shell'' ''ls'']"

definition demo_runner :: "(int, string \<Rightarrow> string) Runner" where
  "demo_runner = \<lparr>ru_calls = file_runner\<lparr>rn_ToolExecutor := None\<rparr>, ru_chat = demo_chat_env,
     ru_Models = \<lparr>ml_ChatCompletionStream = (\<lambda>_ w. ([GotChunk calling_chunk, ChunksClosed], w)), ml_ChatCompletion = (\<lambda>_ w. (Inl ''?'', w)),
       ml_ExecutionModel = ''m'', ml_ContextLength = None\<rparr>,
     ru_DefaultMaxIterations = 25, ru_MaxToolsPhase1 = 15, ru_EnableReasoning = False, ru_ModelTimeout = 0, ru_streamHandler = True\<rparr>"

definition demo_req :: "int Request" where
  "demo_req = \<lparr>rq_Messages = [demo_asked, demo_calling, demo_answer], rq_SelectionPrompt = [], rq_AllowedTools = [], rq_MaxIterations = 3,
     rq_Model = ''m'', rq_SessionID = ''s''\<rparr>"

theorem loop_returns_paired_witness:
  "\<exists>out ev reqs w'. executeWithTools demo_runner Background rev (\<lambda>k. replicate k (call_record (demo_call [] [] []) [] [] False 0))
      demo_req [] empty_result file_world = Some (out, ev, reqs, w') \<and>
    length reqs \<le> max_iterations demo_runner demo_req \<and> (\<forall>q \<in> set reqs. paired (cr_Messages q))"
  by (rule loop_returns_paired) (simp_all add: demo_runner_def demo_req_def paired_def demo_pairs)

lemma sse_reply:
  "parseSSEStream (\<lambda>_. Inr (Inr calling_chunk)) (\<lambda>_. None) None 0 ['': keep-alive'', ''data: {}'', [], ''data: [DONE]''] = ([calling_chunk], None)"
  by code_simp

definition sse_acts :: "provider_act list" where
  "sse_acts = client_acts (Inr (parseSSEStream (\<lambda>_. Inr (Inr calling_chunk)) (\<lambda>_. None) None 0
     ['': keep-alive'', ''data: {}'', [], ''data: [DONE]'']))"

lemma sse_read: "case read_stream True [GotChunk calling_chunk, ChunksClosed] new_stream of Some (_, StreamDone _) \<Rightarrow> True | _ \<Rightarrow> False"
  by code_simp

theorem stream_read_is_prefix_witness:
  "\<exists>ev st. read_stream True [GotChunk calling_chunk, ChunksClosed] new_stream = Some (ev, StreamDone st) \<and>
     add_all NewStreamAccumulator (sends sse_acts) = Some (ss_acc st)"
proof -
  have acts: "sse_acts = [SendChunk calling_chunk, CloseChunks, CloseErrs]" unfolding sse_acts_def sse_reply by (simp add: client_acts_def)
  have "stream_trace 10 sse_acts no_channels [GotChunk calling_chunk, ChunksClosed]"
    unfolding acts
    by (rule stream_trace.provider [OF provider_step.send_chunk], simp add: no_channels_def,
        rule stream_trace.consumer [OF select_step.chunk], simp add: no_channels_def,
        rule stream_trace.provider [OF provider_step.close_chunks], rule stream_trace.consumer [OF select_step.chunks_closed])
      (auto simp: no_channels_def intro: stream_trace.stop)
  moreover have "closes_last sse_acts" unfolding sse_acts_def by (rule providers_close_last)
  moreover obtain ev st where "read_stream True [GotChunk calling_chunk, ChunksClosed] new_stream = Some (ev, StreamDone st)"
    using sse_read by (auto split: option.splits stream_end.splits)
  ultimately show ?thesis using stream_read_is_prefix by fastforce
qed

end
