(* ===== verification/Tool_Selection.thy ===== *)
theory Tool_Selection
  imports LRU_Cache Tool_Loop
begin

text \<open>
  The first phase of the tool runner and its entry (src/pkg/toolrunner/selection.go, runner.go): the tools that a request allows, the
  model's choice among them when they are many, kept in the cache of \<open>LRU_Cache\<close>, the timeout, and the loop of \<open>Tool_Loop\<close>.

  Parameters: the decoder of a JSON array of strings, which tells whether it failed and the names it left, \<open>fmt.Sprintf\<close> of a
  content, and the node that the pool of the cache hands out.

  Shown here: a selection is among the tools on offer; a run changes nothing but through the allowed tools; a cached selection
  lacks the git tools that the first selection added.
\<close>

section \<open>Text of a message\<close>

lemma map_of_size [termination_simp]: "map_of m k = Some v \<Longrightarrow> size v < Suc (size_list (\<lambda>x. Suc (size (snd x))) m)"
  using size_list_estimation' [of "(k, v)" m "size v" "\<lambda>x. Suc (size (snd x))"] by (auto dest!: map_of_SomeD)

fun extractTextValue :: "'f any \<Rightarrow> string" where
  "extractTextValue (VString s) = s"
| "extractTextValue (VMap m) =
     (let at = (\<lambda>k. case map_of m k of None \<Rightarrow> [] | Some v \<Rightarrow> extractTextValue v)
      in if at ''text'' \<noteq> [] then at ''text'' else if at ''content'' \<noteq> [] then at ''content'' else at ''value'')"
| "extractTextValue _ = []"

definition extractTextFromMap :: "(string \<times> 'f any) list \<Rightarrow> string" where
  "extractTextFromMap part =
     (let at = (\<lambda>k. case map_of part k of None \<Rightarrow> [] | Some v \<Rightarrow> extractTextValue v)
      in if at ''text'' \<noteq> [] then at ''text'' else if at ''content'' \<noteq> [] then at ''content''
         else if at ''value'' \<noteq> [] then at ''value'' else at ''output_text'')"

definition extractTextFromContentParts :: "ContentPart list \<Rightarrow> string" where
  "extractTextFromContentParts parts =
     join_with (CHR 10) (map cp_Text (filter (\<lambda>p. trim_space (cp_Type p) = ''text'' \<and> cp_Text p \<noteq> []) parts))"

text \<open>The text, or \<open>None\<close> for the error about the format.\<close>

fun ExtractTextContent :: "'f content \<Rightarrow> string option" where
  "ExtractTextContent NoContent = Some []"
| "ExtractTextContent (TextContent s) = Some s"
| "ExtractTextContent (PartsContent parts) =
     (let t = extractTextFromContentParts parts in if t \<noteq> [] then Some t else None)"
| "ExtractTextContent (ListContent items) =
     (let ts = filter (\<lambda>t. t \<noteq> []) (map (\<lambda>v. case v of VMap m \<Rightarrow> extractTextFromMap m | _ \<Rightarrow> []) items)
      in if ts \<noteq> [] then Some (join_with (CHR 10) ts) else None)"
| "ExtractTextContent (OtherContent v) =
     (case v of VMap m \<Rightarrow> (let t = extractTextFromMap m in if t \<noteq> [] then Some t else None) | _ \<Rightarrow> None)"

section \<open>Selection\<close>

record 'f selection_env =
  se_names :: "string \<Rightarrow> bool \<times> string list"
  se_sprint :: "'f content \<Rightarrow> string"
  se_pick :: "addr option"

definition availableTools :: "('f, 'o) Registry \<Rightarrow> string list \<Rightarrow> ('f, 'o) Tool list" where
  "availableTools reg allowed_names =
     (if allowed_names = [] then snapshotTools reg
      else filter (\<lambda>t. List.member allowed_names (tl_Name t)) (snapshotTools reg))"

definition messageContentToString :: "'f selection_env \<Rightarrow> 'f content \<Rightarrow> string" where
  "messageContentToString se c = (case c of NoContent \<Rightarrow> [] | TextContent s \<Rightarrow> s | _ \<Rightarrow> se_sprint se c)"

definition lastUserMessage :: "'f selection_env \<Rightarrow> 'f Message list \<Rightarrow> string" where
  "lastUserMessage se messages =
     (case find (\<lambda>m. mm_Role m = ''user'') (rev messages) of
        None \<Rightarrow> [] | Some m \<Rightarrow> messageContentToString se (mm_Content m))"

definition shouldIncludeGitTools :: "string \<Rightarrow> bool" where
  "shouldIncludeGitTools selectionContext =
     (if trim_space selectionContext = [] then False
      else contains_any (to_lower selectionContext)
        [''git'', ''repo'', ''repository'', ''branch'', ''commit'', ''diff'', ''status'', ''log'', ''blame'', ''merge''])"

definition tool_named :: "('f, 'o) Tool list \<Rightarrow> string \<Rightarrow> ('f, 'o) Tool option" where
  "tool_named tools name = find (\<lambda>t. tl_Name t = name) (rev tools)"

fun ensureToolSelection :: "('f, 'o) Tool list \<Rightarrow> ('f, 'o) Tool list \<Rightarrow> string list \<Rightarrow> ('f, 'o) Tool list" where
  "ensureToolSelection selected tools [] = selected"
| "ensureToolSelection selected tools (name # names) =
     (if List.member (map tl_Name selected) name then ensureToolSelection selected tools names
      else case tool_named tools name of
             None \<Rightarrow> ensureToolSelection selected tools names
           | Some t \<Rightarrow> ensureToolSelection (selected @ [t]) tools names)"

text \<open>\<open>strings.Trim\<close> with the characters of a list item; the bullet has three bytes.\<close>

definition item_char :: "char \<Rightarrow> bool" where
  "item_char c = (c \<in> set ''-*`,[]'' \<or> c = CHR 34 \<or> c = CHR 39)"

fun trim_item_left :: "string \<Rightarrow> string" where
  "trim_item_left [] = []"
| "trim_item_left (c # s) =
     (if item_char c then trim_item_left s
      else if take 3 (c # s) = [CHR 0xE2, CHR 0x80, CHR 0xA2] then trim_item_left (drop 2 s)
      else c # s)"

fun trim_item_right :: "string \<Rightarrow> string" where
  "trim_item_right [] = []"
| "trim_item_right (c # s) =
     (if item_char c then trim_item_right s
      else if take 3 (c # s) = [CHR 0xA2, CHR 0x80, CHR 0xE2] then trim_item_right (drop 2 s)
      else c # s)"

definition trim_item :: "string \<Rightarrow> string" where
  "trim_item s = rev (trim_item_right (rev (trim_item_left s)))"

definition bracketed :: "string \<Rightarrow> string" where
  "bracketed s =
     (case (str_index s ''['', str_index (rev s) '']'') of
        (Some start, Some j) \<Rightarrow> (let last = length s - 1 - j in if start < last then take (last + 1 - start) (drop start s) else s)
      | _ \<Rightarrow> s)"

definition parseToolNames :: "'f selection_env \<Rightarrow> string \<Rightarrow> string list" where
  "parseToolNames se s =
     (let s1 = bracketed (trim_space s);
          (failed, names) = se_names se s1
      in if failed
         then names @ filter (\<lambda>l. l \<noteq> [] \<and> \<not> contains l '' '') (map (trim_item \<circ> trim_space) (split_on (CHR 10) s1))
         else names)"

definition first_sentence :: "string \<Rightarrow> string" where
  "first_sentence desc = (case str_index desc ''.'' of
     Some i \<Rightarrow> if 0 < i then take (i + 1) desc else desc
   | None \<Rightarrow> desc)"

definition tool_catalog :: "('f, 'o) Tool list \<Rightarrow> string" where
  "tool_catalog tools = ''Available tools:'' @ CHR 10 #
     concat (map (\<lambda>t. ''- '' @ tl_Name t @ '': '' @ first_sentence (tl_Description t) @ [CHR 10]) tools)"

definition selection_prompt :: "string \<Rightarrow> string \<Rightarrow> string" where
  "selection_prompt selectionContext catalog = join_with (CHR 10)
     [''Given this user request:'', selectionContext, [], ''And these available tools:'', catalog, [],
      ''Which tools (if any) would you need to complete this request?'',
      ''Return a JSON array of tool names, e.g., ['' @ [CHR 34] @ ''read_file'' @ [CHR 34] @ '', '' @ [CHR 34] @ ''write_file'' @ [CHR 34] @ '', ''
        @ [CHR 34] @ ''run_shell'' @ [CHR 34] @ '']'',
      ''If the request asks about the repo/codebase or to validate claims, include search_text and read_file.'',
      ''If the request needs git history/status/diff/blame or merge info, include git_status/git_log/git_diff/git_blame (and list_merge_conflicts if relevant).'',
      ''If no tools are needed, return [].'',
      ''Only include tools you will actually use.'']"

definition git_tools :: "string list" where
  "git_tools = [''git_status'', ''git_log'', ''git_diff'', ''git_blame'', ''list_merge_conflicts'']"

definition pick_tools :: "('f, 'o) Tool list \<Rightarrow> string list \<Rightarrow> ('f, 'o) Tool list" where
  "pick_tools tools names = List.map_filter (tool_named tools) names"

definition selection_context :: "'f selection_env \<Rightarrow> 'f Request \<Rightarrow> string" where
  "selection_context se req =
     (let s = trim_space (rq_SelectionPrompt req) in if s = [] then lastUserMessage se (rq_Messages req) else s)"

text \<open>The part after a miss: ask the model, keep its names, add the git tools.\<close>

definition choose_tools :: "('f, 'o) Runner \<Rightarrow> 'f selection_env \<Rightarrow> 'f Request \<Rightarrow> ('f, 'o) Tool list \<Rightarrow> toolSelectionCache \<Rightarrow> ('f, 'o) world \<Rightarrow>
  ((string + ('f, 'o) Tool list) \<times> toolSelectionCache \<times> ('f, 'o) world) option" where
  "choose_tools r se req tools c w =
     (let ctxt = selection_context se req;
          apiReq = \<lparr>cr_Model = requestModel r req, cr_Messages = [plain_message ''user'' (TextContent (selection_prompt ctxt (tool_catalog tools)))],
            cr_MaxTokens = 500, cr_MaxCompletionTokens = 0, cr_Stream = False, cr_Tools = [], cr_ToolChoice = ''none'', cr_SessionID = []\<rparr>
      in case ml_ChatCompletion (ru_Models r) apiReq w of
           (Inl err, w1) \<Rightarrow> Some (Inl (''tool selection: '' @ err), c, w1)
         | (Inr [], w1) \<Rightarrow> Some (Inl ''no response from model'', c, w1)
         | (Inr (reply # _), w1) \<Rightarrow>
             let names = parseToolNames se (case ExtractTextContent reply of None \<Rightarrow> [] | Some t \<Rightarrow> t)
             in map_option (\<lambda>c1.
                  let picked = pick_tools tools names;
                      selected = (if shouldIncludeGitTools ctxt then ensureToolSelection picked tools git_tools else picked)
                  in (Inr (if names \<noteq> [] \<and> selected = [] then tools else selected), c1, w1))
                (cache_set (se_pick se) (w_now w1) ctxt names c))"

text \<open>\<open>None\<close> would be a panic of the cache.\<close>

definition selectTools :: "('f, 'o) Runner \<Rightarrow> 'f selection_env \<Rightarrow> 'f Request \<Rightarrow> ('f, 'o) Tool list \<Rightarrow> toolSelectionCache \<Rightarrow> ('f, 'o) world \<Rightarrow>
  ((string + ('f, 'o) Tool list) \<times> toolSelectionCache \<times> ('f, 'o) world) option" where
  "selectTools r se req tools c w =
     Option.bind (cache_get (w_now w) (w_now w) (selection_context se req) c) (\<lambda>(hit, c1).
       case hit of
         None \<Rightarrow> choose_tools r se req tools c1 w
       | Some names \<Rightarrow>
           let selected = pick_tools tools names
           in if selected \<noteq> [] \<or> names = [] then Some (Inr selected, c1, w) else choose_tools r se req tools c1 w)"

section \<open>A run\<close>

text \<open>\<open>New\<close> fills in the defaults of the configuration. The model manager and the registry are pointers; the two flags say
  whether they are set.\<close>

definition New :: "bool \<Rightarrow> bool \<Rightarrow> ('f, 'o) Runner \<Rightarrow> int \<Rightarrow> go_duration \<Rightarrow> string + ('f, 'o) Runner \<times> toolSelectionCache" where
  "New hasModels hasRegistry cfg cacheSize cacheTTL =
     (if \<not> hasModels then Inl ''model manager required''
      else if \<not> hasRegistry then Inl ''tool registry required''
      else Inr (cfg\<lparr>ru_DefaultMaxIterations := (if ru_DefaultMaxIterations cfg \<le> 0 then 25 else ru_DefaultMaxIterations cfg),
          ru_MaxToolsPhase1 := (if ru_MaxToolsPhase1 cfg \<le> 0 then 15 else ru_MaxToolsPhase1 cfg),
          ru_ModelTimeout := (if ru_ModelTimeout cfg \<le> 0 then 2 * minute else ru_ModelTimeout cfg),
          ru_streamHandler := False\<rparr>,
      newToolSelectionCache cacheSize cacheTTL))"

definition SetStreamHandler :: "bool \<Rightarrow> ('f, 'o) Runner \<Rightarrow> ('f, 'o) Runner" where
  "SetStreamHandler handler r = r\<lparr>ru_streamHandler := handler\<rparr>"

definition has_deadline :: "go_context \<Rightarrow> ('f, 'o) world \<Rightarrow> bool" where
  "has_deadline ctx w = list_ex (\<lambda>i. i < length (w_points w) \<and>
     (case w_points w ! i of Some (_, DeadlineExceeded) \<Rightarrow> True | _ \<Rightarrow> False)) ctx"

text \<open>The context of the run, the world, and the cancellation that is deferred.\<close>

definition withModelTimeout :: "('f, 'o) Runner \<Rightarrow> go_context option \<Rightarrow> ('f, 'o) world \<Rightarrow>
  go_context \<times> ('f, 'o) world \<times> (('f, 'o) world \<Rightarrow> ('f, 'o) world)" where
  "withModelTimeout r ctx w =
     (let base = (case ctx of None \<Rightarrow> Background | Some g \<Rightarrow> g)
      in if \<not> has_deadline base w \<and> 0 < ru_ModelTimeout r
         then (let (c, w1) = WithTimeout base (ru_ModelTimeout r) w in (c, w1, cancel c))
         else (base, w, (\<lambda>w. w)))"

definition run_tools :: "('f, 'o) Runner \<Rightarrow> 'f selection_env \<Rightarrow> 'f Request \<Rightarrow> toolSelectionCache \<Rightarrow> ('f, 'o) world \<Rightarrow>
  (('f, 'o) Tool list \<times> toolSelectionCache \<times> ('f, 'o) world) option" where
  "run_tools r se req c w =
     (let available = availableTools (rn_registry (ru_calls r)) (rq_AllowedTools req)
      in if ru_MaxToolsPhase1 r < int (length available)
         then map_option (\<lambda>(sel, c1, w1). (case sel of Inl _ \<Rightarrow> available | Inr ts \<Rightarrow> ts, c1, w1)) (selectTools r se req available c w)
         else Some (available, c, w))"

definition Run :: "('f, 'o) Runner \<Rightarrow> 'f selection_env \<Rightarrow> go_context option \<Rightarrow> (toolCallMeta list \<Rightarrow> toolCallMeta list) \<Rightarrow> (nat \<Rightarrow> CallRecord list) \<Rightarrow>
  'f Request \<Rightarrow> toolSelectionCache \<Rightarrow> ('f, 'o) world \<Rightarrow>
  (loop_end \<times> stream_event list \<times> 'f ChatRequest list \<times> toolSelectionCache \<times> ('f, 'o) world) option" where
  "Run r se ctx order stale req c w =
     (let (ctx1, w1, done) = withModelTimeout r ctx w
      in Option.bind (run_tools r se req c w1) (\<lambda>(tools, c1, w2).
           map_option (\<lambda>(out, ev, reqs, w3). (out, ev, reqs, c1, done w3))
             (executeWithTools r ctx1 order stale req tools empty_result w2)))"

section \<open>A selection is among the tools on offer\<close>

lemma tool_named_in: "tool_named tools name = Some t \<Longrightarrow> t \<in> set tools"
  by (auto simp: tool_named_def find_Some_iff in_set_conv_nth rev_nth) (metis diff_Suc_less length_rev less_nat_zero_code neq0_conv nth_mem rev_nth set_rev)

lemma pick_tools_offered: "set (pick_tools tools names) \<subseteq> set tools"
  by (auto simp: pick_tools_def List.map_filter_def tool_named_in)

lemma ensure_offered: "set selected \<subseteq> set tools \<Longrightarrow> set (ensureToolSelection selected tools names) \<subseteq> set tools"
  by (induction selected tools names rule: ensureToolSelection.induct) (auto split: option.splits simp: tool_named_in)

lemma choose_offered: "choose_tools r se req tools c w = Some (Inr sel, c1, w1) \<Longrightarrow> set sel \<subseteq> set tools"
  using pick_tools_offered ensure_offered [OF pick_tools_offered]
  by (fastforce simp: choose_tools_def Let_def split: prod.splits sum.splits list.splits if_splits)

lemma select_offered: "selectTools r se req tools c w = Some (Inr sel, c1, w1) \<Longrightarrow> set sel \<subseteq> set tools"
  using pick_tools_offered [of tools] choose_offered
  by (auto simp: selectTools_def Let_def bind_eq_Some_conv split: option.splits if_splits) blast+

lemma run_tools_allowed:
  assumes "run_tools r se req c w = Some (tools, c1, w1)" "rq_AllowedTools req \<noteq> []"
  shows "tl_Name ` set tools \<subseteq> set (rq_AllowedTools req)"
proof -
  let ?a = "availableTools (rn_registry (ru_calls r)) (rq_AllowedTools req)"
  have "tl_Name ` set ?a \<subseteq> set (rq_AllowedTools req)" using assms(2) by (auto simp: availableTools_def)
  moreover have "set tools \<subseteq> set ?a"
  proof (cases "ru_MaxToolsPhase1 r < int (length ?a)")
    case True
    then obtain sel where sel: "selectTools r se req ?a c w = Some (sel, c1, w1)" "tools = (case sel of Inl _ \<Rightarrow> ?a | Inr ts \<Rightarrow> ts)"
      using assms(1) by (auto simp: run_tools_def Let_def)
    then show ?thesis using select_offered [of r se req ?a c w] by (cases sel) auto
  qed (use assms(1) in \<open>simp add: run_tools_def Let_def\<close>)
  ultimately show ?thesis by blast
qed

section \<open>A run acts through the allowed tools only\<close>

text \<open>A property of the world that tools with these names keep.\<close>

definition tools_keep :: "(('f, 'o) world \<Rightarrow> bool) \<Rightarrow> ('f, 'o) runner \<Rightarrow> string set \<Rightarrow> bool" where
  "tools_keep I rn names \<longleftrightarrow>
     (\<forall>name \<in> names. \<forall>ctx args w. I w \<longrightarrow> I (snd (ExecuteWithContext (rn_env rn) (rn_registry rn) ctx name args w)))"

lemma default_keeps:
  assumes "tools_keep I rn (set (rn_toolMap rn))" "I w"
  shows "I (snd (executeToolDefault rn ctx name args w))"
proof (cases "List.member (rn_toolMap rn) name")
  case True
  then have "I (snd (ExecuteWithContext (rn_env rn) (rn_registry rn) ctx name args w))" using assms by (auto simp: tools_keep_def)
  then show ?thesis using assms(2) by (auto simp: executeToolDefault_def split: prod.splits outcome.splits option.splits sum.splits)
qed (use assms in \<open>simp add: executeToolDefault_def\<close>)

lemma single_keeps:
  assumes "rn_ToolExecutor rn = None" "tools_keep I rn (set (rn_toolMap rn))" "I w" "executeSingleToolCall rn ctx call w = (out, ev, w')"
  shows "I w'"
proof -
  have "I (snd (executeToolDefault rn ctx name args w))" for name args using default_keeps [OF assms(2,3)] .
  moreover have "w' = w \<or> (\<exists>name args. w' = snd (executeToolDefault rn ctx name args w))"
    using assms(1,4) by (auto simp: executeSingleToolCall_def execute_tool_def Let_def split: sum.splits prod.splits exec_outcome.splits) (metis snd_conv)+
  ultimately show ?thesis using assms(3) by auto
qed

lemma sequential_keeps:
  assumes "rn_ToolExecutor rn = None" "tools_keep I rn (set (rn_toolMap rn))" "I w" "executeToolCallsSequential rn ctx calls w = (out, ev, w')"
  shows "I w'"
  using assms(3,4)
proof (induction calls arbitrary: w out ev)
  case (Cons call calls)
  obtain o1 ev1 w1 where s: "executeSingleToolCall rn ctx call w = (o1, ev1, w1)" by (metis prod_cases3)
  then have "I w1" using single_keeps [OF assms(1,2) Cons.prems(1)] by blast
  moreover obtain o2 ev2 w2 where "executeToolCallsSequential rn ctx calls w1 = (o2, ev2, w2)" by (metis prod_cases3)
  ultimately show ?case using Cons s by (cases o1; cases o2) auto
qed simp

lemma run_batch_keeps:
  assumes "rn_ToolExecutor rn = None" "tools_keep I rn (set (rn_toolMap rn))" "I w" "run_batch rn ctx calls k ms rcds w = Some (out, ev, w')"
  shows "I w'"
  using assms(3,4)
proof (induction ms arbitrary: k rcds w ev)
  case (Cons m ms)
  then obtain j where k: "k = Suc j" by (cases k) simp_all
  obtain o1 ev1 w1 where s: "executeSingleToolCall rn ctx (calls ! tm_index m) w = (o1, ev1, w1)" by (metis prod_cases3)
  then have "I w1" using single_keeps [OF assms(1,2) Cons.prems(1)] by blast
  then show ?case using Cons.prems(2) Cons.IH [of w1] s k by (cases o1) auto
qed simp

lemma run_batches_keeps:
  assumes "rn_ToolExecutor rn = None" "tools_keep I rn (set (rn_toolMap rn))" "I w"
    and "run_batches rn ctx calls order width bs rcds w = Some (out, ev, w')"
  shows "I w'"
  using assms(3,4)
proof (induction bs arbitrary: rcds w ev)
  case (Cons b bs)
  consider (none) "b = []" | (one) m where "b = [m]" | (many) x y zs where "b = x # y # zs" by (cases b rule: remdups_adj.cases) auto
  then show ?case
  proof cases
    case one
    obtain o1 ev1 w1 where s: "executeSingleToolCall rn ctx (calls ! tm_index m) w = (o1, ev1, w1)" by (metis prod_cases3)
    then have "I w1" using single_keeps [OF assms(1,2) Cons.prems(1)] by blast
    then show ?thesis using Cons.prems(2) Cons.IH [of w1] s one by (cases o1) auto
  next
    case many
    then obtain rcds1 ev1 w1 where b: "run_batch rn ctx calls width (order b) rcds w = Some (rcds1, ev1, w1)"
      using Cons.prems(2) by (auto simp: bind_eq_Some_conv)
    then have "I w1" using run_batch_keeps [OF assms(1,2) Cons.prems(1)] by blast
    then show ?thesis using Cons.prems(2) Cons.IH [of w1] b many by auto
  qed (use Cons in auto)
qed simp

lemma calls_keep:
  assumes "rn_ToolExecutor rn = None" "tools_keep I rn (set (rn_toolMap rn))" "I w"
    and "executeToolCalls rn ctx calls order stale w = Some (out, ev, w')"
  shows "I w'"
  using assms(4) sequential_keeps [OF assms(1-3)] run_batches_keeps [OF assms(1-3)]
  by (auto simp: executeToolCalls_def executeToolCallsParallel_def split: if_splits)

text \<open>What the model client does to the world keeps the property too.\<close>

definition models_keep :: "(('f, 'o) world \<Rightarrow> bool) \<Rightarrow> ('f, 'o) Runner \<Rightarrow> bool" where
  "models_keep I r \<longleftrightarrow> (\<forall>q w. I w \<longrightarrow> I (snd (ml_ChatCompletionStream (ru_Models r) q w)) \<and> I (snd (ml_ChatCompletion (ru_Models r) q w)))"

lemma tool_loop_keeps:
  assumes exec: "rn_ToolExecutor (ru_calls r) = None" and keep: "tools_keep I (ru_calls r) (set (lc_tools lc))" and model: "models_keep I r"
    and "I w" "tool_loop r ctx lc order stale n i messages d res w = Some (out, ev, reqs, w')"
  shows "I w' \<and> (\<forall>q \<in> set reqs. cr_Tools q = lc_tools lc)"
  using assms(4,5)
proof (induction n arbitrary: i messages d res w ev reqs)
  case (Suc n)
  let ?q = "api_request r (lc_model lc) (lc_session lc) (lc_window lc) (lc_tools lc) messages"
  let ?rn = "(ru_calls r)\<lparr>rn_toolMap := lc_tools lc\<rparr>"
  have q: "cr_Tools ?q = lc_tools lc" by (simp add: api_request_def Let_def)
  have rn: "rn_ToolExecutor ?rn = None" "tools_keep I ?rn (set (rn_toolMap ?rn))" using exec keep by (simp_all add: tools_keep_def)
  obtain events w1 where s: "ml_ChatCompletionStream (ru_Models r) ?q w = (events, w1)" by fastforce
  then have w1: "I w1" using model Suc.prems(1) unfolding models_keep_def by (metis snd_conv)
  show ?case
  proof (cases "ctx_Err ctx w")
    case (Some e)
    then show ?thesis using Suc.prems by (simp add: Let_def)
  next
    case None
    then obtain ev1 se where read: "read_stream (ru_streamHandler r) events new_stream = Some (ev1, se)"
      using Suc.prems(2) s by (auto simp: Let_def bind_eq_Some_conv)
    show ?thesis
    proof (cases se)
      case (StreamDone st)
      define msg :: "'a Message" where "msg = FinalizeWithTokenParsing (ss_acc st)"
      define calls where "calls = ensure_ids (mm_ToolCalls msg)"
      show ?thesis
      proof (cases "mm_ToolCalls msg = []")
        case True
        then show ?thesis using Suc.prems(2) None s read StreamDone q w1 by (auto simp: Let_def split_def msg_def)
      next
        case False
        then obtain o2 ev2 w2 where run: "executeToolCalls ?rn (Some ctx) calls order (stale (length calls)) w1 = Some (o2, ev2, w2)"
          using Suc.prems(2) None s read StreamDone
          by (cases "executeToolCalls ?rn (Some ctx) calls order (stale (length calls)) w1") (auto simp: Let_def msg_def calls_def)
        then have w2: "I w2" using calls_keep [OF rn w1] by blast
        show ?thesis
        proof (cases o2)
          case (Inl v)
          then show ?thesis using Suc.prems(2) None s read StreamDone q w2 False run
            by (auto simp: Let_def msg_def calls_def)
        next
          case (Inr rcds)
          then show ?thesis using Suc.prems(2) None s read StreamDone q False run Suc.IH [OF w2]
            by (fastforce simp: Let_def split_def msg_def calls_def)
        qed
      qed
    qed (use Suc.prems(2) None s read q w1 in \<open>auto simp: Let_def\<close>)
  qed
qed simp

lemma choose_keeps:
  assumes "models_keep I r" "I w" "choose_tools r se req tools c w = Some (sel, c1, w1)"
  shows "I w1"
proof -
  obtain q where "w1 = snd (ml_ChatCompletion (ru_Models r) q w)"
    using assms(3) by (auto simp: choose_tools_def Let_def split: prod.splits sum.splits list.splits) (metis snd_conv)+
  then show ?thesis using assms(1,2) by (simp add: models_keep_def)
qed

lemma select_keeps:
  assumes "models_keep I r" "I w" "selectTools r se req tools c w = Some (sel, c1, w1)"
  shows "I w1"
  using assms(2,3) choose_keeps [OF assms(1,2)] by (auto simp: selectTools_def Let_def bind_eq_Some_conv split: option.splits if_splits)

lemma run_tools_keeps:
  assumes "models_keep I r" "I w" "run_tools r se req c w = Some (tools, c1, w1)"
  shows "I w1"
  using assms(2,3) select_keeps [OF assms(1,2)] by (auto simp: run_tools_def Let_def split: if_splits)

text \<open>C8: With a list of allowed tools and the default executor, whatever the model answers, a run reaches the world only through the
  executions of allowed tools: what the model client and these executions keep, the run keeps; and it offers the model
  allowed tools only.\<close>

theorem run_acts_through_allowed_tools:
  assumes "rn_ToolExecutor (ru_calls r) = None" "rq_AllowedTools req \<noteq> []"
    and "tools_keep I (ru_calls r) (set (rq_AllowedTools req))" "models_keep I r" "\<forall>w ps. I (w\<lparr>w_points := ps\<rparr>) = I w"
    and "I w" "Run r se ctx order stale req c w = Some (out, ev, reqs, c', w')"
  shows "I w' \<and> (\<forall>q \<in> set reqs. set (cr_Tools q) \<subseteq> set (rq_AllowedTools req))"
proof -
  obtain ctx1 w1 fin where t: "withModelTimeout r ctx w = (ctx1, w1, fin)" by (metis prod_cases3)
  have fin: "I (fin v) = I v" for v
    using t assms(5) by (auto simp: withModelTimeout_def Let_def cancel_def split: if_splits prod.splits list.splits option.splits)
  have "w1 = w \<or> (\<exists>ps. w1 = w\<lparr>w_points := ps\<rparr>)"
    using t by (auto simp: withModelTimeout_def WithTimeout_def Let_def split: if_splits)
  then have w1: "I w1" using assms(5,6) by auto
  obtain tools c1 w2 w3 where sel: "run_tools r se req c w1 = Some (tools, c1, w2)"
    and loop: "executeWithTools r ctx1 order stale req tools empty_result w2 = Some (out, ev, reqs, w3)" "w' = fin w3"
    using assms(7) t by (auto simp: Run_def Let_def bind_eq_Some_conv)
  have w2: "I w2" using run_tools_keeps [OF assms(4) w1 sel] .
  have names: "tl_Name ` set tools \<subseteq> set (rq_AllowedTools req)" by (rule run_tools_allowed [OF sel assms(2)])
  then have "tools_keep I (ru_calls r) (set (map tl_Name tools))" using assms(3) by (auto simp: tools_keep_def)
  then have "I w3 \<and> (\<forall>q \<in> set reqs. cr_Tools q = map tl_Name tools)"
    using tool_loop_keeps [OF assms(1) _ assms(4) w2 loop(1) [unfolded executeWithTools_def Let_def]] by simp
  then show ?thesis using fin loop(2) names by auto
qed

section \<open>A cached selection lacks the git tools\<close>

lemma set_then_get:
  assumes "cache_ok S T c" "t2 - t1 \<le> T"
  shows "\<exists>c1 c2. cache_set pick t1 key names c = Some c1 \<and> cache_ok S T c1 \<and> cache_get t2 t2 key c1 = Some (Some names, c2)"
proof -
  note p = put_refines [OF assms(1), of pick t1 key names]
  have "fst (cache_step (Put pick t1 key names) c) = cache_result.Done" using p by simp
  then obtain c1 where c1: "cache_set pick t1 key names c = Some c1" by (cases "cache_set pick t1 key names c") simp_all
  then have ok: "cache_ok S T c1" and new: "content c1 = lru_set S t1 key names (content c)" using p by auto
  obtain e where "map_of (content c1) (hashKey key) = Some e" "ce_toolNames e = names" "ce_createdAt e = t1"
    unfolding new by (cases "map_of (content c) (hashKey key)") (simp_all add: lru_set_def)
  then have "fst (lru_step S T (cache_op.Get t2 t2 key) (content c1)) = cache_result.Found names"
    using assms(2) by (simp add: lru_get_def IsExpired_def)
  then have "fst (cache_step (cache_op.Get t2 t2 key) c1) = cache_result.Found names" using get_refines [OF ok, of t2 t2 key] by simp
  then have "\<exists>c2. cache_get t2 t2 key c1 = Some (Some names, c2)" by (auto split: option.splits)
  then show ?thesis using c1 ok by blast
qed

lemma ensure_has: "x \<in> set selected \<Longrightarrow> x \<in> set (ensureToolSelection selected tools names)"
  by (induction selected tools names rule: ensureToolSelection.induct) (auto split: option.split)

lemma tool_named_name: "tool_named tools name = Some t \<Longrightarrow> tl_Name t = name"
  by (auto simp: tool_named_def find_Some_iff)

lemma pick_names: "t \<in> set (pick_tools tools names) \<Longrightarrow> tl_Name t \<in> set names"
  by (auto simp: pick_tools_def List.map_filter_def dest: tool_named_name)

text \<open>A request about git gets the git tools added to the model's choice; the same request again, while the choice is in the
  cache, gets the choice without them.\<close>

theorem cached_selection_drops_git:
  assumes "cache_ok S T c" "cache_get (w_now w) (w_now w) (selection_context se req) c = Some (None, c0)"
    and "\<forall>q. ml_ChatCompletion (ru_Models r) q w = (Inr [TextContent answer], w1)" "w_now w2 - w_now w1 \<le> T"
    and "shouldIncludeGitTools (selection_context se req)" "tool_named tools ''git_status'' = Some g"
    and "''git_status'' \<notin> set (parseToolNames se answer)" "pick_tools tools (parseToolNames se answer) \<noteq> []"
  shows "\<exists>sel1 c1 sel2 c2. selectTools r se req tools c w = Some (Inr sel1, c1, w1) \<and> g \<in> set sel1 \<and>
    selectTools r se req tools c1 w2 = Some (Inr sel2, c2, w2) \<and> g \<notin> set sel2"
proof -
  let ?key = "selection_context se req" and ?names = "parseToolNames se answer"
  let ?picked = "pick_tools tools ?names"
  have "cache_ok S T c0" using get_refines [OF assms(1), of "w_now w" "w_now w" ?key] assms(2) by simp
  then obtain c1 c2 where c1: "cache_set (se_pick se) (w_now w1) ?key ?names c0 = Some c1"
    and c2: "cache_get (w_now w2) (w_now w2) ?key c1 = Some (Some ?names, c2)"
    using set_then_get assms(4) by blast
  have name: "tl_Name g = ''git_status''" using assms(6) by (rule tool_named_name)
  have out: "g \<notin> set ?picked" using pick_names assms(7) name by fastforce
  have none: "''git_status'' \<notin> set (map tl_Name ?picked)" using pick_names assms(7) by fastforce
  obtain rest where gt: "git_tools = ''git_status'' # rest" by (simp add: git_tools_def)
  have "ensureToolSelection ?picked tools (''git_status'' # rest) = ensureToolSelection (?picked @ [g]) tools rest"
    using none assms(6) by simp
  then have g: "g \<in> set (ensureToolSelection ?picked tools git_tools)" unfolding gt by (simp add: ensure_has)
  then have ne: "ensureToolSelection ?picked tools git_tools \<noteq> []" by auto
  have first: "selectTools r se req tools c w = Some (Inr (ensureToolSelection ?picked tools git_tools), c1, w1)"
    using assms(2,3,5) c1 ne by (simp add: selectTools_def choose_tools_def Let_def)
  have again: "selectTools r se req tools c1 w2 = Some (Inr ?picked, c2, w2)"
    using c2 assms(8) by (simp add: selectTools_def Let_def)
  show ?thesis using first again g out by blast
qed

section \<open>Concrete runs\<close>

definition plain_tool :: "string \<Rightarrow> (int, string \<Rightarrow> string) Tool" where
  "plain_tool name = \<lparr>tl_Name = name, tl_Description = ''A tool. It runs.'', tl_Metadata = None, tl_ContextTool = False,
     tl_run = (\<lambda>_ _ _ fs. (Returned None None, 0, fs(''/w/a'' := ''new'')))\<rparr>"

definition reading_tool :: "(int, string \<Rightarrow> string) Tool" where
  "reading_tool = \<lparr>tl_Name = ''read_file'', tl_Description = ''Reads a file.'', tl_Metadata = None, tl_ContextTool = False,
     tl_run = (\<lambda>_ _ _ fs. (Returned None None, 1, fs))\<rparr>"

text \<open>A registry with a tool that reads and one that writes, and a model that calls both, the writing one first.\<close>

definition two_tools :: "(int, string \<Rightarrow> string) Registry" where
  "two_tools = Register reading_tool (Register (plain_tool ''run_shell'') NewEmptyRegistry)"

definition shell_runner :: "(int, string \<Rightarrow> string) Runner" where
  "shell_runner = demo_runner\<lparr>ru_calls := file_runner\<lparr>rn_ToolExecutor := None, rn_registry := two_tools\<rparr>,
     ru_Models := (ru_Models demo_runner)\<lparr>
       ml_ChatCompletionStream := (\<lambda>_ w. ([GotChunk (demo_chunk [] [demo_delta 0 ''run_shell'' ''ls'', demo_delta 1 ''read_file'' ''/w/a'']), ChunksClosed], w)),
       ml_ChatCompletion := (\<lambda>_ w. (Inr [TextContent ''read_file''], w))\<rparr>\<rparr>"

lemma two_tools_simps:
  "rg_middlewares two_tools = []" "rg_hooks two_tools = Some \<lparr>hk_preHooks = [], hk_postHooks = []\<rparr>" "\<not> rg_telemetryHub two_tools"
  "\<not> shouldGateChanges two_tools" "\<not> rg_containerExecute two_tools" "Get ''read_file'' two_tools = Some reading_tool"
  "availableTools two_tools [''read_file''] = [reading_tool]"
  by (simp_all add: two_tools_def Register_def NewEmptyRegistry_def shouldGateChanges_def Get_def availableTools_def snapshotTools_def
      reading_tool_def plain_tool_def)

lemma reading_runs: "w_outside (snd (executeTool env two_tools reading_tool c w)) = w_outside w"
  by (simp add: executeTool_def two_tools_simps reading_tool_def Let_def split: option.split)

lemma call_id_outside: "w_outside (snd (toolCallIDFromParams env ps w)) = w_outside w"
  by (simp add: toolCallIDFromParams_def ulid_make_def Let_def)

lemma reading_keeps: "w_outside (snd (ExecuteWithContext env two_tools ctx ''read_file'' args w)) = w_outside w"
proof -
  obtain i w1 where i: "toolCallIDFromParams env args w = (i, w1)" by fastforce
  have w1: "w_outside w1 = w_outside w" using call_id_outside [of env args w] i by simp
  have base: "w_outside v' = w_outside v"
    if "baseExecutor env two_tools (Some c) v = (out, ctx', v')" "ec_Tool c = Some reading_tool" for c v out ctx' v'
    using that reading_runs [of env] call_id_outside [of env]
    by (auto simp: baseExecutor_def fill_context_def Let_def split: prod.splits if_splits) (metis snd_conv)+
  obtain out ctx' w2 where b: "baseExecutor env two_tools (Some (start_context two_tools ctx ''read_file'' reading_tool args i (w_now w1))) w1 = (out, ctx', w2)"
    by (metis prod_cases3)
  have "w_outside w2 = w_outside w" using base [OF b] w1 by (simp add: start_context_def)
  then show ?thesis
    using i b
    by (auto simp: ExecuteWithContext_def two_tools_simps rebuildExecutorLocked_def Chain_def PanicRecovery_def telemetryMiddleware_def
        approvalMiddleware_def Hooks_def PreHooks_def PostHooks_def hooks_at_def Let_def split: prod.splits outcome.splits option.splits)
qed

definition demo_se :: "int selection_env" where
  "demo_se = \<lparr>se_names = (\<lambda>s. (False, [s])), se_sprint = (\<lambda>_. []), se_pick = None\<rparr>"

theorem run_acts_through_allowed_tools_witness:
  "\<exists>out ev reqs c' w'. Run shell_runner demo_se None rev (\<lambda>k. replicate k (call_record (demo_call [] [] []) [] [] False 0))
      (demo_req\<lparr>rq_AllowedTools := [''read_file'']\<rparr>) (newToolSelectionCache 0 0) file_world = Some (out, ev, reqs, c', w') \<and>
    w_outside w' = (\<lambda>_. []) \<and> (\<forall>q \<in> set reqs. set (cr_Tools q) \<subseteq> {''read_file''})"
proof -
  let ?stale = "\<lambda>k. replicate k (call_record (demo_call [] [] []) [] [] False 0)"
  let ?req = "demo_req\<lparr>rq_AllowedTools := [''read_file'']\<rparr>" and ?I = "\<lambda>w :: (int, string \<Rightarrow> string) world. w_outside w = (\<lambda>_. [])"
  obtain ctx1 w1 fin where t: "withModelTimeout shell_runner None file_world = (ctx1, w1, fin)" by (metis prod_cases3)
  have "loop_good (max_iterations shell_runner ?req) (rq_Messages ?req) (executeWithTools shell_runner ctx1 rev ?stale ?req [reading_tool] empty_result w1)"
    unfolding executeWithTools_def Let_def
    by (rule tool_loop_good) (simp_all add: shell_runner_def demo_runner_def)
  then obtain out ev reqs w3 where "executeWithTools shell_runner ctx1 rev ?stale ?req [reading_tool] empty_result w1 = Some (out, ev, reqs, w3)"
    by (auto simp: loop_good_def)
  moreover have "run_tools shell_runner demo_se ?req (newToolSelectionCache 0 0) w1 = Some ([reading_tool], newToolSelectionCache 0 0, w1)"
    by (simp add: run_tools_def shell_runner_def demo_runner_def two_tools_simps)
  ultimately have run: "Run shell_runner demo_se None rev ?stale ?req (newToolSelectionCache 0 0) file_world =
      Some (out, ev, reqs, newToolSelectionCache 0 0, fin w3)"
    using t by (simp add: Run_def)
  have "?I (fin w3) \<and> (\<forall>q \<in> set reqs. set (cr_Tools q) \<subseteq> set (rq_AllowedTools ?req))"
    by (rule run_acts_through_allowed_tools [OF _ _ _ _ _ _ run])
      (simp_all add: shell_runner_def demo_runner_def tools_keep_def models_keep_def reading_keeps)
  then show ?thesis using run by auto
qed

theorem cached_selection_drops_git_witness:
  "\<exists>sel1 c1 sel2 c2. selectTools shell_runner demo_se (demo_req\<lparr>rq_SelectionPrompt := ''git''\<rparr>)
      [plain_tool ''read_file'', plain_tool ''git_status''] (newToolSelectionCache 0 0) file_world = Some (Inr sel1, c1, file_world) \<and>
      plain_tool ''git_status'' \<in> set sel1 \<and>
    selectTools shell_runner demo_se (demo_req\<lparr>rq_SelectionPrompt := ''git''\<rparr>)
      [plain_tool ''read_file'', plain_tool ''git_status''] c1 file_world = Some (Inr sel2, c2, file_world) \<and>
      plain_tool ''git_status'' \<notin> set sel2"
proof (rule cached_selection_drops_git)
  show "cache_ok 100 (5 * minute) (newToolSelectionCache 0 0)" using new_cache_ok(1) [of 0 0] by simp
  show "cache_get (w_now file_world) (w_now file_world) (selection_context demo_se (demo_req\<lparr>rq_SelectionPrompt := ''git''\<rparr>))
      (newToolSelectionCache 0 0) = Some (None, get_miss (newToolSelectionCache 0 0))"
    by (simp add: cache_get_def get_lookup_def newToolSelectionCache_def)
  show "\<forall>q. ml_ChatCompletion (ru_Models shell_runner) q file_world = (Inr [TextContent ''read_file''], file_world)"
    by (simp add: shell_runner_def)
  show "shouldIncludeGitTools (selection_context demo_se (demo_req\<lparr>rq_SelectionPrompt := ''git''\<rparr>))"
    by (simp add: selection_context_def demo_req_def) code_simp
  show "tool_named [plain_tool ''read_file'', plain_tool ''git_status''] ''git_status'' = Some (plain_tool ''git_status'')"
    by (simp add: tool_named_def plain_tool_def)
  have p: "parseToolNames demo_se ''read_file'' = [''read_file'']" unfolding demo_se_def by code_simp
  show "''git_status'' \<notin> set (parseToolNames demo_se ''read_file'')" by (simp add: p)
  show "pick_tools [plain_tool ''read_file'', plain_tool ''git_status''] (parseToolNames demo_se ''read_file'') \<noteq> []"
    by (simp add: p pick_tools_def tool_named_def plain_tool_def map_filter_simps)
qed simp

end
