(* ===== verification/Spec2Isabelle.thy ===== *)
theory Spec2Isabelle
  imports Approval File_Locks Conflict_Detector Circuit_Breakers Scrollback LRU_Cache Think_Parser Task_Scope
    Ralph_Executor Retry Tool_Stack Tool_Output Tool_Validation Tool_Governance Tool_Selection
begin

text \<open>
  A verification of the core of Buckley, a coding agent for the terminal written in Go.

  \<^bold>\<open>The program and its parts.\<close>  A run of the agent asks a language model, reads its streamed reply, runs the tools the
  reply calls and asks again with their results.  Around this loop the program has: a registry that runs tools through
  layers of middleware and an approval gate; permission modes and pools that say which operations and tools an agent may use; locks and
  scopes for agents that work in parallel; circuit breakers and retries around remote services; the Ralph loop, which works through
  a task with several backends under a schedule; and the terminal interface, whose history is the scrollback buffer.  The development
  models these parts from the sources under src/pkg, one theory per part or group of files.

  \<^bold>\<open>The tool runner\<close> (src/pkg/toolrunner, src/pkg/model, src/pkg/conversation).
  \<^item> \<open>Tool_Selection\<close>: selection.go and runner.go. \<open>Run\<close> applies the timeout, takes the allowed tools, lets the model choose when
    there are many (\<open>selectTools\<close>, with the cache) and starts the loop.  Shown: a run acts on the world only through executions of allowed
    tools and offers only these; a cached choice lacks the git tools that the first one had.
  \<^item> \<open>LRU_Cache\<close>, over \<open>Fnv_Hash\<close> and \<open>Refinement\<close>: cache.go and cache_pool.go on an explicit heap of nodes.  Shown: it refines an
    abstract list in order of use, for every sequence of calls and whatever the node pool hands out; what goes wrong on a hash
    collision and on an eviction between the two critical sections of \<open>get\<close>.
  \<^item> \<open>Tool_Loop\<close>: \<open>executeWithTools\<close> of execution.go.  Shown: with the default executor, when the streams end the loop returns within the configured number of
    requests, and every request keeps tool calls and tool results together; the reply the loop accepts is put together from the
    first chunks that the provider sent, from all of them when the channel of chunks ends it, and otherwise replies and errors can get
    lost.  The providers are \<open>anthropic_acts\<close> and \<open>client_acts\<close>, the latter over \<open>parseSSEStream\<close> of client.go.
  \<^item> \<open>Efficient_Context\<close>: efficient_context.go, the shortened view of a conversation that a request carries.  Shown: calls and results stay
    together, instructions and the latest messages stay as they are; repeated call identifiers prevent the summary.
  \<^item> \<open>Stream_Accumulator\<close>, over \<open>Go_Regexp\<close>: stream_accumulator.go.  Shown: the message put together from the deltas is the one that
    was cut into them, whatever the chunks, if no index is negative.
  \<^item> \<open>Think_Parser\<close>: think_parser.go and dedupe.go.  Shown: the streaming parser calls back what a parser of the whole text would,
    for every cut of the text into chunks.
  \<^item> \<open>Tool_Calls\<close>, over \<open>Commuting_Steps\<close>: parallel.go and the execution of calls in execution.go.  Shown: batches keep the order of
    conflicting calls; with one place in the semaphore parallel execution equals sequential execution when calls that do not conflict
    commute; all calls are answered; a batch of panicking calls blocks.
  \<^item> \<open>Chat_Types\<close>: the messages, usage and requests of src/pkg/model/types.go.

  \<^bold>\<open>Tools\<close> (src/pkg/tool, src/pkg/touch, src/pkg/mission, src/pkg/types).
  \<^item> \<open>Tool_Values\<close>, \<open>Tool_Pipeline\<close>: values, execution contexts, the chain of middleware, hooks, retry, timeout, limits, validation,
    sandbox, notifications (middleware_*.go, hooks.go).
  \<^item> \<open>Tool_Registry\<close>, \<open>Tool_Gate\<close>: registry*.go, middleware_approval.go, middleware_telemetry.go and the pending changes of the mission
    store.  Shown: no call panics; the wait for a decision ends; a gated tool runs only when the row that the call added to the store
    describes what it is going to do and the reviewer approved this row in time; where the gate is left open.
  \<^item> \<open>Tool_Stack\<close>: what the default stack of defaults.go does to a failing tool.
  \<^item> \<open>Tool_Validation\<close>: \<open>ValidatePath\<close> accepts exactly the paths inside the base, with \<open>filepath.Clean\<close>, \<open>Join\<close> and \<open>Rel\<close> written out.
  \<^item> \<open>Tool_Output\<close>: tool.go; the output for the model is within its limit and the shrinking ends.
  \<^item> \<open>Tool_Governance\<close>: governed.go, metadata.go, filter.go, discovery.go, execution.go; which tools an agent gets to see.
  \<^item> \<open>Touch\<close>: extract.go; the preview of a printed patch has its lines, counts and ranges.

  \<^bold>\<open>Permissions, locks, scopes.\<close>
  \<^item> \<open>Approval\<close> (src/pkg/approval/modes.go): what each mode lets through; writes stay inside the workspace; denied paths win; a more
    permissive mode lets through what a stricter one does.
  \<^item> \<open>Exclusive_Locks\<close> is the contract of an exclusive lock service, a locale, with what follows for its clients; \<open>File_Locks\<close>
    (src/pkg/parallel/locks.go) and \<open>Conflict_Detector\<close> (src/pkg/rlm/conflict.go) are interpretations of it.  Shown of the file locks besides: held locks are stable, several paths are taken
    together or not at all, and two calls can take the same two paths in opposite orders.
  \<^item> \<open>Task_Scope\<close>, over \<open>Go_Glob\<close> (src/pkg/parallel/scope.go): tasks of one wave do not conflict, every task is in one wave, and with
    recursive patterns the tasks of a wave share no file.

  \<^bold>\<open>Reliability\<close> (src/pkg/coordination/reliability, src/pkg/model/circuit_breaker.go): \<open>Circuit_Breakers\<close> has both breakers as
  interpretations of one locale, the first with the failures whose report to \<open>OnFailure\<close> is under way, between its two critical sections; \<open>Retry\<close> the retry strategy.

  \<^bold>\<open>Ralph\<close> (src/pkg/ralph): \<open>Ralph_Control\<close> (control.go), \<open>Ralph_Schedule\<close> (schedule.go; parsing and printing of cron expressions),
  \<open>Ralph_Session\<close> (state.go, session.go), \<open>Ralph_Orchestrator\<close> (orchestrator.go, backend*.go; which backends may run, failover, parking),
  \<open>Ralph_Loop\<close> (the orchestrator as a transition system) and \<open>Ralph_Executor\<close> (executor.go, the loop over all of them).

  \<^bold>\<open>Terminal interface\<close> (src/pkg/ui/scrollback/buffer.go): \<open>Text_Wrap\<close>, the wrapping of lines, and \<open>Scrollback\<close>, the buffer with
  viewport, selection and search, its invariant, and the operations that panic.

  \<^bold>\<open>Shared theories.\<close>  \<open>Go_Prelude\<close>: strings, paths, the collection \<open>go_simps\<close>, and the locale \<open>transition_system\<close>, invariants over
  reachable states, which the state machines interpret.  \<open>Go_Numbers\<close>: numbers.  \<open>Refinement\<close>: functional refinement as a locale.

  \<^bold>\<open>How the code is modelled.\<close>
  \<^item> Structs are records, with a prefix per type in the field names; enumerations are datatypes or, when the code uses
    strings, strings; a Go map is an association list or a function, and where the order of \<open>range\<close> matters the order is an argument.
  \<^item> Strings are sequences of bytes; case and space are those of ASCII.  Counters that may overflow are words; lengths and other
    integers are unbounded.  Times and durations are integers in nanoseconds, the zero time is 0.
  \<^item> Errors are values of sum and option types, a panic is a value of its own.  What may wait for ever is a
    \<open>partial_function\<close> in the option monad or has the inputs of its turns as a list; then \<open>None\<close>, \<open>Stuck\<close> or \<open>OutOfTurns\<close> is the wait without
    end, and the theorems say when it does not occur: a limit on iterations bounds the turns of the Ralph loop, a timeout the wait
    for a decision, the configured iterations the tool loop, given that the streams end.
  \<^item> A method under a mutex is one step.  Where the code leaves its lock in between, as \<open>get\<close> of the cache does, the critical sections
    are separate steps.  Goroutines are interleavings of such steps: the calls of a batch run as whole calls in an order that is an
    argument, which is exact for a semaphore of one place and leaves out what overlapping calls see of each other half done, and the two channels of a stream are a step relation between provider and consumer.  A context is a list of points at which
    it is cancelled, kept in the world.
  \<^item> Tools act on a world: a clock, the store of pending changes, a trace of effects and an outside that only tools change.
  \<^item> Arguments of the definitions, since their code is not in the repository or is not functional: floating point numbers and the calendar,
    random delays, the JSON, TOON and YAML codecs, SHA-256, difflib, the file system, the database, the container runtime,
    the rule engine, the reviewer, the backends, and the model service.

  \<^bold>\<open>Not modelled.\<close>  The command line, the ipc, acp and mcp servers, headless sessions, the browser and the front ends: protocol handlers,
  wiring and drawing, whose behaviour is in libraries and in other processes.  The model providers beyond the channels of two of them: HTTP
  clients.  Storage, memory, cost and the mission tables beyond pending changes: SQL.  The planner, the one-shot commands, skills
  and prompts: texts for a model.  What the built-in and external tools do.  The merging of branches and worktrees: git commands.
  The message bus and discovery: NATS and gRPC.  Of the modelled packages, the methods that only read a field or start another method in
  a goroutine.
\<close>

end
